(* ===== verification/GoPrelude.thy ===== *)
theory GoPrelude
  imports Main "HOL-Library.Multiset" "HOL-Library.Word"
begin

text \<open>
  What the components share: Go's integers, instants and durations, byte strings, and a few
  lemmas on lists that more than one component needs.

  Conventions. A Go \<open>string\<close> is a list of bytes (\<^typ>\<open>string\<close>). An instant
  (\<open>time.Time\<close>) and a duration (\<open>time.Duration\<close>) are counted in nanoseconds as \<^typ>\<open>int\<close>;
  every operation that reads the clock takes the instant it reads as an argument. A UUID is
  the 16-byte value \<^typ>\<open>128 word\<close>. Where an \<open>int\<close> or \<open>int64\<close> of the source can
  overflow on some input the model uses \<^typ>\<open>64 word\<close>; elsewhere (indices, counters that
  only count events) it is \<^typ>\<open>int\<close> or \<^typ>\<open>nat\<close>.
\<close>

named_theorems cache_laws \<open>what the operations of the caches do to a lookup\<close>
named_theorems inv_intros \<open>one preservation fact per operation, for the invariants\<close>

section \<open>Integers and time\<close>

type_synonym int64 = "64 word"
type_synonym uuid = "128 word"
type_synonym instant = int
type_synonym duration = int

definition uuid_Nil :: uuid where
  "uuid_Nil = 0"

definition second :: duration where "second = 1000000000"
definition minute :: duration where "minute = 60 * second"
definition hour :: duration where "hour = 60 * minute"

lemmas dur_defs = second_def minute_def hour_def

definition max_duration :: duration where "max_duration = 2 ^ 63 - 1"

text \<open>\<open>t.Sub(u)\<close> and \<open>time.Since\<close> saturate at the bounds of an \<open>int64\<close>.\<close>

definition time_sub :: "instant \<Rightarrow> instant \<Rightarrow> duration" where
  "time_sub t u = max (- (2 ^ 63)) (min max_duration (t - u))"

lemma time_sub_mono: "t \<le> t' \<Longrightarrow> time_sub t u \<le> time_sub t' u"
  by (simp add: time_sub_def min_def max_def)

lemma time_sub_ge: "0 \<le> d \<Longrightarrow> d \<le> max_duration \<Longrightarrow> d \<le> time_sub t u \<longleftrightarrow> d \<le> t - u"
  by (auto simp: time_sub_def max_duration_def)

text \<open>\<open>t.Unix()\<close>, in seconds.\<close>

definition unix :: "instant \<Rightarrow> int" where
  "unix t = t div second"

text \<open>Go's integer division truncates towards zero.\<close>

definition go_div :: "int \<Rightarrow> int \<Rightarrow> int" where
  "go_div a b = sgn a * sgn b * (\<bar>a\<bar> div \<bar>b\<bar>)"

lemma go_div_nonneg: "0 \<le> a \<Longrightarrow> 0 < b \<Longrightarrow> go_div a b = a div b"
  by (cases "a = 0") (auto simp: go_div_def)

section \<open>Strings\<close>

definition has_prefix :: "string \<Rightarrow> string \<Rightarrow> bool" where
  "has_prefix s p \<longleftrightarrow> take (length p) s = p"

lemma has_prefix_iff: "has_prefix s p \<longleftrightarrow> (\<exists>r. s = p @ r)"
  by (metis append_eq_conv_conj append_take_drop_id has_prefix_def)

definition trim_prefix :: "string \<Rightarrow> string \<Rightarrow> string" where
  "trim_prefix s p = (if has_prefix s p then drop (length p) s else s)"

section \<open>Lists as Go slices\<close>

text \<open>\<open>xs[i], xs[j] = xs[j], xs[i]\<close>.\<close>

definition swap_at :: "'a list \<Rightarrow> nat \<Rightarrow> nat \<Rightarrow> 'a list" where
  "swap_at xs i j = xs[i := xs ! j, j := xs ! i]"

lemma length_swap_at [simp]: "length (swap_at xs i j) = length xs"
  by (simp add: swap_at_def)

lemma nth_swap_at:
  "i < length xs \<Longrightarrow> j < length xs \<Longrightarrow> k < length xs \<Longrightarrow>
   swap_at xs i j ! k = (if k = j then xs ! i else if k = i then xs ! j else xs ! k)"
  by (simp add: swap_at_def nth_list_update)

lemma mset_swap_at [simp]:
  "i < length xs \<Longrightarrow> j < length xs \<Longrightarrow> mset (swap_at xs i j) = mset xs"
  by (simp add: swap_at_def mset_swap)

lemma map_swap_at: "i < length xs \<Longrightarrow> j < length xs \<Longrightarrow> map f (swap_at xs i j) = swap_at (map f xs) i j"
  by (simp add: swap_at_def map_update)

lemma find_SomeD: "find P xs = Some x \<Longrightarrow> x \<in> set xs \<and> P x"
  by (induction xs) (auto split: if_splits)

lemma mset_butlast_last:
  "xs \<noteq> [] \<Longrightarrow> mset (butlast xs) = mset xs - {# last xs #}"
  by (cases xs rule: rev_cases) auto

end
