(* ===== verification/GoHeap.thy ===== *)
theory GoHeap
  imports GoPrelude
begin

text \<open>
  Go's \<^verbatim>\<open>container/heap\<close>, the algorithm the priority queue of the cache warmer runs on.
  \<^verbatim>\<open>heap.Interface\<close> is the pair of operations \<open>lt\<close> and \<open>swap\<close> on a container; \<open>up\<close>
  and \<open>down\<close> are the two loops of the package, \<open>heap_Init\<close> its entry point. The locale
  \<open>heap_interface\<close> states what the package asks of a container, and holds the correctness of the
  loops for any container that keeps it.
\<close>

section \<open>The loops of container/heap\<close>

function up :: "('h \<Rightarrow> nat \<Rightarrow> nat \<Rightarrow> bool) \<Rightarrow> ('h \<Rightarrow> nat \<Rightarrow> nat \<Rightarrow> 'h) \<Rightarrow> 'h \<Rightarrow> nat \<Rightarrow> 'h" where
  "up lt swap h j =
     (let i = (j - 1) div 2
      in if i = j \<or> \<not> lt h j i then h else up lt swap (swap h i j) i)"
  by pat_completeness auto
termination
  by (relation "measure (\<lambda>(lt, swap, h, j). j)") auto

function down :: "('h \<Rightarrow> nat \<Rightarrow> nat \<Rightarrow> bool) \<Rightarrow> ('h \<Rightarrow> nat \<Rightarrow> nat \<Rightarrow> 'h) \<Rightarrow> 'h \<Rightarrow> nat \<Rightarrow> nat \<Rightarrow> 'h" where
  "down lt swap h i n =
     (let j1 = 2 * i + 1
      in if j1 \<ge> n then h
         else let j = (if j1 + 1 < n \<and> lt h (j1 + 1) j1 then j1 + 1 else j1)
              in if \<not> lt h j i then h else down lt swap (swap h i j) j n)"
  by pat_completeness auto
termination
  by (relation "measure (\<lambda>(lt, swap, h, i, n). n - i)") (auto split: if_splits)

declare up.simps [simp del] down.simps [simp del]

text \<open>\<open>for i := n/2 - 1; i >= 0; i--\<close>: the argument counts the iterations left.\<close>

fun init_loop :: "('h \<Rightarrow> nat \<Rightarrow> nat \<Rightarrow> bool) \<Rightarrow> ('h \<Rightarrow> nat \<Rightarrow> nat \<Rightarrow> 'h) \<Rightarrow> 'h \<Rightarrow> nat \<Rightarrow> nat \<Rightarrow> 'h" where
  "init_loop lt swap h 0 n = h"
| "init_loop lt swap h (Suc i) n = init_loop lt swap (down lt swap h i n) i n"

definition heap_Init :: "('h \<Rightarrow> nat \<Rightarrow> nat \<Rightarrow> bool) \<Rightarrow> ('h \<Rightarrow> nat \<Rightarrow> nat \<Rightarrow> 'h) \<Rightarrow> 'h \<Rightarrow> nat \<Rightarrow> 'h" where
  "heap_Init lt swap h n = init_loop lt swap h (n div 2) n"

section \<open>Heap order\<close>

text \<open>
  \<open>heap_below K n\<close>: the first \<open>n\<close> keys are in heap order, a parent never smaller than its
  children. \<open>heap_but_up K n j\<close> allows one defect at \<open>j\<close> against its parent, and
  \<open>heap_but_down K lo n i\<close> one defect at \<open>i\<close> against its children, among the nodes whose parent
  is at or after \<open>lo\<close>.
\<close>

definition parent :: "nat \<Rightarrow> nat" where
  "parent k = (k - 1) div 2"

definition heap_from :: "(nat \<Rightarrow> int) \<Rightarrow> nat \<Rightarrow> nat \<Rightarrow> bool" where
  "heap_from K lo n \<longleftrightarrow> (\<forall>k. 0 < k \<longrightarrow> k < n \<longrightarrow> lo \<le> parent k \<longrightarrow> K k \<le> K (parent k))"

definition heap_but_up :: "(nat \<Rightarrow> int) \<Rightarrow> nat \<Rightarrow> nat \<Rightarrow> bool" where
  "heap_but_up K n j \<longleftrightarrow>
     (\<forall>k. 0 < k \<longrightarrow> k < n \<longrightarrow> k \<noteq> j \<longrightarrow> K k \<le> K (parent k)) \<and>
     (\<forall>k. 0 < k \<longrightarrow> k < n \<longrightarrow> 0 < j \<longrightarrow> parent k = j \<longrightarrow> K k \<le> K (parent j))"

definition heap_but_down :: "(nat \<Rightarrow> int) \<Rightarrow> nat \<Rightarrow> nat \<Rightarrow> nat \<Rightarrow> bool" where
  "heap_but_down K lo n i \<longleftrightarrow>
     (\<forall>k. 0 < k \<longrightarrow> k < n \<longrightarrow> lo \<le> parent k \<longrightarrow> parent k \<noteq> i \<longrightarrow> K k \<le> K (parent k)) \<and>
     (\<forall>k. 0 < k \<longrightarrow> k < n \<longrightarrow> 0 < i \<longrightarrow> lo \<le> parent i \<longrightarrow> parent k = i \<longrightarrow> K k \<le> K (parent i))"

definition swapf :: "(nat \<Rightarrow> int) \<Rightarrow> nat \<Rightarrow> nat \<Rightarrow> nat \<Rightarrow> int" where
  "swapf K i j = K(i := K j, j := K i)"

lemma parent_less: "0 < k \<Longrightarrow> parent k < k"
  by (auto simp: parent_def)

lemma parent_le: "parent k \<le> k"
  by (auto simp: parent_def)

lemma parent_bound: "k < n \<Longrightarrow> parent k < n"
  using parent_le [of k] by simp

lemma parent_child: "parent k = i \<Longrightarrow> 0 < k \<Longrightarrow> k = 2 * i + 1 \<or> k = 2 * i + 2"
  by (auto simp: parent_def)

lemma heap_root_max:
  assumes "heap_from K 0 n" and "k < n"
  shows "K k \<le> K 0"
  using assms(2)
proof (induction k rule: less_induct)
  case (less k)
  show ?case
  proof (cases "k = 0")
    case False
    then have "K (parent k) \<le> K 0" using less parent_less [of k] by simp
    moreover have "K k \<le> K (parent k)" using assms(1) less.prems False by (simp add: heap_from_def)
    ultimately show ?thesis by simp
  qed simp
qed

lemma heap_but_up_step:
  assumes "heap_but_up K n j" and "0 < j" and "j < n" and "K (parent j) < K j"
  shows "heap_but_up (swapf K (parent j) j) n (parent j)"
proof -
  have p: "parent j < j" using assms(2) by (rule parent_less)
  have A: "K k \<le> K (parent k)" if "0 < k" "k < n" "k \<noteq> j" for k
    using assms(1) that by (simp add: heap_but_up_def)
  have B: "K k \<le> K (parent j)" if "0 < k" "k < n" "parent k = j" for k
    using assms(1,2) that by (simp add: heap_but_up_def)
  have 1: "swapf K (parent j) j k \<le> swapf K (parent j) j (parent k)"
    if k: "0 < k" "k < n" "k \<noteq> parent j" for k
  proof -
    consider "k = j" | "k \<noteq> j" "parent k = j" | "k \<noteq> j" "parent k = parent j"
      | "k \<noteq> j" "parent k \<noteq> j" "parent k \<noteq> parent j" by blast
    then show ?thesis
      using A[OF k(1,2)] B[OF k(1,2)] assms(4) p k(3)
      by cases (auto simp: swapf_def)
  qed
  have 2: "swapf K (parent j) j k \<le> swapf K (parent j) j (parent (parent j))"
    if k: "0 < k" "k < n" "0 < parent j" "parent k = parent j" for k
  proof -
    have q: "parent (parent j) < parent j" using k(3) by (rule parent_less)
    have r: "K (parent j) \<le> K (parent (parent j))" using A[of "parent j"] k(3) p assms(3) by simp
    have s: "k \<noteq> parent j" using k parent_less[of k] by auto
    show ?thesis
      using r A[OF k(1,2)] k(4) q p s by (cases "k = j") (auto simp: swapf_def)
  qed
  show ?thesis using 1 2 unfolding heap_but_up_def by blast
qed

lemma heap_but_up_done:
  assumes "heap_but_up K n j" and "0 < j \<Longrightarrow> K j \<le> K (parent j)"
  shows "heap_from K 0 n"
  using assms unfolding heap_but_up_def heap_from_def by (metis)

lemma heap_but_down_step:
  assumes h: "heap_but_down K lo n i" and j: "parent j = i" "0 < j" "j < n" and lo: "lo \<le> i"
    and best: "\<And>k. 0 < k \<Longrightarrow> k < n \<Longrightarrow> parent k = i \<Longrightarrow> K k \<le> K j" and gt: "K i < K j"
  shows "heap_but_down (swapf K i j) lo n j"
proof -
  have p: "i < j" using j parent_less by blast
  have A: "K k \<le> K (parent k)" if "0 < k" "k < n" "lo \<le> parent k" "parent k \<noteq> i" for k
    using h that by (simp add: heap_but_down_def)
  have B: "K k \<le> K (parent i)" if "0 < k" "k < n" "0 < i" "lo \<le> parent i" "parent k = i" for k
    using h that by (simp add: heap_but_down_def)
  have 1: "swapf K i j k \<le> swapf K i j (parent k)"
    if k: "0 < k" "k < n" "lo \<le> parent k" "parent k \<noteq> j" for k
  proof -
    consider "k = i" | "k = j" | "k \<noteq> i" "k \<noteq> j" "parent k = i"
      | "k \<noteq> i" "k \<noteq> j" "parent k \<noteq> i" by blast
    then show ?thesis
    proof cases
      case 1
      then have "K j \<le> K (parent i)" using B[OF j(2,3)] j(1) k by simp
      moreover have "parent i < i" using 1 k parent_less by blast
      ultimately show ?thesis using 1 p by (auto simp: swapf_def)
    next
      case 2 then show ?thesis using j(1) gt p by (auto simp: swapf_def)
    next
      case 3 then show ?thesis using best[OF k(1,2)] p by (auto simp: swapf_def)
    next
      case 4 then show ?thesis using A[OF k(1-3)] k(4) by (auto simp: swapf_def)
    qed
  qed
  have 2: "swapf K i j k \<le> swapf K i j (parent j)"
    if k: "0 < k" "k < n" "parent k = j" for k
  proof -
    have "j < k" using k parent_less by blast
    moreover have "K k \<le> K j" using A[OF k(1,2)] k(3) p lo j(1) by simp
    ultimately show ?thesis using j(1) p by (auto simp: swapf_def)
  qed
  show ?thesis using 1 2 unfolding heap_but_down_def by blast
qed

lemma heap_but_down_done:
  assumes "heap_but_down K lo n i" and "\<And>k. 0 < k \<Longrightarrow> k < n \<Longrightarrow> parent k = i \<Longrightarrow> K k \<le> K i"
  shows "heap_from K lo n"
  using assms unfolding heap_but_down_def heap_from_def by metis

section \<open>What heap.Interface promises, and the correctness of the loops\<close>

locale heap_interface =
  fixes view :: "'h \<Rightarrow> 'a list"
    and key :: "'a \<Rightarrow> int"
    and lt :: "'h \<Rightarrow> nat \<Rightarrow> nat \<Rightarrow> bool"
    and swap :: "'h \<Rightarrow> nat \<Rightarrow> nat \<Rightarrow> 'h"
    and wf :: "'h \<Rightarrow> bool"
  assumes less_key: "i < length (view h) \<Longrightarrow> j < length (view h) \<Longrightarrow>
      lt h i j \<longleftrightarrow> key (view h ! j) < key (view h ! i)"
    and view_swap: "i < length (view h) \<Longrightarrow> j < length (view h) \<Longrightarrow>
      view (swap h i j) = swap_at (view h) i j"
    and wf_swap: "wf h \<Longrightarrow> i < length (view h) \<Longrightarrow> j < length (view h) \<Longrightarrow> wf (swap h i j)"
begin

definition K :: "'h \<Rightarrow> nat \<Rightarrow> int" where
  "K h k = key (view h ! k)"

lemma K_swap:
  "i < length (view h) \<Longrightarrow> j < length (view h) \<Longrightarrow> k < length (view h) \<Longrightarrow>
   K (swap h i j) k = swapf (K h) i j k"
  by (simp add: K_def view_swap nth_swap_at swapf_def)

lemma heap_from_cong:
  "(\<And>k. k < n \<Longrightarrow> F k = G k) \<Longrightarrow> heap_from F lo n = heap_from G lo n"
  unfolding heap_from_def by (intro all_cong imp_cong refl) (auto simp: parent_bound)

lemma heap_but_up_cong:
  "(\<And>k. k < n \<Longrightarrow> F k = G k) \<Longrightarrow> j < n \<Longrightarrow> heap_but_up F n j = heap_but_up G n j"
  unfolding heap_but_up_def by (intro arg_cong2 [where f = conj] all_cong imp_cong refl) (auto simp: parent_bound)

lemma heap_but_down_cong:
  "(\<And>k. k < n \<Longrightarrow> F k = G k) \<Longrightarrow> i < n \<Longrightarrow> heap_but_down F lo n i = heap_but_down G lo n i"
  unfolding heap_but_down_def by (intro arg_cong2 [where f = conj] all_cong imp_cong refl) (auto simp: parent_bound)

lemma up_eq:
  "up lt swap h j = (if parent j = j \<or> \<not> lt h j (parent j) then h
     else up lt swap (swap h (parent j) j) (parent j))"
  by (simp add: up.simps [of lt swap h j] parent_def Let_def)

lemma parent_fix: "parent j = j \<longleftrightarrow> j = 0"
  using parent_less [of j] by (auto simp: parent_def)

lemma up_frame:
  "wf h \<Longrightarrow> j < length (view h) \<Longrightarrow>
   wf (up lt swap h j) \<and> length (view (up lt swap h j)) = length (view h) \<and>
   mset (view (up lt swap h j)) = mset (view h)"
proof (induction j arbitrary: h rule: less_induct)
  case (less j)
  show ?case
  proof (cases "parent j = j \<or> \<not> lt h j (parent j)")
    case True then show ?thesis using less.prems by (simp add: up_eq [of h j])
  next
    case False
    then have p: "parent j < j" using parent_fix parent_less by blast
    have s: "wf (swap h (parent j) j)" "view (swap h (parent j) j) = swap_at (view h) (parent j) j"
      using less.prems p by (auto intro: wf_swap view_swap)
    show ?thesis using False s less.IH [OF p, of "swap h (parent j) j"] less.prems p
      by (simp add: up_eq [of h j])
  qed
qed

lemma up_heap:
  "j < length (view h) \<Longrightarrow> n \<le> length (view h) \<Longrightarrow> j < n \<Longrightarrow> heap_but_up (K h) n j \<Longrightarrow>
   heap_from (K (up lt swap h j)) 0 n"
proof (induction j arbitrary: h rule: less_induct)
  case (less j)
  show ?case
  proof (cases "parent j = j \<or> \<not> lt h j (parent j)")
    case True
    then have "0 < j \<Longrightarrow> K h j \<le> K h (parent j)"
      using less.prems less_key [of j h "parent j"] parent_less [of j] parent_fix [of j] by (auto simp: K_def)
    then show ?thesis using True less.prems heap_but_up_done by (simp add: up_eq [of h j])
  next
    case False
    then have p: "parent j < j" "0 < j" using parent_fix parent_less by auto
    have len: "length (view (swap h (parent j) j)) = length (view h)"
      using less.prems p by (simp add: view_swap)
    have "K h (parent j) < K h j" using False less.prems p less_key [of j h "parent j"] by (simp add: K_def)
    then have "heap_but_up (swapf (K h) (parent j) j) n (parent j)"
      using less.prems p by (intro heap_but_up_step)
    then have "heap_but_up (K (swap h (parent j) j)) n (parent j)"
      using less.prems p K_swap [of "parent j" h j] by (subst heap_but_up_cong [where G = "swapf (K h) (parent j) j"]) auto
    then show ?thesis using False less.IH [OF p(1), of "swap h (parent j) j"] less.prems p len
      by (simp add: up_eq [of h j])
  qed
qed

lemma down_eq:
  "down lt swap h i n =
     (if n \<le> 2 * i + 1 then h
      else let j = (if 2 * i + 2 < n \<and> lt h (2 * i + 2) (2 * i + 1) then 2 * i + 2 else 2 * i + 1)
           in if \<not> lt h j i then h else down lt swap (swap h i j) j n)"
  by (simp add: down.simps [of lt swap h i n] Let_def)

lemma down_frame:
  "wf h \<Longrightarrow> i < n \<Longrightarrow> n \<le> length (view h) \<Longrightarrow>
   wf (down lt swap h i n) \<and> length (view (down lt swap h i n)) = length (view h) \<and>
   mset (view (down lt swap h i n)) = mset (view h) \<and>
   (\<forall>k. n \<le> k \<longrightarrow> k < length (view h) \<longrightarrow> view (down lt swap h i n) ! k = view h ! k)"
proof (induction "n - i" arbitrary: h i rule: less_induct)
  case less
  let ?j = "if 2 * i + 2 < n \<and> lt h (2 * i + 2) (2 * i + 1) then 2 * i + 2 else 2 * i + 1"
  show ?case
  proof (cases "n \<le> 2 * i + 1 \<or> \<not> lt h ?j i")
    case True then show ?thesis using less.prems by (auto simp: down_eq [of h i n] Let_def)
  next
    case False
    then have j: "i < ?j" "?j < n" by auto
    have s: "wf (swap h i ?j)" "view (swap h i ?j) = swap_at (view h) i ?j"
      using less.prems j by (auto intro!: wf_swap view_swap)
    have d: "down lt swap h i n = down lt swap (swap h i ?j) ?j n"
      using False by (simp add: down_eq [of h i n] Let_def)
    show ?thesis unfolding d
      using s less.hyps [of ?j "swap h i ?j"] less.prems j by (simp add: nth_swap_at)
  qed
qed

lemma down_heap:
  "i < n \<Longrightarrow> n \<le> length (view h) \<Longrightarrow> lo \<le> i \<Longrightarrow> heap_but_down (K h) lo n i \<Longrightarrow>
   heap_from (K (down lt swap h i n)) lo n"
proof (induction "n - i" arbitrary: h i rule: less_induct)
  case less
  let ?j = "if 2 * i + 2 < n \<and> lt h (2 * i + 2) (2 * i + 1) then 2 * i + 2 else 2 * i + 1"
  have best: "K h k \<le> K h ?j" if "0 < k" "k < n" "parent k = i" for k
    using parent_child [OF that(3,1)] that(2) less.prems less_key [of "2*i+2" h "2*i+1"] by (auto simp: K_def)
  show ?case
  proof (cases "n \<le> 2 * i + 1 \<or> \<not> lt h ?j i")
    case True
    have "K h k \<le> K h i" if "0 < k" "k < n" "parent k = i" for k
    proof -
      have "2 * i + 1 < n" using that parent_child [OF that(3,1)] by auto
      then have "K h ?j \<le> K h i" using True less.prems less_key [of ?j h i] by (auto simp: K_def)
      then show ?thesis using best [OF that] by simp
    qed
    then have "heap_from (K h) lo n" using less.prems(4) by (rule heap_but_down_done [rotated])
    then show ?thesis using True by (auto simp: down_eq [of h i n] Let_def)
  next
    case False
    then have j: "i < ?j" "?j < n" "parent ?j = i" by (auto simp: parent_def)
    have len: "length (view (swap h i ?j)) = length (view h)" using less.prems j by (simp add: view_swap)
    have gt: "K h i < K h ?j" using False less.prems j less_key [of ?j h i] by (simp add: K_def)
    have "heap_but_down (swapf (K h) i ?j) lo n ?j"
      using less.prems(3,4) j gt best by (intro heap_but_down_step) auto
    then have "heap_but_down (K (swap h i ?j)) lo n ?j"
      using less.prems j K_swap [of i h ?j] by (subst heap_but_down_cong [where G = "swapf (K h) i ?j"]) auto
    moreover have d: "down lt swap h i n = down lt swap (swap h i ?j) ?j n"
      using False by (simp add: down_eq [of h i n] Let_def)
    ultimately show ?thesis using less.hyps [of ?j "swap h i ?j"] less.prems j len by simp
  qed
qed

lemma init_frame:
  "wf h \<Longrightarrow> i \<le> n div 2 \<Longrightarrow> n \<le> length (view h) \<Longrightarrow>
   wf (init_loop lt swap h i n) \<and> length (view (init_loop lt swap h i n)) = length (view h) \<and>
   mset (view (init_loop lt swap h i n)) = mset (view h)"
proof (induction i arbitrary: h)
  case (Suc i)
  then have "i < n" by simp
  then show ?case using Suc down_frame [of h i n] by simp
qed simp

lemma init_heap:
  "i \<le> n div 2 \<Longrightarrow> n \<le> length (view h) \<Longrightarrow> wf h \<Longrightarrow> heap_from (K h) i n \<Longrightarrow>
   heap_from (K (init_loop lt swap h i n)) 0 n"
proof (induction i arbitrary: h)
  case (Suc i)
  then have i: "i < n" by simp
  have "heap_but_down (K h) i n i"
    using Suc.prems(4) parent_less unfolding heap_from_def heap_but_down_def
    by (metis Suc_leI le_neq_implies_less not_less_iff_gr_or_eq not_less)
  then have "heap_from (K (down lt swap h i n)) i n" using i Suc.prems by (intro down_heap) auto
  then show ?case using Suc.IH [of "down lt swap h i n"] Suc.prems i down_frame [of h i n] by simp
qed simp

lemma heap_Init_correct:
  "wf h \<Longrightarrow> n \<le> length (view h) \<Longrightarrow>
   heap_from (K (heap_Init lt swap h n)) 0 n \<and> mset (view (heap_Init lt swap h n)) = mset (view h)"
  unfolding heap_Init_def
  by (intro conjI init_heap) (auto simp: init_frame heap_from_def parent_def)

end

end
