(* ===== verification/PriorityQueue.thy ===== *)
theory PriorityQueue
  imports GoHeap
begin

text \<open>
  The warm-up priority queue (\<^verbatim>\<open>backend/internal/cache/priority_queue.go\<close>): the job type of
  \<^verbatim>\<open>warmer.go\<close>, the \<open>heap.Interface\<close> methods of \<open>PriorityQueueHeap\<close> and the operations of
  \<open>PriorityQueue\<close>, each of which runs under the queue's mutex and is one atomic step. The locale
  \<open>job_queue_spec\<close> is what the scheduler and the warmer rely on.
\<close>

section \<open>Data\<close>

record 'v warmup_job =
  wj_Key :: string
  wj_Data :: 'v
  wj_TTL :: duration
  wj_Priority :: int

record 'v job_queue =
  jq_Job :: "'v warmup_job"
  jq_Priority :: int
  jq_Index :: int

type_synonym 'v pq_heap = "'v job_queue list"

record 'v priority_queue =
  pq_items :: "'v pq_heap"

section \<open>PriorityQueueHeap: the methods container/heap calls\<close>

definition pqh_Len :: "'v pq_heap \<Rightarrow> nat" where
  "pqh_Len pq = length pq"

definition pqh_Less :: "'v pq_heap \<Rightarrow> nat \<Rightarrow> nat \<Rightarrow> bool" where
  "pqh_Less pq i j \<longleftrightarrow> jq_Priority (pq ! i) > jq_Priority (pq ! j)"

definition pqh_Swap :: "'v pq_heap \<Rightarrow> nat \<Rightarrow> nat \<Rightarrow> 'v pq_heap" where
  "pqh_Swap pq i j =
     (let pq1 = swap_at pq i j;
          pq2 = pq1[i := (pq1 ! i)\<lparr>jq_Index := int i\<rparr>]
      in pq2[j := (pq2 ! j)\<lparr>jq_Index := int j\<rparr>])"

definition pqh_Push :: "'v pq_heap \<Rightarrow> 'v job_queue \<Rightarrow> 'v pq_heap" where
  "pqh_Push pq item = pq @ [item\<lparr>jq_Index := int (length pq)\<rparr>]"

text \<open>\<open>old[n-1]\<close> panics on an empty slice; \<^const>\<open>None\<close> is that panic.\<close>

definition pqh_Pop :: "'v pq_heap \<Rightarrow> ('v job_queue \<times> 'v pq_heap) option" where
  "pqh_Pop pq = (if pq = [] then None else Some ((last pq)\<lparr>jq_Index := -1\<rparr>, butlast pq))"

definition heap_Push :: "'v pq_heap \<Rightarrow> 'v job_queue \<Rightarrow> 'v pq_heap" where
  "heap_Push h x = (let h' = pqh_Push h x in up pqh_Less pqh_Swap h' (pqh_Len h' - 1))"

definition heap_Pop :: "'v pq_heap \<Rightarrow> ('v job_queue \<times> 'v pq_heap) option" where
  "heap_Pop h = (let n = pqh_Len h - 1
                 in pqh_Pop (down pqh_Less pqh_Swap (pqh_Swap h 0 n) 0 n))"

section \<open>PriorityQueue\<close>

definition NewPriorityQueue :: "'v priority_queue" where
  "NewPriorityQueue = \<lparr>pq_items = heap_Init pqh_Less pqh_Swap [] 0\<rparr>"

definition pq_Push :: "'v priority_queue \<Rightarrow> 'v warmup_job \<Rightarrow> 'v priority_queue" where
  "pq_Push pq job =
     pq\<lparr>pq_items := heap_Push (pq_items pq)
          \<lparr>jq_Job = job, jq_Priority = wj_Priority job, jq_Index = 0\<rparr>\<rparr>"

text \<open>\<open>(WarmupJob{}, false)\<close> is \<^const>\<open>None\<close>.\<close>

definition pq_Pop :: "'v priority_queue \<Rightarrow> 'v warmup_job option \<times> 'v priority_queue" where
  "pq_Pop pq =
     (if length (pq_items pq) = 0 then (None, pq)
      else case heap_Pop (pq_items pq) of
             None \<Rightarrow> (None, pq)
           | Some (item, h) \<Rightarrow> (Some (jq_Job item), pq\<lparr>pq_items := h\<rparr>))"

definition pq_Peek :: "'v priority_queue \<Rightarrow> 'v warmup_job option" where
  "pq_Peek pq = (if length (pq_items pq) = 0 then None else Some (jq_Job (pq_items pq ! 0)))"

definition pq_Len :: "'v priority_queue \<Rightarrow> nat" where
  "pq_Len pq = length (pq_items pq)"

definition pq_Empty :: "'v priority_queue \<Rightarrow> bool" where
  "pq_Empty pq \<longleftrightarrow> pq_Len pq = 0"

definition pq_Clear :: "'v priority_queue \<Rightarrow> 'v priority_queue" where
  "pq_Clear pq = pq\<lparr>pq_items := heap_Init pqh_Less pqh_Swap [] 0\<rparr>"

definition pq_GetJobs :: "'v priority_queue \<Rightarrow> 'v warmup_job list" where
  "pq_GetJobs pq = map jq_Job (pq_items pq)"

section \<open>The invariant\<close>

text \<open>
  Heap order on the priorities, every item's \<open>Index\<close> is its position, and every item's \<open>Priority\<close>
  is its job's.
\<close>

definition pq_inv :: "'v priority_queue \<Rightarrow> bool" where
  "pq_inv q \<longleftrightarrow>
     heap_from (\<lambda>k. jq_Priority (pq_items q ! k)) 0 (length (pq_items q)) \<and>
     (\<forall>k < length (pq_items q). jq_Index (pq_items q ! k) = int k) \<and>
     (\<forall>it \<in> set (pq_items q). jq_Priority it = wj_Priority (jq_Job it))"

definition pq_bag :: "'v priority_queue \<Rightarrow> 'v warmup_job multiset" where
  "pq_bag q = mset (pq_GetJobs q)"

definition jq_view :: "'v pq_heap \<Rightarrow> ('v warmup_job \<times> int) list" where
  "jq_view h = map (\<lambda>it. (jq_Job it, jq_Priority it)) h"

definition idx_ok :: "'v pq_heap \<Rightarrow> bool" where
  "idx_ok h \<longleftrightarrow> (\<forall>k < length h. jq_Index (h ! k) = int k)"

lemma length_jq_view [simp]: "length (jq_view h) = length h"
  by (simp add: jq_view_def)

lemma pqh_Swap_nth:
  "i < length h \<Longrightarrow> j < length h \<Longrightarrow> k < length h \<Longrightarrow>
   pqh_Swap h i j ! k =
     (if k = j then (h ! i)\<lparr>jq_Index := int j\<rparr>
      else if k = i then (h ! j)\<lparr>jq_Index := int i\<rparr> else h ! k)"
  by (auto simp: pqh_Swap_def Let_def nth_list_update nth_swap_at)

lemma length_pqh_Swap [simp]: "length (pqh_Swap h i j) = length h"
  by (simp add: pqh_Swap_def Let_def)

interpretation pqh: heap_interface jq_view snd pqh_Less pqh_Swap idx_ok
proof unfold_locales
  show "pqh_Less h i j \<longleftrightarrow> snd (jq_view h ! j) < snd (jq_view h ! i)"
    if "i < length (jq_view h)" "j < length (jq_view h)" for h :: "'a pq_heap" and i j
    using that by (simp add: pqh_Less_def jq_view_def)
  show "jq_view (pqh_Swap h i j) = swap_at (jq_view h) i j"
    if "i < length (jq_view h)" "j < length (jq_view h)" for h :: "'a pq_heap" and i j
    using that by (intro nth_equalityI) (auto simp: jq_view_def pqh_Swap_nth nth_swap_at)
  show "idx_ok (pqh_Swap h i j)"
    if "idx_ok h" "i < length (jq_view h)" "j < length (jq_view h)" for h :: "'a pq_heap" and i j
    using that by (auto simp: idx_ok_def pqh_Swap_nth)
qed

lemma K_conv: "k < length h \<Longrightarrow> pqh.K h k = jq_Priority (h ! k)"
  by (simp add: pqh.K_def jq_view_def)

lemma pq_inv_view:
  "pq_inv q \<longleftrightarrow> heap_from (pqh.K (pq_items q)) 0 (length (pq_items q)) \<and> idx_ok (pq_items q) \<and>
     (\<forall>e \<in> set (jq_view (pq_items q)). snd e = wj_Priority (fst e))"
proof -
  have "heap_from (\<lambda>k. jq_Priority (pq_items q ! k)) 0 (length (pq_items q)) =
      heap_from (pqh.K (pq_items q)) 0 (length (pq_items q))"
    by (rule pqh.heap_from_cong) (simp add: K_conv)
  then show ?thesis by (simp add: pq_inv_def idx_ok_def jq_view_def)
qed

lemma pq_bag_view: "pq_bag q = image_mset fst (mset (jq_view (pq_items q)))"
  by (simp add: pq_bag_def pq_GetJobs_def jq_view_def image_mset.compositionality comp_def)

lemma set_view_cong: "mset (jq_view h) = mset (jq_view h') \<Longrightarrow> set (jq_view h) = set (jq_view h')"
  by (metis set_mset_mset)

lemma pq_Len_bag: "pq_Len q = size (pq_bag q)"
  by (simp add: pq_Len_def pq_bag_def pq_GetJobs_def)

lemma pq_Empty_bag: "pq_Empty q \<longleftrightarrow> pq_bag q = {#}"
  by (simp add: pq_Empty_def pq_Len_bag)

section \<open>The operations keep the invariant and change the bag as they should\<close>

lemma pq_New_inv [inv_intros]: "pq_inv NewPriorityQueue"
  by (simp add: NewPriorityQueue_def heap_Init_def pq_inv_def heap_from_def)

lemma pq_New_bag: "pq_bag NewPriorityQueue = {#}"
  by (simp add: NewPriorityQueue_def heap_Init_def pq_bag_def pq_GetJobs_def)

lemma pq_Clear_inv [inv_intros]: "pq_inv (pq_Clear q)"
  by (simp add: pq_Clear_def heap_Init_def pq_inv_def heap_from_def)

lemma pq_Clear_bag: "pq_bag (pq_Clear q) = {#}"
  by (simp add: pq_Clear_def heap_Init_def pq_bag_def pq_GetJobs_def)

lemma heap_append:
  assumes "heap_from K 0 n" and "\<And>k. k < n \<Longrightarrow> K' k = K k"
  shows "heap_but_up K' (Suc n) n"
  using assms parent_less parent_bound unfolding heap_but_up_def heap_from_def
  by (metis le0 less_SucE less_irrefl not_less_eq parent_le order.strict_trans1)

lemma pq_Push_correct:
  assumes "pq_inv q"
  shows "pq_inv (pq_Push q job) \<and> pq_bag (pq_Push q job) = add_mset job (pq_bag q)"
proof -
  let ?it = "\<lparr>jq_Job = job, jq_Priority = wj_Priority job, jq_Index = int (length (pq_items q))\<rparr>"
  let ?h = "pq_items q @ [?it]" and ?n = "length (pq_items q)"
  have items: "pq_items (pq_Push q job) = up pqh_Less pqh_Swap ?h ?n"
    by (simp add: pq_Push_def heap_Push_def pqh_Push_def pqh_Len_def Let_def)
  have idx: "idx_ok ?h" using assms by (auto simp: pq_inv_view idx_ok_def nth_append less_Suc_eq)
  note frame = pqh.up_frame [OF idx, of ?n, simplified]
  have "heap_but_up (pqh.K ?h) (Suc ?n) ?n"
    using assms by (intro heap_append [where K = "pqh.K (pq_items q)"]) (auto simp: pq_inv_view K_conv nth_append)
  then have heap: "heap_from (pqh.K (pq_items (pq_Push q job))) 0 (Suc ?n)"
    unfolding items by (intro pqh.up_heap) auto
  have view: "jq_view ?h = jq_view (pq_items q) @ [(job, wj_Priority job)]"
    by (simp add: jq_view_def)
  have sets: "set (jq_view (pq_items (pq_Push q job))) = set (jq_view ?h)"
    unfolding items using frame by (intro set_view_cong) simp
  have "pq_inv (pq_Push q job)"
    using heap frame assms unfolding pq_inv_view sets view by (auto simp: items)
  moreover have "pq_bag (pq_Push q job) = add_mset job (pq_bag q)"
    using frame by (simp add: pq_bag_view items view)
  ultimately show ?thesis by simp
qed

lemma heap_down_start:
  assumes "heap_from K 0 (Suc n)" and "\<And>k. 0 < k \<Longrightarrow> k < n \<Longrightarrow> K' k = K k"
  shows "heap_but_down K' 0 n 0"
  unfolding heap_but_down_def
proof (intro conjI allI impI)
  fix k assume k: "0 < k" "k < n" "0 \<le> parent k" "parent k \<noteq> 0"
  then have "K k \<le> K (parent k)" using assms(1) by (simp add: heap_from_def)
  then show "K' k \<le> K' (parent k)" using k assms(2) [of k] assms(2) [of "parent k"] parent_bound by simp
qed simp

text \<open>
  \<open>heap.Pop\<close>: the root is swapped to the end, the rest is sifted down, and the end is cut off.
\<close>

lemma heap_Pop_sift:
  assumes len: "length h = Suc n" and heap: "heap_from (pqh.K h) 0 (Suc n)" and idx: "idx_ok h"
  defines "d \<equiv> down pqh_Less pqh_Swap (pqh_Swap h 0 n) 0 n"
  shows "heap_from (pqh.K d) 0 n" and "idx_ok d" and "length d = Suc n"
    and "mset (jq_view d) = mset (jq_view h)" and "jq_view d ! n = jq_view h ! 0"
proof -
  let ?s = "pqh_Swap h 0 n"
  have vs: "jq_view ?s = swap_at (jq_view h) 0 n" using len by (intro pqh.view_swap) auto
  have ids: "idx_ok ?s" using idx len by (intro pqh.wf_swap) auto
  have frame: "idx_ok d \<and> length d = Suc n \<and> mset (jq_view d) = mset (jq_view ?s) \<and>
      jq_view d ! n = jq_view ?s ! n"
  proof (cases n)
    case 0 then show ?thesis using ids len by (simp add: d_def pqh.down_eq)
  next
    case (Suc m) then show ?thesis using pqh.down_frame [OF ids, of 0 n] len by (simp add: d_def)
  qed
  show "heap_from (pqh.K d) 0 n"
  proof (cases "n = 0")
    case False
    then show ?thesis unfolding d_def
      by (intro pqh.down_heap heap_down_start [OF heap])
        (use len in \<open>auto simp: K_conv pqh_Swap_nth\<close>)
  qed (simp add: heap_from_def)
  show "idx_ok d" "length d = Suc n" "mset (jq_view d) = mset (jq_view h)"
      "jq_view d ! n = jq_view h ! 0"
    using frame vs len by (auto simp: nth_swap_at)
qed

lemma jq_view_butlast: "h \<noteq> [] \<Longrightarrow> jq_view h = jq_view (butlast h) @ [(jq_Job (last h), jq_Priority (last h))]"
  by (cases h rule: rev_cases) (auto simp: jq_view_def)

lemma pq_Pop_shape:
  assumes inv: "pq_inv q" and len: "length (pq_items q) = Suc n"
  obtains d where "pq_Pop q = (Some (jq_Job (pq_items q ! 0)), q\<lparr>pq_items := d\<rparr>)"
    and "heap_from (pqh.K d) 0 (length d)" and "idx_ok d"
    and "mset (jq_view (pq_items q)) =
      add_mset (jq_Job (pq_items q ! 0), jq_Priority (pq_items q ! 0)) (mset (jq_view d))"
proof -
  let ?h = "pq_items q"
  let ?d = "down pqh_Less pqh_Swap (pqh_Swap ?h 0 n) 0 n"
  have "heap_from (pqh.K ?h) 0 (Suc n)" "idx_ok ?h" using inv len by (simp_all add: pq_inv_view)
  note sift = heap_Pop_sift [OF len this]
  have ne: "?d \<noteq> []" using sift(3) by auto
  have last: "(jq_Job (last ?d), jq_Priority (last ?d)) = (jq_Job (?h ! 0), jq_Priority (?h ! 0))"
    using sift(3,5) ne len by (simp add: last_conv_nth jq_view_def)
  have 1: "pq_Pop q = (Some (jq_Job (?h ! 0)), q\<lparr>pq_items := butlast ?d\<rparr>)"
    using len ne last by (simp add: pq_Pop_def heap_Pop_def pqh_Pop_def pqh_Len_def Let_def)
  have 2: "heap_from (pqh.K (butlast ?d)) 0 (length (butlast ?d))"
    using sift(1,3)
    by (subst pqh.heap_from_cong [where G = "pqh.K ?d"]) (simp_all add: K_conv nth_butlast)
  have 3: "idx_ok (butlast ?d)" using sift(2) by (simp add: idx_ok_def nth_butlast)
  have 4: "mset (jq_view ?h) = add_mset (jq_Job (?h ! 0), jq_Priority (?h ! 0)) (mset (jq_view (butlast ?d)))"
    using sift(4) jq_view_butlast [OF ne] last by simp
  show ?thesis using that [OF 1 2 3 4] .
qed

lemma pq_root_max:
  assumes "pq_inv q" and "x \<in># pq_bag q"
  shows "wj_Priority x \<le> wj_Priority (jq_Job (pq_items q ! 0))"
proof -
  obtain k where k: "k < length (pq_items q)" "x = jq_Job (pq_items q ! k)"
    using assms(2) by (auto simp: pq_bag_def pq_GetJobs_def in_set_conv_nth)
  have "jq_Priority (pq_items q ! k) \<le> jq_Priority (pq_items q ! 0)"
    using assms(1) heap_root_max [OF _ k(1), of "\<lambda>k. jq_Priority (pq_items q ! k)"]
    by (simp add: pq_inv_def)
  moreover have "pq_items q ! k \<in> set (pq_items q)" "pq_items q ! 0 \<in> set (pq_items q)"
    using k(1) by (auto intro: nth_mem)
  moreover have "\<forall>it \<in> set (pq_items q). jq_Priority it = wj_Priority (jq_Job it)"
    using assms(1) by (simp add: pq_inv_def)
  ultimately show ?thesis unfolding k(2) by metis
qed

lemma pq_Pop_correct:
  assumes inv: "pq_inv q" and ne: "pq_bag q \<noteq> {#}"
  obtains job where "fst (pq_Pop q) = Some job" and "pq_inv (snd (pq_Pop q))"
    and "pq_bag q = add_mset job (pq_bag (snd (pq_Pop q)))"
    and "\<forall>x \<in># pq_bag q. wj_Priority x \<le> wj_Priority job"
proof -
  obtain n where n: "length (pq_items q) = Suc n"
    using ne by (cases "pq_items q") (auto simp: pq_bag_def pq_GetJobs_def)
  obtain d where d: "pq_Pop q = (Some (jq_Job (pq_items q ! 0)), q\<lparr>pq_items := d\<rparr>)"
    "heap_from (pqh.K d) 0 (length d)" "idx_ok d"
    "mset (jq_view (pq_items q)) =
      add_mset (jq_Job (pq_items q ! 0), jq_Priority (pq_items q ! 0)) (mset (jq_view d))"
    by (rule pq_Pop_shape [OF inv n])
  have "set (jq_view d) \<subseteq> set (jq_view (pq_items q))"
    using arg_cong [OF d(4), of set_mset] by auto
  then have "pq_inv (snd (pq_Pop q))" using inv d by (auto simp: pq_inv_view)
  moreover have "pq_bag q = add_mset (jq_Job (pq_items q ! 0)) (pq_bag (snd (pq_Pop q)))"
    using d by (simp add: pq_bag_view)
  ultimately show ?thesis using that d(1) pq_root_max [OF inv] by simp
qed

lemma pq_Pop_empty: "pq_bag q = {#} \<Longrightarrow> pq_Pop q = (None, q)"
  by (simp add: pq_Pop_def pq_bag_def pq_GetJobs_def)

lemma pq_Peek_Pop: "pq_inv q \<Longrightarrow> pq_Peek q = fst (pq_Pop q)"
proof (cases "pq_items q")
  case (Cons a as)
  assume inv: "pq_inv q"
  have "length (pq_items q) = Suc (length as)" using Cons by simp
  from pq_Pop_shape [OF inv this] obtain d
    where "pq_Pop q = (Some (jq_Job (pq_items q ! 0)), q\<lparr>pq_items := d\<rparr>)" by blast
  then show ?thesis using Cons by (simp add: pq_Peek_def)
qed (simp add: pq_Peek_def pq_Pop_def)

section \<open>The interface the scheduler and the warmer use\<close>

text \<open>
  \<open>pop_loop\<close> is the client loop \<open>for i := 0; i < n && !queue.Empty(); i++ { if job, ok := queue.Pop(); ok
  {jobs = append(jobs, job)} }\<close> over any queue.
\<close>

fun pop_loop :: "('q \<Rightarrow> bool) \<Rightarrow> ('q \<Rightarrow> 'a option \<times> 'q) \<Rightarrow> nat \<Rightarrow> 'q \<Rightarrow> 'a list \<times> 'q" where
  "pop_loop empt pop 0 q = ([], q)"
| "pop_loop empt pop (Suc n) q =
     (if empt q then ([], q)
      else case pop q of
             (Some x, q') \<Rightarrow> (let (xs, q'') = pop_loop empt pop n q' in (x # xs, q''))
           | (None, q') \<Rightarrow> pop_loop empt pop n q')"

locale job_queue_spec =
  fixes inv :: "'q \<Rightarrow> bool"
    and bag :: "'q \<Rightarrow> 'a multiset"
    and prio :: "'a \<Rightarrow> int"
    and new :: "'q"
    and push :: "'q \<Rightarrow> 'a \<Rightarrow> 'q"
    and pop :: "'q \<Rightarrow> 'a option \<times> 'q"
    and empt :: "'q \<Rightarrow> bool"
  assumes new_inv: "inv new" and new_bag: "bag new = {#}"
    and push_inv: "inv q \<Longrightarrow> inv (push q x)" and push_bag: "inv q \<Longrightarrow> bag (push q x) = add_mset x (bag q)"
    and pop_some: "inv q \<Longrightarrow> bag q \<noteq> {#} \<Longrightarrow> \<exists>x. fst (pop q) = Some x \<and> inv (snd (pop q)) \<and>
        bag q = add_mset x (bag (snd (pop q))) \<and> (\<forall>y \<in># bag q. prio y \<le> prio x)"
    and empt_iff: "inv q \<Longrightarrow> empt q \<longleftrightarrow> bag q = {#}"
begin

lemma push_all: "inv q \<Longrightarrow> inv (foldl push q xs) \<and> bag (foldl push q xs) = mset xs + bag q"
  by (induction xs arbitrary: q) (auto simp: push_inv push_bag)

lemma pop_loop_correct:
  assumes "inv q" and "pop_loop empt pop n q = (xs, q')"
  shows "inv q' \<and> bag q = mset xs + bag q' \<and> length xs = min n (size (bag q)) \<and>
    sorted_wrt (\<lambda>x y. prio y \<le> prio x) xs \<and> (\<forall>x \<in> set xs. \<forall>y \<in># bag q'. prio y \<le> prio x)"
  using assms
proof (induction n arbitrary: q xs q')
  case (Suc n)
  show ?case
  proof (cases "bag q = {#}")
    case True then show ?thesis using Suc.prems by (simp add: empt_iff)
  next
    case False
    then obtain x where x: "fst (pop q) = Some x" "inv (snd (pop q))"
      "bag q = add_mset x (bag (snd (pop q)))" "\<forall>y \<in># bag q. prio y \<le> prio x"
      using pop_some [OF Suc.prems(1)] by blast
    obtain ys where ys: "pop_loop empt pop n (snd (pop q)) = (ys, q')" "xs = x # ys"
      using Suc.prems(2) False x(1) empt_iff [OF Suc.prems(1)]
      by (cases "pop q") (auto split: prod.splits)
    note IH = Suc.IH [OF x(2) ys(1)]
    then have IH1: "inv q'" "bag (snd (pop q)) = mset ys + bag q'" "length ys = min n (size (bag (snd (pop q))))"
        "sorted_wrt (\<lambda>x y. prio y \<le> prio x) ys" "\<forall>x \<in> set ys. \<forall>y \<in># bag q'. prio y \<le> prio x"
      by blast+
    have bag: "bag q = add_mset x (mset ys + bag q')" by (simp only: x(3) IH1(2))
    have le: "\<forall>y \<in># add_mset x (mset ys + bag q'). prio y \<le> prio x" using x(4) by (simp only: bag)
    have len: "length ys = min n (size (mset ys + bag q'))" using IH1(3) by (simp only: IH1(2))
    show ?thesis unfolding ys(2) bag using IH1(1,4,5) le len by simp
  qed
qed simp

end

interpretation pq: job_queue_spec pq_inv pq_bag wj_Priority NewPriorityQueue pq_Push pq_Pop pq_Empty
proof unfold_locales
  show "\<exists>x. fst (pq_Pop q) = Some x \<and> pq_inv (snd (pq_Pop q)) \<and>
      pq_bag q = add_mset x (pq_bag (snd (pq_Pop q))) \<and> (\<forall>y \<in># pq_bag q. wj_Priority y \<le> wj_Priority x)"
    if "pq_inv q" "pq_bag q \<noteq> {#}" for q :: "'a priority_queue"
    using pq_Pop_correct [OF that] by blast
qed (auto simp: pq_New_inv pq_New_bag pq_Push_correct pq_Empty_bag)

section \<open>Histories\<close>

datatype 'v pq_op = Op_Push "'v warmup_job" | Op_Pop | Op_Clear

fun pq_step :: "'v priority_queue \<Rightarrow> 'v pq_op \<Rightarrow> 'v priority_queue" where
  "pq_step q (Op_Push j) = pq_Push q j"
| "pq_step q Op_Pop = snd (pq_Pop q)"
| "pq_step q Op_Clear = pq_Clear q"

lemma pq_step_inv [inv_intros]: "pq_inv q \<Longrightarrow> pq_inv (pq_step q op)"
  by (cases op; cases "pq_bag q = {#}")
    (auto simp: pq_Push_correct pq_Clear_inv pq_Pop_empty elim: pq_Pop_correct)

lemma pq_run_inv: "pq_inv q \<Longrightarrow> pq_inv (foldl pq_step q ops)"
  by (induction ops arbitrary: q) (auto intro: pq_step_inv)

text \<open>
  In every history of \<open>Push\<close>, \<open>Pop\<close> and \<open>Clear\<close> from a new queue, the slice is in heap order of
  the priorities, every item's \<open>Index\<close> field is its position, and every item carries its job's priority.
\<close>

theorem pq_history_invariant: "pq_inv (foldl pq_step NewPriorityQueue ops)"
  by (rule pq_run_inv) (rule pq_New_inv)

text \<open>
  C12: In every history, \<open>Pop\<close> on an empty queue returns \<open>false\<close> and changes nothing; otherwise it
  returns a job of the highest priority in the queue, the one \<open>Peek\<close> shows, and removes exactly that
  one job.
\<close>

theorem pq_pop_functional:
  "let q = foldl pq_step NewPriorityQueue ops in
     pq_Peek q = fst (pq_Pop q) \<and>
     (case pq_Pop q of
        (None, q') \<Rightarrow> pq_Empty q \<and> q' = q
      | (Some job, q') \<Rightarrow> pq_bag q = add_mset job (pq_bag q') \<and>
          wj_Priority job = Max (wj_Priority ` set_mset (pq_bag q)) \<and> pq_Len q = Suc (pq_Len q'))"
proof -
  define q where "q = foldl pq_step NewPriorityQueue ops"
  have inv: "pq_inv q" unfolding q_def by (rule pq_run_inv) (rule pq_New_inv)
  have main: "pq_Peek q = fst (pq_Pop q) \<and>
     (case pq_Pop q of
        (None, q') \<Rightarrow> pq_Empty q \<and> q' = q
      | (Some job, q') \<Rightarrow> pq_bag q = add_mset job (pq_bag q') \<and>
          wj_Priority job = Max (wj_Priority ` set_mset (pq_bag q)) \<and> pq_Len q = Suc (pq_Len q'))"
  proof (cases "pq_bag q = {#}")
    case True then show ?thesis using pq_Peek_Pop [OF inv] by (simp add: pq_Pop_empty pq_Empty_bag)
  next
    case False
    from pq_Pop_correct [OF inv this] obtain job where job: "fst (pq_Pop q) = Some job"
      "pq_bag q = add_mset job (pq_bag (snd (pq_Pop q)))"
      "\<forall>x \<in># pq_bag q. wj_Priority x \<le> wj_Priority job" by blast
    have "job \<in># pq_bag q" by (subst job(2)) simp
    then have "wj_Priority job = Max (wj_Priority ` set_mset (pq_bag q))"
      using job(3) by (intro Max_eqI [symmetric]) auto
    moreover have "pq_Len q = Suc (pq_Len (snd (pq_Pop q)))"
      unfolding pq_Len_bag by (subst job(2)) simp
    ultimately show ?thesis using pq_Peek_Pop [OF inv] job(1,2) by (cases "pq_Pop q") simp
  qed
  then show ?thesis by (simp only: Let_def q_def)
qed

text \<open>
  C13: Pushing any jobs and popping until the queue is empty returns the same jobs, each as often as
  it was pushed, in order of non-increasing priority.
\<close>

theorem pq_drain_sorts:
  "case pop_loop pq_Empty pq_Pop (length jobs) (foldl pq_Push NewPriorityQueue jobs) of
     (out, q) \<Rightarrow> mset out = mset jobs \<and> sorted (rev (map wj_Priority out)) \<and> pq_Empty q"
proof -
  let ?q = "foldl pq_Push NewPriorityQueue jobs"
  obtain out q where out: "pop_loop pq_Empty pq_Pop (length jobs) ?q = (out, q)" by fastforce
  have q0: "pq_inv ?q" "pq_bag ?q = mset jobs"
    using pq.push_all [OF pq_New_inv] by (auto simp: pq_New_bag)
  have r: "mset jobs = mset out + pq_bag q" "length out = min (length jobs) (size (mset jobs))"
      "sorted_wrt (\<lambda>x y. wj_Priority y \<le> wj_Priority x) out"
    using pq.pop_loop_correct [OF q0(1) out, unfolded q0(2)] by blast+
  have "size (mset jobs) = length out + size (pq_bag q)" unfolding r(1) by simp
  then have "pq_bag q = {#}" using r(2) by simp
  then show ?thesis using r(1,3) unfolding out
    by (simp add: pq_Empty_bag sorted_wrt_rev sorted_wrt_map)
qed

end
