(* ===== verification/Transitions.thy ===== *)
theory Transitions
  imports GoPrelude
begin

text \<open>
  The interfaces of the step relations that model goroutines: an invariant that every step keeps, a relation
  whose runs come to an end, and a simulation of an abstract system. Each is a locale; the components interpret
  them on their own relations, and their results about whole runs are the facts proved here once.
\<close>

section \<open>Invariants\<close>

locale kept_invariant =
  fixes step :: "'s \<Rightarrow> 's \<Rightarrow> bool" and inv :: "'s \<Rightarrow> bool"
  assumes kept: "inv s \<Longrightarrow> step s s' \<Longrightarrow> inv s'"
begin

lemma along: "step\<^sup>*\<^sup>* s s' \<Longrightarrow> inv s \<Longrightarrow> inv s'"
  by (induction rule: rtranclp_induct) (auto intro: kept)

lemma along_run: "(\<And>i. i < n \<Longrightarrow> step (f i) (f (Suc i))) \<Longrightarrow> inv (f 0) \<Longrightarrow> inv (f n)"
  by (induction n) (auto intro: kept)

end

section \<open>Runs that end\<close>

text \<open>A size that every step makes smaller, and a step from every state that is not final.\<close>

locale ending_runs = kept_invariant step inv for step :: "'s \<Rightarrow> 's \<Rightarrow> bool" and inv :: "'s \<Rightarrow> bool" +
  fixes final :: "'s \<Rightarrow> bool" and size_of :: "'s \<Rightarrow> nat"
  assumes smaller: "inv s \<Longrightarrow> step s s' \<Longrightarrow> size_of s' < size_of s"
    and progress: "inv s \<Longrightarrow> \<not> final s \<Longrightarrow> \<exists>s'. step s s'"
begin

lemma reaches_final: "inv s \<Longrightarrow> \<exists>s'. step\<^sup>*\<^sup>* s s' \<and> final s'"
proof (induction "size_of s" arbitrary: s rule: less_induct)
  case less
  show ?case
  proof (cases "final s")
    case False
    then obtain s1 where s1: "step s s1" using progress less(2) by blast
    then have "\<exists>s'. step\<^sup>*\<^sup>* s1 s' \<and> final s'" using less smaller kept by blast
    then show ?thesis using s1 by (meson converse_rtranclp_into_rtranclp)
  qed blast
qed

lemma run_is_short:
  assumes "\<And>i. i < n \<Longrightarrow> step (f i) (f (Suc i))" and "inv (f 0)"
  shows "n + size_of (f n) \<le> size_of (f 0)"
  using assms(1)
proof (induction n)
  case (Suc n)
  then have "size_of (f (Suc n)) < size_of (f n)"
    using smaller along_run [of n f] assms(2) by (meson lessI less_SucI)
  then show ?case using Suc by fastforce
qed simp

end

section \<open>Simulations\<close>

text \<open>Every step of the concrete system is a run, possibly empty, of the abstract one.\<close>

locale simulation = kept_invariant step inv for step :: "'s \<Rightarrow> 's \<Rightarrow> bool" and inv :: "'s \<Rightarrow> bool" +
  fixes astep :: "'a \<Rightarrow> 'a \<Rightarrow> bool" and abs_of :: "'s \<Rightarrow> 'a"
  assumes simulates: "inv s \<Longrightarrow> step s s' \<Longrightarrow> astep\<^sup>*\<^sup>* (abs_of s) (abs_of s')"
begin

lemma simulates_run: "step\<^sup>*\<^sup>* s s' \<Longrightarrow> inv s \<Longrightarrow> astep\<^sup>*\<^sup>* (abs_of s) (abs_of s')"
proof (induction rule: rtranclp_induct)
  case (step s1 s2)
  then show ?case using simulates along by (meson rtranclp_trans)
qed blast

end

end
