(* ===== verification/WorkerPool.thy ===== *)
theory WorkerPool
  imports PriorityQueue Transitions
begin

text \<open>
  The local worker pool of the cache warmer (\<^verbatim>\<open>backend/internal/cache/worker_pool.go\<close>). A buffered
  channel is a list with a capacity and a closed flag. The methods that finish at once are functions;
  a \<open>select\<close> whose choice is the runtime's is the list of its possible outcomes. The goroutines, and
  \<open>Stop\<close>, which waits for them, are a step relation. \<open>Set\<close> of the cache is one step; \<open>Resize\<close> replaces the
  channels of a pool that is stopped (it holds no lock then, but a \<open>Start\<close> between its check and the new channels is left out).
\<close>

section \<open>The pool\<close>

record ('v, 'e) job_result =
  jr_Job :: "'v warmup_job"
  jr_Error :: "'e option"
  jr_Duration :: duration

record ('v, 'e) worker_pool =
  wp_workers :: int
  wp_jobCh :: "'v warmup_job list"
  wp_jobCap :: nat
  wp_jobClosed :: bool
  wp_resultCh :: "('v, 'e) job_result list"
  wp_resultCap :: nat
  wp_resultClosed :: bool
  wp_cancelled :: bool
  wp_running :: bool
  wp_jobsProcessed :: int64
  wp_totalDuration :: duration
  wp_errors :: int64

definition NewWorkerPool :: "int \<Rightarrow> ('v, 'e) worker_pool" where
  "NewWorkerPool workers0 =
     (let workers = (if workers0 \<le> 0 then 3 else workers0)
      in \<lparr>wp_workers = workers, wp_jobCh = [], wp_jobCap = nat (workers * 2), wp_jobClosed = False,
          wp_resultCh = [], wp_resultCap = nat workers, wp_resultClosed = False, wp_cancelled = False,
          wp_running = False, wp_jobsProcessed = 0, wp_totalDuration = 0, wp_errors = 0\<rparr>)"

text \<open>
  The outcomes of \<open>SubmitJob\<close>: among the ready cases of the \<open>select\<close> any may be taken, the default only
  when none is ready; a send on a closed channel panics.
\<close>

datatype submit_result = Submitted bool | SubmitPanic

definition SubmitJob :: "'v warmup_job \<Rightarrow> ('v, 'e) worker_pool \<Rightarrow> (submit_result \<times> ('v, 'e) worker_pool) list" where
  "SubmitJob job p =
     (if \<not> wp_running p then [(Submitted False, p)]
      else let send = (if wp_jobClosed p then [(SubmitPanic, p)]
                       else if length (wp_jobCh p) < wp_jobCap p
                         then [(Submitted True, p\<lparr>wp_jobCh := wp_jobCh p @ [job]\<rparr>)] else []);
               ctx_done = (if wp_cancelled p then [(Submitted False, p)] else [])
           in if send @ ctx_done = [] then [(Submitted False, p)] else send @ ctx_done)"

text \<open>\<open>SubmitJobs\<close>: \<open>None\<close> is a panic, otherwise the number of jobs that were accepted.\<close>

primrec SubmitJobs :: "'v warmup_job list \<Rightarrow> int \<Rightarrow> ('v, 'e) worker_pool \<Rightarrow> (int option \<times> ('v, 'e) worker_pool) list" where
  "SubmitJobs [] submitted p = [(Some submitted, p)]"
| "SubmitJobs (job # jobs) submitted p =
     concat (map (\<lambda>(r, p').
       case r of Submitted ok \<Rightarrow> SubmitJobs jobs (if ok then submitted + 1 else submitted) p'
               | SubmitPanic \<Rightarrow> [(None, p')]) (SubmitJob job p))"

text \<open>\<open>set\<close> is the cache's \<open>Set\<close>; the job starts at \<open>start\<close> and its \<open>Set\<close> returns at \<open>now\<close>.\<close>

definition processJob ::
  "(string \<Rightarrow> 'v \<Rightarrow> duration \<Rightarrow> 'c \<Rightarrow> 'e option \<times> 'c) \<Rightarrow> instant \<Rightarrow> instant \<Rightarrow> 'v warmup_job \<Rightarrow> 'c \<Rightarrow>
   ('v, 'e) job_result \<times> 'c" where
  "processJob cset start now job c =
     (case cset (wj_Key job) (wj_Data job) (wj_TTL job) c of
        (err, c') \<Rightarrow> (\<lparr>jr_Job = job, jr_Error = err, jr_Duration = time_sub now start\<rparr>, c'))"

text \<open>What \<open>resultCollector\<close> does with a result.\<close>

definition count_result :: "('v, 'e) job_result \<Rightarrow> ('v, 'e) worker_pool \<Rightarrow> ('v, 'e) worker_pool" where
  "count_result r p = p\<lparr>wp_jobsProcessed := wp_jobsProcessed p + 1,
     wp_totalDuration := wp_totalDuration p + jr_Duration r,
     wp_errors := (if jr_Error r \<noteq> None then wp_errors p + 1 else wp_errors p)\<rparr>"

record pool_stats =
  ps_workers :: int
  ps_running :: bool
  ps_jobs_processed :: int64
  ps_total_errors :: int64
  ps_avg_duration :: duration
  ps_total_duration :: duration
  ps_queue_length :: nat
  ps_queue_capacity :: nat

definition wp_GetStats :: "('v, 'e) worker_pool \<Rightarrow> pool_stats" where
  "wp_GetStats p =
     (let avgDuration = (if sint (wp_jobsProcessed p) > 0 then go_div (wp_totalDuration p) (sint (wp_jobsProcessed p)) else 0)
      in \<lparr>ps_workers = wp_workers p, ps_running = wp_running p, ps_jobs_processed = wp_jobsProcessed p,
          ps_total_errors = wp_errors p, ps_avg_duration = avgDuration, ps_total_duration = wp_totalDuration p,
          ps_queue_length = length (wp_jobCh p), ps_queue_capacity = wp_jobCap p\<rparr>)"

definition wp_IsRunning :: "('v, 'e) worker_pool \<Rightarrow> bool" where
  "wp_IsRunning p = wp_running p"

section \<open>The goroutines\<close>

text \<open>
  The pool with its goroutines: idle workers, workers that hold a job, collectors that wait or hold a
  result, and whether a \<open>Stop\<close> holds the lock and waits. The last three fields record history: how
  often \<open>Start\<close> started the workers, which jobs were accepted and which were processed.
\<close>

record ('v, 'e, 'c) pool_system =
  sy_pool :: "('v, 'e) worker_pool"
  sy_cache :: 'c
  sy_idle :: nat
  sy_busy :: "'v warmup_job multiset"
  sy_collectors :: nat
  sy_taken :: "('v, 'e) job_result multiset"
  sy_stopping :: bool
  sy_panicked :: bool
  sy_starts :: nat
  sy_accepted :: "'v warmup_job multiset"
  sy_done :: "'v warmup_job multiset"

definition new_system :: "int \<Rightarrow> 'c \<Rightarrow> ('v, 'e, 'c) pool_system" where
  "new_system n c = \<lparr>sy_pool = NewWorkerPool n, sy_cache = c, sy_idle = 0, sy_busy = {#}, sy_collectors = 0,
     sy_taken = {#}, sy_stopping = False, sy_panicked = False, sy_starts = 0, sy_accepted = {#}, sy_done = {#}\<rparr>"

definition wp_Start :: "('v, 'e, 'c) pool_system \<Rightarrow> ('v, 'e, 'c) pool_system" where
  "wp_Start s =
     (if wp_running (sy_pool s) then s
      else s\<lparr>sy_pool := (sy_pool s)\<lparr>wp_running := True\<rparr>, sy_idle := sy_idle s + nat (wp_workers (sy_pool s)),
             sy_collectors := sy_collectors s + 1, sy_starts := sy_starts s + 1\<rparr>)"

text \<open>The first half of \<open>Stop\<close>, up to \<open>wg.Wait\<close>; closing a closed channel panics.\<close>

definition wp_Stop_begin :: "('v, 'e, 'c) pool_system \<Rightarrow> ('v, 'e, 'c) pool_system" where
  "wp_Stop_begin s =
     (if \<not> wp_running (sy_pool s) then s
      else if wp_jobClosed (sy_pool s) then s\<lparr>sy_pool := (sy_pool s)\<lparr>wp_running := False\<rparr>, sy_panicked := True\<rparr>
      else s\<lparr>sy_pool := (sy_pool s)\<lparr>wp_running := False, wp_jobClosed := True\<rparr>, sy_stopping := True\<rparr>)"

text \<open>The second half, when \<open>wg.Wait\<close> has returned.\<close>

definition wp_Stop_end :: "('v, 'e, 'c) pool_system \<Rightarrow> ('v, 'e, 'c) pool_system" where
  "wp_Stop_end s =
     (if wp_resultClosed (sy_pool s) then s\<lparr>sy_pool := (sy_pool s)\<lparr>wp_cancelled := True\<rparr>, sy_panicked := True\<rparr>
      else s\<lparr>sy_pool := (sy_pool s)\<lparr>wp_cancelled := True, wp_resultClosed := True\<rparr>, sy_stopping := False\<rparr>)"

text \<open>\<open>Resize\<close> between its \<open>Stop\<close> and its \<open>Start\<close>: new channels, the old context.\<close>

definition wp_Resize_channels :: "int \<Rightarrow> ('v, 'e) worker_pool \<Rightarrow> ('v, 'e) worker_pool" where
  "wp_Resize_channels newSize p =
     (if newSize \<le> 0 then p
      else p\<lparr>wp_workers := newSize, wp_jobCh := [], wp_jobCap := nat (newSize * 2), wp_jobClosed := False,
             wp_resultCh := [], wp_resultCap := nat newSize, wp_resultClosed := False\<rparr>)"

text \<open>The whole \<open>Resize\<close>; \<open>wait\<close> is what the goroutines do until the \<open>wg.Wait\<close> of its \<open>Stop\<close> returns.\<close>

definition wp_Resize ::
  "(('v, 'e, 'c) pool_system \<Rightarrow> ('v, 'e, 'c) pool_system) \<Rightarrow> int \<Rightarrow> ('v, 'e, 'c) pool_system \<Rightarrow> ('v, 'e, 'c) pool_system" where
  "wp_Resize wait newSize s =
     (if newSize \<le> 0 then s
      else let wasRunning = wp_IsRunning (sy_pool s);
               s1 = (if wasRunning
                     then let s' = wp_Stop_begin s in if sy_panicked s' then s' else wp_Stop_end (wait s')
                     else s)
           in if sy_panicked s1 then s1
              else let s2 = s1\<lparr>sy_pool := wp_Resize_channels newSize (sy_pool s1)\<rparr>
                   in if wasRunning then wp_Start s2 else s2)"

text \<open>A worker that finished a job: it sends the result, or drops it when there is no room, or leaves.\<close>

definition worker_result ::
  "('v, 'e) job_result \<Rightarrow> ('v, 'e, 'c) pool_system \<Rightarrow> ('v, 'e, 'c) pool_system list" where
  "worker_result r s =
     (let p = sy_pool s;
          send = (if wp_resultClosed p then [s\<lparr>sy_panicked := True\<rparr>]
                  else if length (wp_resultCh p) < wp_resultCap p
                    then [s\<lparr>sy_pool := p\<lparr>wp_resultCh := wp_resultCh p @ [r]\<rparr>, sy_idle := sy_idle s + 1\<rparr>] else []);
          ctx_done = (if wp_cancelled p then [s] else [])
      in if send @ ctx_done = [] then [s\<lparr>sy_idle := sy_idle s + 1\<rparr>] else send @ ctx_done)"

inductive pool_step ::
  "(string \<Rightarrow> 'v \<Rightarrow> duration \<Rightarrow> 'c \<Rightarrow> 'e option \<times> 'c) \<Rightarrow> ('v, 'e, 'c) pool_system \<Rightarrow> ('v, 'e, 'c) pool_system \<Rightarrow> bool"
  for cset where
  start: "\<not> sy_stopping s \<Longrightarrow> pool_step cset s (wp_Start s)"
| stop: "\<not> sy_stopping s \<Longrightarrow> pool_step cset s (wp_Stop_begin s)"
| stopped: "sy_stopping s \<Longrightarrow> sy_idle s = 0 \<Longrightarrow> sy_busy s = {#} \<Longrightarrow> pool_step cset s (wp_Stop_end s)"
| submit: "\<not> sy_stopping s \<Longrightarrow> (Submitted ok, p) \<in> set (SubmitJob job (sy_pool s)) \<Longrightarrow>
    pool_step cset s (s\<lparr>sy_pool := p, sy_accepted := (if ok then add_mset job (sy_accepted s) else sy_accepted s)\<rparr>)"
| submit_panic: "\<not> sy_stopping s \<Longrightarrow> (SubmitPanic, p) \<in> set (SubmitJob job (sy_pool s)) \<Longrightarrow>
    pool_step cset s (s\<lparr>sy_panicked := True\<rparr>)"
| take: "sy_idle s > 0 \<Longrightarrow> wp_jobCh (sy_pool s) = job # jobs \<Longrightarrow>
    pool_step cset s (s\<lparr>sy_pool := (sy_pool s)\<lparr>wp_jobCh := jobs\<rparr>, sy_idle := sy_idle s - 1, sy_busy := add_mset job (sy_busy s)\<rparr>)"
| leave: "sy_idle s > 0 \<Longrightarrow> (wp_jobCh (sy_pool s) = [] \<and> wp_jobClosed (sy_pool s)) \<or> wp_cancelled (sy_pool s) \<Longrightarrow>
    pool_step cset s (s\<lparr>sy_idle := sy_idle s - 1\<rparr>)"
| finish: "job \<in># sy_busy s \<Longrightarrow> processJob cset t0 t1 job (sy_cache s) = (r, c') \<Longrightarrow>
    s' \<in> set (worker_result r (s\<lparr>sy_cache := c', sy_busy := sy_busy s - {#job#}, sy_done := add_mset job (sy_done s)\<rparr>)) \<Longrightarrow>
    pool_step cset s s'"
| collect: "sy_collectors s > 0 \<Longrightarrow> wp_resultCh (sy_pool s) = r # rs \<Longrightarrow>
    pool_step cset s (s\<lparr>sy_pool := (sy_pool s)\<lparr>wp_resultCh := rs\<rparr>, sy_collectors := sy_collectors s - 1,
      sy_taken := add_mset r (sy_taken s)\<rparr>)"
| count: "\<not> sy_stopping s \<Longrightarrow> r \<in># sy_taken s \<Longrightarrow>
    pool_step cset s (s\<lparr>sy_pool := count_result r (sy_pool s), sy_collectors := sy_collectors s + 1,
      sy_taken := sy_taken s - {#r#}\<rparr>)"
| collector_leaves: "sy_collectors s > 0 \<Longrightarrow>
    (wp_resultCh (sy_pool s) = [] \<and> wp_resultClosed (sy_pool s)) \<or> wp_cancelled (sy_pool s) \<Longrightarrow>
    pool_step cset s (s\<lparr>sy_collectors := sy_collectors s - 1\<rparr>)"
| resize: "\<not> sy_stopping s \<Longrightarrow> \<not> wp_running (sy_pool s) \<Longrightarrow> sy_idle s = 0 \<Longrightarrow> sy_busy s = {#} \<Longrightarrow>
    pool_step cset s (s\<lparr>sy_pool := wp_Resize_channels n (sy_pool s)\<rparr>)"

inductive pool_reach ::
  "(string \<Rightarrow> 'v \<Rightarrow> duration \<Rightarrow> 'c \<Rightarrow> 'e option \<times> 'c) \<Rightarrow> ('v, 'e, 'c) pool_system \<Rightarrow> ('v, 'e, 'c) pool_system \<Rightarrow> bool"
  for cset s0 where
  init: "pool_reach cset s0 s0"
| step: "pool_reach cset s0 s \<Longrightarrow> pool_step cset s s' \<Longrightarrow> pool_reach cset s0 s'"

section \<open>The first life of a pool\<close>

text \<open>
  As long as the workers were started at most once: running, the channels are open; stopping, the job
  channel is closed and no worker leaves before it is empty; afterwards nothing is left.
\<close>

definition life_ok :: "('v, 'e, 'c) pool_system \<Rightarrow> bool" where
  "life_ok s \<longleftrightarrow>
     (let p = sy_pool s in
      if wp_running p
      then sy_starts s = 1 \<and> \<not> sy_stopping s \<and> \<not> wp_jobClosed p \<and> \<not> wp_resultClosed p \<and> \<not> wp_cancelled p \<and>
        sy_idle s + size (sy_busy s) > 0
      else if sy_stopping s
      then sy_starts s = 1 \<and> wp_jobClosed p \<and> \<not> wp_resultClosed p \<and> \<not> wp_cancelled p \<and>
        (wp_jobCh p \<noteq> [] \<longrightarrow> sy_idle s + size (sy_busy s) > 0)
      else sy_idle s = 0 \<and> sy_busy s = {#} \<and> wp_jobCh p = [] \<and>
        (sy_starts s = 0 \<longrightarrow> \<not> wp_jobClosed p \<and> \<not> wp_resultClosed p \<and> \<not> wp_cancelled p))"

definition pool_inv :: "('v, 'e, 'c) pool_system \<Rightarrow> bool" where
  "pool_inv s \<longleftrightarrow> \<not> sy_panicked s \<and> wp_workers (sy_pool s) > 0 \<and>
     sy_accepted s = sy_done s + sy_busy s + mset (wp_jobCh (sy_pool s)) \<and> life_ok s"

lemma pool_inv_new: "pool_inv (new_system n c)"
  by (simp add: pool_inv_def life_ok_def new_system_def NewWorkerPool_def Let_def)

lemma starts_mono: "pool_step cset s s' \<Longrightarrow> sy_starts s \<le> sy_starts s'"
proof (induction rule: pool_step.induct)
  case (finish job s t0 t1 r c' s')
  then show ?case by (auto simp: worker_result_def Let_def split: if_splits)
qed (auto simp: wp_Start_def wp_Stop_begin_def wp_Stop_end_def)

lemma size_ge_one: "x \<in># M \<Longrightarrow> size (M - {#x#}) + 1 = size M"
  by (metis Suc_eq_plus1 insert_DiffM size_add_mset)

lemma pool_step_inv:
  assumes "pool_step cset s s'" and "pool_inv s" and "sy_starts s' \<le> 1"
  shows "pool_inv s'"
  using assms
proof cases
  case start
  then show ?thesis using assms(2,3)
    by (auto simp: wp_Start_def pool_inv_def life_ok_def Let_def split: if_splits)
next
  case stop
  then show ?thesis using assms(2,3)
    by (auto simp: wp_Stop_begin_def pool_inv_def life_ok_def Let_def split: if_splits)
next
  case stopped
  then show ?thesis using assms(2,3)
    by (auto simp: wp_Stop_end_def pool_inv_def life_ok_def Let_def split: if_splits)
next
  case (submit ok p job)
  then show ?thesis using assms(2,3)
    by (auto simp: SubmitJob_def pool_inv_def life_ok_def Let_def split: if_splits)
next
  case (submit_panic p job)
  then show ?thesis using assms(2,3)
    by (auto simp: SubmitJob_def pool_inv_def life_ok_def Let_def split: if_splits)
next
  case (take job jobs)
  then show ?thesis using assms(2,3)
    by (auto simp: pool_inv_def life_ok_def Let_def split: if_splits)
next
  case leave
  then show ?thesis using assms(2,3)
    by (auto simp: pool_inv_def life_ok_def Let_def split: if_splits)
next
  case (finish job t0 t1 r c')
  have "size (sy_busy s - {#job#}) + 1 = size (sy_busy s)" using finish(1) by (rule size_ge_one)
  moreover have "sy_busy s \<noteq> {#}" using finish(1) by auto
  ultimately show ?thesis using finish assms(2,3)
    by (auto simp: worker_result_def pool_inv_def life_ok_def Let_def split: if_splits)
next
  case (collect r rs)
  then show ?thesis using assms(2,3)
    by (auto simp: pool_inv_def life_ok_def Let_def split: if_splits)
next
  case (count r)
  then show ?thesis using assms(2,3)
    by (auto simp: count_result_def pool_inv_def life_ok_def Let_def split: if_splits)
next
  case collector_leaves
  then show ?thesis using assms(2,3)
    by (auto simp: pool_inv_def life_ok_def Let_def split: if_splits)
next
  case (resize n)
  then show ?thesis using assms(2,3)
    by (auto simp: wp_Resize_channels_def pool_inv_def life_ok_def Let_def split: if_splits)
qed

text \<open>
  The abstract pool: the jobs it accepted, those of them that wait, those whose \<open>Set\<close> was called, and the cache.
  It accepts a job, or takes a waiting one out and calls its \<open>Set\<close>.
\<close>

record ('v, 'c) job_bag =
  jb_accepted :: "'v warmup_job multiset"
  jb_waiting :: "'v warmup_job multiset"
  jb_set :: "'v warmup_job multiset"
  jb_cache :: 'c

definition set_job :: "(string \<Rightarrow> 'v \<Rightarrow> duration \<Rightarrow> 'c \<Rightarrow> 'e option \<times> 'c) \<Rightarrow> 'v warmup_job \<Rightarrow> 'c \<Rightarrow> 'c" where
  "set_job cset job c = snd (cset (wj_Key job) (wj_Data job) (wj_TTL job) c)"

inductive bag_step ::
  "(string \<Rightarrow> 'v \<Rightarrow> duration \<Rightarrow> 'c \<Rightarrow> 'e option \<times> 'c) \<Rightarrow> ('v, 'c) job_bag \<Rightarrow> ('v, 'c) job_bag \<Rightarrow> bool"
  for cset where
  bag_accept: "bag_step cset b (b\<lparr>jb_accepted := add_mset job (jb_accepted b), jb_waiting := add_mset job (jb_waiting b)\<rparr>)"
| bag_run: "job \<in># jb_waiting b \<Longrightarrow>
    bag_step cset b (b\<lparr>jb_waiting := jb_waiting b - {#job#}, jb_set := add_mset job (jb_set b),
      jb_cache := set_job cset job (jb_cache b)\<rparr>)"

definition bag_of :: "'v warmup_job multiset \<Rightarrow> 'c \<Rightarrow> ('v, 'c) job_bag" where
  "bag_of jobs c = \<lparr>jb_accepted = jobs, jb_waiting = jobs, jb_set = {#}, jb_cache = c\<rparr>"

text \<open>What every run of the bag gives: each accepted job waits or was set, once, and the sets made the cache.\<close>

definition bag_sets ::
  "(string \<Rightarrow> 'v \<Rightarrow> duration \<Rightarrow> 'c \<Rightarrow> 'e option \<times> 'c) \<Rightarrow> 'c \<Rightarrow> ('v, 'c) job_bag \<Rightarrow> 'v warmup_job list \<Rightarrow> bool" where
  "bag_sets cset c b js \<longleftrightarrow> jb_accepted b = jb_waiting b + mset js \<and> jb_set b = mset js \<and>
     jb_cache b = foldl (\<lambda>c job. set_job cset job c) c js"

lemma bag_run_sets:
  assumes "(bag_step cset)\<^sup>*\<^sup>* (bag_of jobs c) b"
  shows "\<exists>js. bag_sets cset c b js"
  using assms
proof (induction rule: rtranclp_induct)
  case base
  have "bag_sets cset c (bag_of jobs c) []" by (simp add: bag_sets_def bag_of_def)
  then show ?case by blast
next
  case (step b b')
  then obtain js where js: "bag_sets cset c b js" by blast
  from step(2) show ?case
  proof cases
    case (bag_accept job)
    then have "bag_sets cset c b' js" using js by (simp add: bag_sets_def)
    then show ?thesis by blast
  next
    case (bag_run job)
    then have "bag_sets cset c b' (js @ [job])" using js by (auto simp: bag_sets_def dest!: multi_member_split)
    then show ?thesis by blast
  qed
qed

definition pool_bag :: "('v, 'e, 'c) pool_system \<Rightarrow> ('v, 'c) job_bag" where
  "pool_bag s = \<lparr>jb_accepted = sy_accepted s, jb_waiting = sy_busy s + mset (wp_jobCh (sy_pool s)), jb_set = sy_done s,
     jb_cache = sy_cache s\<rparr>"

text \<open>The steps of a pool whose workers were started at most once.\<close>

definition first_life ::
  "(string \<Rightarrow> 'v \<Rightarrow> duration \<Rightarrow> 'c \<Rightarrow> 'e option \<times> 'c) \<Rightarrow> ('v, 'e, 'c) pool_system \<Rightarrow> ('v, 'e, 'c) pool_system \<Rightarrow> bool" where
  "first_life cset s s' \<longleftrightarrow> pool_step cset s s' \<and> sy_starts s' \<le> 1"

lemma pool_reach_first_life:
  "pool_reach cset s0 s \<Longrightarrow> sy_starts s \<le> 1 \<Longrightarrow> (first_life cset)\<^sup>*\<^sup>* s0 s"
proof (induction rule: pool_reach.induct)
  case (step s s')
  then have "first_life cset s s'" by (simp add: first_life_def)
  then show ?case using step starts_mono le_trans by (metis rtranclp.rtrancl_into_rtrancl)
qed simp

lemma finish_simulated:
  assumes "job \<in># sy_busy s" and "processJob cset t0 t1 job (sy_cache s) = (r, c')"
    and "s' \<in> set (worker_result r (s\<lparr>sy_cache := c', sy_busy := sy_busy s - {#job#}, sy_done := add_mset job (sy_done s)\<rparr>))"
  shows "bag_step cset (pool_bag s) (pool_bag s')"
proof -
  have "pool_bag s' = (pool_bag s)\<lparr>jb_waiting := jb_waiting (pool_bag s) - {#job#}, jb_set := add_mset job (jb_set (pool_bag s)),
      jb_cache := set_job cset job (jb_cache (pool_bag s))\<rparr>"
    using assms by (auto simp: pool_bag_def worker_result_def processJob_def set_job_def Let_def split: if_splits prod.splits)
  then show ?thesis using assms(1) bag_run [of job "pool_bag s" cset] by (simp add: pool_bag_def)
qed

lemma pool_step_simulated:
  assumes "pool_step cset s s'" and "pool_inv s" and "sy_starts s' \<le> 1"
  shows "(bag_step cset)\<^sup>*\<^sup>* (pool_bag s) (pool_bag s')"
  using assms
proof cases
  case (submit ok p job)
  then have "pool_bag s' = pool_bag s \<or>
      pool_bag s' = (pool_bag s)\<lparr>jb_accepted := add_mset job (jb_accepted (pool_bag s)), jb_waiting := add_mset job (jb_waiting (pool_bag s))\<rparr>"
    by (auto simp: SubmitJob_def pool_bag_def Let_def split: if_splits)
  then show ?thesis using bag_accept [of cset "pool_bag s" job] by auto
next
  case (finish job t0 t1 r c')
  then show ?thesis using finish_simulated [OF finish(1-3)] by (rule_tac r_into_rtranclp)
next
  case (resize n)
  then have "pool_bag s' = pool_bag s" using assms(2)
    by (auto simp: wp_Resize_channels_def pool_bag_def pool_inv_def life_ok_def Let_def)
  then show ?thesis by simp
qed (simp_all add: pool_bag_def wp_Start_def wp_Stop_begin_def wp_Stop_end_def count_result_def)

interpretation pool: simulation "first_life cset" pool_inv "bag_step cset" pool_bag
  for cset :: "string \<Rightarrow> 'v \<Rightarrow> duration \<Rightarrow> 'c \<Rightarrow> 'e option \<times> 'c"
proof unfold_locales
  fix s s' :: "('v, 'e, 'c) pool_system"
  assume i: "pool_inv s" and "first_life cset s s'"
  then have st: "pool_step cset s s'" "sy_starts s' \<le> 1" by (simp_all add: first_life_def)
  show "pool_inv s'" by (rule pool_step_inv [OF st(1) i st(2)])
  show "(bag_step cset)\<^sup>*\<^sup>* (pool_bag s) (pool_bag s')" by (rule pool_step_simulated [OF st(1) i st(2)])
qed

lemma pool_reach_inv:
  assumes "pool_reach cset (new_system n c) s" and "sy_starts s \<le> 1"
  shows "pool_inv s"
  by (rule pool.along [OF pool_reach_first_life [OF assms] pool_inv_new])

text \<open>
  C14: A pool that was started at most once implements a bag of jobs. Whatever its channels, goroutines and \<open>Stop\<close> do,
  there is an order of the calls of \<open>Set\<close> made so far in which every job that \<open>SubmitJob\<close> accepted and that waits
  no more (neither in the channel nor with a worker) was set exactly once and nothing else was, and the cache is what these calls made
  of it. (The model takes a \<open>Set\<close> of the cache as one step.)
\<close>

theorem pool_refines_job_bag:
  assumes "pool_reach cset (new_system n c) s" and "sy_starts s \<le> 1"
  shows "(bag_step cset)\<^sup>*\<^sup>* (bag_of {#} c) (pool_bag s) \<and>
    (\<exists>js. sy_accepted s = mset (wp_jobCh (sy_pool s)) + sy_busy s + mset js \<and>
      sy_cache s = foldl (\<lambda>c job. set_job cset job c) c js)"
proof -
  have "pool_bag (new_system n c :: ('a, 'c, 'b) pool_system) = bag_of {#} c"
    by (simp add: pool_bag_def new_system_def NewWorkerPool_def bag_of_def Let_def)
  then have "(bag_step cset)\<^sup>*\<^sup>* (bag_of {#} c) (pool_bag s)"
    using pool.simulates_run [OF pool_reach_first_life [OF assms] pool_inv_new] by metis
  then show ?thesis using bag_run_sets [of cset "{#}" c "pool_bag s"] by (auto simp: bag_sets_def pool_bag_def ac_simps)
qed

text \<open>
  C15: A pool that was started once loses nothing. In every interleaving no send or close panics, every
  job that \<open>SubmitJob\<close> accepted is waiting, being processed or processed, each exactly once, and when
  \<open>Stop\<close> has returned all of them have been processed.
\<close>

theorem accepted_jobs_are_processed:
  assumes "pool_reach cset (new_system n c) s" and "sy_starts s \<le> 1"
  shows "\<not> sy_panicked s \<and> sy_accepted s = sy_done s + sy_busy s + mset (wp_jobCh (sy_pool s)) \<and>
    (\<not> wp_running (sy_pool s) \<and> \<not> sy_stopping s \<longrightarrow> sy_done s = sy_accepted s)"
  using pool_reach_inv [OF assms] by (auto simp: pool_inv_def life_ok_def Let_def)

section \<open>Stop\<close>

definition stop_measure :: "('v, 'e, 'c) pool_system \<Rightarrow> nat" where
  "stop_measure s = 3 * length (wp_jobCh (sy_pool s)) + 3 * size (sy_busy s) + sy_idle s +
     length (wp_resultCh (sy_pool s)) + sy_collectors s + (if sy_stopping s then 1 else 0)"

lemma stopping_step_decreases:
  assumes "pool_step cset s s'" and "sy_stopping s" and "\<not> wp_resultClosed (sy_pool s)"
  shows "stop_measure s' < stop_measure s"
  using assms
proof cases
  case (finish job t0 t1 r c')
  have "size (sy_busy s - {#job#}) + 1 = size (sy_busy s)" using finish(1) by (rule size_ge_one)
  then show ?thesis using finish(3) assms(2,3)
    by (auto simp: worker_result_def stop_measure_def Let_def split: if_splits)
qed (auto simp: stop_measure_def wp_Stop_end_def split: if_splits)

lemma stopping_progress:
  assumes "pool_inv s" and "sy_stopping s"
  shows "\<exists>s'. pool_step cset s s'"
proof -
  have w: "wp_jobClosed (sy_pool s)" "wp_jobCh (sy_pool s) \<noteq> [] \<Longrightarrow> sy_idle s + size (sy_busy s) > 0"
    using assms by (auto simp: pool_inv_def life_ok_def Let_def split: if_splits)
  consider (busy) job where "job \<in># sy_busy s" | (idle) "sy_busy s = {#}" "sy_idle s > 0" | (none) "sy_busy s = {#}" "sy_idle s = 0"
    using multiset_nonemptyE by fastforce
  then show ?thesis
  proof cases
    case busy
    obtain r c' where r: "processJob cset 0 0 job (sy_cache s) = (r, c')" by fastforce
    let ?s = "s\<lparr>sy_cache := c', sy_busy := sy_busy s - {#job#}, sy_done := add_mset job (sy_done s)\<rparr>"
    have "worker_result r ?s \<noteq> []" by (auto simp: worker_result_def Let_def)
    then obtain s' where "s' \<in> set (worker_result r ?s)" by (cases "worker_result r ?s") auto
    then show ?thesis using pool_step.finish [OF busy r] by blast
  next
    case idle
    then show ?thesis
    proof (cases "wp_jobCh (sy_pool s)")
      case Nil
      then show ?thesis using pool_step.leave [OF idle(2), of cset] w(1) by blast
    next
      case (Cons job jobs)
      then show ?thesis using pool_step.take [OF idle(2)] by blast
    qed
  next
    case none
    then show ?thesis using pool_step.stopped assms(2) by blast
  qed
qed

lemma stopping_keeps_starts: "pool_step cset s s' \<Longrightarrow> sy_stopping s \<Longrightarrow> sy_starts s' = sy_starts s"
  by (induction rule: pool_step.induct) (auto simp: worker_result_def wp_Stop_end_def Let_def split: if_splits)

lemma stopping_channel_open: "pool_inv s \<Longrightarrow> sy_stopping s \<Longrightarrow> \<not> wp_resultClosed (sy_pool s)"
  by (auto simp: pool_inv_def life_ok_def Let_def split: if_splits)

text \<open>The steps while \<open>Stop\<close> waits.\<close>

interpretation stopping: ending_runs "\<lambda>s s'. sy_stopping s \<and> pool_step cset s s'" "\<lambda>s. pool_inv s \<and> sy_starts s \<le> 1"
    "\<lambda>s. \<not> sy_stopping s" stop_measure
  for cset :: "string \<Rightarrow> 'v \<Rightarrow> duration \<Rightarrow> 'c \<Rightarrow> 'e option \<times> 'c"
proof unfold_locales
  fix s s' :: "('v, 'e, 'c) pool_system"
  assume i: "pool_inv s \<and> sy_starts s \<le> 1" and st: "sy_stopping s \<and> pool_step cset s s'"
  show "pool_inv s' \<and> sy_starts s' \<le> 1" using i st pool_step_inv stopping_keeps_starts by metis
  show "stop_measure s' < stop_measure s" using i st stopping_step_decreases stopping_channel_open by blast
next
  fix s :: "('v, 'e, 'c) pool_system"
  assume "pool_inv s \<and> sy_starts s \<le> 1" and "\<not> \<not> sy_stopping s"
  then show "\<exists>s'. sy_stopping s \<and> pool_step cset s s'" using stopping_progress by blast
qed

text \<open>
  C16: \<open>Stop\<close> returns. While it waits, some goroutine can always take a step, and every run of steps during the wait
  is at most \<open>stop_measure\<close> long (jobs that wait, jobs in work, workers, results, collectors), so \<open>wg.Wait\<close>
  comes to an end in every schedule; the collector, which needs the lock that \<open>Stop\<close> holds, cannot block the
  workers.
\<close>

theorem stop_returns:
  assumes "pool_reach cset (new_system n c) s" and "sy_starts s \<le> 1" and "sy_stopping s"
  shows "(\<exists>s'. pool_step cset s s') \<and> (\<exists>s'. (pool_step cset)\<^sup>*\<^sup>* s s' \<and> \<not> sy_stopping s') \<and>
    (\<forall>f m. f 0 = s \<and> (\<forall>i < m. sy_stopping (f i) \<and> pool_step cset (f i) (f (Suc i))) \<longrightarrow> m \<le> stop_measure s)"
proof (intro conjI allI impI)
  have i: "pool_inv s \<and> sy_starts s \<le> 1" using pool_reach_inv [OF assms(1,2)] assms(2) by blast
  show "\<exists>s'. pool_step cset s s'" using stopping_progress i assms(3) by blast
  obtain s' where s': "(\<lambda>s s'. sy_stopping s \<and> pool_step cset s s')\<^sup>*\<^sup>* s s'" "\<not> sy_stopping s'"
    using stopping.reaches_final [OF i, where cset = cset] by blast
  have "(pool_step cset)\<^sup>*\<^sup>* s s'" by (rule mono_rtranclp [rule_format, OF _ s'(1)]) (rule conjunct2)
  then show "\<exists>s'. (pool_step cset)\<^sup>*\<^sup>* s s' \<and> \<not> sy_stopping s'" using s'(2) by blast
  fix f m assume f: "f 0 = s \<and> (\<forall>i < m. sy_stopping (f i) \<and> pool_step cset (f i) (f (Suc i)))"
  have "m + stop_measure (f m) \<le> stop_measure (f 0)"
    by (rule stopping.run_is_short [where cset = cset]) (use f i in simp_all)
  then show "m \<le> stop_measure s" using f by simp
qed

section \<open>The second life\<close>

text \<open>
  A pool that was stopped cannot be started again: \<open>Start\<close> keeps the closed channel, so the next
  \<open>SubmitJob\<close> may panic (send on a closed channel) and the next \<open>Stop\<close> does (close of a closed channel).
\<close>

theorem restarted_pool_panics:
  assumes "\<not> wp_running (sy_pool s)" and "wp_jobClosed (sy_pool s)"
  shows "(\<exists>p. (SubmitPanic, p) \<in> set (SubmitJob job (sy_pool (wp_Start s)))) \<and>
    sy_panicked (wp_Stop_begin (wp_Start s))"
  using assms by (auto simp: SubmitJob_def wp_Start_def wp_Stop_begin_def)

definition no_workers :: "('v, 'e, 'c) pool_system \<Rightarrow> bool" where
  "no_workers s \<longleftrightarrow> sy_idle s = 0 \<and> sy_busy s = {#}"

lemma no_workers_step:
  assumes "pool_step cset s s'" and "no_workers s" and "sy_starts s' = sy_starts s"
  shows "no_workers s' \<and> sy_done s' = sy_done s"
  using assms
  by cases (auto simp: no_workers_def wp_Start_def wp_Stop_begin_def wp_Stop_end_def split: if_splits)

lemma starts_reach_mono: "pool_reach cset s s' \<Longrightarrow> sy_starts s \<le> sy_starts s'"
  by (induction rule: pool_reach.induct) (use starts_mono le_trans in blast)+

lemma no_workers_reach:
  assumes "pool_reach cset s s'" and "no_workers s" and "sy_starts s' = sy_starts s"
  shows "no_workers s' \<and> sy_done s' = sy_done s"
  using assms
proof (induction rule: pool_reach.induct)
  case (step s1 s2)
  have "sy_starts s \<le> sy_starts s1" "sy_starts s1 \<le> sy_starts s2"
    using starts_reach_mono [OF step(1)] starts_mono [OF step(2)] by simp_all
  then have "sy_starts s1 = sy_starts s" "sy_starts s2 = sy_starts s1" using step.prems(2) by simp_all
  then show ?case using step.IH [OF step.prems(1)] no_workers_step [OF step(2)] by metis
qed simp

text \<open>
  \<open>Resize\<close> of a running pool breaks it. Its \<open>Stop\<close> cancels the context and nothing renews it, so the
  new workers may leave at once: for every job there is a run after which the pool is running, has
  accepted the job and still accepts more, and no step before the next start of workers processes it.
\<close>

theorem resized_pool_stalls:
  fixes cset :: "string \<Rightarrow> 'v \<Rightarrow> duration \<Rightarrow> 'c \<Rightarrow> 'e option \<times> 'c" and c :: 'c and job :: "'v warmup_job"
  shows "\<exists>s. pool_reach cset (new_system 1 c) s \<and> wp_running (sy_pool s) \<and> job \<in># sy_accepted s \<and> sy_done s = {#} \<and>
     (\<exists>p. (Submitted True, p) \<in> set (SubmitJob job (sy_pool s))) \<and>
     (\<forall>s'. pool_reach cset s s' \<longrightarrow> sy_starts s' = sy_starts s \<longrightarrow> sy_done s' = {#})"
proof -
  let ?s0 = "new_system 1 c :: ('v, 'e, 'c) pool_system" let ?s1 = "wp_Start ?s0" let ?s2 = "wp_Stop_begin ?s1"
  let ?s3 = "?s2\<lparr>sy_idle := sy_idle ?s2 - 1\<rparr>" let ?s4 = "wp_Stop_end ?s3"
  let ?s5 = "?s4\<lparr>sy_pool := wp_Resize_channels 1 (sy_pool ?s4)\<rparr>" let ?s6 = "wp_Start ?s5"
  let ?p = "(sy_pool ?s6)\<lparr>wp_jobCh := wp_jobCh (sy_pool ?s6) @ [job]\<rparr>"
  let ?s7 = "?s6\<lparr>sy_pool := ?p, sy_accepted := (if True then add_mset job (sy_accepted ?s6) else sy_accepted ?s6)\<rparr>"
  let ?s8 = "?s7\<lparr>sy_idle := sy_idle ?s7 - 1\<rparr>"
  note defs = new_system_def NewWorkerPool_def wp_Start_def wp_Stop_begin_def wp_Stop_end_def wp_Resize_channels_def
  have "pool_reach cset ?s0 ?s1" by (rule pool_reach.step [OF pool_reach.init pool_step.start]) (simp add: defs)
  then have "pool_reach cset ?s0 ?s2" by (rule pool_reach.step [OF _ pool_step.stop]) (simp add: defs)
  then have "pool_reach cset ?s0 ?s3" by (rule pool_reach.step [OF _ pool_step.leave]) (simp_all add: defs)
  then have "pool_reach cset ?s0 ?s4" by (rule pool_reach.step [OF _ pool_step.stopped]) (simp_all add: defs)
  then have "pool_reach cset ?s0 ?s5" by (rule pool_reach.step [OF _ pool_step.resize]) (simp_all add: defs)
  then have "pool_reach cset ?s0 ?s6" by (rule pool_reach.step [OF _ pool_step.start]) (simp add: defs)
  then have "pool_reach cset ?s0 ?s7"
    by (rule pool_reach.step [OF _ pool_step.submit [where job = job]]) (simp_all add: defs SubmitJob_def)
  then have r: "pool_reach cset ?s0 ?s8" by (rule pool_reach.step [OF _ pool_step.leave]) (simp_all add: defs)
  have "no_workers ?s8" "sy_done ?s8 = {#}" by (simp_all add: no_workers_def defs)
  then have "\<forall>s'. pool_reach cset ?s8 s' \<longrightarrow> sy_starts s' = sy_starts ?s8 \<longrightarrow> sy_done s' = {#}"
    using no_workers_reach by metis
  moreover have "wp_running (sy_pool ?s8) \<and> job \<in># sy_accepted ?s8 \<and> sy_done ?s8 = {#}" by (simp add: defs)
  moreover have "\<exists>p. (Submitted True, p) \<in> set (SubmitJob job (sy_pool ?s8))" by (simp add: defs SubmitJob_def)
  ultimately show ?thesis using r by blast
qed

section \<open>A concrete run\<close>

definition ex_cset :: "string \<Rightarrow> nat \<Rightarrow> duration \<Rightarrow> (string \<rightharpoonup> nat) \<Rightarrow> unit option \<times> (string \<rightharpoonup> nat)" where
  "ex_cset k v ttl c = (None, c(k \<mapsto> v))"

definition ex_job :: "nat warmup_job" where
  "ex_job = \<lparr>wj_Key = ''k'', wj_Data = 7, wj_TTL = minute, wj_Priority = 1\<rparr>"

text \<open>One worker; a job is accepted, \<open>Stop\<close> begins, the worker takes the job, finishes it and leaves.\<close>

definition ex_stopping :: "(nat, unit, string \<rightharpoonup> nat) pool_system" where
  "ex_stopping = (let s = wp_Start (new_system 1 Map.empty)
     in wp_Stop_begin (s\<lparr>sy_pool := (sy_pool s)\<lparr>wp_jobCh := [ex_job]\<rparr>, sy_accepted := {#ex_job#}\<rparr>))"

lemmas ex_pool_defs = new_system_def NewWorkerPool_def wp_Start_def wp_Stop_begin_def wp_Stop_end_def

lemma ex_stopping_reach: "pool_reach ex_cset (new_system 1 Map.empty) ex_stopping"
proof -
  let ?s0 = "new_system 1 Map.empty :: (nat, unit, string \<rightharpoonup> nat) pool_system" let ?s1 = "wp_Start ?s0"
  let ?p = "(sy_pool ?s1)\<lparr>wp_jobCh := wp_jobCh (sy_pool ?s1) @ [ex_job]\<rparr>"
  let ?s2 = "?s1\<lparr>sy_pool := ?p, sy_accepted := (if True then add_mset ex_job (sy_accepted ?s1) else sy_accepted ?s1)\<rparr>"
  have "pool_reach ex_cset ?s0 ?s1" by (rule pool_reach.step [OF pool_reach.init pool_step.start]) (simp add: ex_pool_defs)
  then have "pool_reach ex_cset ?s0 ?s2"
    by (rule pool_reach.step [OF _ pool_step.submit [where job = ex_job]]) (simp_all add: ex_pool_defs SubmitJob_def)
  then have "pool_reach ex_cset ?s0 (wp_Stop_begin ?s2)" by (rule pool_reach.step [OF _ pool_step.stop]) (simp add: ex_pool_defs)
  moreover have "wp_Stop_begin ?s2 = ex_stopping" by (simp add: ex_stopping_def ex_pool_defs)
  ultimately show ?thesis by simp
qed

lemma ex_stopping_simps:
  "sy_stopping ex_stopping" "sy_starts ex_stopping = 1" "sy_idle ex_stopping = 1" "sy_busy ex_stopping = {#}"
  "wp_jobCh (sy_pool ex_stopping) = [ex_job]" "sy_accepted ex_stopping = {#ex_job#}"
  by (simp_all add: ex_stopping_def ex_pool_defs)

theorem accepted_jobs_are_processed_witness:
  "sy_accepted ex_stopping = sy_done ex_stopping + sy_busy ex_stopping + {#ex_job#} \<and> \<not> sy_panicked ex_stopping"
  using accepted_jobs_are_processed [OF ex_stopping_reach] by (simp add: ex_stopping_simps)

theorem stop_returns_witness:
  "\<exists>s'. (pool_step ex_cset)\<^sup>*\<^sup>* ex_stopping s' \<and> \<not> sy_stopping s'"
  using stop_returns [OF ex_stopping_reach] by (simp add: ex_stopping_simps)

theorem pool_refines_job_bag_witness:
  "\<exists>js. {#ex_job#} = {#ex_job#} + mset js \<and> sy_cache ex_stopping = foldl (\<lambda>c job. set_job ex_cset job c) Map.empty js"
  using pool_refines_job_bag [OF ex_stopping_reach] by (simp add: ex_stopping_simps)

theorem restarted_pool_panics_witness:
  "sy_panicked (wp_Stop_begin (wp_Start (wp_Stop_begin (wp_Start (new_system 2 (Map.empty :: string \<rightharpoonup> nat) :: (nat, unit, string \<rightharpoonup> nat) pool_system)))))"
  by (rule restarted_pool_panics [THEN conjunct2]) (simp_all add: ex_pool_defs)

end
