(* ===== verification/JobScheduler.thy ===== *)
theory JobScheduler
  imports WorkerPool "HOL-Library.AList"
begin

text \<open>
  The job scheduler (\<^verbatim>\<open>backend/internal/cache/job_scheduler.go\<close>): a queue of warm-up jobs and triggers
  that, when one fires, hand a batch of the most urgent jobs to the worker pool. A trigger's condition
  reads the world \<open>'w\<close>. The scheduler's queue is used through \<open>job_queue_spec\<close>, its pool through the
  operations of \<^verbatim>\<open>WorkerPool\<close>; a nil pool is \<open>None\<close>.
\<close>

section \<open>Data\<close>

record 'w schedule_trigger =
  st_Type :: string
  st_Interval :: duration
  st_Condition :: "('w \<Rightarrow> bool) option"

record ('w, 'v) job_scheduler =
  js_queue :: "'v priority_queue"
  js_triggers :: "(string \<times> 'w schedule_trigger) list"
  js_running :: bool
  js_cancelled :: bool
  js_lastRun :: "instant option"
  js_nextRun :: "instant option"
  js_runCount :: int64

text \<open>The zero \<open>time.Time\<close> is \<open>None\<close>; any instant is further from it than \<open>Sub\<close> can express.\<close>

definition since_run :: "instant \<Rightarrow> instant option \<Rightarrow> duration" where
  "since_run now lr = (case lr of None \<Rightarrow> max_duration | Some t \<Rightarrow> time_sub now t)"

section \<open>The operations\<close>

definition NewJobScheduler :: "('w, 'v) job_scheduler" where
  "NewJobScheduler = \<lparr>js_queue = NewPriorityQueue, js_triggers = [], js_running = False, js_cancelled = False,
     js_lastRun = None, js_nextRun = None, js_runCount = 0\<rparr>"

definition AddIntervalTrigger ::
  "string \<Rightarrow> duration \<Rightarrow> ('w \<Rightarrow> bool) option \<Rightarrow> ('w, 'v) job_scheduler \<Rightarrow> ('w, 'v) job_scheduler" where
  "AddIntervalTrigger name interval condition js = js\<lparr>js_triggers := AList.update name
     \<lparr>st_Type = ''interval'', st_Interval = interval, st_Condition = condition\<rparr> (js_triggers js)\<rparr>"

definition AddEventTrigger ::
  "string \<Rightarrow> ('w \<Rightarrow> bool) option \<Rightarrow> ('w, 'v) job_scheduler \<Rightarrow> ('w, 'v) job_scheduler" where
  "AddEventTrigger name condition js = js\<lparr>js_triggers := AList.update name
     \<lparr>st_Type = ''event'', st_Interval = 0, st_Condition = condition\<rparr> (js_triggers js)\<rparr>"

definition RemoveTrigger :: "string \<Rightarrow> ('w, 'v) job_scheduler \<Rightarrow> ('w, 'v) job_scheduler" where
  "RemoveTrigger name js = js\<lparr>js_triggers := AList.delete name (js_triggers js)\<rparr>"

definition ScheduleJob :: "'v warmup_job \<Rightarrow> ('w, 'v) job_scheduler \<Rightarrow> ('w, 'v) job_scheduler" where
  "ScheduleJob job js = js\<lparr>js_queue := pq_Push (js_queue js) job\<rparr>"

primrec ScheduleJobs :: "'v warmup_job list \<Rightarrow> ('w, 'v) job_scheduler \<Rightarrow> ('w, 'v) job_scheduler" where
  "ScheduleJobs [] js = js"
| "ScheduleJobs (job # jobs) js = ScheduleJobs jobs (ScheduleJob job js)"

text \<open>\<open>Start\<close> and whether it starts a loop.\<close>

definition js_Start :: "instant \<Rightarrow> ('w, 'v) job_scheduler \<Rightarrow> bool \<times> ('w, 'v) job_scheduler" where
  "js_Start now js =
     (if js_running js then (False, js) else (True, js\<lparr>js_running := True, js_lastRun := Some now\<rparr>))"

definition js_Stop :: "('w, 'v) job_scheduler \<Rightarrow> ('w, 'v) job_scheduler" where
  "js_Stop js = (if \<not> js_running js then js else js\<lparr>js_running := False, js_cancelled := True\<rparr>)"

definition extractJobsBatch ::
  "('v, 'e) worker_pool option \<Rightarrow> ('w, 'v) job_scheduler \<Rightarrow> 'v warmup_job list \<times> ('w, 'v) job_scheduler" where
  "extractJobsBatch wp js =
     (let batchSize = (case wp of None \<Rightarrow> 10 | Some p \<Rightarrow> ps_queue_capacity (wp_GetStats p));
          (jobs, q) = pop_loop pq_Empty pq_Pop batchSize (js_queue js)
      in (jobs, js\<lparr>js_queue := q\<rparr>))"

text \<open>
  The outcomes of \<open>ProcessScheduledJobs\<close>, one for each way the sends of \<open>SubmitJobs\<close> can go; no result is a
  panic (a nil pool, or a closed channel).
\<close>

definition ProcessScheduledJobs ::
  "instant \<Rightarrow> ('v, 'e) worker_pool option \<Rightarrow> ('w, 'v) job_scheduler \<Rightarrow>
   (int option \<times> ('v, 'e) worker_pool option \<times> ('w, 'v) job_scheduler) list" where
  "ProcessScheduledJobs now wp js =
     (if pq_Empty (js_queue js) then [(Some 0, wp, js)]
      else let (jobs, js1) = extractJobsBatch wp js
           in if length jobs > 0
              then case wp of
                     None \<Rightarrow> [(None, wp, js1)]
                   | Some p \<Rightarrow> map (\<lambda>(submitted, p').
                       case submitted of
                         None \<Rightarrow> (None, Some p', js1)
                       | Some n \<Rightarrow> (Some n, Some p', js1\<lparr>js_runCount := js_runCount js1 + 1, js_lastRun := Some now\<rparr>))
                       (SubmitJobs jobs 0 p)
              else [(Some 0, wp, js1)])"

definition trigger_fires :: "instant \<Rightarrow> 'w \<Rightarrow> instant option \<Rightarrow> 'w schedule_trigger \<Rightarrow> bool" where
  "trigger_fires now w lr trigger =
     (if st_Type trigger = ''interval''
        then st_Interval trigger > 0 \<and> since_run now lr \<ge> st_Interval trigger \<and>
             (case st_Condition trigger of None \<Rightarrow> True | Some condition \<Rightarrow> condition w)
      else if st_Type trigger = ''event''
        then (case st_Condition trigger of None \<Rightarrow> False | Some condition \<Rightarrow> condition w)
      else False)"

text \<open>
  \<open>checkTriggers\<close> at \<open>now\<close>; a batch it starts is recorded at \<open>now'\<close>. The order in which Go visits the map
  only decides the name in the log.
\<close>

definition checkTriggers ::
  "instant \<Rightarrow> instant \<Rightarrow> 'w \<Rightarrow> ('v, 'e) worker_pool option \<Rightarrow> ('w, 'v) job_scheduler \<Rightarrow>
   (int option \<times> ('v, 'e) worker_pool option \<times> ('w, 'v) job_scheduler) list" where
  "checkTriggers now now' w wp js =
     (if \<not> js_running js then [(Some 0, wp, js)]
      else let shouldRun = list_ex (\<lambda>(name, trigger). trigger_fires now w (js_lastRun js) trigger) (js_triggers js)
           in if shouldRun then ProcessScheduledJobs now' wp js else [(Some 0, wp, js)])"

text \<open>One turn of \<open>schedulerLoop\<close> when the ticker is due: a check, or the end of the loop.\<close>

datatype 'x loop_turn = Ticked 'x | Left

definition schedulerLoop_turn ::
  "instant \<Rightarrow> instant \<Rightarrow> 'w \<Rightarrow> ('v, 'e) worker_pool option \<Rightarrow> ('w, 'v) job_scheduler \<Rightarrow>
   (int option \<times> ('v, 'e) worker_pool option \<times> ('w, 'v) job_scheduler) loop_turn list" where
  "schedulerLoop_turn now now' w wp js =
     map Ticked (checkTriggers now now' w wp js) @ (if js_cancelled js then [Left] else [])"

record scheduler_stats =
  ss_running :: bool
  ss_trigger_count :: nat
  ss_queue_length :: nat
  ss_last_run :: "instant option"
  ss_run_count :: int64
  ss_next_run :: "instant option"

definition js_GetStats :: "('w, 'v) job_scheduler \<Rightarrow> scheduler_stats" where
  "js_GetStats js = \<lparr>ss_running = js_running js, ss_trigger_count = length (js_triggers js),
     ss_queue_length = pq_Len (js_queue js), ss_last_run = js_lastRun js, ss_run_count = js_runCount js,
     ss_next_run = js_nextRun js\<rparr>"

definition GetTriggers :: "('w, 'v) job_scheduler \<Rightarrow> (string \<times> 'w schedule_trigger) list" where
  "GetTriggers js = js_triggers js"

definition js_IsRunning :: "('w, 'v) job_scheduler \<Rightarrow> bool" where
  "js_IsRunning js = js_running js"

definition ClearQueue :: "('w, 'v) job_scheduler \<Rightarrow> ('w, 'v) job_scheduler" where
  "ClearQueue js = js\<lparr>js_queue := pq_Clear (js_queue js)\<rparr>"

section \<open>A healthy pool\<close>

definition healthy_pool :: "('v, 'e) worker_pool \<Rightarrow> bool" where
  "healthy_pool p \<longleftrightarrow> wp_running p \<and> \<not> wp_jobClosed p \<and> \<not> wp_cancelled p"

definition pool_room :: "('v, 'e) worker_pool \<Rightarrow> nat" where
  "pool_room p = wp_jobCap p - length (wp_jobCh p)"

lemma SubmitJob_healthy:
  "healthy_pool p \<Longrightarrow> SubmitJob job p =
     [if pool_room p > 0 then (Submitted True, p\<lparr>wp_jobCh := wp_jobCh p @ [job]\<rparr>) else (Submitted False, p)]"
  by (simp add: SubmitJob_def healthy_pool_def pool_room_def)

lemma healthy_enqueue [simp]: "healthy_pool (p\<lparr>wp_jobCh := js\<rparr>) = healthy_pool p"
  by (simp add: healthy_pool_def)

lemma SubmitJobs_healthy:
  "healthy_pool p \<Longrightarrow> SubmitJobs jobs n p =
     [(Some (n + int (length (take (pool_room p) jobs))), p\<lparr>wp_jobCh := wp_jobCh p @ take (pool_room p) jobs\<rparr>)]"
proof (induction jobs arbitrary: n p)
  case (Cons job jobs)
  show ?case
  proof (cases "pool_room p")
    case 0
    then show ?thesis using Cons by (simp add: SubmitJob_healthy)
  next
    case (Suc k)
    have "pool_room (p\<lparr>wp_jobCh := wp_jobCh p @ [job]\<rparr>) = k" using Suc by (simp add: pool_room_def)
    then show ?thesis using Cons.IH [of "p\<lparr>wp_jobCh := wp_jobCh p @ [job]\<rparr>" "n + 1"] Cons.prems Suc
      by (simp add: SubmitJob_healthy)
  qed
qed simp

section \<open>What a batch does\<close>

lemma extract_correct:
  assumes "pq_inv (js_queue js)"
  obtains jobs q where "extractJobsBatch (Some p) js = (jobs, js\<lparr>js_queue := q\<rparr>)"
    and "pq_inv q" and "pq_bag (js_queue js) = mset jobs + pq_bag q"
    and "length jobs = min (wp_jobCap p) (pq_Len (js_queue js))"
    and "sorted_wrt (\<lambda>x y. wj_Priority y \<le> wj_Priority x) jobs"
    and "\<forall>x \<in> set jobs. \<forall>y \<in># pq_bag q. wj_Priority y \<le> wj_Priority x"
proof -
  obtain jobs q where q: "pop_loop pq_Empty pq_Pop (wp_jobCap p) (js_queue js) = (jobs, q)" by fastforce
  then have "extractJobsBatch (Some p) js = (jobs, js\<lparr>js_queue := q\<rparr>)"
    by (simp add: extractJobsBatch_def wp_GetStats_def)
  then show thesis using that pq.pop_loop_correct [OF assms q] unfolding pq_Len_bag by blast
qed

lemma batch_on_healthy_pool:
  assumes "pq_inv (js_queue js)" and "\<not> pq_Empty (js_queue js)" and "healthy_pool p" and "wp_jobCap p > 0"
  shows "\<exists>jobs q. ProcessScheduledJobs now (Some p) js =
      [(Some (int (min (pool_room p) (length jobs))), Some (p\<lparr>wp_jobCh := wp_jobCh p @ take (pool_room p) jobs\<rparr>),
        js\<lparr>js_queue := q, js_runCount := js_runCount js + 1, js_lastRun := Some now\<rparr>)] \<and>
    pq_inv q \<and> pq_bag (js_queue js) = mset jobs + pq_bag q \<and> length jobs = min (wp_jobCap p) (pq_Len (js_queue js)) \<and>
    sorted_wrt (\<lambda>x y. wj_Priority y \<le> wj_Priority x) jobs \<and>
    (\<forall>x \<in> set jobs. \<forall>y \<in># pq_bag q. wj_Priority y \<le> wj_Priority x)"
proof -
  obtain jobs q where e: "extractJobsBatch (Some p) js = (jobs, js\<lparr>js_queue := q\<rparr>)"
    and r: "pq_inv q" "pq_bag (js_queue js) = mset jobs + pq_bag q" "length jobs = min (wp_jobCap p) (pq_Len (js_queue js))"
      "sorted_wrt (\<lambda>x y. wj_Priority y \<le> wj_Priority x) jobs"
      "\<forall>x \<in> set jobs. \<forall>y \<in># pq_bag q. wj_Priority y \<le> wj_Priority x"
    by (rule extract_correct [OF assms(1)])
  have "jobs \<noteq> []" using r(3) assms(2,4) by (auto simp: pq_Empty_def)
  then have "ProcessScheduledJobs now (Some p) js =
      [(Some (int (min (pool_room p) (length jobs))), Some (p\<lparr>wp_jobCh := wp_jobCh p @ take (pool_room p) jobs\<rparr>),
        js\<lparr>js_queue := q, js_runCount := js_runCount js + 1, js_lastRun := Some now\<rparr>)]"
    using assms(2) by (simp add: ProcessScheduledJobs_def e SubmitJobs_healthy [OF assms(3)] min.commute)
  then show ?thesis using r by (intro exI [of _ jobs] exI [of _ q] conjI)
qed

text \<open>
  A batch on a running pool, while no worker takes a job: the scheduler takes the most urgent jobs
  of its queue, as many as the pool's channel has places, free or not, and sends them in order of
  priority. Those that find a free place are waiting in the pool and are counted; the others are in no
  queue any more: they are lost.
\<close>

theorem batch_takes_most_urgent:
  assumes "pq_inv (js_queue js)" and "\<not> pq_Empty (js_queue js)" and "healthy_pool p" and "wp_jobCap p > 0"
  shows "\<exists>jobs q. ProcessScheduledJobs now (Some p) js =
      [(Some (int (min (pool_room p) (length jobs))), Some (p\<lparr>wp_jobCh := wp_jobCh p @ take (pool_room p) jobs\<rparr>),
        js\<lparr>js_queue := q, js_runCount := js_runCount js + 1, js_lastRun := Some now\<rparr>)] \<and>
    pq_inv q \<and> pq_bag (js_queue js) = mset jobs + pq_bag q \<and> length jobs = min (wp_jobCap p) (pq_Len (js_queue js)) \<and>
    sorted_wrt (\<lambda>x y. wj_Priority y \<le> wj_Priority x) jobs \<and>
    (\<forall>x \<in> set jobs. \<forall>y \<in># pq_bag q. wj_Priority y \<le> wj_Priority x)"
  by (rule batch_on_healthy_pool [OF assms])

section \<open>How often batches run\<close>

lemma process_run:
  "(n, wp', js') \<in> set (ProcessScheduledJobs now wp js) \<Longrightarrow>
     js_triggers js' = js_triggers js \<and>
     (js_runCount js' = js_runCount js \<and> js_lastRun js' = js_lastRun js \<or>
      js_runCount js' \<noteq> js_runCount js \<and> js_lastRun js' = Some now)"
  by (auto simp: ProcessScheduledJobs_def extractJobsBatch_def Let_def split: if_splits prod.splits option.splits)

lemma check_run:
  assumes "(n, wp', js') \<in> set (checkTriggers now now' w wp js)"
  shows "js_triggers js' = js_triggers js \<and>
    (js_runCount js' = js_runCount js \<and> js_lastRun js' = js_lastRun js \<or>
     js_runCount js' \<noteq> js_runCount js \<and> js_lastRun js' = Some now' \<and> (\<exists>t \<in> snd ` set (js_triggers js). trigger_fires now w (js_lastRun js) t))"
proof (cases "js_running js \<and> list_ex (\<lambda>(name, t). trigger_fires now w (js_lastRun js) t) (js_triggers js)")
  case True
  then have "(n, wp', js') \<in> set (ProcessScheduledJobs now' wp js)" using assms by (simp add: checkTriggers_def)
  moreover have "\<exists>t \<in> snd ` set (js_triggers js). trigger_fires now w (js_lastRun js) t"
    using True by (force simp: list_ex_iff)
  ultimately show ?thesis using process_run by blast
next
  case False
  then show ?thesis using assms by (auto simp: checkTriggers_def Let_def split: if_splits)
qed

text \<open>
  The life of a started scheduler: ticks of its loop with any clock, conditions and pool, and the client's
  calls. The list records when batches ran.
\<close>

inductive sched_life :: "('w, 'v) job_scheduler \<Rightarrow> instant list \<Rightarrow> ('w, 'v) job_scheduler \<Rightarrow> bool" for js0 where
  started: "sched_life js0 [] js0"
| tick: "sched_life js0 runs js \<Longrightarrow> now \<le> now' \<Longrightarrow> (n, wp', js') \<in> set (checkTriggers now now' w (wp :: ('v, string) worker_pool option) js) \<Longrightarrow>
    sched_life js0 (if js_runCount js' = js_runCount js then runs else runs @ [now']) js'"
| schedule: "sched_life js0 runs js \<Longrightarrow> sched_life js0 runs (ScheduleJobs jobs js)"
| clear: "sched_life js0 runs js \<Longrightarrow> sched_life js0 runs (ClearQueue js)"
| stop: "sched_life js0 runs js \<Longrightarrow> sched_life js0 runs (js_Stop js)"

definition interval_triggers :: "duration \<Rightarrow> ('w, 'v) job_scheduler \<Rightarrow> bool" where
  "interval_triggers d js \<longleftrightarrow> (\<forall>t \<in> snd ` set (js_triggers js). st_Type t = ''interval'' \<and> d \<le> st_Interval t)"

definition gaps_of :: "duration \<Rightarrow> instant list \<Rightarrow> bool" where
  "gaps_of d ts \<longleftrightarrow> (\<forall>i. Suc i < length ts \<longrightarrow> ts ! i + d \<le> ts ! Suc i)"

lemma gaps_snoc: "gaps_of d (ts @ [t]) \<longleftrightarrow> gaps_of d ts \<and> (ts \<noteq> [] \<longrightarrow> last ts + d \<le> t)"
  by (cases ts rule: rev_cases) (auto simp: gaps_of_def nth_append less_Suc_eq)

lemma ScheduleJobs_frame [simp]:
  "js_triggers (ScheduleJobs jobs js) = js_triggers js" "js_lastRun (ScheduleJobs jobs js) = js_lastRun js"
  by (induction jobs arbitrary: js) (simp_all add: ScheduleJob_def)

lemma fires_after:
  assumes "trigger_fires now w (Some t) g" and "st_Type g = ''interval''" and "d \<le> st_Interval g" and "0 \<le> d"
  shows "t + d \<le> now"
proof -
  have "d \<le> time_sub now t" using assms by (auto simp: trigger_fires_def since_run_def split: if_splits)
  then show ?thesis using assms(4) by (auto simp: time_sub_def max_duration_def min_def max_def split: if_splits)
qed

text \<open>
  With interval triggers only, no two batches run closer together than the shortest interval, and
  none within that time after \<open>Start\<close>, whatever the clock, the conditions, the pool and the jobs.
\<close>

theorem batches_keep_their_interval:
  assumes "\<not> js_running js" and "interval_triggers d js" and "0 \<le> d" and "sched_life (snd (js_Start t0 js)) runs js'"
  shows "gaps_of d (t0 # runs)"
proof -
  have "gaps_of d (t0 # runs) \<and> js_lastRun js' = Some (last (t0 # runs)) \<and> interval_triggers d js'" using assms(4)
  proof (induction rule: sched_life.induct)
    case started
    then show ?case using assms(1,2) by (auto simp: js_Start_def gaps_of_def interval_triggers_def)
  next
    case (tick runs js now now' n wp' js' w wp)
    show ?case
    proof (cases "js_runCount js' = js_runCount js")
      case True
      then show ?thesis using tick check_run [OF tick(3)] by (simp add: interval_triggers_def)
    next
      case False
      then obtain g where g: "g \<in> snd ` set (js_triggers js)" "trigger_fires now w (js_lastRun js) g"
          "js_lastRun js' = Some now'" "js_triggers js' = js_triggers js" "js_runCount js' \<noteq> js_runCount js"
        using check_run [OF tick(3)] by blast
      then have "last (t0 # runs) + d \<le> now"
        using fires_after [of now w _ g d] tick.IH assms(3) by (auto simp: interval_triggers_def)
      then show ?thesis using tick(2) tick.IH g gaps_snoc [of d "t0 # runs" now'] by (auto simp: interval_triggers_def)
    qed
  qed (auto simp: interval_triggers_def ClearQueue_def js_Stop_def)
  then show ?thesis by blast
qed

section \<open>A concrete scheduler\<close>

definition ex_sjob :: "string \<Rightarrow> int \<Rightarrow> nat warmup_job" where
  "ex_sjob k prio = \<lparr>wj_Key = k, wj_Data = 0, wj_TTL = minute, wj_Priority = prio\<rparr>"

definition ex_sched :: "(unit, nat) job_scheduler" where
  "ex_sched = ScheduleJobs [ex_sjob ''a'' 1, ex_sjob ''b'' 3, ex_sjob ''c'' 2]
     (AddIntervalTrigger ''default'' minute None NewJobScheduler)"

text \<open>One worker, two places in the channel, one of them taken.\<close>

definition ex_spool :: "(nat, string) worker_pool" where
  "ex_spool = (NewWorkerPool 1)\<lparr>wp_running := True, wp_jobCh := [ex_sjob ''x'' 0]\<rparr>"

lemma ScheduleJobs_queue: "js_queue (ScheduleJobs jobs js) = foldl pq_Push (js_queue js) jobs"
  by (induction jobs arbitrary: js) (simp_all add: ScheduleJob_def)

lemma ex_sched_queue: "pq_inv (js_queue ex_sched)" "pq_Len (js_queue ex_sched) = 3"
  using pq.push_all [OF pq_New_inv, of "[ex_sjob ''a'' 1, ex_sjob ''b'' 3, ex_sjob ''c'' 2]"]
  by (simp_all add: ex_sched_def ScheduleJobs_queue AddIntervalTrigger_def NewJobScheduler_def pq_Len_bag pq_New_bag
      del: foldl_Cons ScheduleJobs.simps)

lemma ex_spool_simps:
  "healthy_pool ex_spool" "wp_jobCap ex_spool = 2" "pool_room ex_spool = 1" "wp_jobCh ex_spool = [ex_sjob ''x'' 0]"
  by (simp_all add: ex_spool_def NewWorkerPool_def healthy_pool_def pool_room_def)

theorem batch_takes_most_urgent_witness:
  "\<exists>p' js'. ProcessScheduledJobs 0 (Some ex_spool) ex_sched = [(Some 1, Some p', js')] \<and>
     length (wp_jobCh p') = 2 \<and> pq_Len (js_queue js') = 1"
proof -
  obtain jobs q where r: "ProcessScheduledJobs 0 (Some ex_spool) ex_sched =
      [(Some (int (min 1 (length jobs))), Some (ex_spool\<lparr>wp_jobCh := [ex_sjob ''x'' 0] @ take 1 jobs\<rparr>),
        ex_sched\<lparr>js_queue := q, js_runCount := js_runCount ex_sched + 1, js_lastRun := Some 0\<rparr>)]"
      "pq_bag (js_queue ex_sched) = mset jobs + pq_bag q" "length jobs = 2"
    using batch_takes_most_urgent [of ex_sched ex_spool 0] ex_sched_queue by (auto simp: pq_Empty_def ex_spool_simps)
  moreover have "pq_Len q = 1"
    using arg_cong [OF r(2), of size] r(3) ex_sched_queue(2) by (simp add: pq_Len_bag)
  ultimately show ?thesis by simp
qed

theorem batches_keep_their_interval_witness:
  "gaps_of minute [0, 90 * second]"
proof -
  let ?js = "snd (js_Start 0 ex_sched)"
  have t: "js_triggers ex_sched = [(''default'', \<lparr>st_Type = ''interval'', st_Interval = minute, st_Condition = None\<rparr>)]"
      "\<not> js_running ex_sched"
    by (simp_all add: ex_sched_def ScheduleJob_def AddIntervalTrigger_def NewJobScheduler_def)
  then have js: "?js = ex_sched\<lparr>js_running := True, js_lastRun := Some 0\<rparr>" by (simp add: js_Start_def)
  then have q: "pq_inv (js_queue ?js)" "\<not> pq_Empty (js_queue ?js)" using ex_sched_queue by (simp_all add: pq_Empty_def)
  obtain n p' js' where r: "ProcessScheduledJobs (90 * second) (Some ex_spool) ?js = [(n, p', js')]"
      "js_runCount js' = js_runCount ?js + 1"
    using batch_on_healthy_pool [OF q ex_spool_simps(1), of "90 * second"] by (auto simp: ex_spool_simps)
  have "checkTriggers (90 * second) (90 * second) () (Some ex_spool) ?js = [(n, p', js')]"
    using r(1) by (simp add: checkTriggers_def js t trigger_fires_def since_run_def time_sub_def max_duration_def dur_defs)
  then have "sched_life ?js (if js_runCount js' = js_runCount ?js then [] else [] @ [90 * second]) js'"
    by (intro sched_life.tick [OF sched_life.started order_refl, where n = n and wp' = p' and w = "()" and wp = "Some ex_spool"]) simp
  then have "sched_life ?js [90 * second] js'" using r(2) by simp
  then show ?thesis
    by (rule batches_keep_their_interval [rotated -1]) (simp_all add: t interval_triggers_def dur_defs)
qed

end
