(* ===== verification/CacheWarmer.thy ===== *)
theory CacheWarmer
  imports JobScheduler
begin

text \<open>
  The cache warmer (\<^verbatim>\<open>backend/internal/cache/warmer.go\<close>) over the worker pool, the scheduler and the
  priority queue. Its constructor, its start and stop and its statistics are functions on a record whose
  pointers are options; the goroutines of \<open>processBatch\<close> are a step relation, and the loop over batches,
  which a batch size of zero never leaves, is a partial function.
\<close>

section \<open>Data\<close>

record ('w, 'v) warmup_strategy =
  ws_Jobs :: "'v warmup_job list"
  ws_BatchSize :: int
  ws_ConcurrentJobs :: int
  ws_WarmupInterval :: duration
  ws_HealthCheckFunc :: "('w \<Rightarrow> bool) option"
  ws_UseWorkerPool :: bool
  ws_UseScheduler :: bool

text \<open>\<open>cw_Health\<close> is the method \<open>Health\<close> of the cache, when it has one; the pool carries the cache it fills.\<close>

record ('w, 'v, 'e, 'c) cache_warmer =
  cw_strategy :: "('w, 'v) warmup_strategy"
  cw_Health :: "('w \<Rightarrow> bool) option"
  cw_running :: bool
  cw_stopClosed :: bool
  cw_panicked :: bool
  cw_workerPool :: "('v, 'e, 'c) pool_system option"
  cw_scheduler :: "('w, 'v) job_scheduler option"
  cw_priorityQueue :: "'v priority_queue option"

section \<open>Construction\<close>

definition default_strategy :: "('w, 'v) warmup_strategy" where
  "default_strategy = \<lparr>ws_Jobs = [], ws_BatchSize = 10, ws_ConcurrentJobs = 3, ws_WarmupInterval = 5 * minute,
     ws_HealthCheckFunc = None, ws_UseWorkerPool = True, ws_UseScheduler = True\<rparr>"

definition shouldWarmup :: "('w, 'v) warmup_strategy \<Rightarrow> ('w \<Rightarrow> bool) option \<Rightarrow> 'w \<Rightarrow> bool" where
  "shouldWarmup strategy health w =
     (case ws_HealthCheckFunc strategy of
        Some f \<Rightarrow> f w
      | None \<Rightarrow> (case health of Some h \<Rightarrow> h w | None \<Rightarrow> True))"

definition NewCacheWarmer ::
  "'c \<Rightarrow> ('w \<Rightarrow> bool) option \<Rightarrow> ('w, 'v) warmup_strategy option \<Rightarrow> ('w, 'v, 'e, 'c) cache_warmer" where
  "NewCacheWarmer cache health strategy0 =
     (let strategy = (case strategy0 of None \<Rightarrow> default_strategy | Some s \<Rightarrow> s);
          pool = (if ws_UseWorkerPool strategy then Some (new_system (ws_ConcurrentJobs strategy) cache) else None);
          sched = (if ws_UseScheduler strategy
                   then Some (if ws_WarmupInterval strategy > 0
                              then AddIntervalTrigger ''default'' (ws_WarmupInterval strategy)
                                     (Some (shouldWarmup strategy health)) NewJobScheduler
                              else NewJobScheduler)
                   else None);
          queue = foldl pq_Push NewPriorityQueue (ws_Jobs strategy)
      in \<lparr>cw_strategy = strategy, cw_Health = health, cw_running = False, cw_stopClosed = False, cw_panicked = False,
          cw_workerPool = pool, cw_scheduler = sched, cw_priorityQueue = Some queue\<rparr>)"

section \<open>Adding jobs\<close>

text \<open>The loop of \<open>AddWarmupJob\<close> for a warmer without a queue: the last element moves up while it is more urgent.\<close>

fun sift_job :: "'v warmup_job list \<Rightarrow> nat \<Rightarrow> 'v warmup_job list" where
  "sift_job jobs 0 = jobs"
| "sift_job jobs (Suc i) =
     (if wj_Priority (jobs ! Suc i) > wj_Priority (jobs ! i) then sift_job (swap_at jobs (Suc i) i) i else jobs)"

definition AddWarmupJob :: "'v warmup_job \<Rightarrow> ('w, 'v, 'e, 'c) cache_warmer \<Rightarrow> ('w, 'v, 'e, 'c) cache_warmer" where
  "AddWarmupJob job cw =
     (let cw1 = (case cw_priorityQueue cw of
                   Some q \<Rightarrow> cw\<lparr>cw_priorityQueue := Some (pq_Push q job)\<rparr>
                 | None \<Rightarrow> let jobs = ws_Jobs (cw_strategy cw) @ [job]
                           in cw\<lparr>cw_strategy := (cw_strategy cw)\<lparr>ws_Jobs := sift_job jobs (length jobs - 1)\<rparr>\<rparr>)
      in (case cw_scheduler cw1 of
            Some js \<Rightarrow> if js_IsRunning js then cw1\<lparr>cw_scheduler := Some (ScheduleJob job js)\<rparr> else cw1
          | None \<Rightarrow> cw1))"

section \<open>Start and Stop\<close>

text \<open>The goroutines that \<open>Start\<close> leaves behind when there is no scheduler.\<close>

datatype spawned = Spawn_warmCache | Spawn_ticker duration

definition cw_Start :: "instant \<Rightarrow> ('w, 'v, 'e, 'c) cache_warmer \<Rightarrow> spawned list \<times> ('w, 'v, 'e, 'c) cache_warmer" where
  "cw_Start now cw =
     (if cw_running cw then ([], cw)
      else let cw1 = cw\<lparr>cw_running := True, cw_workerPool := map_option wp_Start (cw_workerPool cw),
                        cw_scheduler := map_option (\<lambda>js. snd (js_Start now js)) (cw_scheduler cw)\<rparr>
           in case (ws_UseScheduler (cw_strategy cw1), cw_scheduler cw1) of
                (True, Some js) \<Rightarrow>
                  (case cw_priorityQueue cw1 of
                     None \<Rightarrow> ([], cw1\<lparr>cw_panicked := True\<rparr>)
                   | Some q \<Rightarrow> ([], cw1\<lparr>cw_scheduler := Some (ScheduleJobs (pq_GetJobs q) js)\<rparr>))
              | _ \<Rightarrow> (Spawn_warmCache # (if ws_WarmupInterval (cw_strategy cw1) > 0
                                         then [Spawn_ticker (ws_WarmupInterval (cw_strategy cw1))] else []), cw1))"

text \<open>
  \<open>Stop\<close> up to the wait for the pool's workers, and the rest when \<open>wg.Wait\<close> has returned. A panic in
  \<open>workerPool.Stop\<close> ends it; closing the closed \<open>stopCh\<close> is one.
\<close>

definition cw_Stop_begin :: "('w, 'v, 'e, 'c) cache_warmer \<Rightarrow> ('w, 'v, 'e, 'c) cache_warmer" where
  "cw_Stop_begin cw =
     (if \<not> cw_running cw then cw
      else let pool = map_option wp_Stop_begin (cw_workerPool cw)
           in cw\<lparr>cw_running := False, cw_scheduler := map_option js_Stop (cw_scheduler cw), cw_workerPool := pool,
                 cw_panicked := (cw_panicked cw \<or> (case pool of None \<Rightarrow> False | Some s \<Rightarrow> sy_panicked s))\<rparr>)"

definition cw_Stop_end :: "('w, 'v, 'e, 'c) cache_warmer \<Rightarrow> ('w, 'v, 'e, 'c) cache_warmer" where
  "cw_Stop_end cw =
     (if cw_panicked cw then cw
      else let pool = map_option (\<lambda>s. if sy_stopping s then wp_Stop_end s else s) (cw_workerPool cw)
           in cw\<lparr>cw_workerPool := pool, cw_stopClosed := True,
                 cw_panicked := (cw_stopClosed cw \<or> (case pool of None \<Rightarrow> False | Some s \<Rightarrow> sy_panicked s))\<rparr>)"

section \<open>Warming\<close>

definition warm_jobs :: "('w, 'v, 'e, 'c) cache_warmer \<Rightarrow> 'v warmup_job list" where
  "warm_jobs cw = (case cw_priorityQueue cw of Some q \<Rightarrow> pq_GetJobs q | None \<Rightarrow> ws_Jobs (cw_strategy cw))"

text \<open>
  \<open>for i := 0; i < len(jobs); i += batchSize\<close>: the batches in their order, and whether the loop ends
  normally (\<open>jobs[i:end]\<close> with \<open>end < i\<close> panics). \<open>None\<close>: it never ends.
\<close>

partial_function (option) batches_from :: "int \<Rightarrow> 'a list \<Rightarrow> int \<Rightarrow> ('a list list \<times> bool) option" where
  "batches_from batchSize jobs i =
     (if i < int (length jobs)
      then let end0 = i + batchSize; last = (if end0 > int (length jobs) then int (length jobs) else end0)
           in if last < i then Some ([], False)
              else Option.bind (batches_from batchSize jobs (i + batchSize))
                     (\<lambda>(rest, fine). Some (take (nat (last - i)) (drop (nat i) jobs) # rest, fine))
      else Some ([], True))"

text \<open>
  \<open>processBatch\<close>: the channel, the goroutines that wait or hold a job, and the cache they write;
  \<open>bt_set\<close> records the jobs whose \<open>Set\<close> was called. \<open>batch_start\<close> is the moment after the sends,
  which never block.
\<close>

record ('v, 'c) batch_state =
  bt_ch :: "'v warmup_job list"
  bt_idle :: nat
  bt_busy :: "'v warmup_job multiset"
  bt_cache :: 'c
  bt_set :: "'v warmup_job multiset"

definition batch_start :: "'v warmup_job list \<Rightarrow> int \<Rightarrow> 'c \<Rightarrow> ('v, 'c) batch_state" where
  "batch_start jobs concurrency c = \<lparr>bt_ch = jobs, bt_idle = nat (min concurrency (int (length jobs))),
     bt_busy = {#}, bt_cache = c, bt_set = {#}\<rparr>"

definition cw_processJob :: "(string \<Rightarrow> 'v \<Rightarrow> duration \<Rightarrow> 'c \<Rightarrow> 'e option \<times> 'c) \<Rightarrow> 'v warmup_job \<Rightarrow> 'c \<Rightarrow> 'c" where
  "cw_processJob cset job c = snd (cset (wj_Key job) (wj_Data job) (wj_TTL job) c)"

inductive batch_step ::
  "(string \<Rightarrow> 'v \<Rightarrow> duration \<Rightarrow> 'c \<Rightarrow> 'e option \<times> 'c) \<Rightarrow> bool \<Rightarrow> ('v, 'c) batch_state \<Rightarrow> ('v, 'c) batch_state \<Rightarrow> bool"
  for cset cancellable where
  receive: "bt_ch s = job # jobs \<Longrightarrow> bt_idle s > 0 \<Longrightarrow>
    batch_step cset cancellable s (s\<lparr>bt_ch := jobs, bt_idle := bt_idle s - 1, bt_busy := add_mset job (bt_busy s)\<rparr>)"
| warm: "job \<in># bt_busy s \<Longrightarrow>
    batch_step cset cancellable s (s\<lparr>bt_busy := bt_busy s - {#job#}, bt_idle := bt_idle s + 1,
      bt_cache := cw_processJob cset job (bt_cache s), bt_set := add_mset job (bt_set s)\<rparr>)"
| closed: "bt_ch s = [] \<Longrightarrow> bt_idle s > 0 \<Longrightarrow> batch_step cset cancellable s (s\<lparr>bt_idle := bt_idle s - 1\<rparr>)"
| cancelled: "cancellable \<Longrightarrow> job \<in># bt_busy s \<Longrightarrow>
    batch_step cset cancellable s (s\<lparr>bt_busy := bt_busy s - {#job#}\<rparr>)"

definition batch_done :: "('v, 'c) batch_state \<Rightarrow> bool" where
  "batch_done s \<longleftrightarrow> bt_idle s = 0 \<and> bt_busy s = {#}"

text \<open>The loop of \<open>warmCache\<close> over its batches; with a cancelled context it may end after any of them.\<close>

inductive run_batches ::
  "(string \<Rightarrow> 'v \<Rightarrow> duration \<Rightarrow> 'c \<Rightarrow> 'e option \<times> 'c) \<Rightarrow> bool \<Rightarrow> int \<Rightarrow> 'v warmup_job list list \<Rightarrow> 'c \<Rightarrow> 'c \<Rightarrow>
   'v warmup_job multiset \<Rightarrow> bool"
  for cset cancellable conc where
  finished: "run_batches cset cancellable conc [] c c {#}"
| batch: "(batch_step cset cancellable)\<^sup>*\<^sup>* (batch_start jobs conc c) s \<Longrightarrow> batch_done s \<Longrightarrow>
    run_batches cset cancellable conc rest (bt_cache s) c' W \<Longrightarrow>
    run_batches cset cancellable conc (jobs # rest) c c' (bt_set s + W)"
| cancelled: "cancellable \<Longrightarrow> (batch_step cset cancellable)\<^sup>*\<^sup>* (batch_start jobs conc c) s \<Longrightarrow> batch_done s \<Longrightarrow>
    run_batches cset cancellable conc (jobs # rest) c (bt_cache s) (bt_set s)"

text \<open>\<open>warmCache\<close>: what it can do with a warmer and the cache; the last argument is what was set.\<close>

inductive warmCache ::
  "(string \<Rightarrow> 'v \<Rightarrow> duration \<Rightarrow> 'c \<Rightarrow> 'e option \<times> 'c) \<Rightarrow> bool \<Rightarrow> ('w, 'v, 'e, 'c) cache_warmer \<Rightarrow> 'c \<Rightarrow>
   ('w, 'v, 'e, 'c) cache_warmer \<Rightarrow> 'c \<Rightarrow> 'v warmup_job multiset \<Rightarrow> bool"
  for cset cancellable cw c where
  no_jobs: "warm_jobs cw = [] \<Longrightarrow> warmCache cset cancellable cw c cw c {#}"
| to_pool: "warm_jobs cw \<noteq> [] \<Longrightarrow> ws_UseWorkerPool (cw_strategy cw) \<Longrightarrow> cw_workerPool cw = Some s \<Longrightarrow>
    (r, p) \<in> set (SubmitJobs (warm_jobs cw) 0 (sy_pool s)) \<Longrightarrow>
    warmCache cset cancellable cw c (cw\<lparr>cw_workerPool := Some (s\<lparr>sy_pool := p\<rparr>), cw_panicked := (cw_panicked cw \<or> r = None)\<rparr>) c {#}"
| in_batches: "warm_jobs cw \<noteq> [] \<Longrightarrow> \<not> (ws_UseWorkerPool (cw_strategy cw) \<and> cw_workerPool cw \<noteq> None) \<Longrightarrow>
    batches_from (ws_BatchSize (cw_strategy cw)) (warm_jobs cw) 0 = Some (bs, fine) \<Longrightarrow>
    run_batches cset cancellable (ws_ConcurrentJobs (cw_strategy cw)) bs c c' W \<Longrightarrow>
    warmCache cset cancellable cw c (cw\<lparr>cw_panicked := (cw_panicked cw \<or> \<not> fine)\<rparr>) c' W"

text \<open>
  \<open>WarmCacheManually\<close>: with a scheduler, the outcomes of \<open>ProcessScheduledJobs\<close> on its pool, nothing spawned;
  otherwise a goroutine with \<open>warmCache\<close>.
\<close>

definition WarmCacheManually ::
  "instant \<Rightarrow> ('w, 'v, 'e, 'c) cache_warmer \<Rightarrow> (spawned list \<times> ('w, 'v, 'e, 'c) cache_warmer) list" where
  "WarmCacheManually now cw =
     (case (ws_UseScheduler (cw_strategy cw), cw_scheduler cw) of
        (True, Some js) \<Rightarrow>
          map (\<lambda>(r, wp, js'). ([], cw\<lparr>cw_scheduler := Some js', cw_panicked := (cw_panicked cw \<or> r = None),
                 cw_workerPool := (case (cw_workerPool cw, wp) of
                    (Some s, Some p) \<Rightarrow> Some (s\<lparr>sy_pool := p\<rparr>) | _ \<Rightarrow> cw_workerPool cw)\<rparr>))
            (ProcessScheduledJobs now (map_option sy_pool (cw_workerPool cw)) js)
      | _ \<Rightarrow> [([Spawn_warmCache], cw)])"

record warmer_stats =
  wst_running :: bool
  wst_interval :: duration
  wst_total_jobs :: nat
  wst_batch_size :: int
  wst_concurrent_jobs :: int
  wst_use_worker_pool :: bool
  wst_use_scheduler :: bool
  wst_worker_pool :: "pool_stats option"
  wst_scheduler :: "scheduler_stats option"
  wst_priority_queue_size :: "nat option"

definition cw_GetStats :: "('w, 'v, 'e, 'c) cache_warmer \<Rightarrow> warmer_stats" where
  "cw_GetStats cw =
     (let totalJobs = length (ws_Jobs (cw_strategy cw)) + (case cw_priorityQueue cw of None \<Rightarrow> 0 | Some q \<Rightarrow> pq_Len q)
      in \<lparr>wst_running = cw_running cw, wst_interval = ws_WarmupInterval (cw_strategy cw), wst_total_jobs = totalJobs,
          wst_batch_size = ws_BatchSize (cw_strategy cw), wst_concurrent_jobs = ws_ConcurrentJobs (cw_strategy cw),
          wst_use_worker_pool = ws_UseWorkerPool (cw_strategy cw), wst_use_scheduler = ws_UseScheduler (cw_strategy cw),
          wst_worker_pool = map_option (\<lambda>s. wp_GetStats (sy_pool s)) (cw_workerPool cw),
          wst_scheduler = map_option js_GetStats (cw_scheduler cw),
          wst_priority_queue_size = map_option pq_Len (cw_priorityQueue cw)\<rparr>)"

section \<open>The loop over the batches\<close>

lemma batches_from_positive:
  assumes "0 < b" and "0 \<le> i"
  shows "\<exists>bs. batches_from b jobs i = Some (bs, True) \<and> concat bs = drop (nat i) jobs \<and>
    (\<forall>x \<in> set bs. x \<noteq> [] \<and> int (length x) \<le> b)"
  using assms(2)
proof (induction "nat (int (length jobs) - i)" arbitrary: i rule: less_induct)
  case less
  show ?case
  proof (cases "i < int (length jobs)")
    case False
    then show ?thesis by (subst batches_from.simps) simp
  next
    case True
    let ?e = "min (i + b) (int (length jobs))"
    obtain bs where bs: "batches_from b jobs (i + b) = Some (bs, True)" "concat bs = drop (nat (i + b)) jobs"
        "\<forall>x \<in> set bs. x \<noteq> [] \<and> int (length x) \<le> b"
      using less(1) [of "i + b"] less(2) True assms(1) by auto
    have e: "(if i + b > int (length jobs) then int (length jobs) else i + b) = ?e" by simp
    have "batches_from b jobs i = Some (take (nat (?e - i)) (drop (nat i) jobs) # bs, True)"
      using True assms(1) by (subst batches_from.simps) (simp only: Let_def e, simp add: bs(1))
    moreover have "take (nat (?e - i)) (drop (nat i) jobs) @ drop (nat (i + b)) jobs = drop (nat i) jobs"
    proof (cases "i + b \<le> int (length jobs)")
      case True
      then have "?e - i = b" "nat (i + b) = nat b + nat i" using less(2) assms(1) by auto
      then show ?thesis by (simp add: drop_drop [symmetric] del: drop_drop)
    next
      case False
      then show ?thesis using less(2) by (simp add: min_def nat_diff_distrib')
    qed
    moreover have "take (nat (?e - i)) (drop (nat i) jobs) \<noteq> []" "int (length (take (nat (?e - i)) (drop (nat i) jobs))) \<le> b"
      using True assms(1) less(2) by auto
    ultimately show ?thesis using bs(2,3) by simp
  qed
qed

lemma batches_from_zero:
  assumes "batches_from b jobs i = Some y"
  shows "b = 0 \<longrightarrow> \<not> i < int (length jobs)"
  by (rule batches_from.raw_induct [where P = "\<lambda>b jobs i y. b = 0 \<longrightarrow> \<not> i < int (length jobs)", OF _ assms])
    (auto simp: Let_def Option.bind_eq_Some_conv split: if_splits)

text \<open>
  The batches of \<open>warmCache\<close> are the jobs in their order, cut into pieces of at most \<open>BatchSize\<close>, when
  that is positive. A batch size of zero is a loop that never ends, a negative one a panic.
\<close>

theorem warm_batches_partition:
  "(0 < b \<longrightarrow> (\<exists>bs. batches_from b jobs 0 = Some (bs, True) \<and> concat bs = jobs \<and>
      (\<forall>x \<in> set bs. x \<noteq> [] \<and> int (length x) \<le> b))) \<and>
   (b = 0 \<and> jobs \<noteq> [] \<longrightarrow> batches_from b jobs 0 = None) \<and>
   (b < 0 \<and> jobs \<noteq> [] \<longrightarrow> batches_from b jobs 0 = Some ([], False))"
proof (intro conjI impI)
  show "\<exists>bs. batches_from b jobs 0 = Some (bs, True) \<and> concat bs = jobs \<and> (\<forall>x \<in> set bs. x \<noteq> [] \<and> int (length x) \<le> b)"
    if "0 < b" using batches_from_positive [OF that, of 0 jobs] by simp
  show "batches_from b jobs 0 = None" if "b = 0 \<and> jobs \<noteq> []"
    using that batches_from_zero [of b jobs 0] by (cases "batches_from b jobs 0") auto
  show "batches_from b jobs 0 = Some ([], False)" if "b < 0 \<and> jobs \<noteq> []"
    using that by (subst batches_from.simps) (simp add: Let_def)
qed

theorem warm_batches_partition_witness:
  "\<exists>bs. batches_from 2 [1 :: nat, 2, 3] 0 = Some (bs, True) \<and> concat bs = [1, 2, 3]"
  using warm_batches_partition [of 2 "[1 :: nat, 2, 3]"] by auto

section \<open>What a warming sets\<close>

definition batch_inv :: "'v warmup_job list \<Rightarrow> int \<Rightarrow> ('v, 'c) batch_state \<Rightarrow> bool" where
  "batch_inv jobs conc s \<longleftrightarrow> mset jobs = mset (bt_ch s) + bt_busy s + bt_set s \<and>
     (bt_ch s \<noteq> [] \<and> 0 < conc \<longrightarrow> bt_idle s + size (bt_busy s) > 0) \<and>
     (conc \<le> 0 \<longrightarrow> bt_idle s = 0 \<and> bt_busy s = {#} \<and> bt_set s = {#})"

lemma batch_step_inv: "batch_step cset False s s' \<Longrightarrow> batch_inv jobs conc s \<Longrightarrow> batch_inv jobs conc s'"
proof (induction rule: batch_step.induct)
  case (warm job s)
  then have "mset jobs = mset (bt_ch s) + (bt_busy s - {#job#}) + add_mset job (bt_set s)"
    by (simp add: batch_inv_def)
  then show ?case using warm by (auto simp: batch_inv_def)
qed (auto simp: batch_inv_def)

lemma batch_start_inv: "batch_inv jobs conc (batch_start jobs conc c)"
  by (auto simp: batch_inv_def batch_start_def)

text \<open>How much is left: jobs that wait, jobs in hand, goroutines.\<close>

definition batch_measure :: "('v, 'c) batch_state \<Rightarrow> nat" where
  "batch_measure s = 2 * length (bt_ch s) + 2 * size (bt_busy s) + bt_idle s"

lemma batch_step_smaller: "batch_step cset False s s' \<Longrightarrow> batch_measure s' < batch_measure s"
proof (induction rule: batch_step.induct)
  case (warm job s)
  then show ?case using size_ge_one [of job "bt_busy s"] by (simp add: batch_measure_def)
qed (simp_all add: batch_measure_def)

lemma batch_progress: "\<not> batch_done s \<Longrightarrow> \<exists>s'. batch_step cset False s s'"
proof (cases "bt_busy s = {#}")
  case True
  moreover assume "\<not> batch_done s"
  ultimately have "bt_idle s > 0" by (simp add: batch_done_def)
  then show ?thesis using batch_step.closed batch_step.receive by (metis neq_Nil_conv)
qed (use batch_step.warm multiset_nonemptyE in blast)

text \<open>The bag of the pool describes a batch as well.\<close>

definition batch_bag :: "'v warmup_job list \<Rightarrow> ('v, 'c) batch_state \<Rightarrow> ('v, 'c) job_bag" where
  "batch_bag jobs s = \<lparr>jb_accepted = mset jobs, jb_waiting = bt_busy s + mset (bt_ch s), jb_set = bt_set s, jb_cache = bt_cache s\<rparr>"

lemma batch_step_simulated: "batch_step cset False s s' \<Longrightarrow> (bag_step cset)\<^sup>*\<^sup>* (batch_bag jobs s) (batch_bag jobs s')"
proof (induction rule: batch_step.induct)
  case (warm job s)
  then show ?case using bag_run [of job "batch_bag jobs s" cset] by (auto simp: batch_bag_def cw_processJob_def set_job_def)
qed (simp_all add: batch_bag_def)

interpretation batch: ending_runs "batch_step cset False" "batch_inv jobs conc" batch_done batch_measure
  for cset :: "string \<Rightarrow> 'v \<Rightarrow> duration \<Rightarrow> 'c \<Rightarrow> 'e option \<times> 'c" and jobs conc
  by unfold_locales (blast intro: batch_step_inv batch_step_smaller batch_progress)+

interpretation batch_jobs: simulation "batch_step cset False" "batch_inv jobs conc" "bag_step cset" "batch_bag jobs"
  for cset :: "string \<Rightarrow> 'v \<Rightarrow> duration \<Rightarrow> 'c \<Rightarrow> 'e option \<times> 'c" and jobs conc
  by unfold_locales (blast intro: batch_step_simulated)

lemma batch_sets:
  assumes "(batch_step cset False)\<^sup>*\<^sup>* (batch_start jobs conc c) s" and "batch_done s"
  shows "bt_set s = (if 0 < conc then mset jobs else {#})"
  using batch.along [OF assms(1) batch_start_inv] assms(2) by (auto simp: batch_inv_def batch_done_def)

lemma run_batches_sets:
  "run_batches cset False conc bs c c' W \<Longrightarrow> W = (if 0 < conc then mset (concat bs) else {#})"
  by (induction rule: run_batches.induct) (auto simp: batch_sets)

text \<open>
  C17: A batch that is not cancelled comes to an end in every schedule. From every state a run of it can reach, some goroutine
  can step unless all have returned, and no run has more than \<open>2 n + w\<close> steps for \<open>n\<close> jobs and \<open>w\<close> goroutines. At every moment
  the jobs that wait, those in work and those whose \<open>Set\<close> was called are together the batch, and the cache is what
  these calls of \<open>Set\<close> made of it in some order; when the batch has ended, with at least one goroutine, every job was set once.
\<close>

theorem batch_ends:
  "(\<forall>f m. f 0 = batch_start jobs conc c \<and> (\<forall>i < m. batch_step cset False (f i) (f (Suc i))) \<longrightarrow>
      m \<le> 2 * length jobs + bt_idle (batch_start jobs conc c)) \<and>
   (\<forall>s. (batch_step cset False)\<^sup>*\<^sup>* (batch_start jobs conc c) s \<longrightarrow>
      (batch_done s \<or> (\<exists>s'. batch_step cset False s s')) \<and>
      (\<exists>js. mset jobs = mset (bt_ch s) + bt_busy s + mset js \<and> bt_cache s = foldl (\<lambda>c job. set_job cset job c) c js) \<and>
      (batch_done s \<and> 0 < conc \<longrightarrow> bt_set s = mset jobs))"
proof (intro conjI allI impI)
  fix f m assume f: "f 0 = batch_start jobs conc c \<and> (\<forall>i < m. batch_step cset False (f i) (f (Suc i)))"
  have "m + batch_measure (f m) \<le> batch_measure (f 0)"
    by (rule batch.run_is_short [where cset = cset and jobs = jobs and conc = conc]) (use f batch_start_inv in simp_all)
  then show "m \<le> 2 * length jobs + bt_idle (batch_start jobs conc c)" using f by (simp add: batch_measure_def batch_start_def)
next
  fix s assume run: "(batch_step cset False)\<^sup>*\<^sup>* (batch_start jobs conc c) s"
  show "batch_done s \<or> (\<exists>s'. batch_step cset False s s')" using batch_progress by blast
  have "(bag_step cset)\<^sup>*\<^sup>* (bag_of (mset jobs) c) (batch_bag jobs s)"
    using batch_jobs.simulates_run [OF run batch_start_inv] by (simp add: batch_bag_def batch_start_def bag_of_def)
  then show "\<exists>js. mset jobs = mset (bt_ch s) + bt_busy s + mset js \<and> bt_cache s = foldl (\<lambda>c job. set_job cset job c) c js"
    using bag_run_sets [of cset "mset jobs" c "batch_bag jobs s"] by (auto simp: bag_sets_def batch_bag_def ac_simps)
  show "bt_set s = mset jobs" if "batch_done s \<and> 0 < conc" using batch_sets [OF run] that by simp
qed

lemma run_batches_exists: "\<exists>c' W. run_batches cset False conc bs c c' W"
proof (induction bs arbitrary: c)
  case (Cons jobs rest)
  obtain s where s: "(batch_step cset False)\<^sup>*\<^sup>* (batch_start jobs conc c) s" "batch_done s"
    using batch.reaches_final [OF batch_start_inv, where cset = cset] by blast
  obtain c' W where "run_batches cset False conc rest (bt_cache s) c' W" using Cons by blast
  then show ?case using run_batches.batch [OF s] by blast
next
  case Nil
  show ?case using run_batches.finished [of cset False conc c] by blast
qed

lemma run_batches_termination:
  assumes "0 < b"
  shows "\<exists>bs. batches_from b jobs 0 = Some (bs, True) \<and> concat bs = jobs"
  using batches_from_positive [OF assms, of 0 jobs] by auto

text \<open>
  A warming without a worker pool, not cancelled: it can always run to its end, and however its
  goroutines interleave, it has then called \<open>Set\<close> for every job exactly once. With no
  concurrency it ends as well and has set nothing.
\<close>

theorem warming_sets_every_job:
  assumes "\<not> ws_UseWorkerPool (cw_strategy cw)" and "0 < ws_BatchSize (cw_strategy cw)"
  shows "(\<exists>cw' c' W. warmCache cset False cw c cw' c' W) \<and>
    (\<forall>cw' c' W. warmCache cset False cw c cw' c' W \<longrightarrow> cw' = cw \<and>
      W = (if 0 < ws_ConcurrentJobs (cw_strategy cw) then mset (warm_jobs cw) else {#}))"
proof -
  obtain bs where bs: "batches_from (ws_BatchSize (cw_strategy cw)) (warm_jobs cw) 0 = Some (bs, True)"
      "concat bs = warm_jobs cw" using run_batches_termination [OF assms(2)] by blast
  obtain c' W where run: "run_batches cset False (ws_ConcurrentJobs (cw_strategy cw)) bs c c' W"
    using run_batches_exists [of cset "ws_ConcurrentJobs (cw_strategy cw)" bs c] by blast
  have "\<exists>cw' c' W. warmCache cset False cw c cw' c' W"
    using warmCache.no_jobs warmCache.in_batches [OF _ _ bs(1) run] assms(1) by metis
  moreover have "cw' = cw \<and> W = (if 0 < ws_ConcurrentJobs (cw_strategy cw) then mset (warm_jobs cw) else {#})"
    if "warmCache cset False cw c cw' c' W" for cw' c' W
    using that by cases (use assms(1) bs in \<open>auto dest: run_batches_sets\<close>)
  ultimately show ?thesis by blast
qed

section \<open>The jobs of a warmer and of its scheduler\<close>

text \<open>The client's calls before \<open>Start\<close> and after it.\<close>

definition add_jobs :: "'v warmup_job list \<Rightarrow> ('w, 'v, 'e, 'c) cache_warmer \<Rightarrow> ('w, 'v, 'e, 'c) cache_warmer" where
  "add_jobs jobs cw = foldl (\<lambda>cw job. AddWarmupJob job cw) cw jobs"

lemma AddWarmupJob_queue:
  "cw_priorityQueue cw = Some q \<Longrightarrow> AddWarmupJob job cw =
     cw\<lparr>cw_priorityQueue := Some (pq_Push q job),
        cw_scheduler := map_option (\<lambda>js. if js_running js then ScheduleJob job js else js) (cw_scheduler cw)\<rparr>"
  by (cases "cw_scheduler cw") (auto simp: AddWarmupJob_def js_IsRunning_def)

lemma add_jobs_queue:
  "cw_priorityQueue cw = Some q \<Longrightarrow> add_jobs jobs cw =
     cw\<lparr>cw_priorityQueue := Some (foldl pq_Push q jobs),
        cw_scheduler := map_option (\<lambda>js. if js_running js then ScheduleJobs jobs js else js) (cw_scheduler cw)\<rparr>"
proof (induction jobs arbitrary: cw q)
  case Nil
  then show ?case by (cases "cw_scheduler cw") (simp_all add: add_jobs_def)
next
  case (Cons job jobs)
  have "add_jobs (job # jobs) cw = add_jobs jobs (AddWarmupJob job cw)" by (simp add: add_jobs_def)
  then show ?case
    using Cons.IH [of "AddWarmupJob job cw" "pq_Push q job"] Cons.prems
    by (cases "cw_scheduler cw") (auto simp: AddWarmupJob_queue ScheduleJob_def)
qed

lemma ScheduleJobs_queue_only:
  "ScheduleJobs jobs js = js\<lparr>js_queue := foldl pq_Push (js_queue js) jobs\<rparr>"
  by (induction jobs arbitrary: js) (simp_all add: ScheduleJob_def)

lemma pq_inv_push_all: "pq_inv q \<Longrightarrow> pq_inv (foldl pq_Push q jobs)"
  "pq_inv q \<Longrightarrow> pq_bag (foldl pq_Push q jobs) = mset jobs + pq_bag q"
  using pq.push_all [of q jobs] by blast+

text \<open>
  A warmer with a scheduler hands over every job exactly once: those of its strategy, those added
  before \<open>Start\<close> and those added after it are all in the scheduler's queue, and the warmer's own queue
  holds the same jobs.
\<close>

theorem start_hands_over_every_job:
  assumes "ws_UseScheduler s"
  shows "let cw = add_jobs later (snd (cw_Start now (add_jobs before (NewCacheWarmer cache health (Some s)))))
    in \<exists>q js. cw_priorityQueue cw = Some q \<and> cw_scheduler cw = Some js \<and> js_running js \<and>
         pq_inv q \<and> pq_inv (js_queue js) \<and>
         pq_bag q = mset (ws_Jobs s) + mset before + mset later \<and> pq_bag (js_queue js) = pq_bag q"
proof -
  let ?n = "NewCacheWarmer cache health (Some s) :: ('a, 'b, 'c, 'd) cache_warmer"
  define q0 where "q0 = foldl pq_Push NewPriorityQueue (ws_Jobs s)"
  define q1 where "q1 = foldl pq_Push q0 before"
  obtain js0 where js0: "cw_scheduler ?n = Some js0" "js_queue js0 = NewPriorityQueue" "\<not> js_running js0"
    using assms by (auto simp: NewCacheWarmer_def Let_def AddIntervalTrigger_def NewJobScheduler_def)
  have n: "cw_priorityQueue ?n = Some q0" "cw_strategy ?n = s" "\<not> cw_running ?n"
    by (simp_all add: NewCacheWarmer_def Let_def q0_def)
  have q: "pq_inv q0" "pq_inv q1" "pq_bag q1 = mset (ws_Jobs s) + mset before"
    by (simp_all add: q0_def q1_def pq_inv_push_all pq_New_inv pq_New_bag)
  let ?b = "add_jobs before ?n" and ?js1 = "js0\<lparr>js_running := True, js_lastRun := Some now\<rparr>"
  have b: "?b = ?n\<lparr>cw_priorityQueue := Some q1, cw_scheduler := Some js0\<rparr>"
    by (simp add: add_jobs_queue [OF n(1)] js0 q1_def)
  have st: "cw_priorityQueue (snd (cw_Start now ?b)) = Some q1"
      "cw_scheduler (snd (cw_Start now ?b)) = Some (ScheduleJobs (pq_GetJobs q1) ?js1)"
    using n js0 assms by (simp_all add: b cw_Start_def js_Start_def)
  have j1: "js_running (ScheduleJobs (pq_GetJobs q1) ?js1)" "pq_inv (js_queue (ScheduleJobs (pq_GetJobs q1) ?js1))"
      "pq_bag (js_queue (ScheduleJobs (pq_GetJobs q1) ?js1)) = pq_bag q1"
    by (simp_all add: ScheduleJobs_queue_only js0 pq_inv_push_all pq_New_inv pq_New_bag pq_bag_def [of q1])
  show ?thesis unfolding Let_def add_jobs_queue [OF st(1)]
    using j1 q by (simp add: st(2) ScheduleJobs_queue_only [of later] pq_inv_push_all)
qed

section \<open>The second life\<close>

text \<open>
  A warmer lives once: when it was stopped and is started again, the next \<open>Stop\<close> panics, at the
  latest when it closes \<open>stopCh\<close> a second time.
\<close>

theorem restarted_warmer_panics:
  assumes "\<not> cw_running cw" and "cw_stopClosed cw"
  shows "cw_panicked (cw_Stop_end (cw_Stop_begin (snd (cw_Start now cw))))"
proof -
  let ?s = "snd (cw_Start now cw)"
  have "cw_stopClosed ?s" using assms
    by (auto simp: cw_Start_def Let_def split: bool.splits option.splits)
  then show ?thesis by (auto simp: cw_Stop_begin_def cw_Stop_end_def Let_def)
qed

section \<open>Concrete warmers\<close>

definition ex_strategy :: "(unit, nat) warmup_strategy" where
  "ex_strategy = default_strategy\<lparr>ws_Jobs := [ex_sjob ''a'' 1, ex_sjob ''b'' 3], ws_UseWorkerPool := False, ws_UseScheduler := False\<rparr>"

definition ex_warmer :: "(unit, nat, unit, string \<rightharpoonup> nat) cache_warmer" where
  "ex_warmer = NewCacheWarmer Map.empty None (Some ex_strategy)"

theorem warming_sets_every_job_witness:
  "\<exists>cw' c' W. warmCache ex_cset False ex_warmer Map.empty cw' c' W \<and> size W = 2"
proof -
  have s: "cw_strategy ex_warmer = ex_strategy" by (simp add: ex_warmer_def NewCacheWarmer_def Let_def)
  have "pq_bag (foldl pq_Push NewPriorityQueue (ws_Jobs ex_strategy)) = mset (ws_Jobs ex_strategy)"
    by (simp only: pq_inv_push_all [OF pq_New_inv] pq_New_bag add_0_right)
  moreover have "mset (warm_jobs ex_warmer) = pq_bag (foldl pq_Push NewPriorityQueue (ws_Jobs ex_strategy))"
    by (simp add: warm_jobs_def ex_warmer_def NewCacheWarmer_def Let_def pq_bag_def)
  ultimately have "size (mset (warm_jobs ex_warmer)) = 2" by (simp add: ex_strategy_def)
  moreover note warming_sets_every_job [of ex_warmer ex_cset Map.empty]
  ultimately show ?thesis by (simp add: s) (force simp: ex_strategy_def default_strategy_def)
qed

theorem start_hands_over_every_job_witness:
  "\<exists>js. cw_scheduler (add_jobs [ex_sjob ''c'' 2] (snd (cw_Start 0 (add_jobs []
      (NewCacheWarmer () None (Some (ex_strategy\<lparr>ws_UseScheduler := True\<rparr>)) :: (unit, nat, unit, unit) cache_warmer))))) = Some js \<and>
    pq_bag (js_queue js) = {#ex_sjob ''a'' 1, ex_sjob ''b'' 3, ex_sjob ''c'' 2#}"
  using start_hands_over_every_job [of "ex_strategy\<lparr>ws_UseScheduler := True\<rparr>" "[ex_sjob ''c'' 2]" 0 "[]" "()" None]
  by (auto simp: Let_def ex_strategy_def)

theorem restarted_warmer_panics_witness:
  "let cw = NewCacheWarmer () None (Some ex_strategy) :: (unit, nat, unit, unit) cache_warmer;
       stopped = cw_Stop_end (cw_Stop_begin (snd (cw_Start 0 cw)))
   in \<not> cw_panicked stopped \<and> cw_panicked (cw_Stop_end (cw_Stop_begin (snd (cw_Start 1 stopped))))"
proof -
  let ?cw = "NewCacheWarmer () None (Some ex_strategy) :: (unit, nat, unit, unit) cache_warmer"
  let ?st = "cw_Stop_end (cw_Stop_begin (snd (cw_Start 0 ?cw)))"
  have "\<not> cw_running ?st" "cw_stopClosed ?st" "\<not> cw_panicked ?st"
    by (simp_all add: NewCacheWarmer_def Let_def ex_strategy_def default_strategy_def cw_Start_def cw_Stop_begin_def cw_Stop_end_def)
  then show ?thesis using restarted_warmer_panics [of ?st 1] by (simp add: Let_def)
qed

theorem batch_ends_witness:
  "\<exists>s. (batch_step ex_cset False)\<^sup>*\<^sup>* (batch_start [ex_sjob ''a'' 1, ex_sjob ''b'' 3] 3 Map.empty) s \<and> batch_done s \<and>
    bt_set s = {#ex_sjob ''a'' 1, ex_sjob ''b'' 3#}"
proof -
  obtain s where s: "(batch_step ex_cset False)\<^sup>*\<^sup>* (batch_start [ex_sjob ''a'' 1, ex_sjob ''b'' 3] 3 Map.empty) s" "batch_done s"
    using batch.reaches_final [OF batch_start_inv, where cset = ex_cset] by blast
  then have "bt_set s = mset [ex_sjob ''a'' 1, ex_sjob ''b'' 3]"
    using batch_ends [of "[ex_sjob ''a'' 1, ex_sjob ''b'' 3]" 3 Map.empty ex_cset] by auto
  then show ?thesis using s by auto
qed

end
