(* ===== verification/GoTime.thy ===== *)
theory GoTime
  imports Strconv
begin

text \<open>
  What the program uses of Go's \<^verbatim>\<open>time\<close> beside the instants and durations of \<^verbatim>\<open>GoPrelude\<close>:
  \<open>ParseDuration\<close> and \<open>Duration.String\<close>, with their round trip. The fraction of a parsed duration is
  computed exactly, where Go rounds it in a \<open>float64\<close>.
\<close>

section \<open>Durations\<close>

definition duration_unit :: "string \<Rightarrow> int option" where
  "duration_unit u =
     (if u = ''ns'' then Some 1
      else if u \<in> {''us'', [CHR 0xC2, CHR 0xB5, CHR ''s''], [CHR 0xCE, CHR 0xBC, CHR ''s'']} then Some 1000
      else if u = ''ms'' then Some 1000000
      else if u = ''s'' then Some second
      else if u = ''m'' then Some minute
      else if u = ''h'' then Some hour else None)"

definition is_digit :: "char \<Rightarrow> bool" where
  "is_digit c \<longleftrightarrow> digit_val c \<noteq> None"

definition number :: "string \<Rightarrow> int" where
  "number s = (case digits_val 0 s of Some v \<Rightarrow> v | None \<Rightarrow> 0)"

definition fraction_part :: "string \<Rightarrow> string \<times> string" where
  "fraction_part s = (case s of
       c # cs \<Rightarrow> if c = CHR ''.'' then (takeWhile is_digit cs, dropWhile is_digit cs) else ([], s)
     | [] \<Rightarrow> ([], []))"

definition unit_char :: "char \<Rightarrow> bool" where
  "unit_char c \<longleftrightarrow> c \<noteq> CHR ''.'' \<and> \<not> is_digit c"

lemma length_fraction_part: "length (snd (fraction_part s)) \<le> length s"
  by (auto simp: fraction_part_def split: list.splits intro: le_SucI length_dropWhile_le)

function parse_units :: "string \<Rightarrow> int \<Rightarrow> int option" where
  "parse_units s d =
     (if s = [] then Some d
      else let whole = takeWhile is_digit s;
               frac = fst (fraction_part (dropWhile is_digit s));
               s' = snd (fraction_part (dropWhile is_digit s));
               u = takeWhile unit_char s'
      in if (whole = [] \<and> frac = []) \<or> u = [] then None
         else case duration_unit u of
                None \<Rightarrow> None
              | Some n \<Rightarrow>
                  let v = number whole * n + number frac * n div 10 ^ length frac
                  in if number whole * n > 2 ^ 63 \<or> v > 2 ^ 63 \<or> d + v > 2 ^ 63 then None
                     else parse_units (dropWhile unit_char s') (d + v))"
  by pat_completeness auto

lemma rest_shorter:
  assumes "takeWhile unit_char s' \<noteq> []"
  shows "length (dropWhile unit_char s') < length s'"
  using assms by (cases s') (auto simp: le_imp_less_Suc length_dropWhile_le split: if_splits)

termination parse_units
proof (relation "measure (\<lambda>(s, d). length s)")
  fix s :: string and d whole frac s' u n and v :: int
  assume "s' = snd (fraction_part (dropWhile is_digit s))" "u = takeWhile unit_char s'"
    "\<not> ((whole = [] \<and> frac = []) \<or> u = [])"
  then have "length (dropWhile unit_char s') < length s'" using rest_shorter by simp
  also have "length s' \<le> length s"
    using length_fraction_part [of "dropWhile is_digit s"] length_dropWhile_le [of is_digit s] \<open>s' = _\<close> by simp
  finally show "((dropWhile unit_char s', d + v), s, d) \<in> measure (\<lambda>(s, d). length s)" by simp
qed simp

declare parse_units.simps [simp del]

definition ParseDuration :: "string \<Rightarrow> duration option" where
  "ParseDuration s0 =
     (let (neg, s) = (case s0 of [] \<Rightarrow> (False, []) | c # cs \<Rightarrow>
            if c = CHR ''-'' then (True, cs) else if c = CHR ''+'' then (False, cs) else (False, s0))
      in if s = ''0'' then Some 0
         else if s = [] then None
         else case parse_units s 0 of
                None \<Rightarrow> None
              | Some d \<Rightarrow> if neg then Some (- d) else if d > max_duration then None else Some d)"

section \<open>Durations as strings\<close>

text \<open>\<open>fmtFrac\<close>: the last \<open>prec\<close> digits of \<open>v\<close> as a fraction, without trailing zeros.\<close>

definition fmt_frac :: "nat \<Rightarrow> nat \<Rightarrow> string" where
  "fmt_frac v prec =
     (let ds = map (\<lambda>i. v div 10 ^ i mod 10) (rev [0..<prec]);
          shown = rev (dropWhile (\<lambda>d. d = 0) (rev ds))
      in if shown = [] then [] else CHR ''.'' # map (\<lambda>d. char_of (48 + d)) shown)"

text \<open>\<open>String\<close> of the absolute value.\<close>

definition duration_body :: "nat \<Rightarrow> string" where
  "duration_body u = (if u < 1000000000
                  then (if u = 0 then ''0s''
                        else if u < 1000 then itoa_nat u @ ''ns''
                        else if u < 1000000 then itoa_nat (u div 1000) @ fmt_frac u 3 @ [CHR 0xC2, CHR 0xB5, CHR ''s'']
                        else itoa_nat (u div 1000000) @ fmt_frac u 6 @ ''ms'')
                  else let secs = u div 1000000000; mins = secs div 60; hours = mins div 60
                       in (if hours > 0 then itoa_nat hours @ ''h'' else []) @
                          (if mins > 0 then itoa_nat (mins mod 60) @ ''m'' else []) @
                          itoa_nat (secs mod 60) @ fmt_frac u 9 @ ''s'')"

definition duration_String :: "duration \<Rightarrow> string" where
  "duration_String d = (if d < 0 then CHR ''-'' # duration_body (nat \<bar>d\<bar>) else duration_body (nat \<bar>d\<bar>))"

section \<open>The round trip\<close>

definition digits_nat :: "nat list \<Rightarrow> nat" where
  "digits_nat ds = foldl (\<lambda>a d. 10 * a + d) 0 ds"

definition digit_chars :: "nat list \<Rightarrow> string" where
  "digit_chars ds = map (\<lambda>d. char_of (48 + d)) ds"

lemma foldl_digits: "foldl (\<lambda>a d. 10 * a + d) n bs = n * 10 ^ length bs + foldl (\<lambda>a d. 10 * a + d) (0 :: nat) bs"
proof (induction bs arbitrary: n)
  case (Cons b bs)
  show ?case unfolding foldl_Cons Cons.IH [of "10 * n + b"] Cons.IH [of "10 * 0 + b"] by (simp add: algebra_simps)
qed simp

lemma digits_nat_append: "digits_nat (as @ bs) = digits_nat as * 10 ^ length bs + digits_nat bs"
  unfolding digits_nat_def foldl_append by (rule foldl_digits)

lemma digits_nat_snoc [simp]: "digits_nat (ds @ [d]) = 10 * digits_nat ds + d"
  by (simp add: digits_nat_append) (simp add: digits_nat_def)

lemma digits_nat_Nil [simp]: "digits_nat [] = 0"
  by (simp add: digits_nat_def)

lemma digits_nat_zeros [simp]: "digits_nat (replicate k 0) = 0"
proof (induction k)
  case (Suc k)
  then show ?case using digits_nat_snoc [of "replicate k 0" 0] by (simp add: replicate_append_same)
qed simp

lemma digits_of: "digits_nat (map (\<lambda>i. v div 10 ^ i mod 10) (rev [0..<k])) = v mod 10 ^ k"
proof (induction k arbitrary: v)
  case (Suc k)
  have "map (\<lambda>i. v div 10 ^ i mod 10) (rev [0..<Suc k]) = map (\<lambda>i. (v div 10) div 10 ^ i mod 10) (rev [0..<k]) @ [v mod 10]"
  proof -
    have "rev [0..<Suc k] = map Suc (rev [0..<k]) @ [0]"
      by (metis map_Suc_upt rev.simps(2) rev_map upt_conv_Cons zero_less_Suc)
    then show ?thesis by (simp add: div_mult2_eq comp_def)
  qed
  then show ?case using Suc.IH [of "v div 10"] by (simp add: mod_mult2_eq)
qed simp

lemma digits_val_chars: "list_all (\<lambda>d. d < 10) ds \<Longrightarrow> digits_val 0 (digit_chars ds) = Some (int (digits_nat ds))"
  by (induction ds rule: rev_induct) (simp_all add: digit_chars_def digits_val_append digit_val_char)

lemma strip_zeros: "\<exists>k. ds = rev (dropWhile (\<lambda>d. d = 0) (rev ds)) @ replicate k (0 :: nat)"
proof -
  have "rev ds = takeWhile (\<lambda>d. d = 0) (rev ds) @ dropWhile (\<lambda>d. d = 0) (rev ds)" by simp
  moreover have "takeWhile (\<lambda>d. d = 0) (rev ds) = replicate (length (takeWhile (\<lambda>d. d = 0) (rev ds))) 0"
    by (metis (mono_tags, lifting) replicate_length_same set_takeWhileD)
  ultimately show ?thesis by (metis rev_append rev_replicate rev_rev_ident)
qed

text \<open>What the parser reads of a fraction that \<open>fmt_frac\<close> wrote.\<close>

lemma fmt_frac_value:
  "fmt_frac v prec = [] \<and> v mod 10 ^ prec = 0 \<or>
   (\<exists>ds. fmt_frac v prec = CHR ''.'' # digit_chars ds \<and> list_all (\<lambda>d. d < 10) ds \<and> ds \<noteq> [] \<and>
      digits_nat ds * 10 ^ prec div 10 ^ length ds = v mod 10 ^ prec)"
proof -
  define ds where "ds = map (\<lambda>i. v div 10 ^ i mod 10) (rev [0..<prec])"
  define s where "s = rev (dropWhile (\<lambda>d. d = 0) (rev ds))"
  obtain k where k: "ds = s @ replicate k 0" using strip_zeros [of ds] by (auto simp: s_def)
  have len: "prec = length s + k" using arg_cong [OF k, of length] by (simp add: ds_def)
  have "digits_nat ds = v mod 10 ^ prec" by (simp add: ds_def digits_of)
  then have val: "digits_nat s * 10 ^ k = v mod 10 ^ prec" by (simp add: k digits_nat_append)
  have "set s \<subseteq> set ds" by (auto simp: k)
  moreover have "\<forall>d \<in> set ds. d < 10" by (auto simp: ds_def)
  ultimately have small: "list_all (\<lambda>d. d < 10) s" by (auto simp: list_all_iff)
  have "digits_nat s * 10 ^ prec = v mod 10 ^ prec * 10 ^ length s"
    unfolding val [symmetric] by (simp add: len power_add)
  then have q: "digits_nat s * 10 ^ prec div 10 ^ length s = v mod 10 ^ prec" by simp
  have f: "fmt_frac v prec = (if s = [] then [] else CHR ''.'' # digit_chars s)"
    by (simp only: fmt_frac_def Let_def ds_def [symmetric] s_def [symmetric] digit_chars_def)
  show ?thesis
  proof (cases "s = []")
    case True
    then show ?thesis using f val by simp
  next
    case False
    then show ?thesis using f small q by auto
  qed
qed

text \<open>One component of a duration: a number, a fraction and a unit, before the rest.\<close>

lemma digit_val_chars: "d < 10 \<Longrightarrow> is_digit (char_of (48 + d :: nat))"
  by (simp add: is_digit_def digit_val_char)

lemma itoa_digits: "list_all is_digit (itoa_nat n)" "itoa_nat n \<noteq> []"
proof (induction n rule: itoa_nat.induct)
  case (1 n)
  {
    case 1
    show ?case using \<open>\<not> n < 10 \<Longrightarrow> list_all is_digit (itoa_nat (n div 10))\<close>
      by (subst itoa_nat.simps) (simp add: digit_val_chars)
  next
    case 2
    show ?case by (subst itoa_nat.simps) simp
  }
qed

lemma takeWhile_stop: "list_all P xs \<Longrightarrow> (ys = [] \<or> \<not> P (hd ys)) \<Longrightarrow> takeWhile P (xs @ ys) = xs \<and> dropWhile P (xs @ ys) = ys"
  by (induction xs) (cases ys, auto)+

lemma parse_component:
  assumes frac: "frac = [] \<and> f = 0 \<or> (\<exists>ds. frac = CHR ''.'' # digit_chars ds \<and> list_all (\<lambda>d. d < 10) ds \<and>
        ds \<noteq> [] \<and> digits_nat ds * N div 10 ^ length ds = f)"
    and unit: "duration_unit u = Some (int N)" "list_all unit_char u" "u \<noteq> []"
    and rest: "rest = [] \<or> is_digit (hd rest)"
    and bound: "acc + (int n * int N + int f) \<le> 2 ^ 63" "0 \<le> acc"
  shows "parse_units (itoa_nat n @ frac @ u @ rest) acc = parse_units rest (acc + (int n * int N + int f))"
proof -
  obtain c cs where u: "u = c # cs" "unit_char c" using unit by (cases u) auto
  have "\<not> is_digit (hd (frac @ u @ rest))" "frac @ u @ rest \<noteq> []"
    using frac u by (auto simp: unit_char_def is_digit_def digit_val_def)
  then have w: "takeWhile is_digit (itoa_nat n @ frac @ u @ rest) = itoa_nat n"
      "dropWhile is_digit (itoa_nat n @ frac @ u @ rest) = frac @ u @ rest"
    using takeWhile_stop [OF itoa_digits(1), of "frac @ u @ rest" n] by auto
  obtain fd where fd: "fraction_part (frac @ u @ rest) = (fd, u @ rest)"
      "number fd * int N div 10 ^ length fd = int f"
  proof (cases "frac = []")
    case True
    then have "fraction_part (frac @ u @ rest) = ([], u @ rest)" using u by (simp add: fraction_part_def unit_char_def)
    moreover have "number [] * int N div 10 ^ length [] = int f" using True frac by (simp add: number_def)
    ultimately show ?thesis using that by blast
  next
    case False
    then obtain ds where ds: "frac = CHR ''.'' # digit_chars ds" "list_all (\<lambda>d. d < 10) ds"
        "digits_nat ds * N div 10 ^ length ds = f" using frac by blast
    have "list_all is_digit (digit_chars ds)" using ds(2) by (auto simp: digit_chars_def list_all_iff digit_val_chars)
    then have "fraction_part (frac @ u @ rest) = (digit_chars ds, u @ rest)"
      using takeWhile_stop [of is_digit "digit_chars ds" "u @ rest"] u by (simp add: fraction_part_def ds(1) unit_char_def)
    moreover have "number (digit_chars ds) * int N div 10 ^ length (digit_chars ds) = int f"
      using digits_val_chars [OF ds(2)] arg_cong [OF ds(3), of int]
      by (simp add: number_def digit_chars_def of_nat_div)
    ultimately show ?thesis using that by blast
  qed
  have un: "takeWhile unit_char (u @ rest) = u" "dropWhile unit_char (u @ rest) = rest"
    using takeWhile_stop [OF unit(2), of rest] rest by (auto simp: unit_char_def)
  have "number (itoa_nat n) = int n" by (simp add: number_def digits_val_itoa)
  moreover have "int n * int N \<le> 2 ^ 63" "int n * int N + int f \<le> 2 ^ 63" using bound by auto
  ultimately show ?thesis using bound unit(1,3)
    by (subst parse_units.simps) (simp add: w fd un Let_def itoa_digits(2))
qed

lemma zero_char: "char_of (48 :: nat) = CHR ''0''"
  by code_simp

lemma unit_facts:
  "duration_unit ''ns'' = Some (int 1)" "duration_unit [CHR 0xC2, CHR 0xB5, CHR ''s''] = Some (int 1000)"
  "duration_unit ''ms'' = Some (int 1000000)" "duration_unit ''s'' = Some (int 1000000000)"
  "duration_unit ''m'' = Some (int 60000000000)" "duration_unit ''h'' = Some (int 3600000000000)"
  "list_all unit_char ''ns''" "list_all unit_char [CHR 0xC2, CHR 0xB5, CHR ''s'']" "list_all unit_char ''ms''"
  "list_all unit_char ''s''" "list_all unit_char ''m''" "list_all unit_char ''h''"
  by (simp_all add: duration_unit_def dur_defs unit_char_def is_digit_def digit_val_def)

lemma parse_last:
  assumes "duration_unit u = Some (int (10 ^ k))" "list_all unit_char u" "u \<noteq> []"
    and "acc + int v \<le> 2 ^ 63" "0 \<le> acc"
  shows "parse_units (itoa_nat (v div 10 ^ k) @ fmt_frac v k @ u) acc = Some (acc + int v)"
proof -
  have v: "int (v div 10 ^ k) * int (10 ^ k) + int (v mod 10 ^ k) = int v"
    by (metis div_mult_mod_eq of_nat_add of_nat_mult)
  have "fmt_frac v k = [] \<and> v mod 10 ^ k = 0 \<or> (\<exists>ds. fmt_frac v k = CHR ''.'' # digit_chars ds \<and> list_all (\<lambda>d. d < 10) ds \<and>
      ds \<noteq> [] \<and> digits_nat ds * 10 ^ k div 10 ^ length ds = v mod 10 ^ k)" by (rule fmt_frac_value)
  from parse_component [OF this assms(1-3), of "[]" acc "v div 10 ^ k"] v assms(4,5)
  show ?thesis by (simp add: parse_units.simps [of "[]"])
qed

lemma parse_whole:
  assumes "duration_unit u = Some (int N)" "list_all unit_char u" "u \<noteq> []" "rest = [] \<or> is_digit (hd rest)"
    and "acc + int n * int N \<le> 2 ^ 63" "0 \<le> acc"
  shows "parse_units (itoa_nat n @ u @ rest) acc = parse_units rest (acc + int n * int N)"
  using parse_component [of "[]" 0 N u rest acc n] assms by simp

lemma hd_itoa: "is_digit (hd (itoa_nat n @ s))" "itoa_nat n @ s \<noteq> []"
  using itoa_digits [of n] by (cases "itoa_nat n"; simp)+

lemma parse_body_seconds:
  assumes b: "int u \<le> 2 ^ 63" and big: "1000000000 \<le> u"
  shows "parse_units (duration_body u) 0 = Some (int u)"
proof -
  define secs where "secs = u div 1000000000"
  define mins where "mins = secs div 60"
  define hours where "hours = mins div 60"
  define tail where "tail = itoa_nat (secs mod 60) @ fmt_frac u 9 @ ''s''"
  define acc where "acc = int hours * 3600000000000 + int (mins mod 60) * 60000000000"
  have "u = (secs mod 60) * 1000000000 + u mod 1000000000 + (mins mod 60) * 60000000000 + hours * 3600000000000"
    using div_mult_mod_eq [of u 1000000000, folded secs_def] div_mult_mod_eq [of secs 60, folded mins_def]
      div_mult_mod_eq [of mins 60, folded hours_def] by linarith
  then have u: "int u = acc + (int (secs mod 60) * 1000000000 + int (u mod 1000000000))"
    unfolding acc_def by linarith
  have tail: "parse_units tail acc = Some (int u)"
  proof -
    have "fmt_frac u 9 = [] \<and> u mod 10 ^ 9 = 0 \<or> (\<exists>ds. fmt_frac u 9 = CHR ''.'' # digit_chars ds \<and> list_all (\<lambda>d. d < 10) ds \<and>
        ds \<noteq> [] \<and> digits_nat ds * 10 ^ 9 div 10 ^ length ds = u mod 10 ^ 9)" by (rule fmt_frac_value)
    from parse_component [OF this, of "''s''" "[]" acc "secs mod 60"] u b unit_facts(4,10)
    show ?thesis by (simp add: tail_def parse_units.simps [of "[]"] acc_def)
  qed
  have m: "parse_units ((if mins > 0 then itoa_nat (mins mod 60) @ ''m'' else []) @ tail) (int hours * 3600000000000) = Some (int u)"
  proof (cases "mins > 0")
    case True
    have "parse_units (itoa_nat (mins mod 60) @ ''m'' @ tail) (int hours * 3600000000000) = parse_units tail acc"
      using parse_whole [OF unit_facts(5,11), of tail "int hours * 3600000000000" "mins mod 60"] u b hd_itoa(1)
      by (simp add: acc_def tail_def)
    then show ?thesis using tail True by simp
  next
    case False
    then have "acc = int hours * 3600000000000" by (simp add: acc_def)
    then show ?thesis using tail False by simp
  qed
  have "parse_units ((if hours > 0 then itoa_nat hours @ ''h'' else []) @
      (if mins > 0 then itoa_nat (mins mod 60) @ ''m'' else []) @ tail) 0 = Some (int u)"
  proof (cases "hours > 0")
    case True
    then have "mins > 0" by (simp add: hours_def)
    have "parse_units (itoa_nat hours @ ''h'' @ itoa_nat (mins mod 60) @ ''m'' @ tail) 0 =
        parse_units (itoa_nat (mins mod 60) @ ''m'' @ tail) (int hours * 3600000000000)"
      using parse_whole [OF unit_facts(6,12), of "itoa_nat (mins mod 60) @ ''m'' @ tail" 0 hours] u b hd_itoa(1)
      by (simp add: acc_def)
    then show ?thesis using m True \<open>mins > 0\<close> by simp
  next
    case False
    then show ?thesis using m by simp
  qed
  moreover have "duration_body u = (if hours > 0 then itoa_nat hours @ ''h'' else []) @
      (if mins > 0 then itoa_nat (mins mod 60) @ ''m'' else []) @ tail"
    unfolding duration_body_def Let_def tail_def hours_def mins_def secs_def
    using big by (subst if_not_P) (simp, rule refl)
  ultimately show ?thesis by simp
qed

lemma parse_body: "int u \<le> 2 ^ 63 \<Longrightarrow> parse_units (duration_body u) 0 = Some (int u)"
proof -
  assume b: "int u \<le> 2 ^ 63"
  consider (zero) "u = 0" | (ns) "0 < u" "u < 1000" | (us) "1000 \<le> u" "u < 1000000"
    | (ms) "1000000 \<le> u" "u < 1000000000" | (big) "1000000000 \<le> u" by linarith
  then show ?thesis
  proof cases
    case zero
    then show ?thesis using parse_whole [OF unit_facts(4,10), of "[]" 0 0]
      by (simp add: duration_body_def zero_char itoa_nat.simps [of 0] parse_units.simps [of "[]"])
  next
    case ns
    then show ?thesis using parse_whole [OF unit_facts(1,7), of "[]" 0 u] b
      by (simp add: duration_body_def parse_units.simps [of "[]"])
  next
    case us
    then show ?thesis using parse_last [of "[CHR 0xC2, CHR 0xB5, CHR ''s'']" 3 0 u] unit_facts(2,8) b
      by (simp add: duration_body_def)
  next
    case ms
    then show ?thesis using parse_last [of "''ms''" 6 0 u] unit_facts(3,9) b by (simp add: duration_body_def)
  next
    case big
    then show ?thesis by (rule parse_body_seconds [OF b])
  qed
qed

lemma body_hd: "\<exists>c cs. duration_body u = c # cs \<and> is_digit c \<and> cs \<noteq> []"
proof -
  have "\<exists>n s. duration_body u = itoa_nat n @ s \<and> s \<noteq> []"
  proof (cases "u = 0")
    case True
    have "duration_body 0 = itoa_nat 0 @ ''s''" by (simp add: duration_body_def zero_char itoa_nat.simps [of 0])
    then show ?thesis using True by blast
  qed (auto simp: duration_body_def Let_def)
  then obtain n s where "duration_body u = itoa_nat n @ s" "s \<noteq> []" by blast
  then show ?thesis using itoa_digits [of n] by (cases "itoa_nat n") auto
qed

text \<open>
  Every duration is read back from what \<open>String\<close> writes: the TTL of a cache job survives its encoding
  as text, for every value of an \<open>int64\<close>.
\<close>

theorem duration_round_trip:
  assumes "- (2 ^ 63) \<le> d" and "d \<le> max_duration"
  shows "ParseDuration (duration_String d) = Some d"
proof -
  obtain c cs where c: "duration_body (nat \<bar>d\<bar>) = c # cs" "is_digit c" "cs \<noteq> []" using body_hd by blast
  then have ne: "c \<noteq> CHR ''-''" "c \<noteq> CHR ''+''" by (auto simp: is_digit_def digit_val_def)
  have "int (nat \<bar>d\<bar>) \<le> 2 ^ 63" using assms by (auto simp: max_duration_def)
  then have p: "parse_units (c # cs) 0 = Some \<bar>d\<bar>" using parse_body [of "nat \<bar>d\<bar>"] c(1) by simp
  show ?thesis
  proof (cases "d < 0")
    case True
    then show ?thesis using p c by (simp add: ParseDuration_def duration_String_def)
  next
    case False
    then show ?thesis using p c ne assms(2) by (simp add: ParseDuration_def duration_String_def)
  qed
qed

theorem duration_round_trip_witness:
  "ParseDuration (duration_String (90 * minute + 1500000)) = Some (90 * minute + 1500000)"
  by (rule duration_round_trip) (simp_all add: dur_defs max_duration_def)

end
