(* ===== verification/MemoryCache.thy ===== *)
theory MemoryCache
  imports GoPrelude "HOL-Library.AList"
begin

text \<open>
  The in-process cache level (\<^verbatim>\<open>backend/internal/cache/memory.go\<close>). The \<open>sync.Map\<close> is an
  association list with one entry per key; each method is one step at the instant \<open>now\<close> its clock
  reading returns. \<open>live now c k\<close> is what the cache holds for \<open>k\<close> at \<open>now\<close>; the locale
  \<open>ttl_cache\<close> states what the operations do to it.
\<close>

section \<open>Data and operations\<close>

record 'v cache_item =
  ci_value :: 'v
  ci_expiration :: instant

record 'v memory_cache =
  mc_store :: "(string \<times> 'v cache_item) list"

definition NewMemoryCache :: "'v memory_cache" where
  "NewMemoryCache = \<lparr>mc_store = []\<rparr>"

definition matchPattern :: "string \<Rightarrow> string \<Rightarrow> bool" where
  "matchPattern text pattern =
     (if pattern = ''*'' then True
      else if length pattern > 0 \<and> pattern ! (length pattern - 1) = CHR ''*''
      then let prefix = take (length pattern - 1) pattern
           in length text \<ge> length prefix \<and> take (length prefix) text = prefix
      else text = pattern)"

definition mc_Set :: "instant \<Rightarrow> string \<Rightarrow> 'v \<Rightarrow> duration \<Rightarrow> 'v memory_cache \<Rightarrow> 'v memory_cache" where
  "mc_Set now key value ttl c =
     c\<lparr>mc_store := AList.update key \<lparr>ci_value = value, ci_expiration = now + ttl\<rparr> (mc_store c)\<rparr>"

definition mc_Get :: "instant \<Rightarrow> string \<Rightarrow> 'v memory_cache \<Rightarrow> 'v option \<times> 'v memory_cache" where
  "mc_Get now key c =
     (case map_of (mc_store c) key of
        None \<Rightarrow> (None, c)
      | Some item \<Rightarrow>
          if now > ci_expiration item then (None, c\<lparr>mc_store := AList.delete key (mc_store c)\<rparr>)
          else (Some (ci_value item), c))"

definition mc_Exists :: "instant \<Rightarrow> string \<Rightarrow> 'v memory_cache \<Rightarrow> bool \<times> 'v memory_cache" where
  "mc_Exists now key c = (case mc_Get now key c of (r, c') \<Rightarrow> (r \<noteq> None, c'))"

definition mc_Delete :: "string \<Rightarrow> 'v memory_cache \<Rightarrow> 'v memory_cache" where
  "mc_Delete key c = c\<lparr>mc_store := AList.delete key (mc_store c)\<rparr>"

definition mc_DeletePattern :: "string \<Rightarrow> 'v memory_cache \<Rightarrow> 'v memory_cache" where
  "mc_DeletePattern pattern c =
     c\<lparr>mc_store := filter (\<lambda>(key, _). \<not> matchPattern key pattern) (mc_store c)\<rparr>"

definition mc_Clear :: "'v memory_cache \<Rightarrow> 'v memory_cache" where
  "mc_Clear c = c\<lparr>mc_store := []\<rparr>"

text \<open>The \<open>items\<close> entry of \<open>Stats\<close>.\<close>

definition mc_Stats_items :: "'v memory_cache \<Rightarrow> nat" where
  "mc_Stats_items c = length (mc_store c)"

text \<open>One tick of the clean-up goroutine.\<close>

definition mc_cleanup :: "instant \<Rightarrow> 'v memory_cache \<Rightarrow> 'v memory_cache" where
  "mc_cleanup now c =
     c\<lparr>mc_store := filter (\<lambda>(_, item). \<not> now > ci_expiration item) (mc_store c)\<rparr>"

section \<open>What the cache holds\<close>

definition mc_wf :: "'v memory_cache \<Rightarrow> bool" where
  "mc_wf c \<longleftrightarrow> distinct (map fst (mc_store c))"

definition live :: "instant \<Rightarrow> 'v memory_cache \<Rightarrow> string \<Rightarrow> 'v option" where
  "live now c key =
     (case map_of (mc_store c) key of
        None \<Rightarrow> None
      | Some item \<Rightarrow> if now > ci_expiration item then None else Some (ci_value item))"

lemma mc_wf_intros [inv_intros]:
  "mc_wf NewMemoryCache"
  "mc_wf c \<Longrightarrow> mc_wf (mc_Set now k v ttl c)"
  "mc_wf c \<Longrightarrow> mc_wf (mc_Delete k c)"
  "mc_wf c \<Longrightarrow> mc_wf (mc_DeletePattern p c)"
  "mc_wf c \<Longrightarrow> mc_wf (mc_cleanup now c)"
  "mc_wf (mc_Clear c)"
  "mc_wf c \<Longrightarrow> mc_wf (snd (mc_Get now k c))"
  by (auto simp: mc_wf_def NewMemoryCache_def mc_Set_def mc_Delete_def mc_DeletePattern_def mc_cleanup_def
      mc_Clear_def mc_Get_def distinct_update distinct_delete distinct_map_filter split: option.splits)

lemma map_of_filter_key:
  "map_of (filter (\<lambda>(k, _). P k) xs) k = (if P k then map_of xs k else None)"
  by (induction xs) auto

lemma map_of_filter_val:
  "distinct (map fst xs) \<Longrightarrow>
   map_of (filter (\<lambda>(_, v). P v) xs) k =
     (case map_of xs k of None \<Rightarrow> None | Some v \<Rightarrow> if P v then Some v else None)"
proof (induction xs)
  case (Cons x xs)
  then show ?case
    by (cases x) (auto split: option.splits simp: map_of_eq_None_iff image_iff)
qed simp

lemma live_New [cache_laws]: "live t NewMemoryCache k = None"
  by (simp add: live_def NewMemoryCache_def)

lemma live_Set [cache_laws]:
  "live t (mc_Set now k v ttl c) k' =
     (if k' = k then if t > now + ttl then None else Some v else live t c k')"
  by (simp add: live_def mc_Set_def update_conv)

lemma live_Delete [cache_laws]: "live t (mc_Delete k c) k' = (if k' = k then None else live t c k')"
  by (simp add: live_def mc_Delete_def delete_conv)

lemma live_DeletePattern [cache_laws]:
  "live t (mc_DeletePattern p c) k = (if matchPattern k p then None else live t c k)"
  by (simp add: live_def mc_DeletePattern_def map_of_filter_key)

lemma live_Clear [cache_laws]: "live t (mc_Clear c) k = None"
  by (simp add: live_def mc_Clear_def)

lemma fst_mc_Get [cache_laws]: "fst (mc_Get now k c) = live now c k"
  by (auto simp: mc_Get_def live_def split: option.splits)

lemma live_Get [cache_laws]: "now \<le> t \<Longrightarrow> live t (snd (mc_Get now k c)) k' = live t c k'"
  by (auto simp: mc_Get_def live_def delete_conv split: option.splits)

lemma live_cleanup [cache_laws]: "mc_wf c \<Longrightarrow> now \<le> t \<Longrightarrow> live t (mc_cleanup now c) k = live t c k"
  by (auto simp: live_def mc_cleanup_def mc_wf_def map_of_filter_val split: option.splits)

lemma live_earlier: "live t c k = Some v \<Longrightarrow> t' \<le> t \<Longrightarrow> live t' c k = Some v"
  by (auto simp: live_def split: option.splits if_splits)

section \<open>The interface of a cache with time to live\<close>

locale ttl_cache =
  fixes holds :: "instant \<Rightarrow> 'c \<Rightarrow> string \<Rightarrow> 'v option"
    and cset :: "instant \<Rightarrow> string \<Rightarrow> 'v \<Rightarrow> duration \<Rightarrow> 'c \<Rightarrow> 'c"
    and cget :: "instant \<Rightarrow> string \<Rightarrow> 'c \<Rightarrow> 'v option \<times> 'c"
    and cdel :: "string \<Rightarrow> 'c \<Rightarrow> 'c"
    and cdelpat :: "string \<Rightarrow> 'c \<Rightarrow> 'c"
  assumes holds_set: "holds t (cset now k v ttl c) k' =
      (if k' = k then if t > now + ttl then None else Some v else holds t c k')"
    and get_holds: "fst (cget now k c) = holds now c k"
    and holds_get: "now \<le> t \<Longrightarrow> holds t (snd (cget now k c)) k' = holds t c k'"
    and holds_del: "holds t (cdel k c) k' = (if k' = k then None else holds t c k')"
    and holds_delpat: "holds t (cdelpat p c) k' = (if matchPattern k' p then None else holds t c k')"
    and holds_earlier: "holds t c k = Some v \<Longrightarrow> t' \<le> t \<Longrightarrow> holds t' c k = Some v"
begin

lemma get_after_set:
  "now' \<le> now + ttl \<Longrightarrow> fst (cget now' k (cset now k v ttl c)) = Some v"
  by (simp add: get_holds holds_set)

lemma get_after_expiry: "now + ttl < now' \<Longrightarrow> fst (cget now' k (cset now k v ttl c)) = None"
  by (simp add: get_holds holds_set)

lemma get_twice: "now \<le> now' \<Longrightarrow> fst (cget now' k (snd (cget now k' c))) = fst (cget now' k c)"
  by (simp add: get_holds holds_get)

lemma none_stays_none: "holds t c k = None \<Longrightarrow> t \<le> t' \<Longrightarrow> holds t' c k = None"
  using holds_earlier [of t' c k _ t] by (cases "holds t' c k") auto

end

interpretation mem: ttl_cache live mc_Set mc_Get mc_Delete mc_DeletePattern
  by unfold_locales (auto simp: cache_laws intro: live_earlier)

section \<open>Histories refine a map with expiry times\<close>

text \<open>
  The specification never removes an expired entry: it keeps every value with its expiry and looks at
  the clock only when it is read. The implementation also removes lazily (in \<open>Get\<close>) and in the
  clean-up goroutine.
\<close>

datatype 'v mc_op =
    MSet instant string 'v duration
  | MGet instant string
  | MExists instant string
  | MDelete string
  | MDeletePattern string
  | MClear
  | MCleanup instant

fun mc_step :: "'v memory_cache \<Rightarrow> 'v mc_op \<Rightarrow> 'v memory_cache" where
  "mc_step c (MSet now k v ttl) = mc_Set now k v ttl c"
| "mc_step c (MGet now k) = snd (mc_Get now k c)"
| "mc_step c (MExists now k) = snd (mc_Exists now k c)"
| "mc_step c (MDelete k) = mc_Delete k c"
| "mc_step c (MDeletePattern p) = mc_DeletePattern p c"
| "mc_step c MClear = mc_Clear c"
| "mc_step c (MCleanup now) = mc_cleanup now c"

fun spec_step :: "(string \<rightharpoonup> 'v \<times> instant) \<Rightarrow> 'v mc_op \<Rightarrow> (string \<rightharpoonup> 'v \<times> instant)" where
  "spec_step m (MSet now k v ttl) = m(k \<mapsto> (v, now + ttl))"
| "spec_step m (MGet now k) = m"
| "spec_step m (MExists now k) = m"
| "spec_step m (MDelete k) = m(k := None)"
| "spec_step m (MDeletePattern p) = (\<lambda>k. if matchPattern k p then None else m k)"
| "spec_step m MClear = Map.empty"
| "spec_step m (MCleanup now) = m"

definition spec_lookup :: "instant \<Rightarrow> (string \<rightharpoonup> 'v \<times> instant) \<Rightarrow> string \<Rightarrow> 'v option" where
  "spec_lookup t m k = (case m k of None \<Rightarrow> None | Some (v, e) \<Rightarrow> if t > e then None else Some v)"

fun op_time :: "'v mc_op \<Rightarrow> instant option" where
  "op_time (MSet now k v ttl) = Some now"
| "op_time (MGet now k) = Some now"
| "op_time (MExists now k) = Some now"
| "op_time (MCleanup now) = Some now"
| "op_time _ = None"

text \<open>No operation of the history reads a clock later than \<open>t\<close>.\<close>

fun before :: "instant \<Rightarrow> 'v mc_op list \<Rightarrow> bool" where
  "before t [] = True"
| "before t (x # xs) = ((case op_time x of None \<Rightarrow> True | Some u \<Rightarrow> u \<le> t) \<and> before t xs)"

definition refines :: "instant \<Rightarrow> 'v memory_cache \<Rightarrow> (string \<rightharpoonup> 'v \<times> instant) \<Rightarrow> bool" where
  "refines t c m \<longleftrightarrow> mc_wf c \<and> (\<forall>k. live t c k = spec_lookup t m k)"

lemma snd_mc_Exists: "snd (mc_Exists now k c) = snd (mc_Get now k c)"
  by (simp add: mc_Exists_def split: prod.splits)

lemma refines_step:
  "refines t c m \<Longrightarrow> (case op_time x of None \<Rightarrow> True | Some u \<Rightarrow> u \<le> t) \<Longrightarrow>
   refines t (mc_step c x) (spec_step m x)"
  by (cases x)
    (auto simp: refines_def spec_lookup_def cache_laws snd_mc_Exists intro: mc_wf_intros)

lemma refines_run: "refines t c m \<Longrightarrow> before t ops \<Longrightarrow> refines t (foldl mc_step c ops) (foldl spec_step m ops)"
  by (induction ops arbitrary: c m) (auto intro: refines_step)

text \<open>
  C11: After any history of operations of which none read a clock later than \<open>t\<close>, a \<open>Get\<close> at \<open>t\<close> returns
  exactly what a plain map with expiry times holds: the value of the last \<open>Set\<close> of the key that no
  \<open>Delete\<close>, matching \<open>DeletePattern\<close> or \<open>Clear\<close> followed, if it has not expired. Lazy removal and
  the clean-up goroutine never change an answer.
\<close>

theorem memory_cache_refines_map:
  assumes "before t ops"
  shows "fst (mc_Get t k (foldl mc_step NewMemoryCache ops)) =
    spec_lookup t (foldl spec_step Map.empty ops) k"
proof -
  have "refines t NewMemoryCache Map.empty"
    by (simp add: refines_def spec_lookup_def live_New mc_wf_intros)
  from refines_run [OF this assms] show ?thesis by (simp add: refines_def fst_mc_Get)
qed

theorem memory_cache_refines_map_witness:
  "before 9 [MSet 0 ''a'' (7::int) 5, MGet 8 ''a'', MSet 8 ''b'' 1 2, MDeletePattern ''a*''] \<and>
   fst (mc_Get 9 ''b'' (foldl mc_step NewMemoryCache
     [MSet 0 ''a'' (7::int) 5, MGet 8 ''a'', MSet 8 ''b'' 1 2, MDeletePattern ''a*''])) = Some 1"
proof -
  have b: "before 9 [MSet 0 ''a'' (7::int) 5, MGet 8 ''a'', MSet 8 ''b'' 1 2, MDeletePattern ''a*'']"
    by simp
  show ?thesis using b memory_cache_refines_map [OF b, of "''b''"]
    by (simp add: spec_lookup_def matchPattern_def)
qed

section \<open>Patterns\<close>

text \<open>
  \<open>DeletePattern\<close> runs on both cache levels with the same pattern: here with \<open>matchPattern\<close>, in Redis as
  a glob. \<open>glob\<close> is that language restricted to its wildcard \<open>*\<close>, any sequence of bytes.
\<close>

fun glob :: "string \<Rightarrow> string \<Rightarrow> bool" where
  "glob [] [] = True"
| "glob [] (t # ts) = False"
| "glob (p # ps) [] = (p = CHR ''*'' \<and> glob ps [])"
| "glob (p # ps) (t # ts) =
     (if p = CHR ''*'' then glob ps (t # ts) \<or> glob (p # ps) ts else p = t \<and> glob ps ts)"

lemma glob_literal: "CHR ''*'' \<notin> set p \<Longrightarrow> glob p t \<longleftrightarrow> t = p"
  by (induction p t rule: glob.induct) auto

lemma glob_star: "glob ''*'' t"
  by (induction t) auto

lemma glob_prefix: "CHR ''*'' \<notin> set p \<Longrightarrow> glob (p @ ''*'') t \<longleftrightarrow> has_prefix t p"
proof (induction p arbitrary: t)
  case Nil then show ?case by (simp add: glob_star has_prefix_def)
next
  case (Cons a p) then show ?case by (cases t) (auto simp: has_prefix_def)
qed

lemma take_length_le: "take (length p) t = p \<Longrightarrow> length p \<le> length t"
  by (metis length_take min.cobounded1)

lemma matchPattern_prefix: "matchPattern t (p @ ''*'') \<longleftrightarrow> has_prefix t p"
  by (cases "p = []") (auto simp: matchPattern_def has_prefix_def nth_append Let_def take_length_le)

lemma last_byte: "c \<notin> set p \<Longrightarrow> p \<noteq> [] \<Longrightarrow> p ! (length p - Suc 0) \<noteq> c"
  by (metis One_nat_def last_conv_nth last_in_set)

lemma matchPattern_literal: "CHR ''*'' \<notin> set p \<Longrightarrow> matchPattern t p \<longleftrightarrow> t = p"
  using last_byte [of "CHR ''*''" p] by (cases "p = []") (auto simp: matchPattern_def)

text \<open>
  For a pattern whose only wildcard is at its end, and for a pattern without wildcard, the
  memory level deletes exactly the keys the glob pattern stands for.
\<close>

theorem matchPattern_is_glob:
  assumes "CHR ''*'' \<notin> set p"
  shows "matchPattern t (p @ ''*'') = glob (p @ ''*'') t \<and> matchPattern t p = glob p t"
  using assms by (simp add: glob_prefix matchPattern_prefix glob_literal matchPattern_literal)

theorem matchPattern_is_glob_witness:
  "CHR ''*'' \<notin> set ''task:'' \<and> matchPattern ''task:17'' ''task:*'' = glob ''task:*'' ''task:17''"
  using matchPattern_is_glob [of "''task:''" "''task:17''"] by simp

text \<open>
  A pattern with a leading wildcard is taken literally by the memory level: it deletes no key but
  the pattern itself, whatever the glob would match.
\<close>

theorem leading_star_is_literal:
  assumes "CHR ''*'' \<notin> set p" and "p \<noteq> []"
  shows "matchPattern t (CHR ''*'' # p) \<longleftrightarrow> t = CHR ''*'' # p"
  using assms last_byte [OF assms] by (simp add: matchPattern_def nth_Cons')

theorem leading_star_is_literal_witness:
  "\<not> matchPattern ''task:17'' ''*17'' \<and> glob ''*17'' ''task:17''"
  using leading_star_is_literal [of "''17''" "''task:17''"] by simp

section \<open>The check and the removal inside Get are two steps\<close>

text \<open>
  \<open>Get\<close> loads the entry, and when it has expired deletes the key, without a lock around the two.
  \<open>mc_Get_load\<close> and \<open>mc_Get_delete\<close> are the two steps; run one right after the other they are
  \<open>Get\<close>.
\<close>

definition mc_Get_load :: "instant \<Rightarrow> string \<Rightarrow> 'v memory_cache \<Rightarrow> ('v option \<times> bool)" where
  "mc_Get_load now key c =
     (case map_of (mc_store c) key of
        None \<Rightarrow> (None, False)
      | Some item \<Rightarrow> if now > ci_expiration item then (None, True) else (Some (ci_value item), False))"

definition mc_Get_delete :: "string \<Rightarrow> bool \<Rightarrow> 'v memory_cache \<Rightarrow> 'v memory_cache" where
  "mc_Get_delete key expired c = (if expired then mc_Delete key c else c)"

lemma mc_Get_two_steps:
  "mc_Get now k c = (case mc_Get_load now k c of (r, x) \<Rightarrow> (r, mc_Get_delete k x c))"
  by (auto simp: mc_Get_def mc_Get_load_def mc_Get_delete_def mc_Delete_def split: option.splits)

text \<open>
  A \<open>Get\<close> that finds an expired entry removes whatever the key holds by the time its second step
  runs: a \<open>Set\<close> of the same key between the two steps is lost, although its time to live has not
  passed.
\<close>

theorem expired_get_loses_concurrent_set:
  assumes "map_of (mc_store c) k = Some item" and "ci_expiration item < now"
  shows "case mc_Get_load now k c of (r, x) \<Rightarrow>
    r = None \<and> live t (mc_Get_delete k x (mc_Set now' k v ttl c)) k = None"
  using assms by (simp add: mc_Get_load_def mc_Get_delete_def cache_laws)

theorem expired_get_loses_concurrent_set_witness:
  "live 7 (mc_Set 7 ''k'' (2::int) 100 \<lparr>mc_store = [(''k'', \<lparr>ci_value = 1, ci_expiration = 5\<rparr>)]\<rparr>) ''k'' = Some 2 \<and>
   live 7 (mc_Get_delete ''k'' (snd (mc_Get_load 7 ''k'' \<lparr>mc_store = [(''k'', \<lparr>ci_value = 1::int, ci_expiration = 5\<rparr>)]\<rparr>))
     (mc_Set 7 ''k'' (2::int) 100 \<lparr>mc_store = [(''k'', \<lparr>ci_value = 1, ci_expiration = 5\<rparr>)]\<rparr>)) ''k'' = None"
  using expired_get_loses_concurrent_set
    [of "\<lparr>mc_store = [(''k'', \<lparr>ci_value = 1::int, ci_expiration = 5\<rparr>)]\<rparr>" "''k''"
      "\<lparr>ci_value = 1, ci_expiration = 5\<rparr>" 7 7 7 2 100]
  by (simp add: cache_laws split: prod.splits)

end
