(* ===== verification/RedisCache.thy ===== *)
theory RedisCache
  imports MemoryCache
begin

text \<open>
  The Redis cache level (\<^verbatim>\<open>backend/internal/cache/redis.go\<close>). The \<^verbatim>\<open>go-redis\<close> client and the
  server behind it are not part of this repository: they are the parameter \<open>'r redis_client\<close>, one field
  per command the source issues, over a server state \<open>'r\<close>. The JSON encoding of the cached Go
  values is the parameter \<open>codec\<close>: \<open>unmarshal\<close> takes the type of the destination. The contexts with
  their timeouts are part of the client: a timeout is one of its errors. What documented behaviour of
  Redis a result relies on is the predicate \<open>redis_lawful\<close>.
\<close>

section \<open>The parameters\<close>

datatype redis_error = RedisNil | RedisErr string

record 'r redis_client =
  rc_Set :: "instant \<Rightarrow> string \<Rightarrow> string \<Rightarrow> duration \<Rightarrow> 'r \<Rightarrow> redis_error option \<times> 'r"
  rc_Get :: "instant \<Rightarrow> string \<Rightarrow> 'r \<Rightarrow> (redis_error + string) \<times> 'r"
  rc_Del :: "instant \<Rightarrow> string list \<Rightarrow> 'r \<Rightarrow> redis_error option \<times> 'r"
  rc_Keys :: "instant \<Rightarrow> string \<Rightarrow> 'r \<Rightarrow> (redis_error + string list) \<times> 'r"
  rc_Exists :: "instant \<Rightarrow> string \<Rightarrow> 'r \<Rightarrow> (redis_error + int) \<times> 'r"
  rc_SMembers :: "instant \<Rightarrow> string \<Rightarrow> 'r \<Rightarrow> (redis_error + string list) \<times> 'r"
  rc_TagPipe :: "instant \<Rightarrow> (string \<times> string \<times> duration) list \<Rightarrow> 'r \<Rightarrow> redis_error option \<times> 'r"
  rc_Ping :: "instant \<Rightarrow> 'r \<Rightarrow> redis_error option \<times> 'r"

record ('v, 'ty) codec =
  marshal :: "'v \<Rightarrow> string option"
  unmarshal :: "'ty \<Rightarrow> string \<Rightarrow> 'v option"

text \<open>The destination argument of \<open>Get\<close>: a pointer to a variable of a type, or a misuse.\<close>

datatype 'ty dest = DestPtr 'ty | DestNilPtr | DestNotPtr

datatype cache_error =
    ErrCacheMiss
  | ErrMarshal
  | ErrUnmarshal
  | ErrSetCache redis_error
  | ErrGetCache redis_error
  | ErrKeys redis_error
  | ErrTagMembers redis_error
  | ErrRedis redis_error
  | ErrDestNotPointer
  | ErrDestNil
  | ErrBreaker

section \<open>RedisCache\<close>

definition unmarshal_dest :: "('v, 'ty) codec \<Rightarrow> 'ty dest \<Rightarrow> string \<Rightarrow> 'v option" where
  "unmarshal_dest J dest data =
     (case dest of DestPtr ty \<Rightarrow> unmarshal J ty data | DestNilPtr \<Rightarrow> None | DestNotPtr \<Rightarrow> None)"

definition rds_Set ::
  "('v, 'ty) codec \<Rightarrow> 'r redis_client \<Rightarrow> instant \<Rightarrow> string \<Rightarrow> 'v \<Rightarrow> duration \<Rightarrow> 'r \<Rightarrow> cache_error option \<times> 'r" where
  "rds_Set J cl now key value expiration r =
     (case marshal J value of
        None \<Rightarrow> (Some ErrMarshal, r)
      | Some data \<Rightarrow>
          (case rc_Set cl now key data expiration r of
             (Some e, r') \<Rightarrow> (Some (ErrSetCache e), r')
           | (None, r') \<Rightarrow> (None, r')))"

definition rds_Get ::
  "('v, 'ty) codec \<Rightarrow> 'r redis_client \<Rightarrow> instant \<Rightarrow> string \<Rightarrow> 'ty dest \<Rightarrow> 'r \<Rightarrow> (cache_error + 'v) \<times> 'r" where
  "rds_Get J cl now key dest r =
     (case rc_Get cl now key r of
        (Inl e, r') \<Rightarrow> (Inl (if e = RedisNil then ErrCacheMiss else ErrGetCache e), r')
      | (Inr data, r') \<Rightarrow>
          (case unmarshal_dest J dest data of
             None \<Rightarrow> (Inl ErrUnmarshal, r')
           | Some v \<Rightarrow> (Inr v, r')))"

definition rds_Delete :: "'r redis_client \<Rightarrow> instant \<Rightarrow> string \<Rightarrow> 'r \<Rightarrow> cache_error option \<times> 'r" where
  "rds_Delete cl now key r = (case rc_Del cl now [key] r of (e, r') \<Rightarrow> (map_option ErrRedis e, r'))"

definition rds_DeletePattern :: "'r redis_client \<Rightarrow> instant \<Rightarrow> string \<Rightarrow> 'r \<Rightarrow> cache_error option \<times> 'r" where
  "rds_DeletePattern cl now pattern r =
     (case rc_Keys cl now pattern r of
        (Inl e, r') \<Rightarrow> (Some (ErrKeys e), r')
      | (Inr keys, r') \<Rightarrow>
          if length keys > 0
          then (case rc_Del cl now keys r' of (e, r'') \<Rightarrow> (map_option ErrRedis e, r''))
          else (None, r'))"

definition rds_Exists :: "'r redis_client \<Rightarrow> instant \<Rightarrow> string \<Rightarrow> 'r \<Rightarrow> (cache_error + bool) \<times> 'r" where
  "rds_Exists cl now key r =
     (case rc_Exists cl now key r of
        (Inl e, r') \<Rightarrow> (Inl (ErrRedis e), r')
      | (Inr result, r') \<Rightarrow> (Inr (result > 0), r'))"

definition tag_key :: "string \<Rightarrow> string" where
  "tag_key tag = ''tag:'' @ tag"

definition rds_SetWithTags ::
  "('v, 'ty) codec \<Rightarrow> 'r redis_client \<Rightarrow> instant \<Rightarrow> string \<Rightarrow> 'v \<Rightarrow> duration \<Rightarrow> string list \<Rightarrow> 'r \<Rightarrow>
   cache_error option \<times> 'r" where
  "rds_SetWithTags J cl now key value expiration tags r =
     (case rds_Set J cl now key value expiration r of
        (Some e, r') \<Rightarrow> (Some e, r')
      | (None, r') \<Rightarrow>
          (case rc_TagPipe cl now (map (\<lambda>tag. (tag_key tag, key, expiration)) tags) r' of
             (e, r'') \<Rightarrow> (map_option ErrRedis e, r'')))"

definition rds_InvalidateByTag :: "'r redis_client \<Rightarrow> instant \<Rightarrow> string \<Rightarrow> 'r \<Rightarrow> cache_error option \<times> 'r" where
  "rds_InvalidateByTag cl now tag r =
     (case rc_SMembers cl now (tag_key tag) r of
        (Inl e, r') \<Rightarrow> (Some (ErrTagMembers e), r')
      | (Inr keys, r') \<Rightarrow>
          if length keys = 0 then (None, r')
          else (case rc_Del cl now (keys @ [tag_key tag]) r' of (e, r'') \<Rightarrow> (map_option ErrRedis e, r'')))"

definition rds_Health :: "'r redis_client \<Rightarrow> instant \<Rightarrow> 'r \<Rightarrow> cache_error option \<times> 'r" where
  "rds_Health cl now r = (case rc_Ping cl now r of (e, r') \<Rightarrow> (map_option ErrRedis e, r'))"

section \<open>Documented behaviour of a Redis that answers\<close>

text \<open>
  \<open>stored t r k\<close> is the string a server in state \<open>r\<close> holds for \<open>k\<close> at \<open>t\<close>. The commands SET
  with a positive expiry, GET, DEL and KEYS act on it as documented, and no command fails. KEYS is
  asked for the patterns that are a literal followed by one \<open>*\<close> only.
\<close>

definition lawful_set :: "'r redis_client \<Rightarrow> (instant \<Rightarrow> 'r \<Rightarrow> string \<Rightarrow> string option) \<Rightarrow> bool" where
  "lawful_set cl stored \<longleftrightarrow> (\<forall>now k d ttl r t k'. 0 < ttl \<longrightarrow>
     fst (rc_Set cl now k d ttl r) = None \<and>
     stored t (snd (rc_Set cl now k d ttl r)) k' =
       (if k' = k then if t < now + ttl then Some d else None else stored t r k'))"

definition lawful_get :: "'r redis_client \<Rightarrow> (instant \<Rightarrow> 'r \<Rightarrow> string \<Rightarrow> string option) \<Rightarrow> bool" where
  "lawful_get cl stored \<longleftrightarrow> (\<forall>now k r t.
     fst (rc_Get cl now k r) = (case stored now r k of None \<Rightarrow> Inl RedisNil | Some d \<Rightarrow> Inr d) \<and>
     (now \<le> t \<longrightarrow> stored t (snd (rc_Get cl now k r)) = stored t r))"

definition lawful_del :: "'r redis_client \<Rightarrow> (instant \<Rightarrow> 'r \<Rightarrow> string \<Rightarrow> string option) \<Rightarrow> bool" where
  "lawful_del cl stored \<longleftrightarrow> (\<forall>now ks r t k.
     fst (rc_Del cl now ks r) = None \<and>
     stored t (snd (rc_Del cl now ks r)) k = (if k \<in> set ks then None else stored t r k))"

text \<open>No character of \<open>q\<close> is special in a KEYS pattern: not \<open>*\<close>, \<open>?\<close>, \<open>[\<close> or the backslash.\<close>

definition literal :: "string \<Rightarrow> bool" where
  "literal q \<longleftrightarrow> list_all (\<lambda>a. a \<notin> {CHR ''*'', CHR ''?'', CHR ''['', CHR 0x5C}) q"

lemma literal_star: "literal q \<Longrightarrow> CHR ''*'' \<notin> set q"
  by (auto simp: literal_def list_all_iff)

lemma literal_append [simp]: "literal (p @ q) \<longleftrightarrow> literal p \<and> literal q"
  by (simp add: literal_def)

lemma literal_Cons [simp]: "literal (a # q) \<longleftrightarrow> a \<notin> {CHR ''*'', CHR ''?'', CHR ''['', CHR 0x5C} \<and> literal q" "literal []"
  by (simp_all add: literal_def)

definition lawful_keys :: "'r redis_client \<Rightarrow> (instant \<Rightarrow> 'r \<Rightarrow> string \<Rightarrow> string option) \<Rightarrow> bool" where
  "lawful_keys cl stored \<longleftrightarrow> (\<forall>now q r. literal q \<longrightarrow>
     (\<exists>ks. fst (rc_Keys cl now (q @ ''*'') r) = Inr ks \<and>
        (\<forall>t. now \<le> t \<longrightarrow> stored t (snd (rc_Keys cl now (q @ ''*'') r)) = stored t r) \<and>
        set ks = {k. stored now r k \<noteq> None \<and> glob (q @ ''*'') k}))"

definition lawful_expiry :: "(instant \<Rightarrow> 'r \<Rightarrow> string \<Rightarrow> string option) \<Rightarrow> bool" where
  "lawful_expiry stored \<longleftrightarrow> (\<forall>t t' r k d. stored t r k = Some d \<longrightarrow> t' \<le> t \<longrightarrow> stored t' r k = Some d)"

definition redis_lawful :: "'r redis_client \<Rightarrow> (instant \<Rightarrow> 'r \<Rightarrow> string \<Rightarrow> string option) \<Rightarrow> bool" where
  "redis_lawful cl stored \<longleftrightarrow> lawful_set cl stored \<and> lawful_get cl stored \<and> lawful_del cl stored \<and>
     lawful_keys cl stored \<and> lawful_expiry stored"

lemma lawful_Set:
  "redis_lawful cl stored \<Longrightarrow> 0 < ttl \<Longrightarrow>
   fst (rc_Set cl now k d ttl r) = None \<and>
   stored t (snd (rc_Set cl now k d ttl r)) k' =
     (if k' = k then if t < now + ttl then Some d else None else stored t r k')"
  by (simp add: redis_lawful_def lawful_set_def)

lemma lawful_Get:
  "redis_lawful cl stored \<Longrightarrow>
   fst (rc_Get cl now k r) = (case stored now r k of None \<Rightarrow> Inl RedisNil | Some d \<Rightarrow> Inr d) \<and>
   (now \<le> t \<longrightarrow> stored t (snd (rc_Get cl now k r)) = stored t r)"
  by (simp add: redis_lawful_def lawful_get_def)

lemma lawful_Del:
  "redis_lawful cl stored \<Longrightarrow> fst (rc_Del cl now ks r) = None \<and>
   stored t (snd (rc_Del cl now ks r)) k = (if k \<in> set ks then None else stored t r k)"
  by (simp add: redis_lawful_def lawful_del_def)

lemma lawful_earlier:
  "redis_lawful cl stored \<Longrightarrow> stored t r k = Some d \<Longrightarrow> t' \<le> t \<Longrightarrow> stored t' r k = Some d"
  unfolding redis_lawful_def lawful_expiry_def by blast

lemma lawful_none_later:
  "redis_lawful cl stored \<Longrightarrow> stored t' r k = None \<Longrightarrow> t' \<le> t \<Longrightarrow> stored t r k = None"
  using lawful_earlier [of cl stored t r k _ t'] by (cases "stored t r k") auto

lemma lawful_Keys:
  assumes "redis_lawful cl stored" and "literal q"
  obtains ks where "fst (rc_Keys cl now (q @ ''*'') r) = Inr ks"
    and "\<And>t. now \<le> t \<Longrightarrow> stored t (snd (rc_Keys cl now (q @ ''*'') r)) = stored t r"
    and "set ks = {k. stored now r k \<noteq> None \<and> has_prefix k q}"
proof -
  from assms have "\<exists>ks. fst (rc_Keys cl now (q @ ''*'') r) = Inr ks \<and>
        (\<forall>t. now \<le> t \<longrightarrow> stored t (snd (rc_Keys cl now (q @ ''*'') r)) = stored t r) \<and>
        set ks = {k. stored now r k \<noteq> None \<and> glob (q @ ''*'') k}"
    by (simp add: redis_lawful_def lawful_keys_def)
  then obtain ks where "fst (rc_Keys cl now (q @ ''*'') r) = Inr ks"
    "\<And>t. now \<le> t \<Longrightarrow> stored t (snd (rc_Keys cl now (q @ ''*'') r)) = stored t r"
    "set ks = {k. stored now r k \<noteq> None \<and> glob (q @ ''*'') k}" by blast
  then show ?thesis using that glob_prefix [OF literal_star [OF assms(2)]] by simp
qed

text \<open>On a lawful Redis the four cache operations do to \<open>stored\<close> what a cache should.\<close>

lemma rds_Set_lawful:
  assumes "redis_lawful cl stored" and "0 < ttl" and "marshal J v = Some d"
  shows "fst (rds_Set J cl now k v ttl r) = None"
    and "stored t (snd (rds_Set J cl now k v ttl r)) k' =
      (if k' = k then if t < now + ttl then Some d else None else stored t r k')"
proof -
  obtain e r' where e: "rc_Set cl now k d ttl r = (e, r')" by fastforce
  show "fst (rds_Set J cl now k v ttl r) = None"
    "stored t (snd (rds_Set J cl now k v ttl r)) k' =
      (if k' = k then if t < now + ttl then Some d else None else stored t r k')"
    using lawful_Set [OF assms(1,2), of now k d r t k'] assms(3) e by (simp_all add: rds_Set_def)
qed

lemma rds_Delete_lawful:
  assumes "redis_lawful cl stored"
  shows "fst (rds_Delete cl now k r) = None"
    and "stored t (snd (rds_Delete cl now k r)) k' = (if k' = k then None else stored t r k')"
proof -
  obtain e r' where e: "rc_Del cl now [k] r = (e, r')" by fastforce
  show "fst (rds_Delete cl now k r) = None"
    "stored t (snd (rds_Delete cl now k r)) k' = (if k' = k then None else stored t r k')"
    using lawful_Del [OF assms, of now "[k]" r t k'] e by (simp_all add: rds_Delete_def)
qed

lemma rds_DeletePattern_lawful:
  assumes "redis_lawful cl stored" and "literal q" and "now \<le> t"
  shows "fst (rds_DeletePattern cl now (q @ ''*'') r) = None"
    and "stored t (snd (rds_DeletePattern cl now (q @ ''*'') r)) k =
      (if has_prefix k q then None else stored t r k)"
proof -
  obtain e r' where e: "rc_Keys cl now (q @ ''*'') r = (e, r')" by fastforce
  obtain ks where ks: "e = Inr ks" "stored t r' = stored t r"
    "set ks = {k. stored now r k \<noteq> None \<and> has_prefix k q}"
    using lawful_Keys [OF assms(1,2), of now r] assms(3) e by (metis fst_conv snd_conv)
  have none: "stored t r k = None" if "k \<notin> set ks" "has_prefix k q"
    using that ks(3) lawful_none_later [OF assms(1) _ assms(3)] by auto
  obtain f r'' where f: "rc_Del cl now ks r' = (f, r'')" by fastforce
  note del = lawful_Del [OF assms(1), of now ks r' t k, unfolded f]
  show "fst (rds_DeletePattern cl now (q @ ''*'') r) = None"
    using ks(1) del e f by (simp add: rds_DeletePattern_def)
  show "stored t (snd (rds_DeletePattern cl now (q @ ''*'') r)) k =
      (if has_prefix k q then None else stored t r k)"
  proof (cases "ks = []")
    case True then show ?thesis using ks e none by (simp add: rds_DeletePattern_def)
  next
    case False
    have "stored t (snd (rds_DeletePattern cl now (q @ ''*'') r)) k = (if k \<in> set ks then None else stored t r k)"
      using False ks(1,2) e f del by (simp add: rds_DeletePattern_def)
    then show ?thesis using none ks(3) by auto
  qed
qed

section \<open>A server that keeps the documented behaviour\<close>

text \<open>
  An in-memory server: an association list of values and expiry instants. It shows that
  \<^const>\<open>redis_lawful\<close> can hold, and the witnesses run on it.
\<close>

type_synonym mem_server = "(string \<times> string \<times> instant) list"

definition mem_stored :: "instant \<Rightarrow> mem_server \<Rightarrow> string \<Rightarrow> string option" where
  "mem_stored t r k =
     (case map_of r k of None \<Rightarrow> None | Some (d, e) \<Rightarrow> if t < e then Some d else None)"

definition mem_redis :: "mem_server redis_client" where
  "mem_redis =
     \<lparr>rc_Set = (\<lambda>now k d ttl r. (None, AList.update k (d, now + ttl) r)),
      rc_Get = (\<lambda>now k r. (case mem_stored now r k of None \<Rightarrow> Inl RedisNil | Some d \<Rightarrow> Inr d, r)),
      rc_Del = (\<lambda>now ks r. (None, filter (\<lambda>(k, _). k \<notin> set ks) r)),
      rc_Keys = (\<lambda>now p r. (Inr (filter (\<lambda>k. mem_stored now r k \<noteq> None \<and> glob p k) (map fst r)), r)),
      rc_Exists = (\<lambda>now k r. (Inr (if mem_stored now r k = None then 0 else 1), r)),
      rc_SMembers = (\<lambda>now k r. (Inr [], r)),
      rc_TagPipe = (\<lambda>now xs r. (None, r)),
      rc_Ping = (\<lambda>now r. (None, r))\<rparr>"

lemma mem_redis_lawful: "redis_lawful mem_redis mem_stored"
proof -
  have "lawful_keys mem_redis mem_stored"
    unfolding lawful_keys_def
  proof (intro allI impI)
    fix now q and r :: mem_server
    have "k \<in> fst ` set r" if "mem_stored now r k \<noteq> None" for k
      using that by (cases "map_of r k") (auto simp: mem_stored_def dest: map_of_SomeD intro: rev_image_eqI)
    then show "\<exists>ks. fst (rc_Keys mem_redis now (q @ ''*'') r) = Inr ks \<and>
        (\<forall>t. now \<le> t \<longrightarrow> mem_stored t (snd (rc_Keys mem_redis now (q @ ''*'') r)) = mem_stored t r) \<and>
        set ks = {k. mem_stored now r k \<noteq> None \<and> glob (q @ ''*'') k}"
      by (auto simp: mem_redis_def)
  qed
  then show ?thesis
    by (auto simp: redis_lawful_def lawful_set_def lawful_get_def lawful_del_def lawful_expiry_def
        mem_redis_def mem_stored_def update_conv map_of_filter_key split: option.splits if_splits)
qed

end
