(* ===== verification/JobCodec.thy ===== *)
theory JobCodec
  imports GoTime RedisCache "HOL-Library.AList"
begin

text \<open>
  What the two Redis job queues (\<^verbatim>\<open>integrated_cache_warmer.go\<close>, \<^verbatim>\<open>worker.go\<close>) share: values of Go's
  \<open>interface{}\<close>, their passage through JSON, and the Redis commands on sorted sets
  and lists, a parameter with its documented laws and an in-memory instance.
\<close>

section \<open>Values\<close>

datatype 'o go_value = GNil | GStr string | GStrs "string list" | GList "'o go_value list" | GOther 'o

text \<open>What a value is after \<open>json.Marshal\<close> and \<open>json.Unmarshal\<close> into an \<open>interface{}\<close>.\<close>

fun json_value :: "('o \<Rightarrow> 'o) \<Rightarrow> 'o go_value \<Rightarrow> 'o go_value" where
  "json_value other GNil = GNil"
| "json_value other (GStr s) = GStr s"
| "json_value other (GStrs ss) = GList (map GStr ss)"
| "json_value other (GList vs) = GList (map (json_value other) vs)"
| "json_value other (GOther v) = GOther (other v)"

text \<open>A payload, \<open>map[string]interface{}\<close>; a missing entry reads as nil.\<close>

type_synonym 'o payload = "string \<rightharpoonup> 'o go_value"

definition payload_get :: "'o payload \<Rightarrow> string \<Rightarrow> 'o go_value" where
  "payload_get p k = (case p k of None \<Rightarrow> GNil | Some v \<Rightarrow> v)"

definition json_payload :: "('o \<Rightarrow> 'o) \<Rightarrow> 'o payload \<Rightarrow> 'o payload" where
  "json_payload other p = (\<lambda>k. map_option (json_value other) (p k))"

definition as_string :: "'o go_value \<Rightarrow> string option" where
  "as_string v = (case v of GStr s \<Rightarrow> Some s | _ \<Rightarrow> None)"

definition as_list :: "'o go_value \<Rightarrow> 'o go_value list option" where
  "as_list v = (case v of GList vs \<Rightarrow> Some vs | _ \<Rightarrow> None)"

text \<open>\<open>fmt.Sprintf("%v", v)\<close>; \<open>other\<close> is its result on values that are neither nil nor a string.\<close>

definition fmt_v :: "('o go_value \<Rightarrow> string) \<Rightarrow> 'o go_value \<Rightarrow> string" where
  "fmt_v other v = (case v of GNil \<Rightarrow> ''<nil>'' | GStr s \<Rightarrow> s | _ \<Rightarrow> other v)"

section \<open>Redis sorted sets and lists\<close>

record 'r job_redis =
  jr_ZAdd :: "string \<Rightarrow> int \<Rightarrow> string \<Rightarrow> 'r \<Rightarrow> redis_error option \<times> 'r"
  jr_ZPopMin :: "string \<Rightarrow> 'r \<Rightarrow> (redis_error + string list) \<times> 'r"
  jr_ZRangeByScore :: "string \<Rightarrow> int \<Rightarrow> nat \<Rightarrow> 'r \<Rightarrow> (redis_error + string list) \<times> 'r"
  jr_ZRem :: "string \<Rightarrow> string \<Rightarrow> 'r \<Rightarrow> redis_error option \<times> 'r"
  jr_ZCard :: "string \<Rightarrow> 'r \<Rightarrow> (redis_error + int) \<times> 'r"
  jr_LPush :: "string \<Rightarrow> string \<Rightarrow> 'r \<Rightarrow> redis_error option \<times> 'r"
  jr_RPush :: "string \<Rightarrow> string \<Rightarrow> 'r \<Rightarrow> redis_error option \<times> 'r"
  jr_BLPop :: "string list \<Rightarrow> 'r \<Rightarrow> (redis_error + string list) \<times> 'r"
  jr_LLen :: "string \<Rightarrow> 'r \<Rightarrow> (redis_error + int) \<times> 'r"
  jr_Ping :: "'r \<Rightarrow> redis_error option \<times> 'r"

text \<open>
  The documented effect of the commands on the sorted sets \<open>Z r key\<close> (member to score) and lists \<open>L r key\<close>.
  A write that reports an error may have been carried out or not.
\<close>

definition lawful_zadd :: "'r job_redis \<Rightarrow> ('r \<Rightarrow> string \<Rightarrow> string \<Rightarrow> int option) \<Rightarrow> ('r \<Rightarrow> string \<Rightarrow> string list) \<Rightarrow> bool" where
  "lawful_zadd R Z L \<longleftrightarrow> (\<forall>key s m r e r'. jr_ZAdd R key s m r = (e, r') \<longrightarrow> L r' = L r \<and>
     (Z r' = (Z r)(key := (Z r key)(m \<mapsto> s)) \<or> e \<noteq> None \<and> Z r' = Z r))"

definition lawful_zpopmin :: "'r job_redis \<Rightarrow> ('r \<Rightarrow> string \<Rightarrow> string \<Rightarrow> int option) \<Rightarrow> ('r \<Rightarrow> string \<Rightarrow> string list) \<Rightarrow> bool" where
  "lawful_zpopmin R Z L \<longleftrightarrow> (\<forall>key r x r'. jr_ZPopMin R key r = (x, r') \<longrightarrow> L r' = L r \<and>
     (case x of
        Inr [] \<Rightarrow> Z r key = Map.empty \<and> Z r' = Z r
      | Inr (m # _) \<Rightarrow> (\<exists>s. Z r key m = Some s \<and> (\<forall>m' s'. Z r key m' = Some s' \<longrightarrow> s \<le> s')) \<and>
          Z r' = (Z r)(key := (Z r key)(m := None))
      | Inl _ \<Rightarrow> Z r' = Z r \<or> (\<exists>m. Z r' = (Z r)(key := (Z r key)(m := None)))))"

definition lawful_zrange :: "'r job_redis \<Rightarrow> ('r \<Rightarrow> string \<Rightarrow> string \<Rightarrow> int option) \<Rightarrow> ('r \<Rightarrow> string \<Rightarrow> string list) \<Rightarrow> bool" where
  "lawful_zrange R Z L \<longleftrightarrow> (\<forall>key hi n r x r'. jr_ZRangeByScore R key hi n r = (x, r') \<longrightarrow> Z r' = Z r \<and> L r' = L r \<and>
     (case x of Inl _ \<Rightarrow> True | Inr ms \<Rightarrow> \<forall>m \<in> set ms. \<exists>s \<le> hi. Z r key m = Some s))"

definition lawful_zrem :: "'r job_redis \<Rightarrow> ('r \<Rightarrow> string \<Rightarrow> string \<Rightarrow> int option) \<Rightarrow> ('r \<Rightarrow> string \<Rightarrow> string list) \<Rightarrow> bool" where
  "lawful_zrem R Z L \<longleftrightarrow> (\<forall>key m r e r'. jr_ZRem R key m r = (e, r') \<longrightarrow> L r' = L r \<and>
     (Z r' = (Z r)(key := (Z r key)(m := None)) \<or> e \<noteq> None \<and> Z r' = Z r))"

definition lawful_lists :: "'r job_redis \<Rightarrow> ('r \<Rightarrow> string \<Rightarrow> string \<Rightarrow> int option) \<Rightarrow> ('r \<Rightarrow> string \<Rightarrow> string list) \<Rightarrow> bool" where
  "lawful_lists R Z L \<longleftrightarrow>
     (\<forall>key m r e r'. jr_LPush R key m r = (e, r') \<longrightarrow> Z r' = Z r \<and>
        (L r' = (L r)(key := m # L r key) \<or> e \<noteq> None \<and> L r' = L r)) \<and>
     (\<forall>key m r e r'. jr_RPush R key m r = (e, r') \<longrightarrow> Z r' = Z r \<and>
        (L r' = (L r)(key := L r key @ [m]) \<or> e \<noteq> None \<and> L r' = L r)) \<and>
     (\<forall>keys r ms r'. jr_BLPop R keys r = (Inr ms, r') \<longrightarrow> Z r' = Z r \<and>
        (\<exists>key m. ms = [key, m] \<and> key \<in> set keys \<and> L r key = m # L r' key \<and> L r' = (L r)(key := L r' key)))"

definition queues_lawful :: "'r job_redis \<Rightarrow> ('r \<Rightarrow> string \<Rightarrow> string \<Rightarrow> int option) \<Rightarrow> ('r \<Rightarrow> string \<Rightarrow> string list) \<Rightarrow> bool" where
  "queues_lawful R Z L \<longleftrightarrow> lawful_zadd R Z L \<and> lawful_zpopmin R Z L \<and> lawful_zrange R Z L \<and> lawful_zrem R Z L \<and> lawful_lists R Z L"

lemma zadd_law: "queues_lawful R Z L \<Longrightarrow> jr_ZAdd R key s m r = (e, r') \<Longrightarrow>
    L r' = L r \<and> (Z r' = (Z r)(key := (Z r key)(m \<mapsto> s)) \<or> e \<noteq> None \<and> Z r' = Z r)"
  unfolding queues_lawful_def lawful_zadd_def by blast

lemma zrem_law: "queues_lawful R Z L \<Longrightarrow> jr_ZRem R key m r = (e, r') \<Longrightarrow>
    L r' = L r \<and> (Z r' = (Z r)(key := (Z r key)(m := None)) \<or> e \<noteq> None \<and> Z r' = Z r)"
  unfolding queues_lawful_def lawful_zrem_def by blast

lemma zpopmin_law: "queues_lawful R Z L \<Longrightarrow> jr_ZPopMin R key r = (x, r') \<Longrightarrow> L r' = L r \<and>
     (case x of
        Inr [] \<Rightarrow> Z r key = Map.empty \<and> Z r' = Z r
      | Inr (m # _) \<Rightarrow> (\<exists>s. Z r key m = Some s \<and> (\<forall>m' s'. Z r key m' = Some s' \<longrightarrow> s \<le> s')) \<and>
          Z r' = (Z r)(key := (Z r key)(m := None))
      | Inl _ \<Rightarrow> Z r' = Z r \<or> (\<exists>m. Z r' = (Z r)(key := (Z r key)(m := None))))"
  unfolding queues_lawful_def lawful_zpopmin_def by blast

lemma zrange_law: "queues_lawful R Z L \<Longrightarrow> jr_ZRangeByScore R key hi n r = (x, r') \<Longrightarrow> Z r' = Z r \<and> L r' = L r \<and>
     (case x of Inl _ \<Rightarrow> True | Inr ms \<Rightarrow> \<forall>m \<in> set ms. \<exists>s \<le> hi. Z r key m = Some s)"
  unfolding queues_lawful_def lawful_zrange_def by blast

lemma lpush_law: "queues_lawful R Z L \<Longrightarrow> jr_LPush R key m r = (e, r') \<Longrightarrow>
    Z r' = Z r \<and> (L r' = (L r)(key := m # L r key) \<or> e \<noteq> None \<and> L r' = L r)"
  unfolding queues_lawful_def lawful_lists_def by blast

lemma rpush_law: "queues_lawful R Z L \<Longrightarrow> jr_RPush R key m r = (e, r') \<Longrightarrow>
    Z r' = Z r \<and> (L r' = (L r)(key := L r key @ [m]) \<or> e \<noteq> None \<and> L r' = L r)"
  unfolding queues_lawful_def lawful_lists_def by blast

lemma blpop_law: "queues_lawful R Z L \<Longrightarrow> jr_BLPop R keys r = (Inr ms, r') \<Longrightarrow>
    Z r' = Z r \<and> (\<exists>key m. ms = [key, m] \<and> key \<in> set keys \<and> L r key = m # L r' key \<and> L r' = (L r)(key := L r' key))"
  unfolding queues_lawful_def lawful_lists_def by blast

text \<open>A server in memory that never fails, for concrete runs.\<close>

record mem_queues =
  mq_zsets :: "string \<Rightarrow> (string \<times> int) list"
  mq_lists :: "string \<Rightarrow> string list"

definition mq_Z :: "mem_queues \<Rightarrow> string \<Rightarrow> string \<Rightarrow> int option" where
  "mq_Z r key = map_of (mq_zsets r key)"

definition mq_pop_list :: "mem_queues \<Rightarrow> string list \<Rightarrow> (redis_error + string list) \<times> mem_queues" where
  "mq_pop_list r keys =
     (case filter (\<lambda>k. mq_lists r k \<noteq> []) keys of
        [] \<Rightarrow> (Inl RedisNil, r)
      | k # _ \<Rightarrow> (Inr [k, hd (mq_lists r k)], r\<lparr>mq_lists := (mq_lists r)(k := tl (mq_lists r k))\<rparr>))"

definition mem_job_redis :: "mem_queues job_redis" where
  "mem_job_redis =
     \<lparr>jr_ZAdd = (\<lambda>key s m r. (None, r\<lparr>mq_zsets := (mq_zsets r)(key := AList.update m s (mq_zsets r key))\<rparr>)),
      jr_ZPopMin = (\<lambda>key r. case sort_key snd (AList.clearjunk (mq_zsets r key)) of
         [] \<Rightarrow> (Inr [], r)
       | (m, s) # _ \<Rightarrow> (Inr [m], r\<lparr>mq_zsets := (mq_zsets r)(key := AList.delete m (mq_zsets r key))\<rparr>)),
      jr_ZRangeByScore = (\<lambda>key hi n r. (Inr (take n (map fst (filter (\<lambda>(m, s). s \<le> hi) (sort_key snd (AList.clearjunk (mq_zsets r key)))))), r)),
      jr_ZRem = (\<lambda>key m r. (None, r\<lparr>mq_zsets := (mq_zsets r)(key := AList.delete m (mq_zsets r key))\<rparr>)),
      jr_ZCard = (\<lambda>key r. (Inr (int (length (mq_zsets r key))), r)),
      jr_LPush = (\<lambda>key m r. (None, r\<lparr>mq_lists := (mq_lists r)(key := m # mq_lists r key)\<rparr>)),
      jr_RPush = (\<lambda>key m r. (None, r\<lparr>mq_lists := (mq_lists r)(key := mq_lists r key @ [m])\<rparr>)),
      jr_BLPop = (\<lambda>keys r. mq_pop_list r keys),
      jr_LLen = (\<lambda>key r. (Inr (int (length (mq_lists r key))), r)),
      jr_Ping = (\<lambda>r. (None, r))\<rparr>"

lemma filter_head: "filter P xs = y # ys \<Longrightarrow> y \<in> set xs \<and> P y"
  by (auto dest!: arg_cong [where f = set])

lemma mq_Z_update: "mq_Z (r\<lparr>mq_zsets := (mq_zsets r)(key := xs)\<rparr>) = (mq_Z r)(key := map_of xs)"
  by (simp add: mq_Z_def fun_eq_iff)

lemma mem_queues_lawful: "queues_lawful mem_job_redis mq_Z mq_lists"
  unfolding queues_lawful_def
proof (intro conjI)
  show "lawful_zadd mem_job_redis mq_Z mq_lists"
    by (auto simp: lawful_zadd_def mem_job_redis_def mq_Z_def update_conv')
  show "lawful_zpopmin mem_job_redis mq_Z mq_lists"
    unfolding lawful_zpopmin_def
  proof (intro allI impI)
    fix key r x r' assume h: "jr_ZPopMin mem_job_redis key r = (x, r')"
    show "mq_lists r' = mq_lists r \<and>
        (case x of Inr [] \<Rightarrow> mq_Z r key = Map.empty \<and> mq_Z r' = mq_Z r
         | Inr (m # _) \<Rightarrow> (\<exists>s. mq_Z r key m = Some s \<and> (\<forall>m' s'. mq_Z r key m' = Some s' \<longrightarrow> s \<le> s')) \<and>
             mq_Z r' = (mq_Z r)(key := (mq_Z r key)(m := None))
         | Inl _ \<Rightarrow> mq_Z r' = mq_Z r \<or> (\<exists>m. mq_Z r' = (mq_Z r)(key := (mq_Z r key)(m := None))))"
    proof (cases "sort_key snd (AList.clearjunk (mq_zsets r key))")
      case Nil
      then have "AList.clearjunk (mq_zsets r key) = []" by (metis length_0_conv length_sort)
      then have "map_of (mq_zsets r key) = Map.empty" by (metis map_of.simps(1) map_of_clearjunk)
      then show ?thesis using h Nil by (auto simp: mem_job_redis_def mq_Z_def)
    next
      case (Cons e es)
      obtain m s where e: "e = (m, s)" by force
      let ?xs = "AList.clearjunk (mq_zsets r key)"
      have d: "distinct (map fst ?xs)" by (rule distinct_clearjunk)
      have "set (e # es) = set ?xs" using Cons by (metis set_sort)
      then have in_e: "(m, s) \<in> set ?xs" and all: "\<forall>x \<in> set ?xs. x = e \<or> x \<in> set es" using e by auto
      have "sorted (map snd (e # es))" using Cons by (metis sorted_sort_key)
      then have least: "\<forall>x \<in> set ?xs. s \<le> snd x" using all e by auto
      have mo: "map_of (mq_zsets r key) = map_of ?xs" by (simp add: map_of_clearjunk)
      have "map_of ?xs m = Some s" using in_e d by (rule map_of_is_SomeI [rotated])
      then have "map_of (mq_zsets r key) m = Some s" by (subst mo)
      moreover have "s \<le> s'" if "map_of (mq_zsets r key) m' = Some s'" for m' s'
      proof -
        have "(m', s') \<in> set ?xs" using that by (subst (asm) mo) (rule map_of_SomeD)
        then show ?thesis using least by fastforce
      qed
      ultimately show ?thesis using h Cons e by (auto simp: mem_job_redis_def mq_Z_update mq_Z_def [of _ key] delete_conv')
    qed
  qed
  show "lawful_zrange mem_job_redis mq_Z mq_lists"
    unfolding lawful_zrange_def
  proof (intro allI impI)
    fix key hi n r x r'
    assume h: "jr_ZRangeByScore mem_job_redis key hi n r = (x, r')"
    let ?xs = "AList.clearjunk (mq_zsets r key)"
    have "\<exists>s \<le> hi. mq_Z r key m = Some s" if m: "m \<in> set (map fst (filter (\<lambda>(m, s). s \<le> hi) (sort_key snd ?xs)))" for m
    proof -
      obtain s where "(m, s) \<in> set ?xs" "s \<le> hi" using m by auto
      moreover have "map_of (mq_zsets r key) = map_of ?xs" by (simp add: map_of_clearjunk)
      moreover have "distinct (map fst ?xs)" by (rule distinct_clearjunk)
      ultimately have "mq_Z r key m = Some s" by (simp only: mq_Z_def map_of_is_SomeI)
      then show ?thesis using \<open>s \<le> hi\<close> by blast
    qed
    then have "\<forall>m \<in> set (take n (map fst (filter (\<lambda>(m, s). s \<le> hi) (sort_key snd ?xs)))). \<exists>s \<le> hi. mq_Z r key m = Some s"
      by (blast dest: in_set_takeD)
    moreover have "x = Inr (take n (map fst (filter (\<lambda>(m, s). s \<le> hi) (sort_key snd ?xs))))" "r' = r"
      using h by (auto simp: mem_job_redis_def)
    ultimately show "mq_Z r' = mq_Z r \<and> mq_lists r' = mq_lists r \<and>
        (case x of Inl _ \<Rightarrow> True | Inr ms \<Rightarrow> \<forall>m \<in> set ms. \<exists>s \<le> hi. mq_Z r key m = Some s)"
      by simp
  qed
  show "lawful_zrem mem_job_redis mq_Z mq_lists"
    by (auto simp: lawful_zrem_def mem_job_redis_def mq_Z_def delete_conv')
  show "lawful_lists mem_job_redis mq_Z mq_lists"
    by (auto simp: lawful_lists_def mem_job_redis_def mq_Z_def mq_pop_list_def fun_eq_iff split: list.splits dest!: filter_head)
qed

end
