(* ===== verification/IntegratedWarmer.thy ===== *)
theory IntegratedWarmer
  imports CacheWarmer JobCodec
begin

text \<open>
  The integrated cache warmer (\<^verbatim>\<open>backend/internal/cache/integrated_cache_warmer.go\<close>): it routes a job either
  to the local worker pool or to a Redis sorted set, which distributed workers pop, execute, retry and
  at last move to a dead-letter list. The Redis commands are the parameter \<open>R\<close>, the JSON encoding of a
  job is \<open>J\<close>, the cache is \<open>K\<close>. A function that submits to the pool returns the list of its possible
  outcomes, one for each choice of the \<open>select\<close>. Consecutive readings of the clock within one
  expression are one instant. The scores are Unix seconds, integers that a \<open>float64\<close> holds exactly.
\<close>

section \<open>Data\<close>

record 'o distributed_job =
  dj_ID :: string
  dj_Type :: string
  dj_Payload :: "'o payload"
  dj_Attempts :: int
  dj_MaxTries :: int
  dj_CreatedAt :: instant
  dj_ProcessAt :: instant
  dj_Priority :: int

abbreviation "CacheJobWarmup \<equiv> ''cache_warmup''"
abbreviation "CacheJobBatch \<equiv> ''cache_batch''"
abbreviation "CacheJobEviction \<equiv> ''cache_eviction''"
abbreviation "CacheJobValidation \<equiv> ''cache_validation''"
abbreviation "CacheJobScheduled \<equiv> ''cache_scheduled''"

record 'o job_codec =
  jc_marshal :: "'o distributed_job \<Rightarrow> string option"
  jc_unmarshal :: "string \<Rightarrow> 'o distributed_job option"
  jc_fmt :: "'o go_value \<Rightarrow> string"

text \<open>The cache as the warmer uses it.\<close>

record ('v, 'e, 'c) cache_iface =
  ci_Set :: "string \<Rightarrow> 'v \<Rightarrow> duration \<Rightarrow> 'c \<Rightarrow> 'e option \<times> 'c"
  ci_Exists :: "string \<Rightarrow> 'c \<Rightarrow> ('e + bool) \<times> 'c"
  ci_Delete :: "string \<Rightarrow> 'c \<Rightarrow> 'e option \<times> 'c"

datatype 'e job_error =
    JE_marshal
  | JE_redis redis_error
  | JE_batch_key string
  | JE_submit
  | JE_invalid_key
  | JE_invalid_keys
  | JE_unknown_type string
  | JE_cache 'e
  | JE_already_running

text \<open>
  \<open>icw_workers\<close> are the identifiers of the distributed workers and whether their stop channel is closed.
  The pool carries the cache, which the distributed workers use as well.
\<close>

record ('w, 'o, 'e, 'c) integrated_warmer =
  icw_strategy :: "('w, 'o go_value) warmup_strategy"
  icw_hasRedis :: bool
  icw_running :: bool
  icw_stopClosed :: bool
  icw_panicked :: bool
  icw_workers :: "(string \<times> bool) list"
  icw_pool :: "('o go_value, 'e, 'c) pool_system"
  icw_redisAvailable :: bool
  icw_localCapacity :: int
  icw_queue :: string
  icw_scheduler :: "('w, 'o go_value) job_scheduler option"
  icw_priorityQueue :: "'o go_value priority_queue"
  icw_processedJobs :: int64
  icw_failedJobs :: int64
  icw_retryJobs :: int64
  icw_distributedJobs :: int64
  icw_localJobs :: int64

section \<open>Construction, Start and Stop\<close>

text \<open>\<open>redis\<close> is the client, when there is one.\<close>

definition NewIntegratedCacheWarmer ::
  "'c \<Rightarrow> 'r job_redis option \<Rightarrow> ('w, 'o go_value) warmup_strategy option \<Rightarrow> 'r \<Rightarrow>
   ('w, 'o, 'e, 'c) integrated_warmer \<times> 'r" where
  "NewIntegratedCacheWarmer cache redis strategy0 r =
     (let strategy = (case strategy0 of None \<Rightarrow> default_strategy | Some s \<Rightarrow> s);
          (avail, r') = (case redis of None \<Rightarrow> (False, r)
                         | Some R \<Rightarrow> (case jr_Ping R r of (e, r') \<Rightarrow> (e = None, r')))
      in (\<lparr>icw_strategy = strategy, icw_hasRedis = (redis \<noteq> None), icw_running = False, icw_stopClosed = False,
           icw_panicked = False, icw_workers = [], icw_pool = new_system (ws_ConcurrentJobs strategy) cache,
           icw_redisAvailable = avail, icw_localCapacity = ws_ConcurrentJobs strategy, icw_queue = ''cache_jobs'',
           icw_scheduler = (if ws_UseScheduler strategy then Some NewJobScheduler else None),
           icw_priorityQueue = NewPriorityQueue, icw_processedJobs = 0, icw_failedJobs = 0, icw_retryJobs = 0,
           icw_distributedJobs = 0, icw_localJobs = 0\<rparr>, r'))"

definition worker_id :: "nat \<Rightarrow> string" where
  "worker_id i = ''distributed-worker-'' @ itoa_nat i"

definition icw_Start :: "instant \<Rightarrow> ('w, 'o, 'e, 'c) integrated_warmer \<Rightarrow> 'e job_error option \<times> ('w, 'o, 'e, 'c) integrated_warmer" where
  "icw_Start now icw =
     (if icw_running icw then (Some JE_already_running, icw)
      else (None, icw\<lparr>icw_running := True, icw_pool := wp_Start (icw_pool icw),
              icw_workers := icw_workers icw @
                (if icw_redisAvailable icw
                 then map (\<lambda>i. (worker_id i, False)) [0..<nat (ws_ConcurrentJobs (icw_strategy icw))] else []),
              icw_scheduler := map_option (\<lambda>js. snd (js_Start now js)) (icw_scheduler icw)\<rparr>))"

text \<open>\<open>Stop\<close> until it waits for the pool, and the rest. Closing a closed channel panics.\<close>

definition icw_Stop_begin :: "('w, 'o, 'e, 'c) integrated_warmer \<Rightarrow> ('w, 'o, 'e, 'c) integrated_warmer" where
  "icw_Stop_begin icw =
     (if \<not> icw_running icw then icw
      else if icw_stopClosed icw \<or> list_ex snd (icw_workers icw)
           then icw\<lparr>icw_stopClosed := True, icw_panicked := True\<rparr>
      else let pool = wp_Stop_begin (icw_pool icw)
           in icw\<lparr>icw_stopClosed := True, icw_workers := map (\<lambda>(i, _). (i, True)) (icw_workers icw), icw_pool := pool,
                  icw_panicked := (icw_panicked icw \<or> sy_panicked pool)\<rparr>)"

definition icw_Stop_end :: "('w, 'o, 'e, 'c) integrated_warmer \<Rightarrow> ('w, 'o, 'e, 'c) integrated_warmer" where
  "icw_Stop_end icw =
     (if icw_panicked icw \<or> \<not> icw_running icw then icw
      else let pool = (if sy_stopping (icw_pool icw) then wp_Stop_end (icw_pool icw) else icw_pool icw)
           in icw\<lparr>icw_pool := pool, icw_scheduler := map_option js_Stop (icw_scheduler icw), icw_running := False,
                  icw_panicked := sy_panicked pool\<rparr>)"

section \<open>Routing\<close>

definition enqueueToRedis ::
  "'r job_redis \<Rightarrow> 'o job_codec \<Rightarrow> instant \<Rightarrow> 'o distributed_job \<Rightarrow> string \<Rightarrow> 'r \<Rightarrow> 'e job_error option \<times> 'r" where
  "enqueueToRedis R J now job queue r =
     (case jc_marshal J job of
        None \<Rightarrow> (Some JE_marshal, r)
      | Some data \<Rightarrow>
          (case (if dj_ProcessAt job > now
                 then jr_ZAdd R (queue @ ''_delayed'') (unix (dj_ProcessAt job)) data r
                 else jr_ZAdd R queue (unix now - dj_Priority job) data r) of
             (e, r') \<Rightarrow> (map_option JE_redis e, r')))"

text \<open>\<open>SubmitJob\<close> on the warmer's pool: accepted, refused, or a panic.\<close>

datatype 'e enqueued = Enq_result "'e job_error option" | Enq_panic

definition submit_local :: "'o go_value warmup_job \<Rightarrow> ('w, 'o, 'e, 'c) integrated_warmer \<Rightarrow> (submit_result \<times> ('w, 'o, 'e, 'c) integrated_warmer) list" where
  "submit_local job icw = map (\<lambda>(r, p). (r, icw\<lparr>icw_pool := (icw_pool icw)\<lparr>sy_pool := p\<rparr>\<rparr>)) (SubmitJob job (sy_pool (icw_pool icw)))"

primrec submit_batch ::
  "'o go_value warmup_job \<Rightarrow> 'o go_value list \<Rightarrow> ('w, 'o, 'e, 'c) integrated_warmer \<Rightarrow>
   ('e enqueued \<times> ('w, 'o, 'e, 'c) integrated_warmer) list" where
  "submit_batch wj [] icw = [(Enq_result None, icw)]"
| "submit_batch wj (v # vs) icw =
     (case as_string v of
        None \<Rightarrow> submit_batch wj vs icw
      | Some key \<Rightarrow> concat (map (\<lambda>(r, icw').
          case r of Submitted True \<Rightarrow> submit_batch wj vs icw'
                  | Submitted False \<Rightarrow> [(Enq_result (Some (JE_batch_key key)), icw')]
                  | SubmitPanic \<Rightarrow> [(Enq_panic, icw')]) (submit_local (wj\<lparr>wj_Key := key\<rparr>) icw)))"

definition local_job :: "'o job_codec \<Rightarrow> 'o distributed_job \<Rightarrow> 'o go_value warmup_job" where
  "local_job J job =
     \<lparr>wj_Key = fmt_v (jc_fmt J) (payload_get (dj_Payload job) ''key''), wj_Data = payload_get (dj_Payload job) ''data'',
      wj_TTL = (case as_string (payload_get (dj_Payload job) ''ttl'') of
                  None \<Rightarrow> hour
                | Some s \<Rightarrow> (case ParseDuration s of None \<Rightarrow> hour | Some ttl \<Rightarrow> ttl)),
      wj_Priority = dj_Priority job\<rparr>"

definition enqueueToLocal ::
  "'o job_codec \<Rightarrow> 'o distributed_job \<Rightarrow> ('w, 'o, 'e, 'c) integrated_warmer \<Rightarrow>
   ('e enqueued \<times> ('w, 'o, 'e, 'c) integrated_warmer) list" where
  "enqueueToLocal J job icw =
     (case (dj_Type job = CacheJobBatch, as_list (payload_get (dj_Payload job) ''keys'')) of
        (True, Some keys) \<Rightarrow> submit_batch (local_job J job) keys icw
      | _ \<Rightarrow> map (\<lambda>(r, icw'). (case r of Submitted True \<Rightarrow> Enq_result None
                                        | Submitted False \<Rightarrow> Enq_result (Some JE_submit)
                                        | SubmitPanic \<Rightarrow> Enq_panic, icw'))
               (submit_local (local_job J job) icw))"

definition to_redis ::
  "'r job_redis \<Rightarrow> 'o job_codec \<Rightarrow> instant \<Rightarrow> 'o distributed_job \<Rightarrow> ('w, 'o, 'e, 'c) integrated_warmer \<Rightarrow> 'r \<Rightarrow>
   ('e enqueued \<times> ('w, 'o, 'e, 'c) integrated_warmer \<times> 'r) list" where
  "to_redis R J now job icw r = (case enqueueToRedis R J now job (icw_queue icw) r of (e, r') \<Rightarrow> [(Enq_result e, icw, r')])"

definition to_local ::
  "'o job_codec \<Rightarrow> 'o distributed_job \<Rightarrow> ('w, 'o, 'e, 'c) integrated_warmer \<Rightarrow> 'r \<Rightarrow>
   ('e enqueued \<times> ('w, 'o, 'e, 'c) integrated_warmer \<times> 'r) list" where
  "to_local J job icw r = map (\<lambda>(x, icw'). (x, icw', r)) (enqueueToLocal J job icw)"

definition routeJob ::
  "'r job_redis \<Rightarrow> 'o job_codec \<Rightarrow> instant \<Rightarrow> 'o distributed_job \<Rightarrow> ('w, 'o, 'e, 'c) integrated_warmer \<Rightarrow> 'r \<Rightarrow>
   ('e enqueued \<times> ('w, 'o, 'e, 'c) integrated_warmer \<times> 'r) list" where
  "routeJob R J now job icw r =
     (if \<not> icw_redisAvailable icw then to_local J job (icw\<lparr>icw_localJobs := icw_localJobs icw + 1\<rparr>) r
      else if dj_Type job = CacheJobScheduled
        then to_redis R J now job (icw\<lparr>icw_distributedJobs := icw_distributedJobs icw + 1\<rparr>) r
      else if dj_Priority job = 1 then to_local J job (icw\<lparr>icw_localJobs := icw_localJobs icw + 1\<rparr>) r
      else if int (length (wp_jobCh (sy_pool (icw_pool icw)))) > ws_ConcurrentJobs (icw_strategy icw)
        then to_redis R J now job (icw\<lparr>icw_distributedJobs := icw_distributedJobs icw + 1\<rparr>) r
      else to_local J job (icw\<lparr>icw_localJobs := icw_localJobs icw + 1\<rparr>) r)"

section \<open>Enqueueing\<close>

text \<open>The jobs are made at \<open>now\<close>; \<open>routeJob\<close> reads the clock again at \<open>now'\<close>.\<close>

definition nano_id :: "instant \<Rightarrow> string" where
  "nano_id now = itoa_nat (nat now)"

definition warmup_payload :: "string \<Rightarrow> 'o go_value \<Rightarrow> duration \<Rightarrow> 'o payload" where
  "warmup_payload key data ttl = [''key'' \<mapsto> GStr key, ''data'' \<mapsto> data, ''ttl'' \<mapsto> GStr (duration_String ttl)]"

definition icw_EnqueueWarmupJob ::
  "'r job_redis \<Rightarrow> 'o job_codec \<Rightarrow> instant \<Rightarrow> instant \<Rightarrow> string \<Rightarrow> 'o go_value \<Rightarrow> duration \<Rightarrow> int \<Rightarrow>
   ('w, 'o, 'e, 'c) integrated_warmer \<Rightarrow> 'r \<Rightarrow> ('e enqueued \<times> ('w, 'o, 'e, 'c) integrated_warmer \<times> 'r) list" where
  "icw_EnqueueWarmupJob R J now now' key data ttl priority icw r =
     routeJob R J now' \<lparr>dj_ID = nano_id now, dj_Type = CacheJobWarmup, dj_Payload = warmup_payload key data ttl,
       dj_Attempts = 0, dj_MaxTries = 3, dj_CreatedAt = now, dj_ProcessAt = now, dj_Priority = priority\<rparr> icw r"

definition icw_EnqueueBatchWarmupJob ::
  "'r job_redis \<Rightarrow> 'o job_codec \<Rightarrow> instant \<Rightarrow> instant \<Rightarrow> string list \<Rightarrow> 'o go_value \<Rightarrow> int \<Rightarrow>
   ('w, 'o, 'e, 'c) integrated_warmer \<Rightarrow> 'r \<Rightarrow> ('e enqueued \<times> ('w, 'o, 'e, 'c) integrated_warmer \<times> 'r) list" where
  "icw_EnqueueBatchWarmupJob R J now now' keys data priority icw r =
     routeJob R J now' \<lparr>dj_ID = ''batch-'' @ nano_id now, dj_Type = CacheJobBatch,
       dj_Payload = [''keys'' \<mapsto> GStrs keys, ''data'' \<mapsto> data],
       dj_Attempts = 0, dj_MaxTries = 3, dj_CreatedAt = now, dj_ProcessAt = now, dj_Priority = priority\<rparr> icw r"

definition icw_EnqueueScheduledWarmup ::
  "'r job_redis \<Rightarrow> 'o job_codec \<Rightarrow> instant \<Rightarrow> instant \<Rightarrow> string \<Rightarrow> 'o go_value \<Rightarrow> duration \<Rightarrow> instant \<Rightarrow> int \<Rightarrow>
   ('w, 'o, 'e, 'c) integrated_warmer \<Rightarrow> 'r \<Rightarrow> ('e enqueued \<times> ('w, 'o, 'e, 'c) integrated_warmer \<times> 'r) list" where
  "icw_EnqueueScheduledWarmup R J now now' key data ttl processAt priority icw r =
     (let job = \<lparr>dj_ID = ''scheduled-'' @ nano_id now, dj_Type = CacheJobScheduled, dj_Payload = warmup_payload key data ttl,
            dj_Attempts = 0, dj_MaxTries = 3, dj_CreatedAt = now, dj_ProcessAt = processAt, dj_Priority = priority\<rparr>
      in if icw_redisAvailable icw then to_redis R J now' job icw r else to_local J job icw r)"

primrec icw_WarmupCache ::
  "'r job_redis \<Rightarrow> 'o job_codec \<Rightarrow> instant \<Rightarrow> instant \<Rightarrow> 'o go_value warmup_job list \<Rightarrow>
   ('w, 'o, 'e, 'c) integrated_warmer \<Rightarrow> 'r \<Rightarrow> ('e enqueued \<times> ('w, 'o, 'e, 'c) integrated_warmer \<times> 'r) list" where
  "icw_WarmupCache R J now now' [] icw r = [(Enq_result None, icw, r)]"
| "icw_WarmupCache R J now now' (job # jobs) icw r =
     concat (map (\<lambda>(x, icw', r'). case x of Enq_panic \<Rightarrow> [(Enq_panic, icw', r')]
                                       | Enq_result _ \<Rightarrow> icw_WarmupCache R J now now' jobs icw' r')
       (icw_EnqueueWarmupJob R J now now' (wj_Key job) (wj_Data job) (wj_TTL job) (wj_Priority job) icw r))"

section \<open>The distributed workers\<close>

definition icw_cache :: "('w, 'o, 'e, 'c) integrated_warmer \<Rightarrow> 'c" where
  "icw_cache icw = sy_cache (icw_pool icw)"

definition with_cache :: "('w, 'o, 'e, 'c) integrated_warmer \<Rightarrow> 'c \<Rightarrow> ('w, 'o, 'e, 'c) integrated_warmer" where
  "with_cache icw c = icw\<lparr>icw_pool := (icw_pool icw)\<lparr>sy_cache := c\<rparr>\<rparr>"

definition handleWarmupJob ::
  "('o go_value, 'e, 'c) cache_iface \<Rightarrow> 'o distributed_job \<Rightarrow> 'c \<Rightarrow> 'e job_error option \<times> 'c" where
  "handleWarmupJob K job c =
     (case as_string (payload_get (dj_Payload job) ''key'') of
        None \<Rightarrow> (Some JE_invalid_key, c)
      | Some key \<Rightarrow>
          let ttl = (case as_string (payload_get (dj_Payload job) ''ttl'') of
                       None \<Rightarrow> hour
                     | Some s \<Rightarrow> (case ParseDuration s of None \<Rightarrow> hour | Some t \<Rightarrow> t))
          in (case ci_Set K key (payload_get (dj_Payload job) ''data'') ttl c of (e, c') \<Rightarrow> (map_option JE_cache e, c')))"

primrec set_keys ::
  "('o go_value, 'e, 'c) cache_iface \<Rightarrow> 'o go_value \<Rightarrow> duration \<Rightarrow> 'o go_value list \<Rightarrow> 'c \<Rightarrow> 'c" where
  "set_keys K data ttl [] c = c"
| "set_keys K data ttl (v # vs) c =
     set_keys K data ttl vs (case as_string v of None \<Rightarrow> c | Some key \<Rightarrow> snd (ci_Set K key data ttl c))"

definition handleBatchJob ::
  "('o go_value, 'e, 'c) cache_iface \<Rightarrow> 'o distributed_job \<Rightarrow> 'c \<Rightarrow> 'e job_error option \<times> 'c" where
  "handleBatchJob K job c =
     (case as_list (payload_get (dj_Payload job) ''keys'') of
        None \<Rightarrow> (Some JE_invalid_keys, c)
      | Some keys \<Rightarrow> (None, set_keys K (payload_get (dj_Payload job) ''data'') hour keys c))"

definition handleEvictionJob ::
  "('o go_value, 'e, 'c) cache_iface \<Rightarrow> 'o distributed_job \<Rightarrow> 'c \<Rightarrow> 'e job_error option \<times> 'c" where
  "handleEvictionJob K job c =
     (case as_string (payload_get (dj_Payload job) ''key'') of
        None \<Rightarrow> (Some JE_invalid_key, c)
      | Some key \<Rightarrow> (case ci_Delete K key c of (e, c') \<Rightarrow> (map_option JE_cache e, c')))"

definition handleValidationJob ::
  "'r job_redis \<Rightarrow> 'o job_codec \<Rightarrow> ('o go_value, 'e, 'c) cache_iface \<Rightarrow> instant \<Rightarrow> instant \<Rightarrow> 'o distributed_job \<Rightarrow>
   ('w, 'o, 'e, 'c) integrated_warmer \<Rightarrow> 'r \<Rightarrow> ('e enqueued \<times> ('w, 'o, 'e, 'c) integrated_warmer \<times> 'r) list" where
  "handleValidationJob R J K now now' job icw r =
     (case as_string (payload_get (dj_Payload job) ''key'') of
        None \<Rightarrow> [(Enq_result (Some JE_invalid_key), icw, r)]
      | Some key \<Rightarrow>
          (case ci_Exists K key (icw_cache icw) of
             (Inr True, c) \<Rightarrow> [(Enq_result None, with_cache icw c, r)]
           | (_, c) \<Rightarrow> icw_EnqueueWarmupJob R J now now' key (payload_get (dj_Payload job) ''data'') hour (dj_Priority job)
                       (with_cache icw c) r))"

definition run_handler ::
  "'r job_redis \<Rightarrow> 'o job_codec \<Rightarrow> ('o go_value, 'e, 'c) cache_iface \<Rightarrow> instant \<Rightarrow> instant \<Rightarrow> 'o distributed_job \<Rightarrow>
   ('w, 'o, 'e, 'c) integrated_warmer \<Rightarrow> 'r \<Rightarrow> ('e enqueued \<times> ('w, 'o, 'e, 'c) integrated_warmer \<times> 'r) list" where
  "run_handler R J K now now' job icw r =
     (let on_cache = (\<lambda>h. case h job (icw_cache icw) of (e, c) \<Rightarrow> [(Enq_result e, with_cache icw c, r)])
      in if dj_Type job = CacheJobWarmup \<or> dj_Type job = CacheJobScheduled then on_cache (handleWarmupJob K)
         else if dj_Type job = CacheJobBatch then on_cache (handleBatchJob K)
         else if dj_Type job = CacheJobValidation then handleValidationJob R J K now now' job icw r
         else if dj_Type job = CacheJobEviction then on_cache (handleEvictionJob K)
         else [(Enq_result (Some (JE_unknown_type (dj_Type job))), icw, r)])"

text \<open>
  What \<open>executeJob\<close> does with the error of the handler: what it writes, and the counters. A job that cannot be
  marshalled any more would be added as the empty string.
\<close>

definition retry_data :: "'o job_codec \<Rightarrow> 'o distributed_job \<Rightarrow> string" where
  "retry_data J job = (case jc_marshal J job of None \<Rightarrow> '''' | Some s \<Rightarrow> s)"

definition retry_write ::
  "'r job_redis \<Rightarrow> 'o job_codec \<Rightarrow> instant \<Rightarrow> string \<Rightarrow> 'o distributed_job \<Rightarrow> 'r \<Rightarrow> 'r" where
  "retry_write R J now queue job r =
     (if dj_Attempts job < dj_MaxTries job
      then let job' = job\<lparr>dj_ProcessAt := now + dj_Attempts job * second\<rparr>
           in snd (jr_ZAdd R (queue @ ''_delayed'') (unix (dj_ProcessAt job')) (retry_data J job') r)
      else snd (jr_LPush R (queue @ ''_dlq'') (retry_data J job) r))"

definition retry_or_bury ::
  "'r job_redis \<Rightarrow> 'o job_codec \<Rightarrow> instant \<Rightarrow> 'o distributed_job \<Rightarrow> ('w, 'o, 'e, 'c) integrated_warmer \<Rightarrow> 'r \<Rightarrow>
   ('w, 'o, 'e, 'c) integrated_warmer \<times> 'r" where
  "retry_or_bury R J now job icw r =
     (icw\<lparr>icw_failedJobs := icw_failedJobs icw + 1,
        icw_retryJobs := (if dj_Attempts job < dj_MaxTries job then icw_retryJobs icw + 1 else icw_retryJobs icw)\<rparr>,
      retry_write R J now (icw_queue icw) job r)"

text \<open>The flag of a result: whether the worker survived.\<close>

definition executeJob ::
  "'r job_redis \<Rightarrow> 'o job_codec \<Rightarrow> ('o go_value, 'e, 'c) cache_iface \<Rightarrow> instant \<Rightarrow> instant \<Rightarrow> 'o distributed_job \<Rightarrow>
   ('w, 'o, 'e, 'c) integrated_warmer \<Rightarrow> 'r \<Rightarrow> (bool \<times> ('w, 'o, 'e, 'c) integrated_warmer \<times> 'r) list" where
  "executeJob R J K now now' job0 icw r =
     (let job = job0\<lparr>dj_Attempts := dj_Attempts job0 + 1\<rparr>
      in map (\<lambda>(x, icw1, r1).
           case x of
             Enq_panic \<Rightarrow> (False, icw1, r1)
           | Enq_result None \<Rightarrow> (True, icw1\<lparr>icw_processedJobs := icw_processedJobs icw1 + 1\<rparr>, r1)
           | Enq_result (Some _) \<Rightarrow> (True, retry_or_bury R J now' job icw1 r1))
           (run_handler R J K now now' job icw r))"

definition processImmediateJobs ::
  "'r job_redis \<Rightarrow> 'o job_codec \<Rightarrow> ('o go_value, 'e, 'c) cache_iface \<Rightarrow> instant \<Rightarrow> instant \<Rightarrow>
   ('w, 'o, 'e, 'c) integrated_warmer \<Rightarrow> 'r \<Rightarrow> (bool \<times> ('w, 'o, 'e, 'c) integrated_warmer \<times> 'r) list" where
  "processImmediateJobs R J K now now' icw r =
     (case jr_ZPopMin R (icw_queue icw) r of
        (Inl _, r') \<Rightarrow> [(True, icw, r')]
      | (Inr [], r') \<Rightarrow> [(True, icw, r')]
      | (Inr (data # _), r') \<Rightarrow>
          (case jc_unmarshal J data of
             None \<Rightarrow> [(True, icw, r')]
           | Some job \<Rightarrow> executeJob R J K now now' job icw r'))"

primrec move_jobs :: "'r job_redis \<Rightarrow> 'o job_codec \<Rightarrow> instant \<Rightarrow> string \<Rightarrow> string list \<Rightarrow> 'r \<Rightarrow> 'r" where
  "move_jobs R J now queue [] r = r"
| "move_jobs R J now queue (data # jobs) r =
     move_jobs R J now queue jobs
       (case jc_unmarshal J data of
          None \<Rightarrow> r
        | Some job \<Rightarrow> snd (jr_ZAdd R queue (unix now - dj_Priority job) data (snd (jr_ZRem R (queue @ ''_delayed'') data r))))"

definition moveDelayedJobs :: "'r job_redis \<Rightarrow> 'o job_codec \<Rightarrow> instant \<Rightarrow> instant \<Rightarrow> string \<Rightarrow> 'r \<Rightarrow> 'r" where
  "moveDelayedJobs R J now now' queue r =
     (case jr_ZRangeByScore R (queue @ ''_delayed'') (unix now) 10 r of
        (Inl _, r') \<Rightarrow> r'
      | (Inr jobs, r') \<Rightarrow> move_jobs R J now' queue jobs r')"

definition processJobs ::
  "'r job_redis \<Rightarrow> 'o job_codec \<Rightarrow> ('o go_value, 'e, 'c) cache_iface \<Rightarrow> instant \<Rightarrow> instant \<Rightarrow>
   ('w, 'o, 'e, 'c) integrated_warmer \<Rightarrow> 'r \<Rightarrow> (bool \<times> ('w, 'o, 'e, 'c) integrated_warmer \<times> 'r) list" where
  "processJobs R J K now now' icw r =
     processImmediateJobs R J K now now' icw (moveDelayedJobs R J now now' (icw_queue icw) r)"

text \<open>One turn of the loop of the \<open>n\<close>-th worker: among the ready cases of its \<open>select\<close> any may be taken.\<close>

definition dcw_turn ::
  "'r job_redis \<Rightarrow> 'o job_codec \<Rightarrow> ('o go_value, 'e, 'c) cache_iface \<Rightarrow> instant \<Rightarrow> instant \<Rightarrow> nat \<Rightarrow>
   ('w, 'o, 'e, 'c) integrated_warmer \<Rightarrow> 'r \<Rightarrow> (bool \<times> ('w, 'o, 'e, 'c) integrated_warmer \<times> 'r) loop_turn list" where
  "dcw_turn R J K now now' n icw r =
     map Ticked (processJobs R J K now now' icw r) @ (if snd (icw_workers icw ! n) then [Left] else [])"

section \<open>Observation\<close>

record icw_metrics =
  im_processed_jobs :: int64
  im_failed_jobs :: int64
  im_retry_jobs :: int64
  im_distributed_jobs :: int64
  im_local_jobs :: int64
  im_redis_available :: bool
  im_distributed_workers :: nat
  im_local_worker_stats :: pool_stats

definition icw_GetMetrics :: "('w, 'o, 'e, 'c) integrated_warmer \<Rightarrow> icw_metrics" where
  "icw_GetMetrics icw = \<lparr>im_processed_jobs = icw_processedJobs icw, im_failed_jobs = icw_failedJobs icw,
     im_retry_jobs = icw_retryJobs icw, im_distributed_jobs = icw_distributedJobs icw, im_local_jobs = icw_localJobs icw,
     im_redis_available = icw_redisAvailable icw, im_distributed_workers = length (icw_workers icw),
     im_local_worker_stats = wp_GetStats (sy_pool (icw_pool icw))\<rparr>"

definition size_entry :: "string \<Rightarrow> (redis_error + int) \<times> 'r \<Rightarrow> (string \<times> int) list \<times> 'r" where
  "size_entry name x = (case x of (Inr n, r) \<Rightarrow> ([(name, n)], r) | (Inl _, r) \<Rightarrow> ([], r))"

definition icw_GetQueueSizes :: "'r job_redis \<Rightarrow> ('w, 'o, 'e, 'c) integrated_warmer \<Rightarrow> 'r \<Rightarrow> (string \<times> int) list \<times> 'r" where
  "icw_GetQueueSizes R icw r =
     (let sizes = [(''local'', int (length (wp_jobCh (sy_pool (icw_pool icw)))))]
      in if icw_redisAvailable icw
         then let (a, r1) = size_entry ''redis_immediate'' (jr_ZCard R (icw_queue icw) r);
                  (b, r2) = size_entry ''redis_delayed'' (jr_ZCard R (icw_queue icw @ ''_delayed'') r1);
                  (d, r3) = size_entry ''redis_dead_letter'' (jr_LLen R (icw_queue icw @ ''_dlq'') r2)
              in (sizes @ a @ b @ d, r3)
         else (sizes, r))"

definition icw_IsRunning :: "('w, 'o, 'e, 'c) integrated_warmer \<Rightarrow> bool" where
  "icw_IsRunning icw = icw_running icw"

section \<open>Laws of the encoding\<close>

text \<open>
  \<open>json.Unmarshal\<close> gives back what \<open>json.Marshal\<close> wrote, up to the types that JSON forgets; the empty string
  is not a document.
\<close>

definition json_job :: "('o \<Rightarrow> 'o) \<Rightarrow> 'o distributed_job \<Rightarrow> 'o distributed_job" where
  "json_job other job = job\<lparr>dj_Payload := json_payload other (dj_Payload job)\<rparr>"

definition codec_lawful :: "'o job_codec \<Rightarrow> ('o \<Rightarrow> 'o) \<Rightarrow> bool" where
  "codec_lawful J other \<longleftrightarrow> jc_unmarshal J '''' = None \<and>
     (\<forall>job s. jc_marshal J job = Some s \<longrightarrow> jc_unmarshal J s = Some (json_job other job))"

section \<open>A batch enqueued locally\<close>

lemma submit_local_healthy:
  assumes "healthy_pool (sy_pool (icw_pool icw))" and "pool_room (sy_pool (icw_pool icw)) > 0"
  shows "submit_local job icw = [(Submitted True, icw\<lparr>icw_pool := (icw_pool icw)\<lparr>sy_pool :=
    (sy_pool (icw_pool icw))\<lparr>wp_jobCh := wp_jobCh (sy_pool (icw_pool icw)) @ [job]\<rparr>\<rparr>\<rparr>)]"
  using assms by (simp add: submit_local_def SubmitJob_healthy)

definition local_queue :: "('w, 'o, 'e, 'c) integrated_warmer \<Rightarrow> 'o go_value warmup_job list" where
  "local_queue icw = wp_jobCh (sy_pool (icw_pool icw))"

lemma to_local_single:
  assumes "healthy_pool (sy_pool (icw_pool icw))" and "pool_room (sy_pool (icw_pool icw)) > 0"
    and "dj_Type job \<noteq> CacheJobBatch \<or> as_list (payload_get (dj_Payload job) ''keys'') = None"
  shows "\<exists>icw'. to_local J job icw r = [(Enq_result None, icw', r)] \<and>
    local_queue icw' = local_queue icw @ [local_job J job]"
  using assms by (auto simp: to_local_def enqueueToLocal_def submit_local_healthy local_queue_def split: option.splits bool.splits)

lemma route_to_local:
  assumes "icw_redisAvailable icw \<longrightarrow> dj_Type job \<noteq> CacheJobScheduled \<and>
      (dj_Priority job = 1 \<or> int (length (local_queue icw)) \<le> ws_ConcurrentJobs (icw_strategy icw))"
  shows "routeJob R J now job icw r = to_local J job (icw\<lparr>icw_localJobs := icw_localJobs icw + 1\<rparr>) r"
  using assms by (auto simp: routeJob_def local_queue_def)

lemma nil_key_batch:
  assumes "healthy_pool (sy_pool (icw_pool icw))" and "pool_room (sy_pool (icw_pool icw)) > 0"
    and "icw_redisAvailable icw \<longrightarrow> priority = 1 \<or> int (length (local_queue icw)) \<le> ws_ConcurrentJobs (icw_strategy icw)"
  shows "\<exists>icw'. icw_EnqueueBatchWarmupJob R J now now' keys data priority icw r = [(Enq_result None, icw', r)] \<and>
    local_queue icw' = local_queue icw @ [\<lparr>wj_Key = ''<nil>'', wj_Data = data, wj_TTL = hour, wj_Priority = priority\<rparr>]"
proof -
  let ?job = "\<lparr>dj_ID = ''batch-'' @ nano_id now, dj_Type = CacheJobBatch, dj_Payload = [''keys'' \<mapsto> GStrs keys, ''data'' \<mapsto> data],
       dj_Attempts = 0, dj_MaxTries = 3, dj_CreatedAt = now, dj_ProcessAt = now, dj_Priority = priority\<rparr>"
  let ?icw = "icw\<lparr>icw_localJobs := icw_localJobs icw + 1\<rparr>"
  have "routeJob R J now' ?job icw r = to_local J ?job ?icw r" by (rule route_to_local) (use assms(3) in auto)
  moreover have "\<exists>icw'. to_local J ?job ?icw r = [(Enq_result None, icw', r)] \<and> local_queue icw' = local_queue ?icw @ [local_job J ?job]"
    by (rule to_local_single) (use assms(1,2) in \<open>auto simp: payload_get_def as_list_def\<close>)
  moreover have "local_job J ?job = \<lparr>wj_Key = ''<nil>'', wj_Data = data, wj_TTL = hour, wj_Priority = priority\<rparr>"
    by (simp add: local_job_def payload_get_def fmt_v_def as_string_def)
  ultimately show ?thesis by (simp add: icw_EnqueueBatchWarmupJob_def local_queue_def)
qed

text \<open>
  A batch that is routed to the local pool (no Redis, priority 1, or a short queue) never warms its
  keys: the payload holds a \<open>[]string\<close> where \<open>enqueueToLocal\<close> looks for a \<open>[]interface{}\<close>, so that one single
  job is accepted, with the key \<open><nil>\<close>, whatever the keys are, and success is reported.
\<close>

theorem local_batch_warms_nil_key:
  assumes "healthy_pool (sy_pool (icw_pool icw))" and "pool_room (sy_pool (icw_pool icw)) > 0"
    and "icw_redisAvailable icw \<longrightarrow> priority = 1 \<or> int (length (local_queue icw)) \<le> ws_ConcurrentJobs (icw_strategy icw)"
  shows "\<exists>icw'. icw_EnqueueBatchWarmupJob R J now now' keys data priority icw r = [(Enq_result None, icw', r)] \<and>
    local_queue icw' = local_queue icw @ [\<lparr>wj_Key = ''<nil>'', wj_Data = data, wj_TTL = hour, wj_Priority = priority\<rparr>]"
  by (rule nil_key_batch [OF assms])

section \<open>A batch that goes through Redis\<close>

lemma set_keys_strings:
  "set_keys K data ttl (map GStr keys) c = foldl (\<lambda>c key. snd (ci_Set K key data ttl c)) c keys"
  by (induction keys arbitrary: c) (simp_all add: as_string_def)

text \<open>
  C27: A batch that is routed to Redis comes back as it was: the worker that pops it sets every one of its
  keys, with the data as JSON gives it back, and the job is gone from the queue.
\<close>

theorem redis_batch_warms_every_key:
  fixes icw :: "('w, 'o, 'e, 'c) integrated_warmer"
  assumes laws: "queues_lawful R Z L" "codec_lawful J other"
    and long: "icw_redisAvailable icw" "priority \<noteq> 1" "int (length (local_queue icw)) > ws_ConcurrentJobs (icw_strategy icw)"
    and now: "now \<le> now'" and empty: "Z r (icw_queue icw) = Map.empty"
    and enq: "icw_EnqueueBatchWarmupJob R J now now' keys data priority icw r = [(Enq_result None, icw1, r1)]"
    and pop: "jr_ZPopMin R (icw_queue icw) r1 = (Inr ms, r2)"
  shows "\<exists>icw2. processImmediateJobs R J K t t' icw1 r1 = [(True, icw2, r2)] \<and>
    icw_cache icw2 = foldl (\<lambda>c key. snd (ci_Set K key (json_value other data) hour c)) (icw_cache icw) keys \<and>
    Z r2 (icw_queue icw) = Map.empty"
proof -
  define job where "job = \<lparr>dj_ID = ''batch-'' @ nano_id now, dj_Type = CacheJobBatch, dj_Payload = [''keys'' \<mapsto> GStrs keys, ''data'' \<mapsto> data],
       dj_Attempts = 0, dj_MaxTries = 3, dj_CreatedAt = now, dj_ProcessAt = now, dj_Priority = priority\<rparr>"
  have icw1: "icw1 = icw\<lparr>icw_distributedJobs := icw_distributedJobs icw + 1\<rparr>"
    and red: "enqueueToRedis R J now' job (icw_queue icw) r = (None :: 'e job_error option, r1)"
    using enq long by (auto simp: icw_EnqueueBatchWarmupJob_def routeJob_def to_redis_def local_queue_def job_def [symmetric]
        split: prod.splits) (simp_all add: job_def)
  obtain s where s: "jc_marshal J job = Some s" using red by (cases "jc_marshal J job") (auto simp: enqueueToRedis_def)
  have "\<not> dj_ProcessAt job > now'" using now by (simp add: job_def)
  then have "jr_ZAdd R (icw_queue icw) (unix now' - priority) s r = (None, r1)"
    using red s by (auto simp: enqueueToRedis_def job_def split: prod.splits)
  then have z1: "Z r1 (icw_queue icw) = [s \<mapsto> unix now' - priority]"
    using zadd_law [OF laws(1)] empty by fastforce
  note p = zpopmin_law [OF laws(1) pop]
  have "\<exists>m ms'. ms = m # ms'" using p z1 by (cases ms) auto
  then obtain m ms' where ms: "ms = m # ms'" by blast
  then have m: "m = s" and z2: "Z r2 (icw_queue icw) = Map.empty" using p z1 by (auto split: if_splits)
  have un: "jc_unmarshal J s = Some (json_job other job)" using laws(2) s by (simp add: codec_lawful_def)
  show ?thesis using pop ms m un z2
    by (auto simp: processImmediateJobs_def icw1 executeJob_def run_handler_def json_job_def json_payload_def job_def
        handleBatchJob_def payload_get_def as_list_def set_keys_strings with_cache_def icw_cache_def Let_def)
qed

section \<open>Failed jobs\<close>

text \<open>
  C40: A job whose handler fails is counted as failed; while it has tries left it is written to the
  delayed queue with one attempt more, due as many seconds later as it has attempts, and it comes back
  from there as it was written; otherwise it is pushed to the dead-letter list. When the command of that write reports
  no error, exactly this has happened; the error is ignored: when there is one the write may not have happened, and then the job is lost.
\<close>

theorem failed_job_is_retried_or_buried:
  fixes icw :: "('w, 'o, 'e, 'c) integrated_warmer"
  assumes laws: "queues_lawful R Z L" "codec_lawful J other"
    and job: "job = job0\<lparr>dj_Attempts := dj_Attempts job0 + 1\<rparr>" and due: "due = now' + dj_Attempts job * second"
    and written: "written = (if dj_Attempts job < dj_MaxTries job then job\<lparr>dj_ProcessAt := due\<rparr> else job)"
      "jc_marshal J written = Some data"
    and fails: "run_handler R J K now now' job icw r = [(Enq_result (Some e), icw1, r1)]"
  shows "\<exists>icw2 r2. executeJob R J K now now' job0 icw r = [(True, icw2, r2)] \<and>
    icw_failedJobs icw2 = icw_failedJobs icw1 + 1 \<and> jc_unmarshal J data = Some (json_job other written) \<and>
    (if dj_Attempts job < dj_MaxTries job
     then (let q = icw_queue icw1 @ ''_delayed''
           in L r2 = L r1 \<and> icw_retryJobs icw2 = icw_retryJobs icw1 + 1 \<and>
              (if fst (jr_ZAdd R q (unix due) data r1) = None then Z r2 = (Z r1)(q := (Z r1 q)(data \<mapsto> unix due))
               else Z r2 \<in> {(Z r1)(q := (Z r1 q)(data \<mapsto> unix due)), Z r1}))
     else (let q = icw_queue icw1 @ ''_dlq''
           in Z r2 = Z r1 \<and> icw_retryJobs icw2 = icw_retryJobs icw1 \<and>
              (if fst (jr_LPush R q data r1) = None then L r2 = (L r1)(q := data # L r1 q)
               else L r2 \<in> {(L r1)(q := data # L r1 q), L r1})))"
proof -
  obtain icw2 r2 where rb: "retry_or_bury R J now' job icw1 r1 = (icw2, r2)" by fastforce
  then have ex: "executeJob R J K now now' job0 icw r = [(True, icw2, r2)]"
    by (simp add: executeJob_def Let_def job [symmetric] fails)
  have un: "jc_unmarshal J data = Some (json_job other written)" using laws(2) written(2) by (simp add: codec_lawful_def)
  show ?thesis
  proof (cases "dj_Attempts job < dj_MaxTries job")
    case True
    obtain e' r' where z: "jr_ZAdd R (icw_queue icw1 @ ''_delayed'') (unix due) data r1 = (e', r')" by fastforce
    have "icw2 = icw1\<lparr>icw_failedJobs := icw_failedJobs icw1 + 1, icw_retryJobs := icw_retryJobs icw1 + 1\<rparr>" "r2 = r'"
      using rb True z written by (simp_all add: retry_or_bury_def retry_write_def retry_data_def Let_def due)
    then show ?thesis using ex un True z zadd_law [OF laws(1) z] by (auto simp: Let_def)
  next
    case False
    obtain e' r' where z: "jr_LPush R (icw_queue icw1 @ ''_dlq'') data r1 = (e', r')" by fastforce
    have "icw2 = icw1\<lparr>icw_failedJobs := icw_failedJobs icw1 + 1\<rparr>" "r2 = r'"
      using rb False z written by (simp_all add: retry_or_bury_def retry_write_def retry_data_def Let_def)
    then show ?thesis using ex un False z lpush_law [OF laws(1) z] by (auto simp: Let_def)
  qed
qed

section \<open>Delayed jobs\<close>

text \<open>Every score of the delayed queue is the due time of its job.\<close>

definition delayed_ok :: "'o job_codec \<Rightarrow> ('r \<Rightarrow> string \<Rightarrow> string \<Rightarrow> int option) \<Rightarrow> string \<Rightarrow> 'r \<Rightarrow> bool" where
  "delayed_ok J Z q r \<longleftrightarrow> (\<forall>m s job. Z r (q @ ''_delayed'') m = Some s \<longrightarrow> jc_unmarshal J m = Some job \<longrightarrow>
     s = unix (dj_ProcessAt job))"

lemma queue_names [simp]: "q @ ''_delayed'' \<noteq> q" "q \<noteq> q @ ''_delayed''" "q @ ''_dlq'' \<noteq> q"
  by (simp_all add: append_eq_conv_conj)

lemma zadd_other: "queues_lawful R Z L \<Longrightarrow> jr_ZAdd R q s m r = (e, r') \<Longrightarrow> delayed_ok J Z q r \<Longrightarrow> delayed_ok J Z q r'"
  by (drule (1) zadd_law) (auto simp: delayed_ok_def)

lemma zadd_delayed:
  "queues_lawful R Z L \<Longrightarrow> jr_ZAdd R (q @ ''_delayed'') s m r = (e, r') \<Longrightarrow> delayed_ok J Z q r \<Longrightarrow>
   (\<forall>job. jc_unmarshal J m = Some job \<longrightarrow> s = unix (dj_ProcessAt job)) \<Longrightarrow> delayed_ok J Z q r'"
  by (drule (1) zadd_law) (auto simp: delayed_ok_def split: if_splits)

lemma unmarshal_marshal:
  "codec_lawful J other \<Longrightarrow> jc_marshal J job = Some s \<Longrightarrow> jc_unmarshal J s = Some job' \<Longrightarrow>
   dj_ProcessAt job' = dj_ProcessAt job"
  by (auto simp: codec_lawful_def json_job_def)

lemma enqueueToRedis_delayed:
  assumes "queues_lawful R Z L" "codec_lawful J other" "enqueueToRedis R J now job q r = (e, r')" "delayed_ok J Z q r"
  shows "delayed_ok J Z q r'"
proof (cases "jc_marshal J job")
  case None
  then show ?thesis using assms(3,4) by (simp add: enqueueToRedis_def)
next
  case (Some s)
  then have m: "\<forall>job'. jc_unmarshal J s = Some job' \<longrightarrow> unix (dj_ProcessAt job) = unix (dj_ProcessAt job')"
    using unmarshal_marshal [OF assms(2) Some] by metis
  show ?thesis using assms(3) Some zadd_other [OF assms(1) _ assms(4)] zadd_delayed [OF assms(1) _ assms(4)] m
    by (auto simp: enqueueToRedis_def split: if_splits prod.splits)
qed

lemma submit_local_queue: "(x, icw') \<in> set (submit_local job icw) \<Longrightarrow> icw_queue icw' = icw_queue icw"
  by (auto simp: submit_local_def)

lemma submit_batch_queue: "(x, icw') \<in> set (submit_batch wj vs icw) \<Longrightarrow> icw_queue icw' = icw_queue icw"
proof (induction vs arbitrary: icw)
  case (Cons v vs)
  show ?case
  proof (cases "as_string v")
    case None
    then show ?thesis using Cons by simp
  next
    case (Some key)
    then obtain sr icw1 where s: "(sr, icw1) \<in> set (submit_local (wj\<lparr>wj_Key := key\<rparr>) icw)"
        "(x, icw') \<in> set (case sr of Submitted True \<Rightarrow> submit_batch wj vs icw1
           | Submitted False \<Rightarrow> [(Enq_result (Some (JE_batch_key key)), icw1)] | SubmitPanic \<Rightarrow> [(Enq_panic, icw1)])"
      using Cons.prems by auto
    then show ?thesis using Cons.IH [of icw1] submit_local_queue [OF s(1)]
      by (auto split: submit_result.splits bool.splits)
  qed
qed simp

lemma to_local_frame: "(x, icw', r') \<in> set (to_local J job icw r) \<Longrightarrow> icw_queue icw' = icw_queue icw \<and> r' = r"
  by (auto simp: to_local_def enqueueToLocal_def dest: submit_batch_queue submit_local_queue split: bool.splits option.splits)

lemma to_redis_delayed:
  assumes "queues_lawful R Z L" "codec_lawful J other" "(x, icw', r') \<in> set (to_redis R J now job icw r)"
    and "delayed_ok J Z (icw_queue icw) r"
  shows "icw_queue icw' = icw_queue icw \<and> delayed_ok J Z (icw_queue icw) r'"
proof -
  obtain e r1 where e: "enqueueToRedis R J now job (icw_queue icw) r = (e :: 'c job_error option, r1)" by fastforce
  then show ?thesis using assms(3) enqueueToRedis_delayed [OF assms(1,2) e assms(4)] by (auto simp: to_redis_def)
qed

lemma routeJob_delayed:
  assumes "queues_lawful R Z L" "codec_lawful J other" "(x, icw', r') \<in> set (routeJob R J now job icw r)"
    and "delayed_ok J Z (icw_queue icw) r"
  shows "icw_queue icw' = icw_queue icw \<and> delayed_ok J Z (icw_queue icw) r'"
  using assms(3,4) by (auto simp: routeJob_def split: if_splits dest!: to_local_frame to_redis_delayed [OF assms(1,2)])

lemma run_handler_delayed:
  assumes "queues_lawful R Z L" "codec_lawful J other" "(x, icw', r') \<in> set (run_handler R J K now now' job icw r)"
    and "delayed_ok J Z (icw_queue icw) r"
  shows "icw_queue icw' = icw_queue icw \<and> delayed_ok J Z (icw_queue icw) r'"
proof -
  have v: "icw_queue icw' = icw_queue icw \<and> delayed_ok J Z (icw_queue icw) r'"
    if "(x, icw', r') \<in> set (handleValidationJob R J K now now' job icw r)"
  proof (cases "as_string (payload_get (dj_Payload job) ''key'')")
    case None
    then show ?thesis using that assms(4) by (simp add: handleValidationJob_def)
  next
    case (Some key)
    obtain ans c where ex: "ci_Exists K key (icw_cache icw) = (ans, c)" by fastforce
    show ?thesis
    proof (cases "ans = Inr True")
      case True
      then show ?thesis using that assms(4) Some ex by (simp add: handleValidationJob_def with_cache_def)
    next
      case False
      then have "(x, icw', r') \<in> set (icw_EnqueueWarmupJob R J now now' key (payload_get (dj_Payload job) ''data'') hour
          (dj_Priority job) (with_cache icw c) r)"
        using that Some ex by (auto simp: handleValidationJob_def split: sum.splits bool.splits)
      then show ?thesis using routeJob_delayed [OF assms(1,2), of x icw' r'] assms(4)
        unfolding icw_EnqueueWarmupJob_def by (fastforce simp: with_cache_def)
    qed
  qed
  show ?thesis using assms(3,4) v
    by (auto simp: run_handler_def with_cache_def Let_def split: if_splits prod.splits)
qed

text \<open>What a failed job writes: under its new due time in the delayed queue, or to the dead letters.\<close>

lemma retry_write_law:
  assumes "queues_lawful R Z L" "codec_lawful J other"
  shows "Z (retry_write R J now q job r) = Z r \<or>
    (\<exists>job' s. job' = job\<lparr>dj_ProcessAt := now + dj_Attempts job * second\<rparr> \<and>
       Z (retry_write R J now q job r) = (Z r)(q @ ''_delayed'' := (Z r (q @ ''_delayed''))(retry_data J job' \<mapsto> s)) \<and>
       (\<forall>x. jc_unmarshal J (retry_data J job') = Some x \<longrightarrow> s = unix (dj_ProcessAt x)))"
proof (cases "dj_Attempts job < dj_MaxTries job")
  case True
  let ?job = "job\<lparr>dj_ProcessAt := now + dj_Attempts job * second\<rparr>"
  obtain e' r1 where z: "jr_ZAdd R (q @ ''_delayed'') (unix (dj_ProcessAt ?job)) (retry_data J ?job) r = (e', r1)" by fastforce
  then have "retry_write R J now q job r = r1" using True by (simp add: retry_write_def Let_def)
  moreover have "\<forall>job'. jc_unmarshal J (retry_data J ?job) = Some job' \<longrightarrow> unix (dj_ProcessAt ?job) = unix (dj_ProcessAt job')"
  proof (cases "jc_marshal J ?job")
    case None
    then show ?thesis using assms(2) by (simp add: codec_lawful_def retry_data_def)
  next
    case (Some s)
    show ?thesis using unmarshal_marshal [OF assms(2) Some] Some unfolding retry_data_def by (metis option.simps(5))
  qed
  ultimately show ?thesis using zadd_law [OF assms(1) z] by blast
next
  case False
  obtain e' r1 where z: "jr_LPush R (q @ ''_dlq'') (retry_data J job) r = (e', r1)" by fastforce
  then have "retry_write R J now q job r = r1" using False by (simp add: retry_write_def)
  then show ?thesis using lpush_law [OF assms(1) z] by blast
qed

lemma retry_or_bury_delayed:
  assumes "queues_lawful R Z L" "codec_lawful J other" "retry_or_bury R J now job icw r = (icw', r')"
    and "delayed_ok J Z (icw_queue icw) r"
  shows "icw_queue icw' = icw_queue icw \<and> delayed_ok J Z (icw_queue icw) r'"
  using assms(3,4) retry_write_law [OF assms(1,2), of now "icw_queue icw" job r]
  by (auto simp: retry_or_bury_def delayed_ok_def split: if_splits)

lemma executeJob_delayed:
  assumes "queues_lawful R Z L" "codec_lawful J other" "(alive, icw', r') \<in> set (executeJob R J K now now' job icw r)"
    and "delayed_ok J Z (icw_queue icw) r"
  shows "icw_queue icw' = icw_queue icw \<and> delayed_ok J Z (icw_queue icw) r'"
proof -
  obtain x icw1 r1 where x: "(x, icw1, r1) \<in> set (run_handler R J K now now' (job\<lparr>dj_Attempts := dj_Attempts job + 1\<rparr>) icw r)"
      "(alive, icw', r') = (case x of Enq_panic \<Rightarrow> (False, icw1, r1)
         | Enq_result None \<Rightarrow> (True, icw1\<lparr>icw_processedJobs := icw_processedJobs icw1 + 1\<rparr>, r1)
         | Enq_result (Some _) \<Rightarrow> (True, retry_or_bury R J now' (job\<lparr>dj_Attempts := dj_Attempts job + 1\<rparr>) icw1 r1))"
    using assms(3) by (auto simp: executeJob_def Let_def)
  have h: "icw_queue icw1 = icw_queue icw" "delayed_ok J Z (icw_queue icw) r1"
    using run_handler_delayed [OF assms(1,2) x(1) assms(4)] by simp_all
  obtain icw2 r2 where rb: "retry_or_bury R J now' (job\<lparr>dj_Attempts := dj_Attempts job + 1\<rparr>) icw1 r1 = (icw2, r2)" by fastforce
  show ?thesis using x(2) h retry_or_bury_delayed [OF assms(1,2) rb]
    by (auto simp: rb split: enqueued.splits option.splits)
qed

lemma processImmediateJobs_delayed:
  assumes "queues_lawful R Z L" "codec_lawful J other" "(alive, icw', r') \<in> set (processImmediateJobs R J K now now' icw r)"
    and "delayed_ok J Z (icw_queue icw) r"
  shows "icw_queue icw' = icw_queue icw \<and> delayed_ok J Z (icw_queue icw) r'"
proof -
  obtain x r1 where p: "jr_ZPopMin R (icw_queue icw) r = (x, r1)" by fastforce
  have "delayed_ok J Z (icw_queue icw) r1" using zpopmin_law [OF assms(1) p] assms(4)
    by (auto simp: delayed_ok_def split: sum.splits list.splits)
  then show ?thesis using assms(3) p
    by (auto simp: processImmediateJobs_def split: sum.splits list.splits option.splits
        dest!: executeJob_delayed [OF assms(1,2)])
qed

text \<open>What a move does: members leave the delayed queue, and only members of the given list enter the other.\<close>

lemma move_jobs_delayed:
  assumes "queues_lawful R Z L" "codec_lawful J other" and "delayed_ok J Z q r"
  shows "delayed_ok J Z q (move_jobs R J now q ms r) \<and>
    (\<forall>m s. Z (move_jobs R J now q ms r) q m = Some s \<longrightarrow> Z r q m = None \<longrightarrow> m \<in> set ms)"
  using assms(3)
proof (induction ms arbitrary: r)
  case (Cons d ms)
  obtain e1 r1 where a: "jr_ZRem R (q @ ''_delayed'') d r = (e1, r1)" by fastforce
  have d1: "delayed_ok J Z q r1" using zrem_law [OF assms(1) a] Cons.prems by (auto simp: delayed_ok_def split: if_splits)
  show ?case
  proof (cases "jc_unmarshal J d")
    case None
    then show ?thesis using Cons.IH [OF Cons.prems] by auto
  next
    case (Some job)
    obtain e2 r2 where b: "jr_ZAdd R q (unix now - dj_Priority job) d r1 = (e2, r2)" by fastforce
    have "delayed_ok J Z q r2" by (rule zadd_other [OF assms(1) b d1])
    moreover have "Z r2 q m = Z r q m" if "m \<noteq> d" for m
      using zrem_law [OF assms(1) a] zadd_law [OF assms(1) b] that by auto
    moreover have "move_jobs R J now q (d # ms) r = move_jobs R J now q ms r2" using a b Some by simp
    ultimately show ?thesis using Cons.IH [of r2] by (metis list.set_intros)
  qed
qed simp

lemma moveDelayedJobs_delayed:
  assumes "queues_lawful R Z L" "codec_lawful J other" and "delayed_ok J Z q r"
  shows "delayed_ok J Z q (moveDelayedJobs R J now now' q r)"
    and "Z (moveDelayedJobs R J now now' q r) q m = Some s \<Longrightarrow> Z r q m = None \<Longrightarrow>
      \<exists>s0 \<le> unix now. Z r (q @ ''_delayed'') m = Some s0"
proof -
  obtain x r1 where z: "jr_ZRangeByScore R (q @ ''_delayed'') (unix now) 10 r = (x, r1)" by fastforce
  note l = zrange_law [OF assms(1) z]
  have d1: "delayed_ok J Z q r1" using l assms(3) by (simp add: delayed_ok_def)
  note mv = move_jobs_delayed [OF assms(1,2) d1]
  show "delayed_ok J Z q (moveDelayedJobs R J now now' q r)"
    using d1 mv z by (auto simp: moveDelayedJobs_def split: sum.splits)
  show "\<exists>s0 \<le> unix now. Z r (q @ ''_delayed'') m = Some s0"
    if "Z (moveDelayedJobs R J now now' q r) q m = Some s" "Z r q m = None"
  proof (cases x)
    case (Inl e)
    then show ?thesis using that l z by (simp add: moveDelayedJobs_def)
  next
    case (Inr ms)
    then have "m \<in> set ms" using mv [of now' ms] that l z by (auto simp: moveDelayedJobs_def)
    then show ?thesis using l Inr by simp
  qed
qed

text \<open>
  The life of a warmer and its Redis queues: clients enqueue jobs of any kind at any time, the workers take
  their turns, the local pool runs, the warmer is started and stopped. A worker's turn is one step.
\<close>

inductive icw_life ::
  "'r job_redis \<Rightarrow> 'o job_codec \<Rightarrow> ('o go_value, 'e, 'c) cache_iface \<Rightarrow>
   ('w, 'o, 'e, 'c) integrated_warmer \<times> 'r \<Rightarrow> ('w, 'o, 'e, 'c) integrated_warmer \<times> 'r \<Rightarrow> bool"
  for R J K s0 where
  init: "icw_life R J K s0 s0"
| route: "icw_life R J K s0 (icw, r) \<Longrightarrow> (x, icw', r') \<in> set (routeJob R J now job icw r) \<Longrightarrow> icw_life R J K s0 (icw', r')"
| schedule: "icw_life R J K s0 (icw, r) \<Longrightarrow>
    (x, icw', r') \<in> set (icw_EnqueueScheduledWarmup R J now now' key data ttl processAt priority icw r) \<Longrightarrow>
    icw_life R J K s0 (icw', r')"
| work: "icw_life R J K s0 (icw, r) \<Longrightarrow> (alive, icw', r') \<in> set (processJobs R J K now now' icw r) \<Longrightarrow>
    icw_life R J K s0 (icw', r')"
| local_pool: "icw_life R J K s0 (icw, r) \<Longrightarrow> pool_step (ci_Set K) (icw_pool icw) s \<Longrightarrow>
    icw_life R J K s0 (icw\<lparr>icw_pool := s\<rparr>, r)"
| start: "icw_life R J K s0 (icw, r) \<Longrightarrow> icw_life R J K s0 (snd (icw_Start now icw), r)"
| stop_begin: "icw_life R J K s0 (icw, r) \<Longrightarrow> icw_life R J K s0 (icw_Stop_begin icw, r)"
| stop_end: "icw_life R J K s0 (icw, r) \<Longrightarrow> icw_life R J K s0 (icw_Stop_end icw, r)"

lemma life_queue [simp]:
  "icw_queue (snd (icw_Start now icw)) = icw_queue icw" "icw_queue (icw_Stop_begin icw) = icw_queue icw"
  "icw_queue (icw_Stop_end icw) = icw_queue icw"
  by (simp_all add: icw_Start_def icw_Stop_begin_def icw_Stop_end_def Let_def)

lemma icw_life_delayed:
  assumes "queues_lawful R Z L" "codec_lawful J other" "icw_life R J K (icw0, r0) (icw, r)"
    and "delayed_ok J Z (icw_queue icw0) r0"
  shows "icw_queue icw = icw_queue icw0 \<and> delayed_ok J Z (icw_queue icw0) r"
  using assms(3)
proof (induction "(icw, r)" arbitrary: icw r rule: icw_life.induct)
  case init
  then show ?case using assms(4) by simp
next
  case (route icw r x icw' r' now job)
  then show ?case using routeJob_delayed [OF assms(1,2) route(3)] by simp
next
  case (schedule icw r x icw' r' now now' key data ttl processAt priority)
  then show ?case
    by (cases "icw_redisAvailable icw")
      (auto simp: icw_EnqueueScheduledWarmup_def Let_def dest!: to_local_frame to_redis_delayed [OF assms(1,2)])
next
  case (work icw r alive icw' r' now now')
  then show ?case
    using processImmediateJobs_delayed [OF assms(1,2), of alive icw' r'] moveDelayedJobs_delayed(1) [OF assms(1,2)]
    unfolding processJobs_def by metis
qed simp_all

text \<open>
  No delayed job is early. Whatever was enqueued, retried and run before, a member that enters the
  queue of due jobs in a worker's turn is a job whose due time has come, to the second.
\<close>

theorem delayed_jobs_are_not_early:
  assumes "queues_lawful R Z L" and "codec_lawful J other"
    and "icw_life R J K (icw0, r0) (icw, r)" and "Z r0 (icw_queue icw0 @ ''_delayed'') = Map.empty"
    and "Z r (icw_queue icw) m = None" and "Z (moveDelayedJobs R J now now' (icw_queue icw) r) (icw_queue icw) m = Some s"
    and "jc_unmarshal J m = Some job"
  shows "dj_ProcessAt job < now + second"
proof -
  have "delayed_ok J Z (icw_queue icw0) r0" using assms(4) by (simp add: delayed_ok_def)
  note inv = icw_life_delayed [OF assms(1-3) this]
  then have "delayed_ok J Z (icw_queue icw) r" by simp
  moreover obtain s0 where "s0 \<le> unix now" "Z r (icw_queue icw @ ''_delayed'') m = Some s0"
    using moveDelayedJobs_delayed(2) [OF assms(1,2) calculation assms(6,5)] by blast
  ultimately have u: "unix (dj_ProcessAt job) \<le> unix now" using assms(7) by (auto simp: delayed_ok_def)
  show ?thesis
  proof (rule ccontr)
    assume "\<not> ?thesis"
    then have "(now + second) div second \<le> dj_ProcessAt job div second" by (intro zdiv_mono1) (auto simp: second_def)
    then show False using u by (simp add: unix_def second_def)
  qed
qed

section \<open>The second life\<close>

text \<open>
  A warmer that was stopped can be started again without an error, and its next \<open>Stop\<close> then panics: the
  stop channel is closed for the second time.
\<close>

theorem restarted_integrated_warmer_panics:
  assumes "\<not> icw_running icw" and "icw_stopClosed icw"
  shows "fst (icw_Start now icw) = None \<and> icw_panicked (icw_Stop_begin (snd (icw_Start now icw)))"
  using assms by (simp add: icw_Start_def icw_Stop_begin_def)

section \<open>Concrete runs\<close>

text \<open>An encoding that knows one job, and a warmer with Redis and one local worker.\<close>

definition ex_codec :: "unit distributed_job \<Rightarrow> unit job_codec" where
  "ex_codec job = \<lparr>jc_marshal = (\<lambda>j. if json_job id j = json_job id job then Some ''job'' else None),
     jc_unmarshal = (\<lambda>s. if s = ''job'' then Some (json_job id job) else None), jc_fmt = (\<lambda>_. ''?'')\<rparr>"

lemma json_value_idem: "json_value id (json_value id v) = json_value id v"
  by (induction v) simp_all

lemma ex_codec_lawful: "codec_lawful (ex_codec job) id"
  by (auto simp: codec_lawful_def ex_codec_def)

definition ex_iface :: "(unit go_value, unit, string \<rightharpoonup> unit go_value) cache_iface" where
  "ex_iface = \<lparr>ci_Set = (\<lambda>k v ttl c. (None, c(k \<mapsto> v))), ci_Exists = (\<lambda>k c. (Inr (c k \<noteq> None), c)),
     ci_Delete = (\<lambda>k c. (None, c(k := None)))\<rparr>"

definition ex_queues :: mem_queues where
  "ex_queues = \<lparr>mq_zsets = (\<lambda>_. []), mq_lists = (\<lambda>_. [])\<rparr>"

definition ex_icw :: "(unit, unit, unit, string \<rightharpoonup> unit go_value) integrated_warmer" where
  "ex_icw = snd (icw_Start 0 (fst (NewIntegratedCacheWarmer Map.empty (Some mem_job_redis)
     (Some (default_strategy\<lparr>ws_ConcurrentJobs := 1\<rparr>)) ex_queues)))"

lemma ex_icw_simps:
  "icw_redisAvailable ex_icw" "icw_queue ex_icw = ''cache_jobs''" "local_queue ex_icw = []" "icw_running ex_icw"
  "healthy_pool (sy_pool (icw_pool ex_icw))" "pool_room (sy_pool (icw_pool ex_icw)) = 2"
  "ws_ConcurrentJobs (icw_strategy ex_icw) = 1" "icw_cache ex_icw = Map.empty" "icw_stopClosed ex_icw = False"
  by (simp_all add: ex_icw_def NewIntegratedCacheWarmer_def icw_Start_def mem_job_redis_def default_strategy_def
      local_queue_def new_system_def NewWorkerPool_def wp_Start_def healthy_pool_def pool_room_def icw_cache_def Let_def)

theorem local_batch_warms_nil_key_witness:
  "\<exists>icw'. icw_EnqueueBatchWarmupJob mem_job_redis J 5 6 [''a'', ''b''] (GStr ''x'') 1 ex_icw ex_queues =
      [(Enq_result None, icw', ex_queues)] \<and>
    local_queue icw' = [\<lparr>wj_Key = ''<nil>'', wj_Data = GStr ''x'', wj_TTL = hour, wj_Priority = 1\<rparr>]"
  using local_batch_warms_nil_key [of ex_icw 1 mem_job_redis J 5 6 "[''a'', ''b'']" "GStr ''x''" ex_queues]
  by (simp add: ex_icw_simps)

definition ex_batch :: "unit distributed_job" where
  "ex_batch = \<lparr>dj_ID = ''batch-'' @ nano_id 5, dj_Type = CacheJobBatch, dj_Payload = [''keys'' \<mapsto> GStrs [''a'', ''b''], ''data'' \<mapsto> GStr ''x''],
     dj_Attempts = 0, dj_MaxTries = 3, dj_CreatedAt = 5, dj_ProcessAt = 5, dj_Priority = 2\<rparr>"

text \<open>The same warmer with two jobs waiting locally, so that the batch goes to Redis.\<close>

definition ex_busy :: "(unit, unit, unit, string \<rightharpoonup> unit go_value) integrated_warmer" where
  "ex_busy = (let w = \<lparr>wj_Key = ''w'', wj_Data = GNil, wj_TTL = hour, wj_Priority = 1\<rparr>
     in ex_icw\<lparr>icw_pool := (icw_pool ex_icw)\<lparr>sy_pool := (sy_pool (icw_pool ex_icw))\<lparr>wp_jobCh := [w, w]\<rparr>\<rparr>\<rparr>)"

lemma ex_busy_simps:
  "icw_redisAvailable ex_busy" "icw_queue ex_busy = ''cache_jobs''" "length (local_queue ex_busy) = 2"
  "ws_ConcurrentJobs (icw_strategy ex_busy) = 1" "icw_cache ex_busy = Map.empty"
  using ex_icw_simps by (simp_all add: ex_busy_def local_queue_def icw_cache_def Let_def)

theorem redis_batch_warms_every_key_witness:
  "\<exists>icw1 r1 r2 icw2. icw_EnqueueBatchWarmupJob mem_job_redis (ex_codec ex_batch) 5 6 [''a'', ''b''] (GStr ''x'') 2 ex_busy ex_queues =
      [(Enq_result None, icw1, r1)] \<and>
    processImmediateJobs mem_job_redis (ex_codec ex_batch) ex_iface 7 8 icw1 r1 = [(True, icw2, r2)] \<and>
    icw_cache icw2 = [''a'' \<mapsto> GStr ''x'', ''b'' \<mapsto> GStr ''x'']"
proof -
  let ?icw1 = "ex_busy\<lparr>icw_distributedJobs := icw_distributedJobs ex_busy + 1\<rparr>"
  let ?r1 = "ex_queues\<lparr>mq_zsets := (mq_zsets ex_queues)(''cache_jobs'' := [(''job'', unix 6 - 2)])\<rparr>"
  have job: "jc_marshal (ex_codec ex_batch) ex_batch = Some ''job''" by (simp add: ex_codec_def)
  have enq: "icw_EnqueueBatchWarmupJob mem_job_redis (ex_codec ex_batch) 5 6 [''a'', ''b''] (GStr ''x'') 2 ex_busy ex_queues =
      [(Enq_result None, ?icw1, ?r1)]"
    using ex_busy_simps unfolding icw_EnqueueBatchWarmupJob_def ex_batch_def [symmetric] routeJob_def
    by (simp add: to_redis_def enqueueToRedis_def job) (simp add: ex_batch_def mem_job_redis_def ex_queues_def local_queue_def)
  have pop: "jr_ZPopMin mem_job_redis (icw_queue ex_busy) ?r1 =
      (Inr [''job''], ?r1\<lparr>mq_zsets := (mq_zsets ?r1)(''cache_jobs'' := [])\<rparr>)"
    by (simp add: mem_job_redis_def ex_busy_simps AList.delete_eq)
  show ?thesis
    using redis_batch_warms_every_key [OF mem_queues_lawful ex_codec_lawful ex_busy_simps(1) _ _ _ _ enq pop, of ex_iface 7 8]
      enq ex_busy_simps by (auto simp: ex_queues_def mq_Z_def ex_iface_def)
qed

definition ex_bad :: "unit distributed_job" where
  "ex_bad = \<lparr>dj_ID = ''1'', dj_Type = ''cache_unknown'', dj_Payload = Map.empty, dj_Attempts = 2, dj_MaxTries = 3,
     dj_CreatedAt = 0, dj_ProcessAt = 0, dj_Priority = 2\<rparr>"

theorem failed_job_is_retried_or_buried_witness:
  "\<exists>icw2 r2. executeJob mem_job_redis (ex_codec (ex_bad\<lparr>dj_Attempts := 3\<rparr>)) ex_iface 7 8 ex_bad ex_icw ex_queues =
      [(True, icw2, r2)] \<and> mq_lists r2 ''cache_jobs_dlq'' = [''job''] \<and> icw_failedJobs icw2 = icw_failedJobs ex_icw + 1"
proof -
  let ?job = "ex_bad\<lparr>dj_Attempts := 3\<rparr>"
  have fails: "run_handler mem_job_redis (ex_codec ?job) ex_iface 7 8 ?job ex_icw ex_queues =
      [(Enq_result (Some (JE_unknown_type ''cache_unknown'')), ex_icw, ex_queues)]"
    by (simp add: ex_bad_def run_handler_def Let_def)
  have "\<not> dj_Attempts ?job < dj_MaxTries ?job" "dj_Attempts ?job = 3" by (simp_all add: ex_bad_def)
  then show ?thesis
    using failed_job_is_retried_or_buried [OF mem_queues_lawful ex_codec_lawful [of ?job] _ refl _ _ fails, of ex_bad ?job "''job''"]
    by (fastforce simp: ex_bad_def ex_codec_def ex_icw_simps ex_queues_def mem_job_redis_def)
qed

definition ex_delayed :: "unit distributed_job" where
  "ex_delayed = \<lparr>dj_ID = ''scheduled-'' @ nano_id 0, dj_Type = CacheJobScheduled, dj_Payload = warmup_payload ''k'' GNil minute,
     dj_Attempts = 0, dj_MaxTries = 3, dj_CreatedAt = 0, dj_ProcessAt = hour, dj_Priority = 2\<rparr>"

theorem delayed_jobs_are_not_early_witness:
  "\<exists>icw r. icw_life mem_job_redis (ex_codec ex_delayed) ex_iface (ex_icw, ex_queues) (icw, r) \<and>
     mq_Z r ''cache_jobs_delayed'' = [''job'' \<mapsto> 3600] \<and>
     mq_Z (moveDelayedJobs mem_job_redis (ex_codec ex_delayed) hour hour ''cache_jobs'' r) ''cache_jobs'' ''job'' \<noteq> None \<and>
     hour < hour + second"
proof -
  let ?J = "ex_codec ex_delayed"
  let ?r = "ex_queues\<lparr>mq_zsets := (mq_zsets ex_queues)(''cache_jobs_delayed'' := [(''job'', 3600)])\<rparr>"
  have job: "jc_marshal ?J ex_delayed = Some ''job''" by (simp add: ex_codec_def)
  have "(Enq_result None, ex_icw, ?r) \<in>
      set (icw_EnqueueScheduledWarmup mem_job_redis ?J 0 0 ''k'' GNil minute hour 2 ex_icw ex_queues)"
    unfolding icw_EnqueueScheduledWarmup_def ex_delayed_def [symmetric] Let_def
    by (simp add: ex_icw_simps to_redis_def enqueueToRedis_def job) (simp add: ex_delayed_def mem_job_redis_def ex_queues_def unix_def dur_defs)
  then have life: "icw_life mem_job_redis ?J ex_iface (ex_icw, ex_queues) (ex_icw, ?r)"
    by (rule icw_life.schedule [OF icw_life.init])
  have z: "mq_Z ?r ''cache_jobs_delayed'' = [''job'' \<mapsto> 3600]" "mq_Z ?r ''cache_jobs'' ''job'' = None"
    by (simp_all add: mq_Z_def ex_queues_def)
  have un: "jc_unmarshal ?J ''job'' = Some (json_job id ex_delayed)" by (simp add: ex_codec_def)
  have mv: "mq_Z (moveDelayedJobs mem_job_redis ?J hour hour ''cache_jobs'' ?r) ''cache_jobs'' ''job'' = Some 3598"
    by (simp add: moveDelayedJobs_def mem_job_redis_def un unix_def dur_defs ex_queues_def mq_Z_def)
      (simp add: json_job_def ex_delayed_def)
  have "dj_ProcessAt (json_job id ex_delayed) < hour + second"
    by (rule delayed_jobs_are_not_early [OF mem_queues_lawful ex_codec_lawful life _ _ _ un, where now' = hour and s = 3598])
      (use z mv in \<open>simp_all add: ex_icw_simps\<close>, simp add: mq_Z_def ex_queues_def)
  then show ?thesis using life z mv by (auto simp: json_job_def ex_delayed_def intro!: exI [of _ ex_icw] exI [of _ ?r])
qed

theorem restarted_integrated_warmer_panics_witness:
  "icw_panicked (icw_Stop_begin (snd (icw_Start 1 (icw_Stop_end (icw_Stop_begin ex_icw)))))"
proof -
  let ?s = "icw_Stop_end (icw_Stop_begin ex_icw)"
  have "\<not> icw_running ?s \<and> icw_stopClosed ?s"
    by (simp add: ex_icw_def NewIntegratedCacheWarmer_def icw_Start_def icw_Stop_begin_def icw_Stop_end_def mem_job_redis_def
        default_strategy_def new_system_def NewWorkerPool_def wp_Start_def wp_Stop_begin_def wp_Stop_end_def Let_def
        list_ex_iff)
  then show ?thesis using restarted_integrated_warmer_panics [of ?s 1] by blast
qed

end
