(* ===== verification/UnifiedManager.thy ===== *)
theory UnifiedManager
  imports IntegratedWarmer
begin

text \<open>
  The unified cache manager (\<^verbatim>\<open>backend/internal/cache/unified_cache_manager.go\<close>): it chooses the integrated or
  the legacy warmer once, when it is made, and passes every call on to it. A nil pointer is \<open>None\<close>, a
  dereference of one a panic. As for the warmers, an operation that submits jobs returns the list of its
  possible outcomes, and \<open>Stop\<close> is cut where it waits: \<open>wait\<close> is what the workers do in the meantime.
\<close>

section \<open>Data\<close>

datatype warming_mode = ModeAuto | ModeLegacy | ModeIntegrated | ModeLocalOnly | ModeDistributed | ModeOther int

record ('w, 'o, 'r) warming_config =
  wc_Mode :: warming_mode
  wc_RedisClient :: "'r job_redis option"
  wc_Strategy :: "('w, 'o go_value) warmup_strategy option"
  wc_EnableMetrics :: bool
  wc_PreferDistributed :: bool
  wc_LocalFallback :: bool
  wc_DistributedThreshold :: int
  wc_MaxRetries :: int

record ('w, 'o, 'e, 'c) cache_manager =
  ucm_integratedWarmer :: "('w, 'o, 'e, 'c) integrated_warmer option"
  ucm_legacyWarmer :: "('w, 'o go_value, 'e, 'c) cache_warmer option"
  ucm_useIntegrated :: bool

section \<open>Construction\<close>

definition default_config :: "('w, 'o, 'r) warming_config" where
  "default_config = \<lparr>wc_Mode = ModeAuto, wc_RedisClient = None, wc_Strategy = Some default_strategy, wc_EnableMetrics = True,
     wc_PreferDistributed = False, wc_LocalFallback = True, wc_DistributedThreshold = 0, wc_MaxRetries = 3\<rparr>"

definition determineMode :: "('w, 'o, 'r) warming_config \<Rightarrow> 'r \<Rightarrow> warming_mode \<times> 'r" where
  "determineMode config r =
     (case wc_Mode config of
        ModeLegacy \<Rightarrow> (ModeLegacy, r)
      | ModeAuto \<Rightarrow> (case wc_RedisClient config of
                       None \<Rightarrow> (ModeLegacy, r)
                     | Some R \<Rightarrow> (case jr_Ping R r of (None, r') \<Rightarrow> (ModeIntegrated, r') | (Some _, r') \<Rightarrow> (ModeLegacy, r')))
      | ModeOther _ \<Rightarrow> (ModeLegacy, r)
      | mode \<Rightarrow> (if wc_RedisClient config \<noteq> None then (mode, r) else (ModeLegacy, r)))"

definition NewUnifiedCacheManager ::
  "'c \<Rightarrow> ('w \<Rightarrow> bool) option \<Rightarrow> ('w, 'o, 'r) warming_config option \<Rightarrow> 'r \<Rightarrow> ('w, 'o, 'e, 'c) cache_manager \<times> 'r" where
  "NewUnifiedCacheManager cache health config0 r =
     (let config = (case config0 of None \<Rightarrow> default_config | Some c \<Rightarrow> c);
          (mode, r1) = determineMode config r
      in if mode \<noteq> ModeLegacy
         then case NewIntegratedCacheWarmer cache (wc_RedisClient config) (wc_Strategy config) r1 of
                (icw, r2) \<Rightarrow> (\<lparr>ucm_integratedWarmer = Some icw, ucm_legacyWarmer = None, ucm_useIntegrated = True\<rparr>, r2)
         else (\<lparr>ucm_integratedWarmer = None, ucm_legacyWarmer = Some (NewCacheWarmer cache health (wc_Strategy config)),
                ucm_useIntegrated = False\<rparr>, r1))"

section \<open>The two warmers behind one interface\<close>

datatype 'e manager_error = ME_job "'e job_error" | ME_unsupported | ME_nil_strategy | ME_stop "'e manager_error"
  | ME_restart "'e manager_error"

datatype 'e manager_result = Done "'e manager_error option" | Crash

type_synonym ('w, 'o, 'e, 'c, 'r) manager_outcomes =
  "('e manager_result \<times> ('w, 'o, 'e, 'c) cache_manager \<times> 'r) list"

definition on_integrated ::
  "(('w, 'o, 'e, 'c) integrated_warmer \<Rightarrow> ('e enqueued \<times> ('w, 'o, 'e, 'c) integrated_warmer \<times> 'r) list) \<Rightarrow>
   ('w, 'o, 'e, 'c) cache_manager \<Rightarrow> 'r \<Rightarrow> ('w, 'o, 'e, 'c, 'r) manager_outcomes" where
  "on_integrated f ucm r =
     (case ucm_integratedWarmer ucm of
        None \<Rightarrow> [(Crash, ucm, r)]
      | Some icw \<Rightarrow> map (\<lambda>(x, icw', r'). (case x of Enq_result e \<Rightarrow> Done (map_option ME_job e) | Enq_panic \<Rightarrow> Crash,
                                         ucm\<lparr>ucm_integratedWarmer := Some icw'\<rparr>, r')) (f icw))"

definition on_legacy ::
  "(('w, 'o go_value, 'e, 'c) cache_warmer \<Rightarrow> ('w, 'o go_value, 'e, 'c) cache_warmer list) \<Rightarrow>
   ('w, 'o, 'e, 'c) cache_manager \<Rightarrow> 'r \<Rightarrow> ('w, 'o, 'e, 'c, 'r) manager_outcomes" where
  "on_legacy f ucm r =
     (case ucm_legacyWarmer ucm of
        None \<Rightarrow> [(Crash, ucm, r)]
      | Some cw \<Rightarrow> map (\<lambda>cw'. (if cw_panicked cw' then Crash else Done None, ucm\<lparr>ucm_legacyWarmer := Some cw'\<rparr>, r)) (f cw))"

definition ucm_Start :: "instant \<Rightarrow> ('w, 'o, 'e, 'c) cache_manager \<Rightarrow> 'r \<Rightarrow> ('w, 'o, 'e, 'c, 'r) manager_outcomes" where
  "ucm_Start now ucm r =
     (if ucm_useIntegrated ucm then on_integrated (\<lambda>icw. case icw_Start now icw of (e, icw') \<Rightarrow> [(Enq_result e, icw', r)]) ucm r
      else on_legacy (\<lambda>cw. [snd (cw_Start now cw)]) ucm r)"

definition ucm_Stop ::
  "(('o go_value, 'e, 'c) pool_system \<Rightarrow> ('o go_value, 'e, 'c) pool_system) \<Rightarrow> ('w, 'o, 'e, 'c) cache_manager \<Rightarrow> 'r \<Rightarrow>
   ('w, 'o, 'e, 'c, 'r) manager_outcomes" where
  "ucm_Stop wait ucm r =
     (if ucm_useIntegrated ucm
      then on_integrated (\<lambda>icw. let icw1 = icw_Stop_begin icw;
                                     icw2 = icw_Stop_end (icw1\<lparr>icw_pool := wait (icw_pool icw1)\<rparr>)
                                 in [(if icw_panicked icw2 then Enq_panic else Enq_result None, icw2, r)]) ucm r
      else on_legacy (\<lambda>cw. let cw1 = cw_Stop_begin cw
                            in [if cw_running cw then cw_Stop_end (cw1\<lparr>cw_workerPool := map_option wait (cw_workerPool cw1)\<rparr>) else cw]) ucm r)"

definition ucm_WarmupCache ::
  "'r job_redis \<Rightarrow> 'o job_codec \<Rightarrow> instant \<Rightarrow> instant \<Rightarrow> ('w, 'o, 'e, 'c) cache_manager \<Rightarrow> 'r \<Rightarrow>
   ('w, 'o, 'e, 'c, 'r) manager_outcomes" where
  "ucm_WarmupCache R J now now' ucm r =
     (if ucm_useIntegrated ucm
      then on_integrated (\<lambda>icw. icw_WarmupCache R J now now' (ws_Jobs (icw_strategy icw)) icw r) ucm r
      else on_legacy (\<lambda>cw. map snd (WarmCacheManually now cw)) ucm r)"

definition ucm_EnqueueWarmupJob ::
  "'r job_redis \<Rightarrow> 'o job_codec \<Rightarrow> instant \<Rightarrow> instant \<Rightarrow> string \<Rightarrow> 'o go_value \<Rightarrow> duration \<Rightarrow> int \<Rightarrow>
   ('w, 'o, 'e, 'c) cache_manager \<Rightarrow> 'r \<Rightarrow> ('w, 'o, 'e, 'c, 'r) manager_outcomes" where
  "ucm_EnqueueWarmupJob R J now now' key data ttl priority ucm r =
     (if ucm_useIntegrated ucm then on_integrated (\<lambda>icw. icw_EnqueueWarmupJob R J now now' key data ttl priority icw r) ucm r
      else on_legacy (\<lambda>cw. [AddWarmupJob \<lparr>wj_Key = key, wj_Data = data, wj_TTL = ttl, wj_Priority = priority\<rparr> cw]) ucm r)"

definition ucm_EnqueueBatchWarmupJob ::
  "'r job_redis \<Rightarrow> 'o job_codec \<Rightarrow> instant \<Rightarrow> instant \<Rightarrow> string list \<Rightarrow> 'o go_value \<Rightarrow> int \<Rightarrow>
   ('w, 'o, 'e, 'c) cache_manager \<Rightarrow> 'r \<Rightarrow> ('w, 'o, 'e, 'c, 'r) manager_outcomes" where
  "ucm_EnqueueBatchWarmupJob R J now now' keys data priority ucm r =
     (if ucm_useIntegrated ucm then on_integrated (\<lambda>icw. icw_EnqueueBatchWarmupJob R J now now' keys data priority icw r) ucm r
      else on_legacy (\<lambda>cw. [add_jobs (map (\<lambda>key. \<lparr>wj_Key = key, wj_Data = data, wj_TTL = hour, wj_Priority = priority\<rparr>) keys) cw]) ucm r)"

definition ucm_EnqueueScheduledWarmup ::
  "'r job_redis \<Rightarrow> 'o job_codec \<Rightarrow> instant \<Rightarrow> instant \<Rightarrow> string \<Rightarrow> 'o go_value \<Rightarrow> duration \<Rightarrow> instant \<Rightarrow> int \<Rightarrow>
   ('w, 'o, 'e, 'c) cache_manager \<Rightarrow> 'r \<Rightarrow> ('w, 'o, 'e, 'c, 'r) manager_outcomes" where
  "ucm_EnqueueScheduledWarmup R J now now' key data ttl processAt priority ucm r =
     (if ucm_useIntegrated ucm
      then on_integrated (\<lambda>icw. icw_EnqueueScheduledWarmup R J now now' key data ttl processAt priority icw r) ucm r
      else on_legacy (\<lambda>cw. [AddWarmupJob \<lparr>wj_Key = key, wj_Data = data, wj_TTL = ttl, wj_Priority = priority\<rparr> cw]) ucm r)"

definition eviction_job :: "instant \<Rightarrow> string \<Rightarrow> int \<Rightarrow> 'o distributed_job" where
  "eviction_job now key priority = \<lparr>dj_ID = ''evict-'' @ nano_id now, dj_Type = CacheJobEviction, dj_Payload = [''key'' \<mapsto> GStr key],
     dj_Attempts = 0, dj_MaxTries = 3, dj_CreatedAt = now, dj_ProcessAt = now, dj_Priority = priority\<rparr>"

definition EnqueueEvictionJob ::
  "'r job_redis \<Rightarrow> 'o job_codec \<Rightarrow> instant \<Rightarrow> instant \<Rightarrow> string \<Rightarrow> int \<Rightarrow>
   ('w, 'o, 'e, 'c) cache_manager \<Rightarrow> 'r \<Rightarrow> ('w, 'o, 'e, 'c, 'r) manager_outcomes" where
  "EnqueueEvictionJob R J now now' key priority ucm r =
     (if \<not> ucm_useIntegrated ucm then [(Done (Some ME_unsupported), ucm, r)]
      else on_integrated (\<lambda>icw. routeJob R J now' (eviction_job now key priority) icw r) ucm r)"

definition EnqueueValidationJob ::
  "'r job_redis \<Rightarrow> 'o job_codec \<Rightarrow> instant \<Rightarrow> instant \<Rightarrow> string \<Rightarrow> 'o go_value \<Rightarrow> int \<Rightarrow>
   ('w, 'o, 'e, 'c) cache_manager \<Rightarrow> 'r \<Rightarrow> ('w, 'o, 'e, 'c, 'r) manager_outcomes" where
  "EnqueueValidationJob R J now now' key expectedData priority ucm r =
     (if \<not> ucm_useIntegrated ucm then [(Done (Some ME_unsupported), ucm, r)]
      else on_integrated (\<lambda>icw. routeJob R J now' \<lparr>dj_ID = ''validate-'' @ nano_id now, dj_Type = CacheJobValidation,
             dj_Payload = [''key'' \<mapsto> GStr key, ''data'' \<mapsto> expectedData], dj_Attempts = 0, dj_MaxTries = 3,
             dj_CreatedAt = now, dj_ProcessAt = now, dj_Priority = priority\<rparr> icw r) ucm r)"

section \<open>Observation and configuration\<close>

datatype manager_metrics = Integrated_metrics icw_metrics | Legacy_metrics warmer_stats

text \<open>\<open>None\<close> is the dereference of a nil warmer.\<close>

definition ucm_GetMetrics :: "('w, 'o, 'e, 'c) cache_manager \<Rightarrow> manager_metrics option" where
  "ucm_GetMetrics ucm =
     (if ucm_useIntegrated ucm then map_option (\<lambda>icw. Integrated_metrics (icw_GetMetrics icw)) (ucm_integratedWarmer ucm)
      else map_option (\<lambda>cw. Legacy_metrics (cw_GetStats cw)) (ucm_legacyWarmer ucm))"

definition ucm_GetQueueSizes :: "'r job_redis \<Rightarrow> ('w, 'o, 'e, 'c) cache_manager \<Rightarrow> 'r \<Rightarrow> (string \<times> int) list option \<times> 'r" where
  "ucm_GetQueueSizes R ucm r =
     (if ucm_useIntegrated ucm
      then (case ucm_integratedWarmer ucm of
              None \<Rightarrow> (None, r)
            | Some icw \<Rightarrow> (case icw_GetQueueSizes R icw r of (sizes, r') \<Rightarrow> (Some sizes, r')))
      else (Some [(''local'', 0)], r))"

definition ucm_IsRunning :: "('w, 'o, 'e, 'c) cache_manager \<Rightarrow> bool option" where
  "ucm_IsRunning ucm =
     (if ucm_useIntegrated ucm then map_option icw_IsRunning (ucm_integratedWarmer ucm) else Some (ucm_legacyWarmer ucm \<noteq> None))"

definition ucm_IsIntegrated :: "('w, 'o, 'e, 'c) cache_manager \<Rightarrow> bool" where
  "ucm_IsIntegrated ucm = ucm_useIntegrated ucm"

record system_info =
  si_integrated_mode :: bool
  si_running :: bool
  si_capabilities :: "string list"
  si_redis_available :: "bool option"
  si_distributed_workers :: "nat option"
  si_concurrent_jobs :: "int option"
  si_use_worker_pool :: "bool option"

definition GetSystemInfo :: "('w, 'o, 'e, 'c) cache_manager \<Rightarrow> system_info option" where
  "GetSystemInfo ucm =
     (case (ucm_IsRunning ucm, ucm_GetMetrics ucm) of
        (Some running, Some (Integrated_metrics im)) \<Rightarrow>
          Some \<lparr>si_integrated_mode = True, si_running = running,
            si_capabilities = [''distributed_processing'', ''job_persistence'', ''retry_logic'', ''scheduled_jobs'',
              ''dead_letter_queues'', ''local_fallback''],
            si_redis_available = Some (im_redis_available im), si_distributed_workers = Some (im_distributed_workers im),
            si_concurrent_jobs = None, si_use_worker_pool = None\<rparr>
      | (Some running, Some (Legacy_metrics st)) \<Rightarrow>
          Some \<lparr>si_integrated_mode = False, si_running = running,
            si_capabilities = [''local_processing'', ''worker_pool'', ''job_scheduler''],
            si_redis_available = None, si_distributed_workers = None,
            si_concurrent_jobs = Some (wst_concurrent_jobs st), si_use_worker_pool = Some (wst_use_worker_pool st)\<rparr>
      | _ \<Rightarrow> None)"

record manager_health =
  mh_status :: string
  mh_redis_status :: "string option"
  mh_queue_sizes :: "(string \<times> int) list option"
  mh_workers_active :: "nat option"
  mh_total_processed :: "int64 option"
  mh_total_failed :: "int64 option"
  mh_worker_pool_running :: "bool option"

definition ucm_HealthCheck :: "'r job_redis \<Rightarrow> ('w, 'o, 'e, 'c) cache_manager \<Rightarrow> 'r \<Rightarrow> manager_health option \<times> 'r" where
  "ucm_HealthCheck R ucm r =
     (if ucm_useIntegrated ucm
      then (case ucm_integratedWarmer ucm of
              None \<Rightarrow> (None, r)
            | Some icw \<Rightarrow>
                let (status, redis, r1) =
                      (if icw_hasRedis icw
                       then (case jr_Ping R r of (None, r1) \<Rightarrow> (''healthy'', Some ''healthy'', r1)
                                              | (Some _, r1) \<Rightarrow> (''degraded'', Some ''unhealthy'', r1))
                       else (''healthy'', None, r));
                    (sizes, r2) = ucm_GetQueueSizes R ucm r1;
                    im = icw_GetMetrics icw
                in (Some \<lparr>mh_status = status, mh_redis_status = redis, mh_queue_sizes = sizes,
                      mh_workers_active = Some (im_distributed_workers im), mh_total_processed = Some (im_processed_jobs im),
                      mh_total_failed = Some (im_failed_jobs im), mh_worker_pool_running = None\<rparr>, r2))
      else (case ucm_legacyWarmer ucm of
              None \<Rightarrow> (None, r)
            | Some cw \<Rightarrow> (Some \<lparr>mh_status = ''healthy'', mh_redis_status = None, mh_queue_sizes = None, mh_workers_active = None,
                 mh_total_processed = None, mh_total_failed = None,
                 mh_worker_pool_running = Some (wst_use_worker_pool (cw_GetStats cw))\<rparr>, r)))"

definition set_strategy :: "('w, 'o go_value) warmup_strategy \<Rightarrow> ('w, 'o, 'e, 'c) cache_manager \<Rightarrow> ('w, 'o, 'e, 'c) cache_manager" where
  "set_strategy s ucm =
     (if ucm_useIntegrated ucm then ucm\<lparr>ucm_integratedWarmer := map_option (\<lambda>icw. icw\<lparr>icw_strategy := s\<rparr>) (ucm_integratedWarmer ucm)\<rparr>
      else ucm\<lparr>ucm_legacyWarmer := map_option (\<lambda>cw. cw\<lparr>cw_strategy := s\<rparr>) (ucm_legacyWarmer ucm)\<rparr>)"

definition UpdateConfiguration ::
  "(('o go_value, 'e, 'c) pool_system \<Rightarrow> ('o go_value, 'e, 'c) pool_system) \<Rightarrow> instant \<Rightarrow>
   ('w, 'o go_value) warmup_strategy option \<Rightarrow> ('w, 'o, 'e, 'c) cache_manager \<Rightarrow> 'r \<Rightarrow> ('w, 'o, 'e, 'c, 'r) manager_outcomes" where
  "UpdateConfiguration wait now newStrategy ucm r =
     (case newStrategy of
        None \<Rightarrow> [(Done (Some ME_nil_strategy), ucm, r)]
      | Some s \<Rightarrow>
          (case ucm_IsRunning ucm of
             None \<Rightarrow> [(Crash, ucm, r)]
           | Some False \<Rightarrow> [(Done None, set_strategy s ucm, r)]
           | Some True \<Rightarrow> concat (map (\<lambda>(x, ucm1, r1).
               case x of
                 Crash \<Rightarrow> [(Crash, ucm1, r1)]
               | Done (Some e) \<Rightarrow> [(Done (Some (ME_stop e)), ucm1, r1)]
               | Done None \<Rightarrow> map (\<lambda>(y, ucm2, r2). (case y of Done (Some e) \<Rightarrow> Done (Some (ME_restart e)) | _ \<Rightarrow> y, ucm2, r2))
                                (ucm_Start now (set_strategy s ucm1) r1)) (ucm_Stop wait ucm r))))"

section \<open>Shorthands\<close>

definition WarmupUserData ::
  "'r job_redis \<Rightarrow> 'o job_codec \<Rightarrow> instant \<Rightarrow> instant \<Rightarrow> string \<Rightarrow> 'o go_value \<Rightarrow> duration \<Rightarrow>
   ('w, 'o, 'e, 'c) cache_manager \<Rightarrow> 'r \<Rightarrow> ('w, 'o, 'e, 'c, 'r) manager_outcomes" where
  "WarmupUserData R J now now' userID userData ttl ucm r =
     ucm_EnqueueWarmupJob R J now now' (''user:'' @ userID) userData ttl 2 ucm r"

primrec WarmupBatchUserData ::
  "'r job_redis \<Rightarrow> 'o job_codec \<Rightarrow> instant \<Rightarrow> instant \<Rightarrow> string list \<Rightarrow> (string \<rightharpoonup> 'o go_value) \<Rightarrow> duration \<Rightarrow>
   ('w, 'o, 'e, 'c) cache_manager \<Rightarrow> 'r \<Rightarrow> ('w, 'o, 'e, 'c, 'r) manager_outcomes" where
  "WarmupBatchUserData R J now now' [] userDataMap ttl ucm r = [(Done None, ucm, r)]"
| "WarmupBatchUserData R J now now' (userID # userIDs) userDataMap ttl ucm r =
     (case userDataMap userID of
        None \<Rightarrow> WarmupBatchUserData R J now now' userIDs userDataMap ttl ucm r
      | Some userData \<Rightarrow> concat (map (\<lambda>(x, ucm', r').
          if x = Done None then WarmupBatchUserData R J now now' userIDs userDataMap ttl ucm' r' else [(x, ucm', r')])
          (WarmupUserData R J now now' userID userData ttl ucm r)))"

definition WarmupPopularContent ::
  "'r job_redis \<Rightarrow> 'o job_codec \<Rightarrow> instant \<Rightarrow> instant \<Rightarrow> string \<Rightarrow> 'o go_value list \<Rightarrow> duration \<Rightarrow>
   ('w, 'o, 'e, 'c) cache_manager \<Rightarrow> 'r \<Rightarrow> ('w, 'o, 'e, 'c, 'r) manager_outcomes" where
  "WarmupPopularContent R J now now' contentType items ttl ucm r =
     ucm_EnqueueWarmupJob R J now now' (''popular:'' @ contentType) (GList items) ttl 1 ucm r"

definition SchedulePeriodicWarmup ::
  "'r job_redis \<Rightarrow> 'o job_codec \<Rightarrow> instant \<Rightarrow> instant \<Rightarrow> string \<Rightarrow> 'o go_value \<Rightarrow> duration \<Rightarrow> duration \<Rightarrow>
   ('w, 'o, 'e, 'c) cache_manager \<Rightarrow> 'r \<Rightarrow> ('w, 'o, 'e, 'c, 'r) manager_outcomes" where
  "SchedulePeriodicWarmup R J now now' key data ttl interval ucm r =
     (if \<not> ucm_useIntegrated ucm then [(Done (Some ME_unsupported), ucm, r)]
      else ucm_EnqueueScheduledWarmup R J now now' key data ttl (now + interval) 3 ucm r)"

section \<open>Evictions\<close>

text \<open>
  An eviction that is routed to the local pool (no Redis, priority 1, or a short queue) stores instead
  of deleting: the job that is accepted, and reported as a success, has nil data, and the worker that takes
  it sets the key to nil for an hour.
\<close>

theorem local_eviction_stores_nil:
  assumes "ucm_useIntegrated ucm" and "ucm_integratedWarmer ucm = Some icw"
    and "healthy_pool (sy_pool (icw_pool icw))" and "pool_room (sy_pool (icw_pool icw)) > 0"
    and "icw_redisAvailable icw \<longrightarrow> priority = 1 \<or> int (length (local_queue icw)) \<le> ws_ConcurrentJobs (icw_strategy icw)"
  shows "\<exists>icw' job. EnqueueEvictionJob R J now now' key priority ucm r =
      [(Done None, ucm\<lparr>ucm_integratedWarmer := Some icw'\<rparr>, r)] \<and> local_queue icw' = local_queue icw @ [job] \<and>
    (\<forall>K start end c. snd (processJob (ci_Set K) start end job c) = snd (ci_Set K key GNil hour c))"
proof -
  let ?job = "eviction_job now key priority" and ?icw = "icw\<lparr>icw_localJobs := icw_localJobs icw + 1\<rparr>"
  have "routeJob R J now' ?job icw r = to_local J ?job ?icw r"
    by (rule route_to_local) (use assms(5) in \<open>auto simp: eviction_job_def\<close>)
  moreover obtain icw' where l: "to_local J ?job ?icw r = [(Enq_result None, icw', r)]"
      "local_queue icw' = local_queue ?icw @ [local_job J ?job]"
    using to_local_single [of ?icw ?job J r] assms(3,4) by (auto simp: eviction_job_def)
  moreover have "snd (processJob (ci_Set K) start end (local_job J ?job) c) = snd (ci_Set K key GNil hour c)" for K start "end" c
    by (simp add: local_job_def processJob_def eviction_job_def payload_get_def fmt_v_def as_string_def split: prod.splits)
  ultimately show ?thesis using assms(1,2)
    by (auto simp: EnqueueEvictionJob_def on_integrated_def local_queue_def intro!: exI [of _ icw'] exI [of _ "local_job J ?job"])
qed

section \<open>Reconfiguration\<close>

text \<open>A manager whose warmer runs.\<close>

definition manager_started :: "('w, 'o, 'e, 'c) cache_manager \<Rightarrow> bool" where
  "manager_started ucm \<longleftrightarrow>
     (if ucm_useIntegrated ucm then (\<exists>icw. ucm_integratedWarmer ucm = Some icw \<and> icw_running icw)
      else (\<exists>cw. ucm_legacyWarmer ucm = Some cw \<and> cw_running cw))"

definition manager_stop_closed :: "('w, 'o, 'e, 'c) cache_manager \<Rightarrow> bool" where
  "manager_stop_closed ucm \<longleftrightarrow>
     (if ucm_useIntegrated ucm then (\<exists>icw. ucm_integratedWarmer ucm = Some icw \<and> icw_stopClosed icw)
      else (\<exists>cw. ucm_legacyWarmer ucm = Some cw \<and> cw_stopClosed cw))"

lemma stop_closed_crashes:
  assumes "manager_started ucm" and "manager_stop_closed ucm"
  shows "\<exists>ucm'. ucm_Stop wait ucm r = [(Crash, ucm', r)]"
proof (cases "ucm_useIntegrated ucm")
  case True
  then obtain icw where icw: "ucm_integratedWarmer ucm = Some icw" "icw_running icw" "icw_stopClosed icw"
    using assms by (auto simp: manager_started_def manager_stop_closed_def)
  then have "icw_panicked (icw_Stop_begin icw)" by (simp add: icw_Stop_begin_def)
  then show ?thesis using True icw by (simp add: ucm_Stop_def on_integrated_def icw_Stop_end_def Let_def)
next
  case False
  then obtain cw where cw: "ucm_legacyWarmer ucm = Some cw" "cw_running cw" "cw_stopClosed cw"
    using assms by (auto simp: manager_started_def manager_stop_closed_def)
  then have "cw_stopClosed (cw_Stop_begin cw)" by (simp add: cw_Stop_begin_def Let_def)
  then show ?thesis using False cw by (auto simp: ucm_Stop_def on_legacy_def cw_Stop_end_def Let_def)
qed

lemma stop_closes:
  assumes "manager_started ucm" and "(Done None, ucm', r') \<in> set (ucm_Stop wait ucm r)"
  shows "manager_stop_closed ucm' \<and> ucm_useIntegrated ucm' = ucm_useIntegrated ucm \<and> \<not> manager_started ucm'"
proof (cases "ucm_useIntegrated ucm")
  case True
  then show ?thesis using assms
    by (auto simp: manager_started_def manager_stop_closed_def ucm_Stop_def on_integrated_def icw_Stop_begin_def
        icw_Stop_end_def Let_def split: if_splits)
next
  case False
  then show ?thesis using assms
    by (auto simp: manager_started_def manager_stop_closed_def ucm_Stop_def on_legacy_def cw_Stop_begin_def
        cw_Stop_end_def Let_def split: if_splits)
qed

lemma start_keeps_closed:
  assumes "manager_stop_closed ucm" and "\<not> manager_started ucm" and "(Done None, ucm', r') \<in> set (ucm_Start now ucm r)"
  shows "manager_stop_closed ucm' \<and> manager_started ucm'"
proof (cases "ucm_useIntegrated ucm")
  case True
  then show ?thesis using assms
    by (auto simp: manager_started_def manager_stop_closed_def ucm_Start_def on_integrated_def icw_Start_def split: if_splits)
next
  case False
  then show ?thesis using assms
    by (auto simp: manager_started_def manager_stop_closed_def ucm_Start_def on_legacy_def cw_Start_def Let_def
        split: if_splits bool.splits option.splits)
qed

lemma set_strategy_flags [simp]:
  "manager_stop_closed (set_strategy s ucm) = manager_stop_closed ucm" "manager_started (set_strategy s ucm) = manager_started ucm"
  by (auto simp: set_strategy_def manager_stop_closed_def manager_started_def)

lemma started_is_running: "manager_started ucm \<Longrightarrow> ucm_IsRunning ucm = Some True"
  by (auto simp: manager_started_def ucm_IsRunning_def icw_IsRunning_def split: if_splits)

lemma update_steps:
  assumes "ucm_IsRunning ucm = Some True" and "(Done None, ucm1, r1) \<in> set (UpdateConfiguration wait now (Some s) ucm r)"
  obtains ucm0 r0 where "(Done None, ucm0, r0) \<in> set (ucm_Stop wait ucm r)"
    and "(Done None, ucm1, r1) \<in> set (ucm_Start now (set_strategy s ucm0) r0)"
proof -
  obtain x ucm0 r0 where x: "(x, ucm0, r0) \<in> set (ucm_Stop wait ucm r)"
      "(Done None, ucm1, r1) \<in> set (case x of Crash \<Rightarrow> [(Crash, ucm0, r0)] | Done (Some e) \<Rightarrow> [(Done (Some (ME_stop e)), ucm0, r0)]
         | Done None \<Rightarrow> map (\<lambda>(y, ucm2, r2). (case y of Done (Some e) \<Rightarrow> Done (Some (ME_restart e)) | _ \<Rightarrow> y, ucm2, r2))
             (ucm_Start now (set_strategy s ucm0) r0))"
    using assms unfolding UpdateConfiguration_def option.case by force
  have d: "x = Done None"
  proof (cases x)
    case Crash
    then show ?thesis using x(2) by simp
  next
    case (Done e)
    then show ?thesis using x(2) by (cases e) simp_all
  qed
  obtain y where y: "(y, ucm1, r1) \<in> set (ucm_Start now (set_strategy s ucm0) r0)"
      "Done None = (case y of Done (Some e) \<Rightarrow> Done (Some (ME_restart e)) | _ \<Rightarrow> y)"
    using x(2) unfolding d by auto
  have "y = Done None"
  proof (cases y)
    case Crash
    then show ?thesis using y(2) by simp
  next
    case (Done e)
    then show ?thesis using y(2) by (cases e) simp_all
  qed
  then show thesis using that x(1) y(1) d by blast
qed

text \<open>
  A running manager can be reconfigured once. When \<open>UpdateConfiguration\<close> has succeeded, the next one
  crashes the process, in either mode: its \<open>Stop\<close> closes the stop channel of the warmer again.
\<close>

theorem second_update_crashes:
  assumes "manager_started ucm" and "(Done None, ucm1, r1) \<in> set (UpdateConfiguration wait now (Some s) ucm r)"
  shows "\<exists>ucm2. UpdateConfiguration wait now' (Some s') ucm1 r1 = [(Crash, ucm2, r1)]"
proof -
  obtain ucm0 r0 where u: "(Done None, ucm0, r0) \<in> set (ucm_Stop wait ucm r)"
      "(Done None, ucm1, r1) \<in> set (ucm_Start now (set_strategy s ucm0) r0)"
    by (rule update_steps [OF started_is_running [OF assms(1)] assms(2)])
  have "manager_stop_closed ucm1" "manager_started ucm1"
    using start_keeps_closed [OF _ _ u(2)] stop_closes [OF assms(1) u(1)] by simp_all
  then show ?thesis using stop_closed_crashes [of ucm1 wait r1]
    by (auto simp: UpdateConfiguration_def started_is_running)
qed

text \<open>
  In legacy mode the manager always says that it runs, so that reconfiguring one that was never started
  starts it.
\<close>

theorem legacy_update_starts:
  assumes "\<not> ucm_useIntegrated ucm" and "ucm_legacyWarmer ucm = Some cw" and "\<not> cw_running cw" and "\<not> cw_panicked cw"
    and "cw_priorityQueue cw \<noteq> None"
  shows "ucm_IsRunning ucm = Some True \<and>
    (\<exists>ucm1. UpdateConfiguration wait now (Some s) ucm r = [(Done None, ucm1, r)] \<and> manager_started ucm1)"
proof -
  let ?cw = "cw\<lparr>cw_strategy := s\<rparr>"
  have "\<not> cw_panicked (snd (cw_Start now ?cw))" "cw_running (snd (cw_Start now ?cw))"
    using assms(3-5) by (auto simp: cw_Start_def Let_def split: bool.splits option.splits)
  moreover have "ucm_Stop wait ucm r = [(Done None, ucm, r)]"
    using assms by (simp add: ucm_Stop_def on_legacy_def Let_def)
  ultimately show ?thesis using assms(1,2)
    by (simp add: ucm_IsRunning_def UpdateConfiguration_def set_strategy_def ucm_Start_def on_legacy_def manager_started_def)
qed

section \<open>Concrete managers\<close>

definition ex_manager :: "(unit, unit, unit, string \<rightharpoonup> unit go_value) cache_manager" where
  "ex_manager = \<lparr>ucm_integratedWarmer = Some ex_icw, ucm_legacyWarmer = None, ucm_useIntegrated = True\<rparr>"

theorem local_eviction_stores_nil_witness:
  "\<exists>icw' job. EnqueueEvictionJob mem_job_redis J 5 6 ''k'' 1 ex_manager ex_queues =
      [(Done None, ex_manager\<lparr>ucm_integratedWarmer := Some icw'\<rparr>, ex_queues)] \<and> local_queue icw' = [job] \<and>
    snd (processJob (ci_Set ex_iface) 0 1 job [''k'' \<mapsto> GStr ''v'']) = [''k'' \<mapsto> GNil]"
proof -
  have h: "ucm_useIntegrated ex_manager" "ucm_integratedWarmer ex_manager = Some ex_icw" by (simp_all add: ex_manager_def)
  obtain icw' job where e: "EnqueueEvictionJob mem_job_redis J 5 6 ''k'' 1 ex_manager ex_queues =
      [(Done None, ex_manager\<lparr>ucm_integratedWarmer := Some icw'\<rparr>, ex_queues)]"
      "local_queue icw' = local_queue ex_icw @ [job]"
      "\<forall>K start end (c :: string \<rightharpoonup> unit go_value). snd (processJob (ci_Set (K :: (unit go_value, unit, _) cache_iface)) start end job c) =
         snd (ci_Set K ''k'' GNil hour c)"
    using local_eviction_stores_nil [OF h ex_icw_simps(5), of 1 mem_job_redis J 5 6 "''k''" ex_queues] by (auto simp: ex_icw_simps)
  have "snd (processJob (ci_Set ex_iface) 0 1 job [''k'' \<mapsto> GStr ''v'']) = snd (ci_Set ex_iface ''k'' GNil hour [''k'' \<mapsto> GStr ''v''])"
    using e(3) by blast
  then show ?thesis using e(1,2) by (auto simp: ex_icw_simps ex_iface_def)
qed

text \<open>Waiting: the idle workers leave.\<close>

definition ex_wait :: "('v, 'e, 'c) pool_system \<Rightarrow> ('v, 'e, 'c) pool_system" where
  "ex_wait s = s\<lparr>sy_idle := 0\<rparr>"

definition ex_legacy :: "(unit, unit, unit, unit) cache_manager" where
  "ex_legacy = fst (NewUnifiedCacheManager () None (Some (default_config\<lparr>wc_Strategy := Some (default_strategy\<lparr>ws_UseScheduler := False\<rparr>)\<rparr>)) ex_queues)"

lemmas ex_legacy_defs = ex_legacy_def NewUnifiedCacheManager_def determineMode_def default_config_def default_strategy_def
  NewCacheWarmer_def ucm_Start_def on_legacy_def cw_Start_def new_system_def NewWorkerPool_def wp_Start_def

theorem legacy_update_starts_witness:
  "ucm_IsRunning ex_legacy = Some True \<and>
    (\<exists>ucm1. UpdateConfiguration ex_wait 0 (Some default_strategy) ex_legacy ex_queues = [(Done None, ucm1, ex_queues)] \<and> manager_started ucm1)"
proof -
  have h: "\<not> ucm_useIntegrated ex_legacy" "ucm_legacyWarmer ex_legacy = Some (the (ucm_legacyWarmer ex_legacy))"
      "\<not> cw_running (the (ucm_legacyWarmer ex_legacy))" "\<not> cw_panicked (the (ucm_legacyWarmer ex_legacy))"
      "cw_priorityQueue (the (ucm_legacyWarmer ex_legacy)) \<noteq> None"
    by (simp_all add: ex_legacy_defs Let_def)
  show ?thesis by (rule legacy_update_starts [OF h])
qed

theorem second_update_crashes_witness:
  "\<exists>ucm0 ucm1 ucm2. ucm_Start 0 ex_legacy ex_queues = [(Done None, ucm0, ex_queues)] \<and>
     UpdateConfiguration ex_wait 1 (Some default_strategy) ucm0 ex_queues = [(Done None, ucm1, ex_queues)] \<and>
     UpdateConfiguration ex_wait 2 (Some default_strategy) ucm1 ex_queues = [(Crash, ucm2, ex_queues)]"
proof -
  let ?cw0 = "the (ucm_legacyWarmer ex_legacy)"
  let ?ucm0 = "ex_legacy\<lparr>ucm_legacyWarmer := Some (snd (cw_Start 0 ?cw0))\<rparr>"
  have s0: "ucm_Start 0 ex_legacy ex_queues = [(Done None, ?ucm0, ex_queues)]" by (simp add: ex_legacy_defs Let_def)
  have st: "manager_started ?ucm0" by (simp add: ex_legacy_defs Let_def manager_started_def)
  have "\<exists>ucm1. UpdateConfiguration ex_wait 1 (Some default_strategy) ?ucm0 ex_queues = [(Done None, ucm1, ex_queues)]"
    by (simp add: ex_legacy_defs Let_def UpdateConfiguration_def ucm_IsRunning_def ucm_Stop_def cw_Stop_begin_def cw_Stop_end_def
        wp_Stop_begin_def wp_Stop_end_def ex_wait_def set_strategy_def)
  then obtain ucm1 where u1: "UpdateConfiguration ex_wait 1 (Some default_strategy) ?ucm0 ex_queues = [(Done None, ucm1, ex_queues)]"
    by blast
  then show ?thesis using s0 second_update_crashes [OF st, of ucm1 ex_queues ex_wait 1 default_strategy ex_queues 2 default_strategy]
    by (metis list.set_intros(1))
qed

end
