(* ===== verification/Models.thy ===== *)
theory Models
  imports GoPrelude
begin

text \<open>
  The data model (\<^verbatim>\<open>backend/internal/models\<close>): one record per table with the columns the code
  reads or writes, and the methods of the structs. The association fields that gorm fills
  (a user's roles with their permissions) are kept where a method reads them; the other
  back references are left out. \<open>DeletedAt\<close> is gorm's soft-delete mark: \<open>None\<close> for a row in use.
\<close>

section \<open>Tables\<close>

record task =
  t_ID :: uuid
  t_UserID :: uuid
  t_Title :: string
  t_Description :: string
  t_Status :: string
  t_CreatedAt :: instant
  t_UpdatedAt :: instant

record permission =
  p_ID :: uuid
  p_Name :: string
  p_Resource :: string
  p_Action :: string
  p_Description :: string
  p_CreatedAt :: instant
  p_UpdatedAt :: instant
  p_DeletedAt :: "instant option"
  p_CreatedBy :: uuid
  p_ModifiedBy :: uuid

record role_permission =
  rp_RoleID :: uuid
  rp_PermissionID :: uuid
  rp_AssignedBy :: "uuid option"
  rp_AssignedAt :: "instant option"
  rp_CreatedAt :: instant
  rp_UpdatedAt :: instant
  rp_DeletedAt :: "instant option"
  rp_Permission :: permission

record role =
  r_ID :: uuid
  r_Name :: string
  r_Description :: string
  r_CreatedAt :: instant
  r_UpdatedAt :: instant
  r_Permissions :: "role_permission list"

record user_role =
  ur_UserID :: uuid
  ur_RoleID :: uuid
  ur_AssignedBy :: "uuid option"
  ur_AssignedAt :: "instant option"
  ur_ExpiresAt :: "instant option"
  ur_CreatedAt :: instant
  ur_UpdatedAt :: instant
  ur_DeletedAt :: "instant option"

record user_attribute =
  ua_ID :: uuid
  ua_UserID :: uuid
  ua_Name :: string
  ua_Value :: string
  ua_Type :: string
  ua_Source :: string
  ua_ExpiresAt :: "instant option"
  ua_CreatedAt :: instant
  ua_UpdatedAt :: instant
  ua_DeletedAt :: "instant option"

record resource_attribute =
  ra_ID :: uuid
  ra_ResourceType :: string
  ra_ResourceID :: uuid
  ra_Name :: string
  ra_Value :: string
  ra_Type :: string
  ra_Source :: string
  ra_ExpiresAt :: "instant option"
  ra_CreatedAt :: instant
  ra_UpdatedAt :: instant
  ra_DeletedAt :: "instant option"

record audit_log =
  al_ID :: uuid
  al_UserID :: uuid
  al_Action :: string
  al_Resource :: string
  al_ResourceID :: uuid
  al_Decision :: string
  al_Reason :: string
  al_IPAddress :: string
  al_UserAgent :: string
  al_RequestMethod :: string
  al_RequestPath :: string
  al_Context :: string
  al_Timestamp :: instant

record user =
  u_ID :: uuid
  u_Username :: string
  u_Email :: string
  u_Password :: string
  u_FirstName :: string
  u_LastName :: string
  u_Department :: string
  u_Position :: string
  u_IsActive :: bool
  u_LastLoginAt :: "instant option"
  u_CreatedAt :: instant
  u_UpdatedAt :: instant
  u_DeletedAt :: "instant option"
  u_Roles :: "role list"

record token =
  tk_ID :: uuid
  tk_UserId :: uuid
  tk_JTI :: uuid
  tk_RefreshToken :: string
  tk_ExpiresAt :: instant

text \<open>What the code distinguishes among the errors of gorm.\<close>

datatype gorm_error = ErrRecordNotFound | ErrInvalidData | DbError string

section \<open>Methods of a user\<close>

primrec roles_have :: "string \<Rightarrow> role list \<Rightarrow> bool" where
  "roles_have roleName [] = False"
| "roles_have roleName (r # rs) = (if r_Name r = roleName then True else roles_have roleName rs)"

definition user_HasRole :: "user \<Rightarrow> string \<Rightarrow> bool" where
  "user_HasRole u roleName = roles_have roleName (u_Roles u)"

primrec role_grants :: "string \<Rightarrow> string \<Rightarrow> role_permission list \<Rightarrow> bool" where
  "role_grants resource action [] = False"
| "role_grants resource action (rp # rps) =
     (if p_Resource (rp_Permission rp) = resource \<and> p_Action (rp_Permission rp) = action then True
      else role_grants resource action rps)"

primrec roles_grant :: "string \<Rightarrow> string \<Rightarrow> role list \<Rightarrow> bool" where
  "roles_grant resource action [] = False"
| "roles_grant resource action (r # rs) =
     (if role_grants resource action (r_Permissions r) then True else roles_grant resource action rs)"

definition user_HasPermission :: "user \<Rightarrow> string \<Rightarrow> string \<Rightarrow> bool" where
  "user_HasPermission u resource action = roles_grant resource action (u_Roles u)"

definition GetRoleNames :: "user \<Rightarrow> string list" where
  "GetRoleNames u = foldl (\<lambda>names r. names @ [r_Name r]) [] (u_Roles u)"

text \<open>The map \<open>GetPermissions\<close> fills; its result lists the map's values in an unspecified order.\<close>

definition permissionMap :: "user \<Rightarrow> uuid \<rightharpoonup> permission" where
  "permissionMap u =
     foldl (\<lambda>m r. foldl (\<lambda>m rp. m(p_ID (rp_Permission rp) \<mapsto> rp_Permission rp)) m (r_Permissions r))
       Map.empty (u_Roles u)"

definition user_IsAdmin :: "user \<Rightarrow> bool" where
  "user_IsAdmin u = user_HasRole u ''admin''"

definition user_IsUser :: "user \<Rightarrow> bool" where
  "user_IsUser u = user_HasRole u ''user''"

lemma roles_have_iff: "roles_have n rs \<longleftrightarrow> (\<exists>r\<in>set rs. r_Name r = n)"
  by (induction rs) auto

lemma role_grants_iff:
  "role_grants res act rps \<longleftrightarrow> (\<exists>rp\<in>set rps. p_Resource (rp_Permission rp) = res \<and> p_Action (rp_Permission rp) = act)"
  by (induction rps) auto

lemma roles_grant_iff:
  "roles_grant res act rs \<longleftrightarrow> (\<exists>r\<in>set rs. \<exists>rp\<in>set (r_Permissions r).
     p_Resource (rp_Permission rp) = res \<and> p_Action (rp_Permission rp) = act)"
  by (induction rs) (auto simp: role_grants_iff)

lemma foldl_append_map: "foldl (\<lambda>acc x. acc @ [f x]) acc xs = acc @ map f xs"
  by (induction xs arbitrary: acc) auto

lemma GetRoleNames_eq: "GetRoleNames u = map r_Name (u_Roles u)"
  by (simp add: GetRoleNames_def foldl_append_map)

text \<open>All permissions of a user's roles, in the order in which the code meets them.\<close>

definition user_permissions :: "user \<Rightarrow> permission list" where
  "user_permissions u = concat (map (\<lambda>r. map rp_Permission (r_Permissions r)) (u_Roles u))"

lemma permissionMap_eq: "permissionMap u = map_of (rev (map (\<lambda>p. (p_ID p, p)) (user_permissions u)))"
proof -
  have in1: "foldl (\<lambda>m rp. m(p_ID (rp_Permission rp) \<mapsto> rp_Permission rp)) m rps =
      m ++ map_of (rev (map (\<lambda>p. (p_ID p, p)) (map rp_Permission rps)))" for m :: "uuid \<rightharpoonup> permission" and rps
    by (induction rps arbitrary: m) simp_all
  have "foldl (\<lambda>m r. foldl (\<lambda>m rp. m(p_ID (rp_Permission rp) \<mapsto> rp_Permission rp)) m (r_Permissions r)) m rs =
      m ++ map_of (rev (map (\<lambda>p. (p_ID p, p)) (concat (map (\<lambda>r. map rp_Permission (r_Permissions r)) rs))))"
    for m and rs :: "role list"
  proof (induction rs arbitrary: m)
    case (Cons r rs)
    show ?case using Cons.IH [of "m ++ map_of (rev (map (\<lambda>p. (p_ID p, p)) (map rp_Permission (r_Permissions r))))"]
      by (simp only: foldl_Cons in1 list.map concat.simps map_append rev_append map_of_append map_add_assoc)
  qed simp
  then show ?thesis by (simp add: permissionMap_def user_permissions_def)
qed

lemma user_HasPermission_iff:
  "user_HasPermission u res act \<longleftrightarrow> (\<exists>p\<in>set (user_permissions u). p_Resource p = res \<and> p_Action p = act)"
  by (auto simp: user_HasPermission_def roles_grant_iff user_permissions_def)

text \<open>
  What \<open>GetPermissions\<close> lists is held by the user, and it lists everything that is held when an
  identifier names one permission.
\<close>

lemma permissionMap_SomeD: "permissionMap u i = Some p \<Longrightarrow> p \<in> set (user_permissions u) \<and> p_ID p = i"
proof -
  assume "permissionMap u i = Some p"
  then have "(i, p) \<in> set (rev (map (\<lambda>p. (p_ID p, p)) (user_permissions u)))"
    unfolding permissionMap_eq by (rule map_of_SomeD)
  then show ?thesis by auto
qed

lemma permissionMap_sound: "permissionMap u i = Some p \<Longrightarrow> user_HasPermission u (p_Resource p) (p_Action p)"
  using permissionMap_SomeD [of u i p] user_HasPermission_iff [of u "p_Resource p" "p_Action p"] by metis

lemma permissionMap_complete:
  assumes "\<And>p q. p \<in> set (user_permissions u) \<Longrightarrow> q \<in> set (user_permissions u) \<Longrightarrow> p_ID p = p_ID q \<Longrightarrow> p = q"
    and "user_HasPermission u res act"
  obtains i p where "permissionMap u i = Some p" "p_Resource p = res" "p_Action p = act"
proof -
  from assms(2) obtain p where p: "p \<in> set (user_permissions u)" "p_Resource p = res" "p_Action p = act"
    by (auto simp: user_HasPermission_iff)
  let ?l = "rev (map (\<lambda>p. (p_ID p, p)) (user_permissions u))"
  have "p_ID p \<in> fst ` set ?l" using p(1) by force
  then have "map_of ?l (p_ID p) \<noteq> None" unfolding map_of_eq_None_iff by blast
  then obtain q where q: "map_of ?l (p_ID p) = Some q" by blast
  then have m: "permissionMap u (p_ID p) = Some q" by (simp add: permissionMap_eq)
  then have "q = p" using permissionMap_SomeD [OF m] assms(1) p(1) by blast
  then show ?thesis using that m p by blast
qed

section \<open>Expiry and typed values\<close>

definition expired :: "instant \<Rightarrow> instant option \<Rightarrow> bool" where
  "expired now ExpiresAt = (case ExpiresAt of None \<Rightarrow> False | Some e \<Rightarrow> e < now)"

definition ur_IsExpired :: "instant \<Rightarrow> user_role \<Rightarrow> bool" where
  "ur_IsExpired now ur = expired now (ur_ExpiresAt ur)"

definition ua_IsExpired :: "instant \<Rightarrow> user_attribute \<Rightarrow> bool" where
  "ua_IsExpired now ua = expired now (ua_ExpiresAt ua)"

definition ra_IsExpired :: "instant \<Rightarrow> resource_attribute \<Rightarrow> bool" where
  "ra_IsExpired now ra = expired now (ra_ExpiresAt ra)"

datatype typed_value = TVBool bool | TVString string | TVInt int | TVTime instant | TVNil

text \<open>\<open>parse\<close> stands for \<open>time.Parse(time.RFC3339, _)\<close>.\<close>

definition typed_value :: "(string \<Rightarrow> instant option) \<Rightarrow> string \<Rightarrow> string \<Rightarrow> typed_value" where
  "typed_value parse ty val =
     (if ty = ''boolean'' then TVBool (val = ''true'')
      else if ty = ''number'' then (if val \<noteq> '''' then TVString val else TVInt 0)
      else if ty = ''date'' then (case parse val of Some t \<Rightarrow> TVTime t | None \<Rightarrow> TVNil)
      else TVString val)"

definition ua_GetTypedValue :: "(string \<Rightarrow> instant option) \<Rightarrow> user_attribute \<Rightarrow> typed_value" where
  "ua_GetTypedValue parse ua = typed_value parse (ua_Type ua) (ua_Value ua)"

definition ra_GetTypedValue :: "(string \<Rightarrow> instant option) \<Rightarrow> resource_attribute \<Rightarrow> typed_value" where
  "ra_GetTypedValue parse ra = typed_value parse (ra_Type ra) (ra_Value ra)"

lemma number_attribute_is_not_a_number:
  "ua_Type ua = ''number'' \<Longrightarrow> ua_Value ua \<noteq> '''' \<Longrightarrow> ua_GetTypedValue parse ua = TVString (ua_Value ua)"
  by (simp add: ua_GetTypedValue_def typed_value_def)

end
