(* ===== verification/Authorization.thy ===== *)
theory Authorization
  imports Models
begin

text \<open>
  The authorization service (\<^verbatim>\<open>backend/internal/services/authorization.go\<close>): role and permission
  checks by SQL, then attribute rules for tasks and users. The database is a parameter: a record of
  the queries and writes the service sends to it. The meaning of each query's SQL text over the
  tables is written out (\<open>role_count_query\<close> and so on), and \<open>authz_reads\<close>, \<open>authz_writes\<close>
  state that a database answers by that meaning.
\<close>

section \<open>Requests, decisions and the database\<close>

record 'c authz_request =
  aq_UserID :: uuid
  aq_Resource :: string
  aq_Action :: string
  aq_ResourceID :: "uuid option"
  aq_Context :: "'c option"
  aq_IPAddress :: string
  aq_UserAgent :: string
  aq_RequestID :: string

record 'c authz_decision =
  ad_UserID :: uuid
  ad_Resource :: string
  ad_Action :: string
  ad_ResourceID :: "uuid option"
  ad_Decision :: string
  ad_Reason :: string
  ad_PolicyType :: string
  ad_Context :: "'c option"
  ad_Timestamp :: instant
  ad_IPAddress :: string
  ad_UserAgent :: string
  ad_RequestID :: string

record 'd authz_db =
  adb_count_role :: "uuid \<Rightarrow> string \<Rightarrow> 'd \<Rightarrow> nat \<times> gorm_error option"
  adb_count_permission :: "uuid \<Rightarrow> string \<Rightarrow> string \<Rightarrow> 'd \<Rightarrow> nat \<times> gorm_error option"
  adb_user_attributes :: "uuid \<Rightarrow> 'd \<Rightarrow> gorm_error + user_attribute list"
  adb_first_task :: "uuid \<Rightarrow> 'd \<Rightarrow> gorm_error + task"
  adb_first_department :: "uuid \<Rightarrow> 'd \<Rightarrow> gorm_error + string"
  adb_first_user_role :: "uuid \<Rightarrow> uuid \<Rightarrow> 'd \<Rightarrow> gorm_error + user_role"
  adb_create_user_role :: "user_role \<Rightarrow> 'd \<Rightarrow> gorm_error option \<times> 'd"
  adb_delete_user_role :: "instant \<Rightarrow> uuid \<Rightarrow> uuid \<Rightarrow> 'd \<Rightarrow> gorm_error option \<times> 'd"
  adb_save_user_attribute :: "user_attribute \<Rightarrow> 'd \<Rightarrow> gorm_error option \<times> 'd"
  adb_save_resource_attribute :: "resource_attribute \<Rightarrow> 'd \<Rightarrow> gorm_error option \<times> 'd"
  adb_create_role :: "role \<Rightarrow> 'd \<Rightarrow> gorm_error option \<times> 'd"
  adb_create_permission :: "permission \<Rightarrow> 'd \<Rightarrow> gorm_error option \<times> 'd"
  adb_create_role_permission :: "role_permission \<Rightarrow> 'd \<Rightarrow> gorm_error option \<times> 'd"
  adb_create_audit_log :: "audit_log \<Rightarrow> 'd \<Rightarrow> gorm_error option \<times> 'd"

text \<open>The errors of this service: those of the database and its own message.\<close>

datatype authz_error = AuthzDb gorm_error | UserAlreadyHasRole

section \<open>Role and permission checks\<close>

definition az_HasRole :: "'d authz_db \<Rightarrow> uuid \<Rightarrow> string \<Rightarrow> 'd \<Rightarrow> bool \<times> gorm_error option" where
  "az_HasRole D userID roleName d = (case adb_count_role D userID roleName d of (n, err) \<Rightarrow> (n > 0, err))"

definition az_HasPermission :: "'d authz_db \<Rightarrow> uuid \<Rightarrow> string \<Rightarrow> string \<Rightarrow> 'd \<Rightarrow> bool \<times> gorm_error option" where
  "az_HasPermission D userID resource action d =
     (case adb_count_permission D userID resource action d of (n, err) \<Rightarrow> (n > 0, err))"

definition AssignRole :: "'d authz_db \<Rightarrow> instant \<Rightarrow> uuid \<Rightarrow> uuid \<Rightarrow> uuid \<Rightarrow> 'd \<Rightarrow> authz_error option \<times> 'd" where
  "AssignRole D now userID roleID assignedBy d =
     (case adb_first_user_role D userID roleID d of
        Inr _ \<Rightarrow> (Some UserAlreadyHasRole, d)
      | Inl err \<Rightarrow>
          if err \<noteq> ErrRecordNotFound then (Some (AuthzDb err), d)
          else (case adb_create_user_role D
                  \<lparr>ur_UserID = userID, ur_RoleID = roleID, ur_AssignedBy = Some assignedBy,
                   ur_AssignedAt = Some now, ur_ExpiresAt = None, ur_CreatedAt = now, ur_UpdatedAt = now,
                   ur_DeletedAt = None\<rparr> d of
                  (e, d') \<Rightarrow> (map_option AuthzDb e, d')))"

definition RevokeRole :: "'d authz_db \<Rightarrow> instant \<Rightarrow> uuid \<Rightarrow> uuid \<Rightarrow> 'd \<Rightarrow> authz_error option \<times> 'd" where
  "RevokeRole D now userID roleID d =
     (case adb_delete_user_role D now userID roleID d of (e, d') \<Rightarrow> (map_option AuthzDb e, d'))"

section \<open>Attribute rules\<close>

definition attr_map :: "user_attribute list \<Rightarrow> string \<rightharpoonup> string" where
  "attr_map attrs = foldl (\<lambda>m a. m(ua_Name a \<mapsto> ua_Value a)) Map.empty attrs"

type_synonym abac_result = "bool \<times> string \<times> gorm_error option"

definition evaluateTaskABACPolicy ::
  "'d authz_db \<Rightarrow> 'c authz_request \<Rightarrow> (string \<rightharpoonup> string) \<Rightarrow> 'd \<Rightarrow> abac_result" where
  "evaluateTaskABACPolicy D q userAttrs d =
     (if aq_Action q = ''create'' then (True, ''Task creation allowed'', None)
      else case aq_ResourceID q of
        Some rid \<Rightarrow>
          (case adb_first_task D rid d of
             Inl err \<Rightarrow>
               if err = ErrRecordNotFound then (False, ''Task not found'', None)
               else (False, ''Failed to retrieve task'', Some err)
           | Inr task \<Rightarrow>
               if t_UserID task = aq_UserID q then (True, ''Task owner has access'', None)
               else if (case userAttrs ''department'' of
                          Some userDept \<Rightarrow>
                            (case adb_first_department D (t_UserID task) d of
                               Inr dept \<Rightarrow> dept = userDept \<and> aq_Action q = ''read''
                             | Inl _ \<Rightarrow> False)
                        | None \<Rightarrow> False)
                    then (True, ''Department member can view task'', None)
               else (False, ''User can only access own tasks'', None))
      | None \<Rightarrow> (True, ''Task listing allowed'', None))"

definition evaluateUserABACPolicy :: "'c authz_request \<Rightarrow> abac_result" where
  "evaluateUserABACPolicy q =
     (if aq_ResourceID q = Some (aq_UserID q) then (True, ''User can access own profile'', None)
      else if aq_ResourceID q \<noteq> None \<and> (aq_Action q = ''update'' \<or> aq_Action q = ''delete'')
        then (False, ''Only admins can modify other users'', None)
      else if aq_ResourceID q \<noteq> None \<and> aq_Action q = ''read''
        then (True, ''User can view other profiles'', None)
      else (True, ''User listing allowed'', None))"

definition evaluateABACPolicies :: "'d authz_db \<Rightarrow> 'c authz_request \<Rightarrow> 'd \<Rightarrow> abac_result" where
  "evaluateABACPolicies D q d =
     (case adb_user_attributes D (aq_UserID q) d of
        Inl err \<Rightarrow> (False, ''Failed to retrieve user attributes'', Some err)
      | Inr userAttrs \<Rightarrow>
          (case az_HasRole D (aq_UserID q) ''admin'' d of
             (_, Some err) \<Rightarrow> (False, ''Failed to check admin role'', Some err)
           | (isAdmin, None) \<Rightarrow>
               if isAdmin then (True, ''Admin has full access'', None)
               else if aq_Resource q = ''task'' then evaluateTaskABACPolicy D q (attr_map userAttrs) d
               else if aq_Resource q = ''user'' \<or> aq_Resource q = ''profile'' then evaluateUserABACPolicy q
               else (True, ''No specific ABAC policy, allowing based on RBAC'', None)))"

text \<open>\<open>show\<close> renders an error for the reason, as \<open>fmt.Sprintf("%v", err)\<close> does.\<close>

definition IsAuthorized ::
  "'d authz_db \<Rightarrow> (gorm_error \<Rightarrow> string) \<Rightarrow> instant \<Rightarrow> 'c authz_request \<Rightarrow> 'd \<Rightarrow>
   'c authz_decision \<times> gorm_error option" where
  "IsAuthorized D show_err now q d =
     (let decision = \<lparr>ad_UserID = aq_UserID q, ad_Resource = aq_Resource q, ad_Action = aq_Action q,
            ad_ResourceID = aq_ResourceID q, ad_Decision = ''denied'', ad_Reason = '''',
            ad_PolicyType = ''combined'', ad_Context = aq_Context q, ad_Timestamp = now,
            ad_IPAddress = aq_IPAddress q, ad_UserAgent = aq_UserAgent q, ad_RequestID = aq_RequestID q\<rparr>
      in case az_HasPermission D (aq_UserID q) (aq_Resource q) (aq_Action q) d of
           (_, Some err) \<Rightarrow> (decision\<lparr>ad_Reason := ''RBAC check failed: '' @ show_err err\<rparr>, Some err)
         | (hasPermission, None) \<Rightarrow>
             if \<not> hasPermission
             then (decision\<lparr>ad_Reason := ''User lacks required RBAC permission'', ad_PolicyType := ''rbac''\<rparr>, None)
             else (case evaluateABACPolicies D q d of
                     (_, _, Some err) \<Rightarrow>
                       (decision\<lparr>ad_Reason := ''ABAC evaluation failed: '' @ show_err err\<rparr>, Some err)
                   | (allowed, reason, None) \<Rightarrow>
                       if \<not> allowed then (decision\<lparr>ad_Reason := reason, ad_PolicyType := ''abac''\<rparr>, None)
                       else (decision\<lparr>ad_Decision := ''allowed'',
                               ad_Reason := ''Access granted by RBAC and ABAC policies''\<rparr>, None)))"

section \<open>Attributes, roles, permissions and the audit log\<close>

text \<open>\<open>id\<close> is the UUID that \<open>uuid.NewV4\<close> draws.\<close>

definition SetUserAttribute ::
  "'d authz_db \<Rightarrow> instant \<Rightarrow> uuid \<Rightarrow> uuid \<Rightarrow> string \<Rightarrow> string \<Rightarrow> string \<Rightarrow> 'd \<Rightarrow> gorm_error option \<times> 'd" where
  "SetUserAttribute D now new_id userID key val dataType d =
     adb_save_user_attribute D
       \<lparr>ua_ID = new_id, ua_UserID = userID, ua_Name = key, ua_Value = val, ua_Type = dataType,
        ua_Source = ''manual'', ua_ExpiresAt = None, ua_CreatedAt = now, ua_UpdatedAt = now,
        ua_DeletedAt = None\<rparr> d"

definition SetResourceAttribute ::
  "'d authz_db \<Rightarrow> instant \<Rightarrow> uuid \<Rightarrow> string \<Rightarrow> uuid \<Rightarrow> string \<Rightarrow> string \<Rightarrow> string \<Rightarrow> 'd \<Rightarrow>
   gorm_error option \<times> 'd" where
  "SetResourceAttribute D now new_id resourceType resourceID key val dataType d =
     adb_save_resource_attribute D
       \<lparr>ra_ID = new_id, ra_ResourceType = resourceType, ra_ResourceID = resourceID, ra_Name = key,
        ra_Value = val, ra_Type = dataType, ra_Source = ''manual'', ra_ExpiresAt = None,
        ra_CreatedAt = now, ra_UpdatedAt = now, ra_DeletedAt = None\<rparr> d"

text \<open>\<open>zero_time\<close> is Go's zero \<open>time.Time\<close>, which gorm replaces by the current time on insert.\<close>

definition CreateRole ::
  "'d authz_db \<Rightarrow> instant \<Rightarrow> uuid \<Rightarrow> string \<Rightarrow> string \<Rightarrow> 'd \<Rightarrow> role \<times> gorm_error option \<times> 'd" where
  "CreateRole D zero_time new_id name description d =
     (let role = \<lparr>r_ID = new_id, r_Name = name, r_Description = description, r_CreatedAt = zero_time,
        r_UpdatedAt = zero_time, r_Permissions = []\<rparr>
      in (role, adb_create_role D role d))"

definition CreatePermission ::
  "'d authz_db \<Rightarrow> instant \<Rightarrow> uuid \<Rightarrow> string \<Rightarrow> string \<Rightarrow> string \<Rightarrow> 'd \<Rightarrow>
   permission \<times> gorm_error option \<times> 'd" where
  "CreatePermission D now new_id resource action description d =
     (let permission = \<lparr>p_ID = new_id, p_Name = resource @ '':'' @ action, p_Resource = resource,
        p_Action = action, p_Description = description, p_CreatedAt = now, p_UpdatedAt = now,
        p_DeletedAt = None, p_CreatedBy = uuid_Nil, p_ModifiedBy = uuid_Nil\<rparr>
      in (permission, adb_create_permission D permission d))"

text \<open>\<open>no_permission\<close> is the zero value of the association field.\<close>

definition GrantPermissionToRole ::
  "'d authz_db \<Rightarrow> permission \<Rightarrow> instant \<Rightarrow> uuid \<Rightarrow> uuid \<Rightarrow> uuid \<Rightarrow> 'd \<Rightarrow> gorm_error option \<times> 'd" where
  "GrantPermissionToRole D no_permission now roleID permissionID grantedBy d =
     adb_create_role_permission D
       \<lparr>rp_RoleID = roleID, rp_PermissionID = permissionID, rp_AssignedBy = Some grantedBy,
        rp_AssignedAt = Some now, rp_CreatedAt = now, rp_UpdatedAt = now, rp_DeletedAt = None,
        rp_Permission = no_permission\<rparr> d"

text \<open>\<open>marshal_ctx\<close> stands for \<open>json.Marshal\<close> on the context map.\<close>

definition LogAuthorizationDecision ::
  "'d authz_db \<Rightarrow> ('c \<Rightarrow> string option) \<Rightarrow> uuid \<Rightarrow> 'c authz_decision \<Rightarrow> 'd \<Rightarrow> gorm_error option \<times> 'd" where
  "LogAuthorizationDecision D marshal_ctx new_id dec d =
     adb_create_audit_log D
       \<lparr>al_ID = new_id, al_UserID = ad_UserID dec, al_Action = ad_Action dec @ ''_'' @ ad_Resource dec,
        al_Resource = ad_Resource dec,
        al_ResourceID = (case ad_ResourceID dec of Some r \<Rightarrow> r | None \<Rightarrow> uuid_Nil),
        al_Decision = ad_Decision dec, al_Reason = ad_Reason dec, al_IPAddress = ad_IPAddress dec,
        al_UserAgent = ad_UserAgent dec, al_RequestMethod = '''', al_RequestPath = '''',
        al_Context = (case ad_Context dec of
                        None \<Rightarrow> ''''
                      | Some c \<Rightarrow> (case marshal_ctx c of Some j \<Rightarrow> j | None \<Rightarrow> '''')),
        al_Timestamp = ad_Timestamp dec\<rparr> d"

section \<open>The meaning of the queries\<close>

record authz_tables =
  tb_user_roles :: "user_role list"
  tb_roles :: "role list"
  tb_role_permissions :: "role_permission list"
  tb_permissions :: "permission list"
  tb_user_attributes :: "user_attribute list"
  tb_tasks :: "task list"
  tb_users :: "user list"

text \<open>The SQL of \<open>HasRole\<close> and of \<open>HasPermission\<close>: rows of the join that satisfy the condition.\<close>

definition role_count_query :: "authz_tables \<Rightarrow> uuid \<Rightarrow> string \<Rightarrow> nat" where
  "role_count_query T userID roleName =
     length (filter (\<lambda>(ur, r). r_ID r = ur_RoleID ur \<and> ur_UserID ur = userID \<and> r_Name r = roleName \<and>
       ur_DeletedAt ur = None) (List.product (tb_user_roles T) (tb_roles T)))"

definition permission_count_query :: "authz_tables \<Rightarrow> uuid \<Rightarrow> string \<Rightarrow> string \<Rightarrow> nat" where
  "permission_count_query T userID resource action =
     length (filter (\<lambda>(ur, rp, p). rp_RoleID rp = ur_RoleID ur \<and> p_ID p = rp_PermissionID rp \<and>
       ur_UserID ur = userID \<and> p_Resource p = resource \<and> p_Action p = action \<and>
       ur_DeletedAt ur = None \<and> rp_DeletedAt rp = None)
       (List.product (tb_user_roles T) (List.product (tb_role_permissions T) (tb_permissions T))))"

definition first_row :: "'a option \<Rightarrow> gorm_error + 'a" where
  "first_row x = (case x of None \<Rightarrow> Inl ErrRecordNotFound | Some a \<Rightarrow> Inr a)"

text \<open>The database answers the service's queries in state \<open>d\<close> from the tables \<open>T\<close>.\<close>

definition authz_reads :: "'d authz_db \<Rightarrow> authz_tables \<Rightarrow> 'd \<Rightarrow> bool" where
  "authz_reads D T d \<longleftrightarrow>
     (\<forall>u n. adb_count_role D u n d = (role_count_query T u n, None)) \<and>
     (\<forall>u res act. adb_count_permission D u res act d = (permission_count_query T u res act, None)) \<and>
     (\<forall>u. adb_user_attributes D u d =
        Inr (filter (\<lambda>a. ua_UserID a = u \<and> ua_DeletedAt a = None) (tb_user_attributes T))) \<and>
     (\<forall>i. adb_first_task D i d = first_row (find (\<lambda>t. t_ID t = i) (tb_tasks T))) \<and>
     (\<forall>i. adb_first_department D i d =
        first_row (map_option u_Department (find (\<lambda>u. u_ID u = i \<and> u_DeletedAt u = None) (tb_users T)))) \<and>
     (\<forall>u r. adb_first_user_role D u r d =
        first_row (find (\<lambda>ur. ur_UserID ur = u \<and> ur_RoleID ur = r \<and> ur_DeletedAt ur = None) (tb_user_roles T)))"

text \<open>
  A database state \<open>d\<close> shows the tables \<open>T d\<close>, its reads answer from them, and its writes to
  \<open>user_roles\<close> keep the table's primary key \<open>(user_id, role_id)\<close>, which counts soft-deleted rows too
  (\<^verbatim>\<open>000004_create_user_roles_table.up.sql\<close>); gorm's \<open>Delete\<close> only marks the rows.
\<close>

definition user_roles_writes :: "'d authz_db \<Rightarrow> ('d \<Rightarrow> authz_tables) \<Rightarrow> bool" where
  "user_roles_writes D T \<longleftrightarrow>
     (\<forall>d. authz_reads D (T d) d) \<and>
     (\<forall>row d. case adb_create_user_role D row d of (e, d') \<Rightarrow>
        if \<exists>x\<in>set (tb_user_roles (T d)). ur_UserID x = ur_UserID row \<and> ur_RoleID x = ur_RoleID row
        then e \<noteq> None \<and> T d' = T d
        else e = None \<and> T d' = (T d)\<lparr>tb_user_roles := tb_user_roles (T d) @ [row]\<rparr>) \<and>
     (\<forall>now u r d. case adb_delete_user_role D now u r d of (e, d') \<Rightarrow>
        e = None \<and> T d' = (T d)\<lparr>tb_user_roles :=
          map (\<lambda>x. if ur_UserID x = u \<and> ur_RoleID x = r \<and> ur_DeletedAt x = None
                   then x\<lparr>ur_DeletedAt := Some now\<rparr> else x) (tb_user_roles (T d))\<rparr>)"

lemma authz_readsD [simp]:
  assumes "authz_reads D T d"
  shows "adb_count_role D u n d = (role_count_query T u n, None)"
    and "adb_count_permission D u res act d = (permission_count_query T u res act, None)"
    and "adb_user_attributes D u d =
      Inr (filter (\<lambda>a. ua_UserID a = u \<and> ua_DeletedAt a = None) (tb_user_attributes T))"
    and "adb_first_task D i d = first_row (find (\<lambda>t. t_ID t = i) (tb_tasks T))"
    and "adb_first_department D i d =
      first_row (map_option u_Department (find (\<lambda>u. u_ID u = i \<and> u_DeletedAt u = None) (tb_users T)))"
    and "adb_first_user_role D u r d =
      first_row (find (\<lambda>ur. ur_UserID ur = u \<and> ur_RoleID ur = r \<and> ur_DeletedAt ur = None) (tb_user_roles T))"
  using assms by (simp_all add: authz_reads_def)

section \<open>The policy\<close>

definition holds_role :: "authz_tables \<Rightarrow> uuid \<Rightarrow> string \<Rightarrow> bool" where
  "holds_role T u n \<longleftrightarrow> (\<exists>ur\<in>set (tb_user_roles T). \<exists>r\<in>set (tb_roles T).
     ur_UserID ur = u \<and> ur_RoleID ur = r_ID r \<and> r_Name r = n \<and> ur_DeletedAt ur = None)"

definition holds_permission :: "authz_tables \<Rightarrow> uuid \<Rightarrow> string \<Rightarrow> string \<Rightarrow> bool" where
  "holds_permission T u res act \<longleftrightarrow>
     (\<exists>ur\<in>set (tb_user_roles T). \<exists>rp\<in>set (tb_role_permissions T). \<exists>p\<in>set (tb_permissions T).
        ur_UserID ur = u \<and> ur_DeletedAt ur = None \<and> rp_RoleID rp = ur_RoleID ur \<and> rp_DeletedAt rp = None \<and>
        p_ID p = rp_PermissionID rp \<and> p_Resource p = res \<and> p_Action p = act)"

definition task_of :: "authz_tables \<Rightarrow> uuid \<Rightarrow> task option" where
  "task_of T i = find (\<lambda>t. t_ID t = i) (tb_tasks T)"

text \<open>The user's department attribute is the department of user \<open>owner\<close>.\<close>

definition same_department :: "authz_tables \<Rightarrow> uuid \<Rightarrow> uuid \<Rightarrow> bool" where
  "same_department T u owner \<longleftrightarrow>
     (\<exists>x. find (\<lambda>x. u_ID x = owner \<and> u_DeletedAt x = None) (tb_users T) = Some x \<and>
        attr_map (filter (\<lambda>a. ua_UserID a = u \<and> ua_DeletedAt a = None) (tb_user_attributes T)) ''department''
          = Some (u_Department x))"

definition task_rule :: "authz_tables \<Rightarrow> 'c authz_request \<Rightarrow> bool" where
  "task_rule T q \<longleftrightarrow> aq_Action q = ''create'' \<or> aq_ResourceID q = None \<or>
     (\<exists>i t. aq_ResourceID q = Some i \<and> task_of T i = Some t \<and>
        (t_UserID t = aq_UserID q \<or> aq_Action q = ''read'' \<and> same_department T (aq_UserID q) (t_UserID t)))"

definition user_rule :: "'c authz_request \<Rightarrow> bool" where
  "user_rule q \<longleftrightarrow> aq_ResourceID q = None \<or> aq_ResourceID q = Some (aq_UserID q) \<or>
     aq_Action q \<notin> {''update'', ''delete''}"

definition authz_policy :: "authz_tables \<Rightarrow> 'c authz_request \<Rightarrow> bool" where
  "authz_policy T q \<longleftrightarrow> holds_permission T (aq_UserID q) (aq_Resource q) (aq_Action q) \<and>
     (holds_role T (aq_UserID q) ''admin'' \<or>
      (if aq_Resource q = ''task'' then task_rule T q
       else if aq_Resource q \<in> {''user'', ''profile''} then user_rule q else True))"

lemma role_count_pos: "role_count_query T u n > 0 \<longleftrightarrow> holds_role T u n"
  by (auto simp: role_count_query_def holds_role_def filter_empty_conv) metis+

lemma permission_count_pos: "permission_count_query T u res act > 0 \<longleftrightarrow> holds_permission T u res act"
  by (auto simp: permission_count_query_def holds_permission_def filter_empty_conv)

lemma az_HasRole_answer: "authz_reads D T d \<Longrightarrow> az_HasRole D u n d = (holds_role T u n, None)"
  by (simp add: az_HasRole_def role_count_pos)

lemma az_HasPermission_answer:
  "authz_reads D T d \<Longrightarrow> az_HasPermission D u res act d = (holds_permission T u res act, None)"
  by (simp add: az_HasPermission_def permission_count_pos)

lemma task_abac_answer:
  assumes "authz_reads D T d"
    and "userAttrs = attr_map (filter (\<lambda>a. ua_UserID a = aq_UserID q \<and> ua_DeletedAt a = None) (tb_user_attributes T))"
  shows "\<exists>reason. evaluateTaskABACPolicy D q userAttrs d = (task_rule T q, reason, None)"
  using assms by (auto simp: evaluateTaskABACPolicy_def task_rule_def task_of_def same_department_def first_row_def
      split: option.splits)

lemma user_abac_answer: "\<exists>reason. evaluateUserABACPolicy q = (user_rule q, reason, None)"
  by (auto simp: evaluateUserABACPolicy_def user_rule_def)

lemma abac_answer:
  assumes "authz_reads D T d"
  shows "\<exists>reason. evaluateABACPolicies D q d =
    (holds_role T (aq_UserID q) ''admin'' \<or>
      (if aq_Resource q = ''task'' then task_rule T q
       else if aq_Resource q \<in> {''user'', ''profile''} then user_rule q else True), reason, None)"
  using task_abac_answer [OF assms refl, of q] user_abac_answer [of q] assms
  by (auto simp: evaluateABACPolicies_def az_HasRole_answer)

lemma IsAuthorized_answer:
  assumes "authz_reads D T d"
  shows "ad_Decision (fst (IsAuthorized D show_err now q d)) = (if authz_policy T q then ''allowed'' else ''denied'') \<and>
    snd (IsAuthorized D show_err now q d) = None"
  using abac_answer [OF assms, of q] assms
  by (auto simp: IsAuthorized_def az_HasPermission_answer authz_policy_def Let_def)

section \<open>A concrete database\<close>

definition mem_authz_db :: "authz_tables authz_db" where
  "mem_authz_db = \<lparr>
     adb_count_role = (\<lambda>u n T. (role_count_query T u n, None)),
     adb_count_permission = (\<lambda>u res act T. (permission_count_query T u res act, None)),
     adb_user_attributes =
       (\<lambda>u T. Inr (filter (\<lambda>a. ua_UserID a = u \<and> ua_DeletedAt a = None) (tb_user_attributes T))),
     adb_first_task = (\<lambda>i T. first_row (find (\<lambda>t. t_ID t = i) (tb_tasks T))),
     adb_first_department =
       (\<lambda>i T. first_row (map_option u_Department (find (\<lambda>u. u_ID u = i \<and> u_DeletedAt u = None) (tb_users T)))),
     adb_first_user_role =
       (\<lambda>u r T. first_row (find (\<lambda>ur. ur_UserID ur = u \<and> ur_RoleID ur = r \<and> ur_DeletedAt ur = None) (tb_user_roles T))),
     adb_create_user_role =
       (\<lambda>row T. if \<exists>x\<in>set (tb_user_roles T). ur_UserID x = ur_UserID row \<and> ur_RoleID x = ur_RoleID row
          then (Some (DbError ''duplicate key''), T)
          else (None, T\<lparr>tb_user_roles := tb_user_roles T @ [row]\<rparr>)),
     adb_delete_user_role =
       (\<lambda>now u r T. (None, T\<lparr>tb_user_roles :=
          map (\<lambda>x. if ur_UserID x = u \<and> ur_RoleID x = r \<and> ur_DeletedAt x = None
                   then x\<lparr>ur_DeletedAt := Some now\<rparr> else x) (tb_user_roles T)\<rparr>)),
     adb_save_user_attribute = (\<lambda>a T. (None, T\<lparr>tb_user_attributes := tb_user_attributes T @ [a]\<rparr>)),
     adb_save_resource_attribute = (\<lambda>a T. (None, T)),
     adb_create_role = (\<lambda>r T. (None, T\<lparr>tb_roles := tb_roles T @ [r]\<rparr>)),
     adb_create_permission = (\<lambda>p T. (None, T\<lparr>tb_permissions := tb_permissions T @ [p]\<rparr>)),
     adb_create_role_permission = (\<lambda>rp T. (None, T\<lparr>tb_role_permissions := tb_role_permissions T @ [rp]\<rparr>)),
     adb_create_audit_log = (\<lambda>a T. (None, T))\<rparr>"

lemma mem_authz_reads [simp]: "authz_reads mem_authz_db T T"
  by (simp add: authz_reads_def mem_authz_db_def)

lemma mem_authz_writes: "user_roles_writes mem_authz_db (\<lambda>T. T)"
  unfolding user_roles_writes_def by (simp add: mem_authz_db_def authz_reads_def)

text \<open>User 5 has the role \<open>user\<close> (id 1), which may read and update tasks; user 6 owns task 9.\<close>

definition ex_permission :: "uuid \<Rightarrow> string \<Rightarrow> string \<Rightarrow> permission" where
  "ex_permission i res act = \<lparr>p_ID = i, p_Name = res, p_Resource = res, p_Action = act, p_Description = '''',
     p_CreatedAt = 0, p_UpdatedAt = 0, p_DeletedAt = None,
     p_CreatedBy = uuid_Nil, p_ModifiedBy = uuid_Nil\<rparr>"

definition ex_grant :: "uuid \<Rightarrow> permission \<Rightarrow> role_permission" where
  "ex_grant r p = \<lparr>rp_RoleID = r, rp_PermissionID = p_ID p, rp_AssignedBy = None, rp_AssignedAt = None,
     rp_CreatedAt = 0, rp_UpdatedAt = 0, rp_DeletedAt = None, rp_Permission = p\<rparr>"

definition ex_user_role :: "uuid \<Rightarrow> uuid \<Rightarrow> instant option \<Rightarrow> user_role" where
  "ex_user_role u r ex = \<lparr>ur_UserID = u, ur_RoleID = r, ur_AssignedBy = None, ur_AssignedAt = None,
     ur_ExpiresAt = ex, ur_CreatedAt = 0, ur_UpdatedAt = 0, ur_DeletedAt = None\<rparr>"

definition ex_role :: "uuid \<Rightarrow> string \<Rightarrow> role" where
  "ex_role i n = \<lparr>r_ID = i, r_Name = n, r_Description = '''', r_CreatedAt = 0, r_UpdatedAt = 0, r_Permissions = []\<rparr>"

definition ex_tables :: authz_tables where
  "ex_tables = \<lparr>tb_user_roles = [ex_user_role 5 1 None], tb_roles = [ex_role 1 ''user'', ex_role 2 ''admin''],
     tb_role_permissions = [ex_grant 1 (ex_permission 22 ''task'' ''read''), ex_grant 1 (ex_permission 23 ''task'' ''update'')],
     tb_permissions = [ex_permission 22 ''task'' ''read'', ex_permission 23 ''task'' ''update''],
     tb_user_attributes = [],
     tb_tasks = [\<lparr>t_ID = 9, t_UserID = 6, t_Title = ''t'', t_Description = '''', t_Status = ''pending'',
        t_CreatedAt = 0, t_UpdatedAt = 0\<rparr>],
     tb_users = []\<rparr>"

definition ex_request :: "uuid \<Rightarrow> string \<Rightarrow> string \<Rightarrow> uuid option \<Rightarrow> unit authz_request" where
  "ex_request u res act rid = \<lparr>aq_UserID = u, aq_Resource = res, aq_Action = act, aq_ResourceID = rid,
     aq_Context = None, aq_IPAddress = '''', aq_UserAgent = '''', aq_RequestID = ''''\<rparr>"

lemmas ex_defs = ex_permission_def ex_grant_def ex_user_role_def ex_role_def ex_tables_def ex_request_def

section \<open>What the decisions mean\<close>

text \<open>
  C1: When the database answers, \<open>IsAuthorized\<close> allows exactly what the policy allows: some
  role of the user grants the permission, and the user is an administrator or the attribute rule of
  the resource holds. It then reports no error.
\<close>

theorem is_authorized_iff_policy:
  assumes "authz_reads D T d"
  shows "ad_Decision (fst (IsAuthorized D show_err now q d)) = (if authz_policy T q then ''allowed'' else ''denied'') \<and>
    snd (IsAuthorized D show_err now q d) = None"
  using assms by (rule IsAuthorized_answer)

theorem is_authorized_iff_policy_witness:
  "ad_Decision (fst (IsAuthorized mem_authz_db (\<lambda>_. ''e'') 0 (ex_request 5 ''task'' ''update'' (Some 9)) ex_tables)) = ''denied''"
proof -
  have "\<not> authz_policy ex_tables (ex_request 5 ''task'' ''update'' (Some 9))"
    by (simp add: authz_policy_def holds_role_def task_rule_def task_of_def ex_defs)
  then show ?thesis
    using is_authorized_iff_policy [of mem_authz_db ex_tables ex_tables "\<lambda>_. ''e''" 0
        "ex_request 5 ''task'' ''update'' (Some 9)"] by simp
qed

text \<open>
  C2: The service fails closed. Whatever the database does, the decision is \<open>allowed\<close> or
  \<open>denied\<close>; it is \<open>denied\<close> whenever an error is returned, and \<open>allowed\<close> only after the permission
  query counted at least one row without error.
\<close>

theorem is_authorized_fails_closed:
  "case IsAuthorized D show_err now q d of (dec, err) \<Rightarrow>
     ad_Decision dec = ''denied'' \<or>
     ad_Decision dec = ''allowed'' \<and> err = None \<and>
       fst (adb_count_permission D (aq_UserID q) (aq_Resource q) (aq_Action q) d) > 0 \<and>
       snd (adb_count_permission D (aq_UserID q) (aq_Resource q) (aq_Action q) d) = None \<and>
       (\<exists>reason. evaluateABACPolicies D q d = (True, reason, None))"
  by (auto simp: IsAuthorized_def az_HasPermission_def Let_def split: prod.splits option.splits if_splits)

text \<open>
  A user who is not an administrator and does not own a task is never allowed to do more with
  it than read it, whatever permissions the user's roles grant.
\<close>

theorem foreign_task_is_not_modifiable:
  assumes "authz_reads D T d" and "aq_Resource q = ''task''" and "aq_ResourceID q = Some i"
    and "aq_Action q \<notin> {''create'', ''read''}" and "\<not> holds_role T (aq_UserID q) ''admin''"
    and "case task_of T i of Some t \<Rightarrow> t_UserID t \<noteq> aq_UserID q | None \<Rightarrow> True"
  shows "ad_Decision (fst (IsAuthorized D show_err now q d)) = ''denied''"
proof -
  have "\<not> task_rule T q" using assms(3-4,6) by (auto simp: task_rule_def split: option.splits)
  then have "\<not> authz_policy T q" using assms(2,5) by (simp add: authz_policy_def)
  then show ?thesis using IsAuthorized_answer [OF assms(1), of show_err now q] by simp
qed

theorem foreign_task_is_not_modifiable_witness:
  "ad_Decision (fst (IsAuthorized mem_authz_db (\<lambda>_. ''e'') 0 (ex_request 5 ''task'' ''delete'' (Some 9)) ex_tables)) = ''denied''"
  by (rule foreign_task_is_not_modifiable [where T = ex_tables and i = 9])
    (simp_all add: holds_role_def task_of_def ex_defs)

section \<open>Role assignments\<close>

text \<open>The tables with every assignment's expiry time removed.\<close>

definition without_expiry :: "authz_tables \<Rightarrow> authz_tables" where
  "without_expiry T = T\<lparr>tb_user_roles := map (\<lambda>ur. ur\<lparr>ur_ExpiresAt := None\<rparr>) (tb_user_roles T)\<rparr>"

lemma policy_without_expiry: "authz_policy (without_expiry T) q = authz_policy T q"
  by (simp add: authz_policy_def holds_permission_def holds_role_def task_rule_def task_of_def
      same_department_def without_expiry_def)

text \<open>
  Expired roles keep their power. The decision does not depend on when role assignments expire:
  it is the one for the same tables with every \<open>expires_at\<close> removed, at any time.
\<close>

theorem expired_roles_still_authorize:
  assumes "authz_reads D T d" and "authz_reads D (without_expiry T) d'"
  shows "ad_Decision (fst (IsAuthorized D show_err now q d)) = ad_Decision (fst (IsAuthorized D show_err now q d'))"
  using IsAuthorized_answer [OF assms(1), of show_err now q] IsAuthorized_answer [OF assms(2), of show_err now q]
  by (simp add: policy_without_expiry)

theorem expired_roles_still_authorize_witness:
  "ur_IsExpired 100 (ex_user_role 5 1 (Some 50)) \<and>
   ad_Decision (fst (IsAuthorized mem_authz_db (\<lambda>_. ''e'') 100 (ex_request 5 ''task'' ''read'' None)
     (ex_tables\<lparr>tb_user_roles := [ex_user_role 5 1 (Some 50)]\<rparr>))) = ''allowed''"
proof -
  let ?T = "ex_tables\<lparr>tb_user_roles := [ex_user_role 5 1 (Some 50)]\<rparr>"
  let ?q = "ex_request 5 ''task'' ''read'' None"
  have "authz_policy (without_expiry ?T) ?q"
    by (simp add: authz_policy_def holds_permission_def task_rule_def without_expiry_def ex_defs)
  then have "ad_Decision (fst (IsAuthorized mem_authz_db (\<lambda>_. ''e'') 100 ?q (without_expiry ?T))) = ''allowed''"
    by (simp add: IsAuthorized_answer [OF mem_authz_reads])
  then have "ad_Decision (fst (IsAuthorized mem_authz_db (\<lambda>_. ''e'') 100 ?q ?T)) = ''allowed''"
    using expired_roles_still_authorize [of mem_authz_db ?T ?T "without_expiry ?T" "\<lambda>_. ''e''" 100 ?q] by simp
  then show ?thesis by (simp add: ur_IsExpired_def expired_def ex_user_role_def)
qed

lemma writes_reads: "user_roles_writes D T \<Longrightarrow> authz_reads D (T d) d"
  by (simp add: user_roles_writes_def)

lemma revoke_tables:
  assumes "user_roles_writes D T"
  shows "T (snd (RevokeRole D now u r d)) = (T d)\<lparr>tb_user_roles :=
      map (\<lambda>x. if ur_UserID x = u \<and> ur_RoleID x = r \<and> ur_DeletedAt x = None
               then x\<lparr>ur_DeletedAt := Some now\<rparr> else x) (tb_user_roles (T d))\<rparr>"
    and "fst (RevokeRole D now u r d) = None"
  using assms by (auto simp: user_roles_writes_def RevokeRole_def split: prod.splits)

lemma create_row:
  assumes "user_roles_writes D T" and "adb_create_user_role D row d = (e, d')"
  shows "if \<exists>x\<in>set (tb_user_roles (T d)). ur_UserID x = ur_UserID row \<and> ur_RoleID x = ur_RoleID row
    then e \<noteq> None \<and> T d' = T d
    else e = None \<and> T d' = (T d)\<lparr>tb_user_roles := tb_user_roles (T d) @ [row]\<rparr>"
  using assms(1) [unfolded user_roles_writes_def, THEN conjunct2, THEN conjunct1, THEN spec [of _ row], THEN spec [of _ d]] assms(2)
  by simp

text \<open>The row exists, deleted or not: no assignment succeeds.\<close>

lemma assign_existing:
  assumes w: "user_roles_writes D T"
    and x: "x \<in> set (tb_user_roles (T d))" "ur_UserID x = u" "ur_RoleID x = r"
  shows "fst (AssignRole D now u r a d) \<noteq> None \<and> T (snd (AssignRole D now u r a d)) = T d"
proof (cases "adb_first_user_role D u r d")
  case (Inr y)
  then show ?thesis by (simp add: AssignRole_def)
next
  case (Inl err)
  let ?row = "\<lparr>ur_UserID = u, ur_RoleID = r, ur_AssignedBy = Some a, ur_AssignedAt = Some now,
    ur_ExpiresAt = None, ur_CreatedAt = now, ur_UpdatedAt = now, ur_DeletedAt = None\<rparr>"
  obtain e d' where c: "adb_create_user_role D ?row d = (e, d')" by fastforce
  have "\<exists>x\<in>set (tb_user_roles (T d)). ur_UserID x = ur_UserID ?row \<and> ur_RoleID x = ur_RoleID ?row"
    using x by auto
  then have t: "e \<noteq> None \<and> T d' = T d" using create_row [OF w c] by (simp only: if_True simp_thms)
  show ?thesis using Inl c t by (simp add: AssignRole_def)
qed

lemma assign_new:
  assumes w: "user_roles_writes D T"
    and n: "\<not> (\<exists>x\<in>set (tb_user_roles (T d)). ur_UserID x = u \<and> ur_RoleID x = r)"
  shows "fst (AssignRole D now u r a d) = None \<and> (\<exists>row. T (snd (AssignRole D now u r a d)) =
      (T d)\<lparr>tb_user_roles := tb_user_roles (T d) @ [row]\<rparr> \<and>
      ur_UserID row = u \<and> ur_RoleID row = r \<and> ur_DeletedAt row = None)"
proof -
  let ?row = "\<lparr>ur_UserID = u, ur_RoleID = r, ur_AssignedBy = Some a, ur_AssignedAt = Some now,
    ur_ExpiresAt = None, ur_CreatedAt = now, ur_UpdatedAt = now, ur_DeletedAt = None\<rparr>"
  obtain e d' where c: "adb_create_user_role D ?row d = (e, d')" by fastforce
  have "\<not> (\<exists>x\<in>set (tb_user_roles (T d)). ur_UserID x = ur_UserID ?row \<and> ur_RoleID x = ur_RoleID ?row)"
    using n by simp
  then have t: "e = None \<and> T d' = (T d)\<lparr>tb_user_roles := tb_user_roles (T d) @ [?row]\<rparr>"
    using create_row [OF w c] by (simp only: if_False simp_thms)
  have "find (\<lambda>ur. ur_UserID ur = u \<and> ur_RoleID ur = r \<and> ur_DeletedAt ur = None) (tb_user_roles (T d)) = None"
    using n by (auto simp: find_None_iff)
  then have "adb_first_user_role D u r d = Inl ErrRecordNotFound"
    by (simp add: authz_readsD(6) [OF writes_reads [OF w]] first_row_def)
  then have "AssignRole D now u r a d = (None, d')" using c t by (simp add: AssignRole_def)
  then show ?thesis using t by (auto intro!: exI [of _ ?row])
qed

text \<open>
  Assigning a role the user never had succeeds and \<open>HasRole\<close> holds afterwards; revoking it
  succeeds and \<open>HasRole\<close> no longer holds, when role names are unique.
\<close>

theorem assign_then_revoke:
  assumes "user_roles_writes D T" and "r \<in> set (tb_roles (T d))"
    and "\<And>r'. r' \<in> set (tb_roles (T d)) \<Longrightarrow> r_Name r' = r_Name r \<Longrightarrow> r_ID r' = r_ID r"
    and "\<not> (\<exists>x\<in>set (tb_user_roles (T d)). ur_UserID x = u \<and> ur_RoleID x = r_ID r)"
  shows "case AssignRole D now u (r_ID r) a d of (e, d') \<Rightarrow>
      e = None \<and> az_HasRole D u (r_Name r) d' = (True, None) \<and>
      (case RevokeRole D now' u (r_ID r) d' of (e', d'') \<Rightarrow>
         e' = None \<and> az_HasRole D u (r_Name r) d'' = (False, None))"
proof -
  obtain e d' where a: "AssignRole D now u (r_ID r) a d = (e, d')" by fastforce
  obtain e' d'' where v: "RevokeRole D now' u (r_ID r) d' = (e', d'')" by fastforce
  obtain row where e: "e = None" "T d' = (T d)\<lparr>tb_user_roles := tb_user_roles (T d) @ [row]\<rparr>"
      "ur_UserID row = u" "ur_RoleID row = r_ID r" "ur_DeletedAt row = None"
    using assign_new [OF assms(1,4), of now a] a by auto
  have 1: "holds_role (T d') u (r_Name r)" unfolding holds_role_def e(2) using assms(2) e(3-5) by auto
  have t: "T d'' = (T d')\<lparr>tb_user_roles := map (\<lambda>x. if ur_UserID x = u \<and> ur_RoleID x = r_ID r \<and> ur_DeletedAt x = None
      then x\<lparr>ur_DeletedAt := Some now'\<rparr> else x) (tb_user_roles (T d'))\<rparr>" "e' = None"
    using revoke_tables [OF assms(1), of now' u "r_ID r" d'] v by auto
  have img: "set (tb_user_roles (T d'')) = (\<lambda>x. if ur_UserID x = u \<and> ur_RoleID x = r_ID r \<and> ur_DeletedAt x = None
      then x\<lparr>ur_DeletedAt := Some now'\<rparr> else x) ` set (tb_user_roles (T d'))"
    by (subst t(1)) simp
  have 2: "\<not> holds_role (T d'') u (r_Name r)"
  proof
    assume "holds_role (T d'') u (r_Name r)"
    then obtain x r' where x: "x \<in> set (tb_user_roles (T d''))" "r' \<in> set (tb_roles (T d''))" "ur_UserID x = u"
        "ur_RoleID x = r_ID r'" "r_Name r' = r_Name r" "ur_DeletedAt x = None"
      by (auto simp: holds_role_def)
    have "r' \<in> set (tb_roles (T d))" using x(2) unfolding t(1) e(2) by simp
    then have r: "r_ID r' = r_ID r" using assms(3) x(5) by blast
    from x(1) obtain y where "x = (if ur_UserID y = u \<and> ur_RoleID y = r_ID r \<and> ur_DeletedAt y = None
        then y\<lparr>ur_DeletedAt := Some now'\<rparr> else y)"
      unfolding img by blast
    then show False using x(3,4,6) r by (simp split: if_splits)
  qed
  show ?thesis using a v e(1) t(2) 1 2
    by (simp add: az_HasRole_answer [OF writes_reads [OF assms(1)]])
qed

theorem assign_then_revoke_witness:
  "case AssignRole mem_authz_db 1 5 2 7 ex_tables of (e, d') \<Rightarrow>
     e = None \<and> az_HasRole mem_authz_db 5 ''admin'' d' = (True, None)"
proof -
  let ?r = "ex_role 2 ''admin''"
  have r: "r_ID ?r = 2" "r_Name ?r = ''admin''" by (simp_all add: ex_role_def)
  have "case AssignRole mem_authz_db 1 5 (r_ID ?r) 7 ex_tables of (e, d') \<Rightarrow>
      e = None \<and> az_HasRole mem_authz_db 5 (r_Name ?r) d' = (True, None) \<and>
      (case RevokeRole mem_authz_db 2 5 (r_ID ?r) d' of (e', d'') \<Rightarrow>
         e' = None \<and> az_HasRole mem_authz_db 5 (r_Name ?r) d'' = (False, None))"
    by (rule assign_then_revoke [OF mem_authz_writes]) (auto simp: ex_defs)
  then show ?thesis unfolding r by (auto split: prod.splits)
qed

text \<open>
  A revoked role cannot be given back. Revoking only marks the assignment as deleted, the mark is
  invisible to the check for an existing assignment but not to the primary key, so every later
  \<open>AssignRole\<close> of the role to the user fails and changes nothing.
\<close>

theorem revoked_role_cannot_be_reassigned:
  assumes "user_roles_writes D T"
    and "\<exists>x\<in>set (tb_user_roles (T d)). ur_UserID x = u \<and> ur_RoleID x = r"
  shows "case RevokeRole D now u r d of (_, d') \<Rightarrow>
      case AssignRole D now' u r a d' of (e, d'') \<Rightarrow> e \<noteq> None \<and> T d'' = T d'"
proof -
  obtain e d' where v: "RevokeRole D now u r d = (e, d')" by fastforce
  from assms(2) obtain x where x: "x \<in> set (tb_user_roles (T d))" "ur_UserID x = u" "ur_RoleID x = r" by auto
  let ?f = "\<lambda>x. if ur_UserID x = u \<and> ur_RoleID x = r \<and> ur_DeletedAt x = None
    then x\<lparr>ur_DeletedAt := Some now\<rparr> else x"
  have "T d' = (T d)\<lparr>tb_user_roles := map ?f (tb_user_roles (T d))\<rparr>"
    using revoke_tables(1) [OF assms(1), of now u r d] v by simp
  then have "?f x \<in> set (tb_user_roles (T d'))" using x(1) by simp
  moreover have "ur_UserID (?f x) = u" "ur_RoleID (?f x) = r" using x(2,3) by simp_all
  ultimately show ?thesis using assign_existing [OF assms(1), of "?f x" d' u r now' a] v by (auto split: prod.splits)
qed

theorem revoked_role_cannot_be_reassigned_witness:
  "case RevokeRole mem_authz_db 1 5 1 ex_tables of (_, d') \<Rightarrow>
     fst (AssignRole mem_authz_db 2 5 1 7 d') \<noteq> None"
proof -
  have "\<exists>x\<in>set (tb_user_roles ex_tables). ur_UserID x = 5 \<and> ur_RoleID x = 1" by (simp add: ex_defs)
  from revoked_role_cannot_be_reassigned [OF mem_authz_writes this, where now = 1 and now' = 2 and a = 7] show ?thesis
    by (auto split: prod.splits)
qed

section \<open>The permissions the migrations insert\<close>

text \<open>\<^verbatim>\<open>000010_populate_rbac_abac_data.up.sql\<close>: resource and action of every row of \<open>permissions\<close>.\<close>

definition seeded_permissions :: "(string \<times> string) list" where
  "seeded_permissions =
    [(''profile'', ''read''), (''profile'', ''update''), (''profile'', ''read''), (''profile'', ''update''),
     (''profile'', ''delete''),
     (''user'', ''read''), (''user'', ''create''), (''user'', ''update''), (''user'', ''delete''),
     (''user'', ''assign_role''), (''user'', ''revoke_role''),
     (''task'', ''create''), (''task'', ''read''), (''task'', ''update''), (''task'', ''delete''),
     (''task'', ''read''), (''task'', ''update''), (''task'', ''delete''), (''task'', ''assign''), (''task'', ''read''),
     (''system'', ''admin''), (''audit'', ''read''), (''role'', ''manage'')]"

text \<open>
  With the permissions the migrations insert nobody may list users, not even an administrator:
  the request of \<open>GetUsers\<close> is for action \<open>list\<close> on resource \<open>users\<close>, and no row grants it.
\<close>

theorem user_listing_is_denied_to_everyone:
  assumes "authz_reads D T d"
    and "set (map (\<lambda>p. (p_Resource p, p_Action p)) (tb_permissions T)) \<subseteq> set seeded_permissions"
    and "aq_Resource q = ''users''" and "aq_Action q = ''list''"
  shows "ad_Decision (fst (IsAuthorized D show_err now q d)) = ''denied''"
proof -
  have "\<not> holds_permission T (aq_UserID q) ''users'' ''list''"
  proof
    assume "holds_permission T (aq_UserID q) ''users'' ''list''"
    then have "(''users'', ''list'') \<in> set (map (\<lambda>p. (p_Resource p, p_Action p)) (tb_permissions T))"
      by (force simp: holds_permission_def)
    then have "(''users'', ''list'') \<in> set seeded_permissions" using assms(2) by blast
    then show False by (simp add: seeded_permissions_def)
  qed
  then have "\<not> authz_policy T q" using assms(3,4) by (simp add: authz_policy_def)
  then show ?thesis using IsAuthorized_answer [OF assms(1), of show_err now q] by simp
qed

theorem user_listing_is_denied_to_everyone_witness:
  "ad_Decision (fst (IsAuthorized mem_authz_db (\<lambda>_. ''e'') 0 (ex_request 5 ''users'' ''list'' None)
     (ex_tables\<lparr>tb_user_roles := [ex_user_role 5 2 None]\<rparr>))) = ''denied''"
  by (rule user_listing_is_denied_to_everyone [where T = "ex_tables\<lparr>tb_user_roles := [ex_user_role 5 2 None]\<rparr>"])
    (simp_all add: seeded_permissions_def ex_defs)

end
