(* ===== verification/AuthService.thy ===== *)
theory AuthService
  imports Authorization "HOL-Library.Countable"
begin

text \<open>
  Login, access and refresh tokens (\<^verbatim>\<open>backend/internal/services/auth.go\<close>). Parameters: the JWT library
  (\<open>jwt_lib\<close>), the UUID library (\<open>uuid_lib\<close>), the password hash check and the database (\<open>auth_db\<close>). The
  random UUIDs of \<open>uuid.NewV4\<close> and the clock are arguments.
\<close>

section \<open>Libraries\<close>

text \<open>
  The values a JWT claim can have after JSON decoding. A number is a \<open>float64\<close>: \<open>CNum\<close> one that is an
  integer, \<open>CFrac\<close> one that is not.
\<close>

datatype claim =
    CStr string | CNum int | CFrac rat | CBool bool | CArr "claim list" | CObj "(string \<times> claim) list" | CNull

type_synonym claims = "(string \<times> claim) list"

record jwt_token =
  jt_Valid :: bool
  jt_MapClaims :: "claims option"

datatype jwt_error = ErrTokenMalformed | ErrInvalidKey | JwtError string

text \<open>
  \<open>jwt_parse now keyfunc s\<close> is \<open>jwt.Parse(s, keyfunc)\<close> at time \<open>now\<close>; the key function gets whether the
  token's method is HMAC and returns the key or an error. \<open>jwt_sign key claims\<close> is
  \<open>NewWithClaims(HS256, claims).SignedString(key)\<close>.
\<close>

record jwt_lib =
  jwt_parse :: "instant \<Rightarrow> (bool \<Rightarrow> string option) \<Rightarrow> string \<Rightarrow> jwt_error + jwt_token"
  jwt_sign :: "string \<Rightarrow> claims \<Rightarrow> string option"

record uuid_lib =
  uuid_String :: "uuid \<Rightarrow> string"
  uuid_FromString :: "string \<Rightarrow> uuid option"
  uuid_FromStringOrNil :: "string \<Rightarrow> uuid"

record 'd auth_db =
  tdb_login_user :: "string \<Rightarrow> 'd \<Rightarrow> gorm_error + user"
  tdb_role_name :: "uuid \<Rightarrow> 'd \<Rightarrow> gorm_error + string"
  tdb_permissions :: "uuid \<Rightarrow> 'd \<Rightarrow> gorm_error + string list"
  tdb_first_token :: "uuid \<Rightarrow> uuid \<Rightarrow> instant \<Rightarrow> 'd \<Rightarrow> gorm_error + token"
  tdb_create_token :: "token \<Rightarrow> 'd \<Rightarrow> gorm_error option \<times> 'd"
  tdb_delete_token :: "token \<Rightarrow> 'd \<Rightarrow> gorm_error option \<times> 'd"
  tdb_delete_jti :: "uuid \<Rightarrow> 'd \<Rightarrow> gorm_error option \<times> 'd"

record 'd auth_env =
  ae_jwt :: jwt_lib
  ae_uuid :: uuid_lib
  ae_db :: "'d auth_db"
  ae_compare :: "string \<Rightarrow> string \<Rightarrow> bool"
  ae_JWT_SECRET :: string

text \<open>The errors, one per message of the source.\<close>

datatype auth_error =
    InvalidRefreshToken jwt_error | InvalidRefreshClaims | InvalidTokenType | MissingJti | InvalidJti
  | MissingUserId | InvalidUserId | RefreshTokenNotFound | DatabaseError gorm_error
  | SignAccessFailed | GenerateJtiFailed | SignRefreshFailed | CreateRecordFailed gorm_error
  | DeleteOldFailed gorm_error | GormError gorm_error

section \<open>Secret and claims\<close>

definition jwt_secret :: "'d auth_env \<Rightarrow> string" where
  "jwt_secret A = (if ae_JWT_SECRET A = '''' then ''default_secret_change_in_production'' else ae_JWT_SECRET A)"

text \<open>The key function of this service and of \<open>AuthzMiddleware\<close>: only HMAC methods.\<close>

definition hmac_key :: "string \<Rightarrow> bool \<Rightarrow> string option" where
  "hmac_key secret is_hmac = (if is_hmac then Some secret else None)"

definition access_claims :: "uuid_lib \<Rightarrow> instant \<Rightarrow> uuid \<Rightarrow> string \<Rightarrow> string list \<Rightarrow> claims" where
  "access_claims U now userID roleName permissions =
     [(''user_id'', CStr (uuid_String U userID)), (''role'', CStr roleName),
      (''permissions'', CArr (map CStr permissions)), (''iat'', CNum (unix now)),
      (''exp'', CNum (unix (now + hour))), (''iss'', CStr ''taskify-backend''), (''aud'', CStr ''taskify-users'')]"

definition refresh_claims :: "uuid_lib \<Rightarrow> instant \<Rightarrow> uuid \<Rightarrow> uuid \<Rightarrow> claims" where
  "refresh_claims U now userID jti =
     [(''user_id'', CStr (uuid_String U userID)), (''type'', CStr ''refresh''),
      (''jti'', CStr (uuid_String U jti)), (''iat'', CNum (unix now)),
      (''exp'', CNum (unix (now + hour))), (''iss'', CStr ''taskify-backend''), (''aud'', CStr ''taskify-users'')]"

definition claim_string :: "claims \<Rightarrow> string \<Rightarrow> string option" where
  "claim_string c k = (case map_of c k of Some (CStr s) \<Rightarrow> Some s | _ \<Rightarrow> None)"

section \<open>Operations\<close>

definition LoginUser :: "'d auth_env \<Rightarrow> string \<Rightarrow> string \<Rightarrow> 'd \<Rightarrow> gorm_error + user" where
  "LoginUser A email password d =
     (case tdb_login_user (ae_db A) email d of
        Inl err \<Rightarrow> Inl err
      | Inr user \<Rightarrow> if \<not> ae_compare A (u_Password user) password then Inl ErrInvalidData else Inr user)"

definition GetUserPermissions :: "'d auth_env \<Rightarrow> uuid \<Rightarrow> 'd \<Rightarrow> gorm_error + string list" where
  "GetUserPermissions A userID d = tdb_permissions (ae_db A) userID d"

text \<open>\<open>jti\<close> is the result of the fallible \<open>uuid.NewV4()\<close>, \<open>new_id\<close> that of \<open>uuid.Must(uuid.NewV4())\<close>.\<close>

definition GenerateToken ::
  "'d auth_env \<Rightarrow> instant \<Rightarrow> uuid option \<Rightarrow> uuid \<Rightarrow> uuid \<Rightarrow> 'd \<Rightarrow> (auth_error + string \<times> string) \<times> 'd" where
  "GenerateToken A now jti_opt new_id userID d =
     (let secret = jwt_secret A;
          roleName = (case tdb_role_name (ae_db A) userID d of
             Inl _ \<Rightarrow> ''user'' | Inr r \<Rightarrow> if r = '''' then ''user'' else r);
          permissions = (case tdb_permissions (ae_db A) userID d of Inl _ \<Rightarrow> [] | Inr ps \<Rightarrow> ps)
      in case jwt_sign (ae_jwt A) secret (access_claims (ae_uuid A) now userID roleName permissions) of
           None \<Rightarrow> (Inl SignAccessFailed, d)
         | Some accessToken \<Rightarrow>
             (case jti_opt of
                None \<Rightarrow> (Inl GenerateJtiFailed, d)
              | Some jti \<Rightarrow>
                  (case jwt_sign (ae_jwt A) secret (refresh_claims (ae_uuid A) now userID jti) of
                     None \<Rightarrow> (Inl SignRefreshFailed, d)
                   | Some refreshToken \<Rightarrow>
                       (case tdb_create_token (ae_db A)
                          \<lparr>tk_ID = new_id, tk_UserId = userID, tk_JTI = jti,
                           tk_RefreshToken = refreshToken, tk_ExpiresAt = now + hour\<rparr> d of
                          (Some err, d') \<Rightarrow> (Inl (CreateRecordFailed err), d')
                        | (None, d') \<Rightarrow> (Inr (accessToken, refreshToken), d')))))"

text \<open>The checks of \<open>RefreshToken\<close> on the presented string: the identifiers it names.\<close>

definition refresh_identity :: "'d auth_env \<Rightarrow> instant \<Rightarrow> string \<Rightarrow> auth_error + uuid \<times> uuid" where
  "refresh_identity A now refreshToken =
     (case jwt_parse (ae_jwt A) now (hmac_key (jwt_secret A)) refreshToken of
        Inl err \<Rightarrow> Inl (InvalidRefreshToken err)
      | Inr token \<Rightarrow>
          (case jt_MapClaims token of
             None \<Rightarrow> Inl InvalidRefreshClaims
           | Some c \<Rightarrow>
               if \<not> jt_Valid token then Inl InvalidRefreshClaims
               else if claim_string c ''type'' \<noteq> Some ''refresh'' then Inl InvalidTokenType
               else (case claim_string c ''jti'' of
                       None \<Rightarrow> Inl MissingJti
                     | Some jtiStr \<Rightarrow>
                         (case uuid_FromString (ae_uuid A) jtiStr of
                            None \<Rightarrow> Inl InvalidJti
                          | Some jti \<Rightarrow>
                              (case claim_string c ''user_id'' of
                                 None \<Rightarrow> Inl MissingUserId
                               | Some userIDStr \<Rightarrow>
                                   (case uuid_FromString (ae_uuid A) userIDStr of
                                      None \<Rightarrow> Inl InvalidUserId
                                    | Some userID \<Rightarrow> Inr (jti, userID)))))))"

text \<open>Its first database access, and what it does with the token row it found.\<close>

definition refresh_lookup :: "'d auth_env \<Rightarrow> instant \<Rightarrow> uuid \<Rightarrow> uuid \<Rightarrow> 'd \<Rightarrow> auth_error + token" where
  "refresh_lookup A now jti userID d =
     (case tdb_first_token (ae_db A) jti userID now d of
        Inl err \<Rightarrow> Inl (if err = ErrRecordNotFound then RefreshTokenNotFound else DatabaseError err)
      | Inr dbToken \<Rightarrow> Inr dbToken)"

definition refresh_rotate ::
  "'d auth_env \<Rightarrow> instant \<Rightarrow> uuid option \<Rightarrow> uuid \<Rightarrow> uuid \<Rightarrow> token \<Rightarrow> 'd \<Rightarrow>
   (auth_error + string \<times> string \<times> int) \<times> 'd" where
  "refresh_rotate A now jti_opt new_id userID dbToken d =
     (case GenerateToken A now jti_opt new_id userID d of
        (Inl err, d') \<Rightarrow> (Inl err, d')
      | (Inr (accessToken, newRefreshToken), d') \<Rightarrow>
          (case tdb_delete_token (ae_db A) dbToken d' of
             (Some err, d'') \<Rightarrow> (Inl (DeleteOldFailed err), d'')
           | (None, d'') \<Rightarrow> (Inr (accessToken, newRefreshToken, 3600), d'')))"

definition RefreshToken ::
  "'d auth_env \<Rightarrow> instant \<Rightarrow> uuid option \<Rightarrow> uuid \<Rightarrow> string \<Rightarrow> 'd \<Rightarrow>
   (auth_error + string \<times> string \<times> int) \<times> 'd" where
  "RefreshToken A now jti_opt new_id refreshToken d =
     (case refresh_identity A now refreshToken of
        Inl err \<Rightarrow> (Inl err, d)
      | Inr (jti, userID) \<Rightarrow>
          (case refresh_lookup A now jti userID d of
             Inl err \<Rightarrow> (Inl err, d)
           | Inr dbToken \<Rightarrow> refresh_rotate A now jti_opt new_id userID dbToken d))"

definition RevokeToken :: "'d auth_env \<Rightarrow> instant \<Rightarrow> string \<Rightarrow> 'd \<Rightarrow> auth_error option \<times> 'd" where
  "RevokeToken A now refreshToken d =
     (case jwt_parse (ae_jwt A) now (hmac_key (jwt_secret A)) refreshToken of
        Inl err \<Rightarrow> (Some (InvalidRefreshToken err), d)
      | Inr token \<Rightarrow>
          (case jt_MapClaims token of
             None \<Rightarrow> (Some InvalidRefreshClaims, d)
           | Some c \<Rightarrow>
               (case claim_string c ''jti'' of
                  None \<Rightarrow> (Some MissingJti, d)
                | Some jtiStr \<Rightarrow>
                    (case uuid_FromString (ae_uuid A) jtiStr of
                       None \<Rightarrow> (Some InvalidJti, d)
                     | Some jti \<Rightarrow>
                         (case tdb_delete_jti (ae_db A) jti d of
                            (e, d') \<Rightarrow> (map_option GormError e, d'))))))"

section \<open>What the service relies on\<close>

text \<open>
  The JWT library: signing succeeds; a signed (HMAC) token parses with its key to its claims until
  its \<open>exp\<close> claim (seconds); what a string parses to does not depend on the time.
\<close>

definition jwt_lawful :: "jwt_lib \<Rightarrow> bool" where
  "jwt_lawful J \<longleftrightarrow>
     (\<forall>key c. jwt_sign J key c \<noteq> None) \<and>
     (\<forall>key c s e now kf. jwt_sign J key c = Some s \<longrightarrow> map_of c ''exp'' = Some (CNum e) \<longrightarrow> now < e * second \<longrightarrow>
        kf True = Some key \<longrightarrow> jwt_parse J now kf s = Inr \<lparr>jt_Valid = True, jt_MapClaims = Some c\<rparr>) \<and>
     (\<forall>kf s now now' t t'. jwt_parse J now kf s = Inr t \<longrightarrow> jwt_parse J now' kf s = Inr t' \<longrightarrow> t = t')"

lemma jwt_parse_signed:
  assumes "jwt_lawful J" and "jwt_sign J key c = Some s" and "map_of c ''exp'' = Some (CNum e)"
    and "now < e * second" and "kf True = Some key"
  shows "jwt_parse J now kf s = Inr \<lparr>jt_Valid = True, jt_MapClaims = Some c\<rparr>"
  using assms unfolding jwt_lawful_def by blast

lemma hmac_key_True [simp]: "hmac_key key True = Some key"
  by (simp add: hmac_key_def)

definition uuid_lawful :: "uuid_lib \<Rightarrow> bool" where
  "uuid_lawful U \<longleftrightarrow> (\<forall>u. uuid_FromString U (uuid_String U u) = Some u)"

text \<open>
  The tokens table: its rows with the soft-delete mark. \<open>jti\<close> has a unique index over all rows
  (\<^verbatim>\<open>000012_update_tokens_add_jti.up.sql\<close>), queries see the rows without the mark, \<open>Delete\<close> sets it.
\<close>

definition mark_rows :: "(token \<Rightarrow> bool) \<Rightarrow> (token \<times> bool) list \<Rightarrow> (token \<times> bool) list" where
  "mark_rows P rows = map (\<lambda>(t, del). (t, del \<or> P t)) rows"

definition token_table :: "'d auth_db \<Rightarrow> ('d \<Rightarrow> (token \<times> bool) list) \<Rightarrow> bool" where
  "token_table B R \<longleftrightarrow>
     (\<forall>jti u now d. tdb_first_token B jti u now d = first_row (map_option fst
        (find (\<lambda>(t, del). \<not> del \<and> tk_JTI t = jti \<and> tk_UserId t = u \<and> now < tk_ExpiresAt t) (R d)))) \<and>
     (\<forall>t d e d'. tdb_create_token B t d = (e, d') \<longrightarrow>
        (if tk_JTI t \<in> set (map (tk_JTI \<circ> fst) (R d)) then e \<noteq> None \<and> R d' = R d
         else e = None \<and> R d' = R d @ [(t, False)])) \<and>
     (\<forall>t d e d'. tdb_delete_token B t d = (e, d') \<longrightarrow>
        e = None \<and> R d' = mark_rows (\<lambda>x. tk_ID x = tk_ID t) (R d)) \<and>
     (\<forall>jti d e d'. tdb_delete_jti B jti d = (e, d') \<longrightarrow>
        e = None \<and> R d' = mark_rows (\<lambda>x. tk_JTI x = jti) (R d))"

text \<open>Identifiers drawn by \<open>uuid.NewV4\<close> that the table does not contain.\<close>

definition fresh_ids :: "(token \<times> bool) list \<Rightarrow> uuid \<Rightarrow> uuid \<Rightarrow> bool" where
  "fresh_ids rows jti new_id \<longleftrightarrow>
     jti \<notin> set (map (tk_JTI \<circ> fst) rows) \<and> new_id \<notin> set (map (tk_ID \<circ> fst) rows)"

lemma token_tableD:
  assumes "token_table B R"
  shows "tdb_first_token B jti u now d = first_row (map_option fst
        (find (\<lambda>(t, del). \<not> del \<and> tk_JTI t = jti \<and> tk_UserId t = u \<and> now < tk_ExpiresAt t) (R d)))"
    and "tdb_create_token B t d = (e, d') \<Longrightarrow> tk_JTI t \<notin> set (map (tk_JTI \<circ> fst) (R d)) \<Longrightarrow>
      e = None \<and> R d' = R d @ [(t, False)]"
    and "tdb_delete_token B t d = (e, d') \<Longrightarrow> e = None \<and> R d' = mark_rows (\<lambda>x. tk_ID x = tk_ID t) (R d)"
    and "tdb_delete_jti B jti d = (e, d') \<Longrightarrow> e = None \<and> R d' = mark_rows (\<lambda>x. tk_JTI x = jti) (R d)"
  subgoal using assms unfolding token_table_def by simp
  subgoal using assms [unfolded token_table_def, THEN conjunct2, THEN conjunct1, rule_format, of t d e d'] by simp
  subgoal using assms [unfolded token_table_def, THEN conjunct2, THEN conjunct2, THEN conjunct1, rule_format, of t d e d'] by simp
  subgoal using assms [unfolded token_table_def, THEN conjunct2, THEN conjunct2, THEN conjunct2, rule_format, of jti d e d'] by simp
  done

text \<open>A live row for \<open>jti\<close> and \<open>u\<close> that has not expired.\<close>

definition token_live :: "(token \<times> bool) list \<Rightarrow> uuid \<Rightarrow> uuid \<Rightarrow> instant \<Rightarrow> bool" where
  "token_live rows jti u now \<longleftrightarrow>
     (\<exists>t. (t, False) \<in> set rows \<and> tk_JTI t = jti \<and> tk_UserId t = u \<and> now < tk_ExpiresAt t)"

lemma lookup_cases:
  assumes "token_table (ae_db A) R"
  obtains (found) t where "refresh_lookup A now jti u d = Inr t" "(t, False) \<in> set (R d)" "tk_JTI t = jti"
      "tk_UserId t = u" "now < tk_ExpiresAt t" "token_live (R d) jti u now"
  | (absent) "refresh_lookup A now jti u d = Inl RefreshTokenNotFound" "\<not> token_live (R d) jti u now"
proof (cases "find (\<lambda>(t, del). \<not> del \<and> tk_JTI t = jti \<and> tk_UserId t = u \<and> now < tk_ExpiresAt t) (R d)")
  case None
  then have "\<not> token_live (R d) jti u now" by (force simp: find_None_iff token_live_def)
  moreover have "refresh_lookup A now jti u d = Inl RefreshTokenNotFound"
    using None by (simp add: refresh_lookup_def token_tableD(1) [OF assms] first_row_def)
  ultimately show ?thesis by (rule absent [rotated])
next
  case (Some x)
  then have "x \<in> set (R d)" and "case x of (t, del) \<Rightarrow> \<not> del \<and> tk_JTI t = jti \<and> tk_UserId t = u \<and> now < tk_ExpiresAt t"
    by (auto dest: find_SomeD)
  then obtain t where x: "x = (t, False)" and t: "(t, False) \<in> set (R d)" "tk_JTI t = jti" "tk_UserId t = u"
      "now < tk_ExpiresAt t" by auto
  have "refresh_lookup A now jti u d = Inr t"
    using Some x by (simp add: refresh_lookup_def token_tableD(1) [OF assms] first_row_def)
  moreover have "token_live (R d) jti u now" using t unfolding token_live_def by blast
  ultimately show ?thesis using t by (intro found)
qed

lemma lookup_row:
  assumes "token_table (ae_db A) R" and "refresh_lookup A now jti u d = Inr t"
  shows "t \<in> fst ` set (R d)"
  by (rule lookup_cases [OF assms(1), of now jti u d]) (use assms(2) in force)+

lemma lookup_absent:
  assumes "token_table (ae_db A) R" and "\<not> token_live (R d) jti u now"
  shows "refresh_lookup A now jti u d = Inl RefreshTokenNotFound"
  by (rule lookup_cases [OF assms(1), of now jti u d]) (use assms(2) in auto)

text \<open>What a successful \<open>GenerateToken\<close> leaves behind.\<close>

definition new_row :: "instant \<Rightarrow> uuid \<Rightarrow> uuid \<Rightarrow> uuid \<Rightarrow> string \<Rightarrow> token" where
  "new_row now jti new_id userID s =
     \<lparr>tk_ID = new_id, tk_UserId = userID, tk_JTI = jti, tk_RefreshToken = s, tk_ExpiresAt = now + hour\<rparr>"

lemma generate_ok:
  assumes J: "jwt_lawful (ae_jwt A)" and B: "token_table (ae_db A) R"
    and f: "jti \<notin> set (map (tk_JTI \<circ> fst) (R d))"
  obtains acc new d' roleName permissions where "GenerateToken A now (Some jti) new_id u d = (Inr (acc, new), d')"
    "R d' = R d @ [(new_row now jti new_id u new, False)]"
    "jwt_sign (ae_jwt A) (jwt_secret A) (access_claims (ae_uuid A) now u roleName permissions) = Some acc"
    "jwt_sign (ae_jwt A) (jwt_secret A) (refresh_claims (ae_uuid A) now u jti) = Some new"
proof -
  let ?r = "case tdb_role_name (ae_db A) u d of Inl _ \<Rightarrow> ''user'' | Inr r \<Rightarrow> if r = '''' then ''user'' else r"
  let ?p = "case tdb_permissions (ae_db A) u d of Inl _ \<Rightarrow> [] | Inr ps \<Rightarrow> ps"
  obtain acc where a: "jwt_sign (ae_jwt A) (jwt_secret A) (access_claims (ae_uuid A) now u ?r ?p) = Some acc"
    using J unfolding jwt_lawful_def by blast
  obtain new where n: "jwt_sign (ae_jwt A) (jwt_secret A) (refresh_claims (ae_uuid A) now u jti) = Some new"
    using J unfolding jwt_lawful_def by blast
  obtain e d' where c: "tdb_create_token (ae_db A) (new_row now jti new_id u new) d = (e, d')" by fastforce
  have "e = None \<and> R d' = R d @ [(new_row now jti new_id u new, False)]"
    using token_tableD(2) [OF B c] f by (simp add: new_row_def)
  then show ?thesis using a n c by (intro that) (auto simp: GenerateToken_def Let_def new_row_def)
qed

lemma rotate_ok:
  assumes J: "jwt_lawful (ae_jwt A)" and B: "token_table (ae_db A) R"
    and f: "fresh_ids (R d) jti new_id" and t: "t \<in> fst ` set (R d)"
  obtains acc new d' where "refresh_rotate A now (Some jti) new_id u t d = (Inr (acc, new, 3600), d')"
    "R d' = mark_rows (\<lambda>x. tk_ID x = tk_ID t) (R d) @ [(new_row now jti new_id u new, False)]"
    "jwt_sign (ae_jwt A) (jwt_secret A) (refresh_claims (ae_uuid A) now u jti) = Some new"
proof -
  have "jti \<notin> set (map (tk_JTI \<circ> fst) (R d))" using f by (simp add: fresh_ids_def)
  from generate_ok [OF J B this, of now new_id u] obtain acc new d1 roleName permissions where
    g: "GenerateToken A now (Some jti) new_id u d = (Inr (acc, new), d1)"
      "R d1 = R d @ [(new_row now jti new_id u new, False)]"
      "jwt_sign (ae_jwt A) (jwt_secret A) (refresh_claims (ae_uuid A) now u jti) = Some new" by metis
  obtain e d' where x: "tdb_delete_token (ae_db A) t d1 = (e, d')" by fastforce
  have "new_id \<noteq> tk_ID t" using f t by (force simp: fresh_ids_def)
  then have "e = None \<and> R d' = mark_rows (\<lambda>x. tk_ID x = tk_ID t) (R d) @ [(new_row now jti new_id u new, False)]"
    using token_tableD(3) [OF B x] g(2) by (simp add: mark_rows_def new_row_def)
  then show ?thesis using g x by (intro that) (auto simp: refresh_rotate_def)
qed

lemma identity_of_refresh_token:
  assumes "jwt_lawful (ae_jwt A)" and "uuid_lawful (ae_uuid A)"
    and "jwt_sign (ae_jwt A) (jwt_secret A) (refresh_claims (ae_uuid A) now u jti) = Some s"
    and "now' < unix (now + hour) * second"
  shows "refresh_identity A now' s = Inr (jti, u)"
proof -
  have "map_of (refresh_claims (ae_uuid A) now u jti) ''exp'' = Some (CNum (unix (now + hour)))"
    by (simp add: refresh_claims_def)
  then have "jwt_parse (ae_jwt A) now' (hmac_key (jwt_secret A)) s =
      Inr \<lparr>jt_Valid = True, jt_MapClaims = Some (refresh_claims (ae_uuid A) now u jti)\<rparr>"
    using assms(1,3,4) by (intro jwt_parse_signed) simp_all
  then show ?thesis using assms(2)
    by (simp add: refresh_identity_def claim_string_def refresh_claims_def uuid_lawful_def)
qed

lemma unix_le: "unix t * second \<le> t"
  unfolding unix_def second_def by (simp add: minus_mod_eq_mult_div [symmetric] mult.commute)

lemma identity_stable:
  assumes "jwt_lawful (ae_jwt A)" and "refresh_identity A now s = Inr x"
  shows "refresh_identity A now' s = Inr x \<or> (\<exists>e. refresh_identity A now' s = Inl (InvalidRefreshToken e))"
proof (cases "jwt_parse (ae_jwt A) now' (hmac_key (jwt_secret A)) s")
  case (Inl e)
  then show ?thesis by (simp add: refresh_identity_def)
next
  case (Inr t')
  obtain t where t: "jwt_parse (ae_jwt A) now (hmac_key (jwt_secret A)) s = Inr t"
    using assms(2) by (auto simp: refresh_identity_def split: sum.splits)
  then have "t = t'" using assms(1) Inr unfolding jwt_lawful_def by blast
  then show ?thesis using assms(2) t Inr by (simp add: refresh_identity_def)
qed

section \<open>Concrete libraries\<close>

text \<open>A token spells the number of its key and claims; it is accepted with that key until it expires.\<close>

instance claim :: countable by countable_datatype

definition mem_jwt :: jwt_lib where
  "mem_jwt = \<lparr>
     jwt_parse = (\<lambda>now kf s. case from_nat (length s) of (key, c) \<Rightarrow>
        if kf True \<noteq> Some key then Inl (JwtError ''signature'')
        else (case map_of c ''exp'' of
                Some (CNum e) \<Rightarrow> if now < e * second then Inr \<lparr>jt_Valid = True, jt_MapClaims = Some c\<rparr>
                                 else Inl (JwtError ''expired'')
              | _ \<Rightarrow> Inr \<lparr>jt_Valid = True, jt_MapClaims = Some c\<rparr>)),
     jwt_sign = (\<lambda>key c. Some (replicate (to_nat (key, c)) (CHR ''x'')))\<rparr>"

lemma mem_jwt_lawful: "jwt_lawful mem_jwt"
  unfolding jwt_lawful_def
  by (auto simp: mem_jwt_def hmac_key_def split: prod.splits option.splits claim.splits if_splits)

definition mem_uuid :: uuid_lib where
  "mem_uuid = \<lparr>uuid_String = (\<lambda>u. replicate (unat u) (CHR ''x'')),
     uuid_FromString = (\<lambda>s. if s = ''?'' then None else Some (of_nat (length s))),
     uuid_FromStringOrNil = (\<lambda>s. if s = ''?'' then 0 else of_nat (length s))\<rparr>"

lemma mem_uuid_lawful: "uuid_lawful mem_uuid"
proof -
  have "replicate n (CHR ''x'') \<noteq> ''?''" for n by (cases n; cases "n - 1") auto
  then show ?thesis by (simp add: uuid_lawful_def mem_uuid_def)
qed

definition mem_auth_db :: "((token \<times> bool) list) auth_db" where
  "mem_auth_db = \<lparr>
     tdb_login_user = (\<lambda>_ _. Inl ErrRecordNotFound),
     tdb_role_name = (\<lambda>_ _. Inr ''user''),
     tdb_permissions = (\<lambda>_ _. Inr [''task:read'']),
     tdb_first_token = (\<lambda>jti u now d. first_row (map_option fst
        (find (\<lambda>(t, del). \<not> del \<and> tk_JTI t = jti \<and> tk_UserId t = u \<and> now < tk_ExpiresAt t) d))),
     tdb_create_token = (\<lambda>t d. if tk_JTI t \<in> set (map (tk_JTI \<circ> fst) d) then (Some (DbError ''duplicate key''), d)
        else (None, d @ [(t, False)])),
     tdb_delete_token = (\<lambda>t d. (None, mark_rows (\<lambda>x. tk_ID x = tk_ID t) d)),
     tdb_delete_jti = (\<lambda>jti d. (None, mark_rows (\<lambda>x. tk_JTI x = jti) d))\<rparr>"

lemma mem_auth_table: "token_table mem_auth_db (\<lambda>d. d)"
  unfolding token_table_def by (auto simp: mem_auth_db_def)

definition mem_auth_env :: "((token \<times> bool) list) auth_env" where
  "mem_auth_env = \<lparr>ae_jwt = mem_jwt, ae_uuid = mem_uuid, ae_db = mem_auth_db, ae_compare = (=),
     ae_JWT_SECRET = ''s''\<rparr>"

lemma mem_auth_env_laws:
  "jwt_lawful (ae_jwt mem_auth_env)" "uuid_lawful (ae_uuid mem_auth_env)" "token_table (ae_db mem_auth_env) (\<lambda>d. d)"
  by (simp_all add: mem_auth_env_def mem_jwt_lawful mem_uuid_lawful mem_auth_table)

section \<open>Rotation of refresh tokens\<close>

text \<open>User 5 holds the refresh token with \<open>jti\<close> 3, issued at time 0.\<close>

definition ex_rt :: string where
  "ex_rt = (case jwt_sign mem_jwt ''s'' (refresh_claims mem_uuid 0 5 3) of Some s \<Rightarrow> s | None \<Rightarrow> [])"

definition ex_rows :: "(token \<times> bool) list" where
  "ex_rows = [(new_row 0 3 4 5 ex_rt, False)]"

lemma ex_rt_identity: "refresh_identity mem_auth_env 1 ex_rt = Inr (3, 5)"
proof (rule identity_of_refresh_token [OF mem_auth_env_laws(1,2)])
  show "jwt_sign (ae_jwt mem_auth_env) (jwt_secret mem_auth_env) (refresh_claims (ae_uuid mem_auth_env) 0 5 3) = Some ex_rt"
    by (simp add: mem_auth_env_def jwt_secret_def ex_rt_def mem_jwt_def)
qed (simp add: unix_def dur_defs)

lemma ex_rt_live: "token_live ex_rows 3 5 1"
  by (simp add: token_live_def ex_rows_def new_row_def dur_defs)

text \<open>No live row for the identifiers of a string: refreshing with it fails and changes nothing.\<close>

lemma refresh_dead:
  assumes "jwt_lawful (ae_jwt A)" and "token_table (ae_db A) R"
    and "refresh_identity A now s = Inr (jti, u)" and "\<not> token_live (R d) jti u now'"
  shows "\<exists>e. RefreshToken A now' j i s d = (Inl e, d)"
  using identity_stable [OF assms(1,3), of now'] lookup_absent [OF assms(2,4)] by (auto simp: RefreshToken_def)

lemma refresh_live:
  assumes "jwt_lawful (ae_jwt A)" and "token_table (ae_db A) R"
    and "refresh_identity A now s = Inr (jti, u)" and "token_live (R d) jti u now" and "fresh_ids (R d) j i"
  shows "\<exists>x. fst (RefreshToken A now (Some j) i s d) = Inr x"
proof -
  obtain t where t: "refresh_lookup A now jti u d = Inr t" "(t, False) \<in> set (R d)"
    by (rule lookup_cases [OF assms(2), of now jti u d]) (use assms(4) in auto)
  then have "t \<in> fst ` set (R d)" by force
  then obtain acc new d' where "refresh_rotate A now (Some j) i u t d = (Inr (acc, new, 3600), d')"
    by (rule rotate_ok [OF assms(1,2,5)])
  then show ?thesis using t assms(3) by (simp add: RefreshToken_def)
qed

lemma identity_jti:
  assumes "refresh_identity A now s = Inr (jti, u)"
  obtains tok c jtiStr where "jwt_parse (ae_jwt A) now (hmac_key (jwt_secret A)) s = Inr tok"
    "jt_MapClaims tok = Some c" "claim_string c ''jti'' = Some jtiStr" "uuid_FromString (ae_uuid A) jtiStr = Some jti"
  using assms by (auto simp: refresh_identity_def split: sum.splits option.splits if_splits)

lemma mark_rows_dead:
  assumes "\<And>t. (t, False) \<in> set rows \<Longrightarrow> tk_JTI t = jti \<Longrightarrow> P t"
  shows "\<not> token_live (mark_rows P rows) jti u now"
proof
  assume "token_live (mark_rows P rows) jti u now"
  then obtain t where t: "(t, False) \<in> set (mark_rows P rows)" "tk_JTI t = jti" by (auto simp: token_live_def)
  then obtain x where "x \<in> set rows" "(t, False) = (case x of (t, del) \<Rightarrow> (t, del \<or> P t))"
    unfolding mark_rows_def set_map by blast
  moreover obtain y b where "x = (y, b)" by fastforce
  ultimately have "(t, b) \<in> set rows" "\<not> b" "\<not> P t" by auto
  then have "(t, False) \<in> set rows" "\<not> P t" by simp_all
  then show False using assms t(2) by blast
qed

lemma token_live_append:
  "token_live (rows @ [(r, False)]) jti u now \<longleftrightarrow>
   token_live rows jti u now \<or> tk_JTI r = jti \<and> tk_UserId r = u \<and> now < tk_ExpiresAt r"
  by (auto simp: token_live_def)

lemma ex_refresh:
  obtains acc new d' where "RefreshToken mem_auth_env 1 (Some 7) 8 ex_rt ex_rows = (Inr (acc, new, 3600), d')"
    "d' = mark_rows (\<lambda>x. tk_ID x = 4) ex_rows @ [(new_row 1 7 8 5 new, False)]"
proof -
  have f: "fresh_ids ex_rows 7 8" by (simp add: fresh_ids_def ex_rows_def new_row_def)
  have look: "refresh_lookup mem_auth_env 1 3 5 ex_rows = Inr (new_row 0 3 4 5 ex_rt)"
    by (simp add: refresh_lookup_def mem_auth_env_def mem_auth_db_def ex_rows_def new_row_def first_row_def dur_defs)
  obtain acc new d' where "refresh_rotate mem_auth_env 1 (Some 7) 8 5 (new_row 0 3 4 5 ex_rt) ex_rows = (Inr (acc, new, 3600), d')"
    "d' = mark_rows (\<lambda>x. tk_ID x = tk_ID (new_row 0 3 4 5 ex_rt)) ex_rows @ [(new_row 1 7 8 5 new, False)]"
    by (rule rotate_ok [OF mem_auth_env_laws(1,3) f]) (simp add: ex_rows_def)
  then show ?thesis using look ex_rt_identity by (intro that) (simp_all add: RefreshToken_def new_row_def)
qed

text \<open>
  C5: A refresh token works once. After a successful refresh the old token is refused from then on
  without changing the database, and the token it returned refreshes in turn until it expires.
\<close>

theorem refresh_token_is_single_use:
  assumes laws: "jwt_lawful (ae_jwt A)" "uuid_lawful (ae_uuid A)" "token_table (ae_db A) R"
    and rows: "distinct (map (tk_JTI \<circ> fst) (R d))" "fresh_ids (R d) j i"
    and ok: "RefreshToken A now (Some j) i s d = (Inr (acc, new, n), d')"
    and later: "now' < unix (now + hour) * second" "fresh_ids (R d') j' i'"
  shows "(\<exists>e. RefreshToken A now'' j'' i'' s d' = (Inl e, d')) \<and>
    (\<exists>x. fst (RefreshToken A now' (Some j') i' new d') = Inr x)"
proof -
  obtain jti u where id: "refresh_identity A now s = Inr (jti, u)"
    using ok by (auto simp: RefreshToken_def split: sum.splits)
  obtain t where found: "refresh_lookup A now jti u d = Inr t" "(t, False) \<in> set (R d)" "tk_JTI t = jti"
    by (rule lookup_cases [OF laws(3), of now jti u d]) (use ok id in \<open>auto simp: RefreshToken_def\<close>)
  then have t: "t \<in> fst ` set (R d)" by force
  obtain acc2 new2 d2 where r: "refresh_rotate A now (Some j) i u t d = (Inr (acc2, new2, 3600), d2)"
    "R d2 = mark_rows (\<lambda>x. tk_ID x = tk_ID t) (R d) @ [(new_row now j i u new2, False)]"
    "jwt_sign (ae_jwt A) (jwt_secret A) (refresh_claims (ae_uuid A) now u j) = Some new2"
    by (rule rotate_ok [OF laws(1,3) rows(2) t])
  have eq: "d2 = d'" "new2 = new" using r(1) found(1) id ok by (auto simp: RefreshToken_def)
  have "jti \<noteq> j" using rows(2) t found(3) by (auto simp: fresh_ids_def)
  moreover have "x = t" if "(x, False) \<in> set (R d)" "tk_JTI x = jti" for x
  proof -
    have "(x, False) = (t, False)"
      by (rule distinct_map [THEN iffD1, OF rows(1), THEN conjunct2, THEN inj_onD]) (use that found in auto)
    then show ?thesis by simp
  qed
  ultimately have "\<not> token_live (R d') jti u now''" for now''
    using mark_rows_dead [of "R d" jti "\<lambda>x. tk_ID x = tk_ID t" u]
    unfolding r(2) [unfolded eq(1)] token_live_append by (simp add: new_row_def)
  then have 1: "\<exists>e. RefreshToken A now'' j'' i'' s d' = (Inl e, d')"
    by (rule refresh_dead [OF laws(1,3) id])
  have "refresh_identity A now' new = Inr (j, u)"
    by (rule identity_of_refresh_token [OF laws(1,2) r(3) [unfolded eq(2)] later(1)])
  moreover have "now' < now + hour" using later(1) unix_le [of "now + hour"] by simp
  then have "token_live (R d') j u now'" unfolding r(2) [unfolded eq(1)] token_live_append by (simp add: new_row_def)
  ultimately have "\<exists>x. fst (RefreshToken A now' (Some j') i' new d') = Inr x"
    by (rule refresh_live [OF laws(1,3) _ _ later(2)])
  with 1 show ?thesis by blast
qed

theorem refresh_token_is_single_use_witness:
  "\<exists>res d'. RefreshToken mem_auth_env 1 (Some 7) 8 ex_rt ex_rows = (Inr res, d') \<and>
     (\<exists>e. RefreshToken mem_auth_env 2 (Some 10) 11 ex_rt d' = (Inl e, d'))"
proof -
  obtain acc new d' where ok: "RefreshToken mem_auth_env 1 (Some 7) 8 ex_rt ex_rows = (Inr (acc, new, 3600), d')"
    and d': "d' = mark_rows (\<lambda>x. tk_ID x = 4) ex_rows @ [(new_row 1 7 8 5 new, False)]" by (rule ex_refresh)
  have "fresh_ids d' 10 11" by (simp add: d' fresh_ids_def ex_rows_def mark_rows_def new_row_def)
  moreover have "fresh_ids ex_rows 7 8" "distinct (map (tk_JTI \<circ> fst) ex_rows)"
    by (simp_all add: fresh_ids_def ex_rows_def new_row_def)
  moreover have "(2::int) < unix (1 + hour) * second" by (simp add: unix_def dur_defs)
  ultimately have "\<exists>e. RefreshToken mem_auth_env 2 (Some 10) 11 ex_rt d' = (Inl e, d')"
    using refresh_token_is_single_use [OF mem_auth_env_laws _ _ ok, where now' = 2 and j' = 10 and i' = 11
        and now'' = 2 and j'' = "Some 10" and i'' = 11] by blast
  then show ?thesis using ok by blast
qed

text \<open>
  Logging out ends a refresh token. After \<open>RevokeToken\<close> of a string that names an identity every
  refresh with it fails.
\<close>

theorem revoked_refresh_token_is_refused:
  assumes "jwt_lawful (ae_jwt A)" and "token_table (ae_db A) R"
    and "refresh_identity A now s = Inr (jti, u)" and "RevokeToken A now s d = (None, d')"
  shows "\<exists>e. RefreshToken A now' j i s d' = (Inl e, d')"
proof -
  have "RevokeToken A now s d = (case tdb_delete_jti (ae_db A) jti d of (e, d') \<Rightarrow> (map_option GormError e, d'))"
    by (rule identity_jti [OF assms(3)]) (simp add: RevokeToken_def)
  then obtain e where "tdb_delete_jti (ae_db A) jti d = (e, d')"
    using assms(4) by (cases "tdb_delete_jti (ae_db A) jti d") simp
  then have "R d' = mark_rows (\<lambda>x. tk_JTI x = jti) (R d)" using token_tableD(4) [OF assms(2)] by blast
  then have "\<not> token_live (R d') jti u now'" by (simp only: mark_rows_dead not_False_eq_True)
  then show ?thesis by (rule refresh_dead [OF assms(1-3)])
qed

theorem revoked_refresh_token_is_refused_witness:
  "\<exists>e d'. RevokeToken mem_auth_env 1 ex_rt ex_rows = (None, d') \<and>
     RefreshToken mem_auth_env 2 (Some 7) 8 ex_rt d' = (Inl e, d')"
proof -
  have r: "RevokeToken mem_auth_env 1 ex_rt ex_rows = (None, mark_rows (\<lambda>x. tk_JTI x = 3) ex_rows)"
    by (rule identity_jti [OF ex_rt_identity]) (simp add: RevokeToken_def, simp add: mem_auth_env_def mem_auth_db_def)
  from revoked_refresh_token_is_refused [OF mem_auth_env_laws(1,3) ex_rt_identity r, of 2 "Some 7" 8] r
  show ?thesis by blast
qed

text \<open>
  An access token is not a refresh token: presented to \<open>RefreshToken\<close> while it is valid it is
  refused as a token of the wrong type.
\<close>

theorem access_token_cannot_refresh:
  assumes "jwt_lawful (ae_jwt A)" and "GenerateToken A now j i u d = (Inr (acc, new), d')"
    and "now' < unix (now + hour) * second"
  shows "RefreshToken A now' j' i' acc d'' = (Inl InvalidTokenType, d'')"
proof -
  obtain roleName permissions where
    "jwt_sign (ae_jwt A) (jwt_secret A) (access_claims (ae_uuid A) now u roleName permissions) = Some acc"
    using assms(2) by (auto simp: GenerateToken_def Let_def split: option.splits prod.splits)
  moreover have "map_of (access_claims (ae_uuid A) now u roleName permissions) ''exp'' = Some (CNum (unix (now + hour)))"
    by (simp add: access_claims_def)
  ultimately have "jwt_parse (ae_jwt A) now' (hmac_key (jwt_secret A)) acc =
      Inr \<lparr>jt_Valid = True, jt_MapClaims = Some (access_claims (ae_uuid A) now u roleName permissions)\<rparr>"
    using assms(1,3) by (intro jwt_parse_signed) simp_all
  then show ?thesis by (simp add: RefreshToken_def refresh_identity_def claim_string_def access_claims_def)
qed

theorem access_token_cannot_refresh_witness:
  "\<exists>acc. RefreshToken mem_auth_env 2 (Some 9) 10 acc ex_rows = (Inl InvalidTokenType, ex_rows)"
proof -
  have "7 \<notin> set (map (tk_JTI \<circ> fst) ex_rows)" by (simp add: ex_rows_def new_row_def)
  then obtain acc new d' where g: "GenerateToken mem_auth_env 1 (Some 7) 8 5 ex_rows = (Inr (acc, new), d')"
    by (rule generate_ok [OF mem_auth_env_laws(1,3)])
  from access_token_cannot_refresh [OF mem_auth_env_laws(1) g, of 2 "Some 9" 10 ex_rows] show ?thesis
    by (auto simp: unix_def dur_defs)
qed

text \<open>
  Two requests can spend one refresh token. When both look the token up before either rotates it,
  both succeed, and both new refresh tokens are live.
\<close>

theorem concurrent_refresh_mints_two_tokens:
  assumes laws: "jwt_lawful (ae_jwt A)" "token_table (ae_db A) R"
    and look: "refresh_lookup A now1 jti u d = Inr t1" "refresh_lookup A now2 jti u d = Inr t2"
    and ids: "fresh_ids (R d) j1 i1" "fresh_ids (R d) j2 i2" "j1 \<noteq> j2" "i1 \<noteq> i2"
  shows "case refresh_rotate A now1 (Some j1) i1 u t1 d of (res1, d1) \<Rightarrow>
      case refresh_rotate A now2 (Some j2) i2 u t2 d1 of (res2, d2) \<Rightarrow>
        (\<exists>x1 x2. res1 = Inr x1 \<and> res2 = Inr x2) \<and> token_live (R d2) j1 u now1 \<and> token_live (R d2) j2 u now2"
proof -
  have t: "t1 \<in> fst ` set (R d)" "t2 \<in> fst ` set (R d)"
    using lookup_row [OF laws(2)] look by blast+
  obtain a1 n1 d1 where r1: "refresh_rotate A now1 (Some j1) i1 u t1 d = (Inr (a1, n1, 3600), d1)"
      "R d1 = mark_rows (\<lambda>x. tk_ID x = tk_ID t1) (R d) @ [(new_row now1 j1 i1 u n1, False)]"
    by (rule rotate_ok [OF laws ids(1) t(1)])
  have ids1: "map (tk_JTI \<circ> fst) (R d1) = map (tk_JTI \<circ> fst) (R d) @ [j1]"
      "map (tk_ID \<circ> fst) (R d1) = map (tk_ID \<circ> fst) (R d) @ [i1]"
    by (auto simp: r1(2) mark_rows_def new_row_def)
  have f2: "fresh_ids (R d1) j2 i2" using ids(2-4) unfolding fresh_ids_def ids1 by auto
  have "fst ` set (R d) \<subseteq> fst ` set (R d1)" by (force simp: r1(2) mark_rows_def)
  then have t2: "t2 \<in> fst ` set (R d1)" using t(2) by blast
  obtain a2 n2 d2 where r2: "refresh_rotate A now2 (Some j2) i2 u t2 d1 = (Inr (a2, n2, 3600), d2)"
      "R d2 = mark_rows (\<lambda>x. tk_ID x = tk_ID t2) (R d1) @ [(new_row now2 j2 i2 u n2, False)]"
    by (rule rotate_ok [OF laws f2 t2])
  have "i1 \<noteq> tk_ID t2" using ids(1) t(2) by (force simp: fresh_ids_def)
  then have "(new_row now1 j1 i1 u n1, False) \<in> set (R d2)"
    by (simp add: r2(2) r1(2) mark_rows_def new_row_def)
  then have "token_live (R d2) j1 u now1" by (force simp: token_live_def new_row_def dur_defs)
  moreover have "token_live (R d2) j2 u now2"
    unfolding r2(2) token_live_append by (simp add: new_row_def dur_defs)
  ultimately show ?thesis using r1(1) r2(1) by simp
qed

theorem concurrent_refresh_mints_two_tokens_witness:
  "case refresh_rotate mem_auth_env 1 (Some 7) 8 5 (new_row 0 3 4 5 ex_rt) ex_rows of (res1, d1) \<Rightarrow>
     case refresh_rotate mem_auth_env 1 (Some 9) 10 5 (new_row 0 3 4 5 ex_rt) d1 of (res2, d2) \<Rightarrow>
       (\<exists>x1 x2. res1 = Inr x1 \<and> res2 = Inr x2) \<and> token_live d2 7 5 1 \<and> token_live d2 9 5 1"
proof (rule concurrent_refresh_mints_two_tokens [OF mem_auth_env_laws(1,3)])
  show "refresh_lookup mem_auth_env 1 3 5 ex_rows = Inr (new_row 0 3 4 5 ex_rt)"
    by (simp add: refresh_lookup_def mem_auth_env_def mem_auth_db_def ex_rows_def new_row_def first_row_def dur_defs)
qed (simp_all add: fresh_ids_def ex_rows_def new_row_def refresh_lookup_def mem_auth_env_def mem_auth_db_def
    first_row_def dur_defs)

section \<open>Revoked roles\<close>

text \<open>The SQL \<open>GetUserPermissions\<close> and \<open>GenerateToken\<close> send: a join that does not look at \<open>deleted_at\<close>.\<close>

definition token_permissions_query :: "authz_tables \<Rightarrow> uuid \<Rightarrow> string list" where
  "token_permissions_query T userID =
     remdups [p_Resource p @ '':'' @ p_Action p. p \<leftarrow> tb_permissions T, rp \<leftarrow> tb_role_permissions T,
       ur \<leftarrow> tb_user_roles T, p_ID p = rp_PermissionID rp, rp_RoleID rp = ur_RoleID ur, ur_UserID ur = userID]"

text \<open>The database answers it, in some order.\<close>

definition permission_reads :: "'d auth_db \<Rightarrow> ('d \<Rightarrow> authz_tables) \<Rightarrow> bool" where
  "permission_reads B T \<longleftrightarrow>
     (\<forall>u d. \<exists>ps. tdb_permissions B u d = Inr ps \<and> set ps = set (token_permissions_query (T d) u))"

lemma in_token_permissions:
  "s \<in> set (token_permissions_query T u) \<longleftrightarrow>
    (\<exists>p\<in>set (tb_permissions T). \<exists>rp\<in>set (tb_role_permissions T). p_ID p = rp_PermissionID rp \<and>
       (u, rp_RoleID rp) \<in> (\<lambda>x. (ur_UserID x, ur_RoleID x)) ` set (tb_user_roles T) \<and>
       s = p_Resource p @ '':'' @ p_Action p)"
  unfolding token_permissions_query_def by (auto simp: image_iff split: if_splits)

text \<open>Only the users and roles of the assignments matter to it.\<close>

lemma token_permissions_cong:
  assumes "map (\<lambda>x. (ur_UserID x, ur_RoleID x)) urs = map (\<lambda>x. (ur_UserID x, ur_RoleID x)) (tb_user_roles T)"
  shows "set (token_permissions_query (T\<lparr>tb_user_roles := urs\<rparr>) u) = set (token_permissions_query T u)"
proof -
  have "(\<lambda>x. (ur_UserID x, ur_RoleID x)) ` set urs = (\<lambda>x. (ur_UserID x, ur_RoleID x)) ` set (tb_user_roles T)"
    using arg_cong [OF assms, of set] by (simp only: set_map)
  then show ?thesis by (intro set_eqI) (simp add: in_token_permissions)
qed

text \<open>
  Revoking a role does not take its permissions out of the tokens. After \<open>RevokeRole\<close> of a user's
  only role \<open>HasPermission\<close> is false for every permission, but \<open>GetUserPermissions\<close> (and with it
  the next access token) lists the same permissions as before.
\<close>

theorem revoked_permissions_stay_in_tokens:
  assumes "user_roles_writes D T" and "permission_reads (ae_db A) T"
    and "\<And>x. x \<in> set (tb_user_roles (T d)) \<Longrightarrow> ur_UserID x = u \<Longrightarrow> ur_RoleID x = r"
  shows "case RevokeRole D now u r d of (e, d') \<Rightarrow>
      e = None \<and> az_HasPermission D u res act d' = (False, None) \<and>
      (\<exists>ps ps'. GetUserPermissions A u d = Inr ps \<and> GetUserPermissions A u d' = Inr ps' \<and> set ps' = set ps)"
proof -
  obtain e d' where v: "RevokeRole D now u r d = (e, d')" by fastforce
  let ?f = "\<lambda>x. if ur_UserID x = u \<and> ur_RoleID x = r \<and> ur_DeletedAt x = None
    then x\<lparr>ur_DeletedAt := Some now\<rparr> else x"
  have t: "T d' = (T d)\<lparr>tb_user_roles := map ?f (tb_user_roles (T d))\<rparr>" "e = None"
    using revoke_tables [OF assms(1), of now u r d] v by simp_all
  have "\<not> holds_permission (T d') u res act"
  proof
    assume "holds_permission (T d') u res act"
    then obtain x where x: "x \<in> set (tb_user_roles (T d'))" "ur_UserID x = u" "ur_DeletedAt x = None"
      unfolding holds_permission_def by blast
    have "set (tb_user_roles (T d')) = ?f ` set (tb_user_roles (T d))" by (subst t(1)) simp
    then obtain y where y: "y \<in> set (tb_user_roles (T d))" "x = ?f y" using x(1) by blast
    have "ur_UserID y = u" using x(2) unfolding y(2) by (simp split: if_split_asm)
    then have "ur_RoleID y = r" using assms(3) y(1) by blast
    with \<open>ur_UserID y = u\<close> x(3) show False unfolding y(2) by (simp split: if_split_asm)
  qed
  then have "az_HasPermission D u res act d' = (False, None)"
    by (simp add: az_HasPermission_answer [OF writes_reads [OF assms(1)]])
  moreover have "set (token_permissions_query (T d') u) = set (token_permissions_query (T d) u)"
    unfolding t(1) by (rule token_permissions_cong) (simp add: comp_def)
  then have "\<exists>ps ps'. GetUserPermissions A u d = Inr ps \<and> GetUserPermissions A u d' = Inr ps' \<and> set ps' = set ps"
    using assms(2) [unfolded permission_reads_def, THEN spec [of _ u], THEN spec [of _ d]]
      assms(2) [unfolded permission_reads_def, THEN spec [of _ u], THEN spec [of _ d']]
    unfolding GetUserPermissions_def by blast
  ultimately show ?thesis using v t(2) by simp
qed

definition mem_tables_env :: "authz_tables auth_env" where
  "mem_tables_env = \<lparr>ae_jwt = mem_jwt, ae_uuid = mem_uuid,
     ae_db = \<lparr>tdb_login_user = (\<lambda>_ _. Inl ErrRecordNotFound), tdb_role_name = (\<lambda>_ _. Inr ''user''),
       tdb_permissions = (\<lambda>u T. Inr (token_permissions_query T u)),
       tdb_first_token = (\<lambda>_ _ _ _. Inl ErrRecordNotFound), tdb_create_token = (\<lambda>_ T. (None, T)),
       tdb_delete_token = (\<lambda>_ T. (None, T)), tdb_delete_jti = (\<lambda>_ T. (None, T))\<rparr>,
     ae_compare = (=), ae_JWT_SECRET = ''s''\<rparr>"

theorem revoked_permissions_stay_in_tokens_witness:
  "case RevokeRole mem_authz_db 1 5 1 ex_tables of (e, d') \<Rightarrow>
     az_HasPermission mem_authz_db 5 ''task'' ''update'' d' = (False, None) \<and>
     (\<exists>ps'. GetUserPermissions mem_tables_env 5 d' = Inr ps' \<and> ''task:update'' \<in> set ps')"
proof -
  have r: "permission_reads (ae_db mem_tables_env) (\<lambda>T. T)" by (simp add: permission_reads_def mem_tables_env_def)
  have "case RevokeRole mem_authz_db 1 5 1 ex_tables of (e, d') \<Rightarrow>
      e = None \<and> az_HasPermission mem_authz_db 5 ''task'' ''update'' d' = (False, None) \<and>
      (\<exists>ps ps'. GetUserPermissions mem_tables_env 5 ex_tables = Inr ps \<and>
        GetUserPermissions mem_tables_env 5 d' = Inr ps' \<and> set ps' = set ps)"
    by (rule revoked_permissions_stay_in_tokens [OF mem_authz_writes r]) (simp add: ex_defs)
  moreover have "GetUserPermissions mem_tables_env 5 ex_tables = Inr [''task:read'', ''task:update'']"
    by (simp add: GetUserPermissions_def mem_tables_env_def token_permissions_query_def ex_defs)
  moreover obtain e d' where v: "RevokeRole mem_authz_db 1 5 1 ex_tables = (e, d')" by fastforce
  ultimately obtain ps' where "az_HasPermission mem_authz_db 5 ''task'' ''update'' d' = (False, None)"
      "GetUserPermissions mem_tables_env 5 d' = Inr ps'" "set ps' = set [''task:read'', ''task:update'']"
    unfolding v by (simp only: prod.case) (metis sum.inject(2))
  then show ?thesis unfolding v by simp
qed

end
