(* ===== verification/Gin.thy ===== *)
theory Gin
  imports AuthService
begin

text \<open>
  The part of a gin request context the middlewares and handlers use: headers, path and query
  parameters and the key-value store of \<open>c.Set\<close> and \<open>c.Get\<close>, and how a middleware or a handler
  ends. A response is its status and its \<open>error\<close> (or \<open>message\<close>) text; the data of a successful
  response is a value of the handler's own type.
\<close>

datatype ctx_value =
    VNil | VString string | VUUID uuid | VNum int | VFrac rat | VBool bool | VList "ctx_value list"
  | VMap "(string \<times> ctx_value) list" | VDecision string

fun claim_value :: "claim \<Rightarrow> ctx_value" where
  "claim_value (CStr s) = VString s"
| "claim_value (CNum n) = VNum n"
| "claim_value (CFrac r) = VFrac r"
| "claim_value (CBool b) = VBool b"
| "claim_value (CArr cs) = VList (map claim_value cs)"
| "claim_value (CObj kvs) = VMap (map (map_prod id claim_value) kvs)"
| "claim_value CNull = VNil"

text \<open>\<open>claims[k]\<close> as an \<open>interface{}\<close>: nil when the claim is absent.\<close>

definition claims_get :: "claims \<Rightarrow> string \<Rightarrow> ctx_value" where
  "claims_get c k = (case map_of c k of None \<Rightarrow> VNil | Some v \<Rightarrow> claim_value v)"

record gin_ctx =
  gc_method :: string
  gc_path :: string
  gc_header :: "string \<Rightarrow> string"
  gc_param :: "string \<Rightarrow> string"
  gc_query :: "string \<Rightarrow> string option"
  gc_keys :: "string \<rightharpoonup> ctx_value"
  gc_ip :: string
  gc_start_time :: "int option"

definition gin_Set :: "string \<Rightarrow> ctx_value \<Rightarrow> gin_ctx \<Rightarrow> gin_ctx" where
  "gin_Set k v c = c\<lparr>gc_keys := (gc_keys c)(k \<mapsto> v)\<rparr>"

definition gin_Get :: "gin_ctx \<Rightarrow> string \<Rightarrow> ctx_value option" where
  "gin_Get c k = gc_keys c k"

definition DefaultQuery :: "gin_ctx \<Rightarrow> string \<Rightarrow> string \<Rightarrow> string" where
  "DefaultQuery c k dflt = (case gc_query c k of Some v \<Rightarrow> v | None \<Rightarrow> dflt)"

lemma gin_Get_Set [simp]: "gin_Get (gin_Set k v c) k' = (if k' = k then Some v else gin_Get c k')"
  by (simp add: gin_Get_def gin_Set_def)

text \<open>A middleware calls \<open>Next\<close>, aborts with a status and an error text, or panics.\<close>

datatype mw_result = Proceed gin_ctx | Abort nat string | Panic

text \<open>A handler writes a response or panics.\<close>

datatype 'a response = Respond nat 'a | RespondError nat string | HandlerPanic

fun resp_status :: "'a response \<Rightarrow> nat option" where
  "resp_status (Respond s _) = Some s"
| "resp_status (RespondError s _) = Some s"
| "resp_status HandlerPanic = None"

text \<open>A handler behind a middleware.\<close>

definition guarded :: "(gin_ctx \<Rightarrow> mw_result) \<Rightarrow> (gin_ctx \<Rightarrow> 'a response \<times> 's) \<Rightarrow> 's \<Rightarrow> gin_ctx \<Rightarrow> 'a response \<times> 's" where
  "guarded mw h s c =
     (case mw c of Proceed c' \<Rightarrow> h c' | Abort st e \<Rightarrow> (RespondError st e, s) | Panic \<Rightarrow> (HandlerPanic, s))"

text \<open>\<open>RecoveryWithLog\<close> turns a panic into a 500 response (\<^verbatim>\<open>backend/internal/middleware/recovery.go\<close>).\<close>

definition RecoveryWithLog :: "'a response \<Rightarrow> 'a response" where
  "RecoveryWithLog r = (case r of HandlerPanic \<Rightarrow> RespondError 500 ''internal server error'' | _ \<Rightarrow> r)"

lemma RecoveryWithLog_responds: "resp_status (RecoveryWithLog r) \<noteq> None"
  by (cases r) (auto simp: RecoveryWithLog_def)

text \<open>\<open>SecureHeader\<close> (\<^verbatim>\<open>backend/internal/middleware/secure_header.go\<close>): the response headers it sets.\<close>

definition SecureHeader :: "(string \<rightharpoonup> string) \<Rightarrow> (string \<rightharpoonup> string)" where
  "SecureHeader h = h(''Strict-Transport-Security'' \<mapsto> ''max-age=63072000; includeSubDomains'',
     ''X-Content-Type-Options'' \<mapsto> ''nosniff'', ''X-Frame-Options'' \<mapsto> ''DENY'',
     ''X-XSS-Protection'' \<mapsto> ''1; mode=block'', ''Referrer-Policy'' \<mapsto> ''no-referrer'',
     ''Content-Security-Policy'' \<mapsto> [CHR ''d'', CHR ''e'', CHR ''f'', CHR ''a'', CHR ''u'', CHR ''l'', CHR ''t'',
        CHR ''-'', CHR ''s'', CHR ''r'', CHR ''c'', CHR '' '', CHR 39, CHR ''s'', CHR ''e'', CHR ''l'', CHR ''f'', CHR 39])"

end
