(* ===== verification/AuthzMiddleware.thy ===== *)
theory AuthzMiddleware
  imports Gin
begin

text \<open>
  The authentication and authorization middlewares (\<^verbatim>\<open>backend/internal/middleware/authz.go\<close>,
  \<^verbatim>\<open>rbac_abac.go\<close>) and the admin guard of \<^verbatim>\<open>backend/main.go\<close>. Each maps the request context to
  \<open>Proceed\<close>, \<open>Abort\<close> or \<open>Panic\<close>. \<open>now\<close> is the clock; the authorization service's database is read in
  the state \<open>d\<close>.
\<close>

section \<open>AuthzMiddleware\<close>

record authz_config =
  ac_Role :: string
  ac_Permissions :: "string list"

text \<open>The permissions a token lists: the strings of its \<open>permissions\<close> claim, if that is a list.\<close>

definition token_perms :: "claims \<Rightarrow> string list" where
  "token_perms c = (case map_of c ''permissions'' of
     Some (CArr ps) \<Rightarrow> concat (map (\<lambda>p. case p of CStr s \<Rightarrow> [s] | _ \<Rightarrow> []) ps) | _ \<Rightarrow> [])"

primrec missing_permission :: "string list \<Rightarrow> string list \<Rightarrow> string option" where
  "missing_permission userPerms [] = None"
| "missing_permission userPerms (r # rs) =
     (if r \<notin> set userPerms then Some r else missing_permission userPerms rs)"

text \<open>\<open>int64(exp)\<close> drops the fraction of a number.\<close>

definition token_expired :: "instant \<Rightarrow> claims \<Rightarrow> bool" where
  "token_expired now c = (case map_of c ''exp'' of
     Some (CNum e) \<Rightarrow> e * second < now
   | Some (CFrac r) \<Rightarrow> (if r < 0 then \<lceil>r\<rceil> else \<lfloor>r\<rfloor>) * second < now
   | _ \<Rightarrow> False)"

definition claim_string_or_empty :: "claims \<Rightarrow> string \<Rightarrow> string" where
  "claim_string_or_empty c k = (case claim_string c k of Some s \<Rightarrow> s | None \<Rightarrow> '''')"

definition AuthzMiddleware :: "'d auth_env \<Rightarrow> instant \<Rightarrow> authz_config \<Rightarrow> gin_ctx \<Rightarrow> mw_result" where
  "AuthzMiddleware A now config c =
     (let authHeader = gc_header c ''Authorization''
      in if authHeader = '''' then Abort 401 ''missing_token''
      else if \<not> has_prefix authHeader ''Bearer '' then Abort 401 ''invalid_token_format''
      else let tokenStr = trim_prefix authHeader ''Bearer ''
      in case jwt_parse (ae_jwt A) now (hmac_key (jwt_secret A)) tokenStr of
           Inl _ \<Rightarrow> Abort 401 ''invalid_token''
         | Inr token \<Rightarrow>
             if \<not> jt_Valid token then Abort 401 ''expired_token''
             else (case jt_MapClaims token of
                     None \<Rightarrow> Abort 401 ''invalid_claims''
                   | Some claims \<Rightarrow>
                       if token_expired now claims then Abort 401 ''expired_token''
                       else if claim_string claims ''iss'' \<noteq> None \<and>
                               claim_string claims ''iss'' \<noteq> Some ''taskify-backend''
                         then Abort 401 ''invalid_issuer''
                       else if ac_Role config \<noteq> '''' \<and>
                               claim_string_or_empty claims ''role'' \<noteq> ac_Role config \<and>
                               claim_string_or_empty claims ''role'' \<noteq> ''admin''
                         then Abort 403 ''insufficient_role''
                       else if ac_Permissions config \<noteq> [] \<and>
                               missing_permission (token_perms claims) (ac_Permissions config) \<noteq> None
                         then Abort 403 ''missing_permission''
                       else Proceed (gin_Set ''user_permissions'' (claims_get claims ''permissions'')
                              (gin_Set ''user_role'' (claims_get claims ''role'')
                                (gin_Set ''user_id'' (claims_get claims ''user_id'') c)))))"

section \<open>rbac\_abac.go\<close>

text \<open>The user and the role in the token, or an error; the key is a constant and no method is checked.\<close>

definition extractUserFromToken ::
  "jwt_lib \<Rightarrow> uuid_lib \<Rightarrow> instant \<Rightarrow> gin_ctx \<Rightarrow> uuid \<times> string \<times> jwt_error option" where
  "extractUserFromToken J U now c =
     (let authHeader = gc_header c ''Authorization''
      in if \<not> has_prefix authHeader ''Bearer '' then (uuid_Nil, '''', Some ErrTokenMalformed)
      else let tokenStr = trim_prefix authHeader ''Bearer ''
      in case jwt_parse J now (\<lambda>_. Some ''default_secret'') tokenStr of
           Inl err \<Rightarrow> (uuid_Nil, '''', Some err)
         | Inr token \<Rightarrow>
             if \<not> jt_Valid token then (uuid_Nil, '''', None)
             else (case jt_MapClaims token of
                     None \<Rightarrow> (uuid_Nil, '''', Some ErrInvalidKey)
                   | Some claims \<Rightarrow>
                       (case claim_string claims ''user_id'' of
                          None \<Rightarrow> (uuid_Nil, '''', Some ErrInvalidKey)
                        | Some userIDStr \<Rightarrow>
                            (case uuid_FromString U userIDStr of
                               None \<Rightarrow> (uuid_Nil, '''', Some (JwtError ''uuid''))
                             | Some userID \<Rightarrow> (userID, claim_string_or_empty claims ''role'', None)))))"

definition RBACMiddleware :: "jwt_lib \<Rightarrow> uuid_lib \<Rightarrow> instant \<Rightarrow> string list \<Rightarrow> gin_ctx \<Rightarrow> mw_result" where
  "RBACMiddleware J U now requiredRoles c =
     (case extractUserFromToken J U now c of
        (_, _, Some _) \<Rightarrow> Abort 401 ''Invalid token''
      | (userID, role, None) \<Rightarrow>
          if requiredRoles \<noteq> [] \<and> \<not> list_ex (\<lambda>r. role = r) requiredRoles
          then Abort 403 ''Insufficient permissions''
          else Proceed (gin_Set ''user_role'' (VString role) (gin_Set ''user_id'' (VUUID userID) c)))"

definition PermissionMiddleware ::
  "jwt_lib \<Rightarrow> uuid_lib \<Rightarrow> 'd authz_db \<Rightarrow> instant \<Rightarrow> string \<Rightarrow> string \<Rightarrow> gin_ctx \<Rightarrow> 'd \<Rightarrow> mw_result" where
  "PermissionMiddleware J U D now resource action c d =
     (case extractUserFromToken J U now c of
        (_, _, Some _) \<Rightarrow> Abort 401 ''Invalid token''
      | (userID, _, None) \<Rightarrow>
          (case az_HasPermission D userID resource action d of
             (_, Some _) \<Rightarrow> Abort 500 ''Permission check failed''
           | (hasPermission, None) \<Rightarrow>
               if \<not> hasPermission then Abort 403 ''Insufficient permissions''
               else Proceed (gin_Set ''user_id'' (VUUID userID) c)))"

record request_context =
  rq_http_method :: string
  rq_http_path :: string
  rq_query_params :: "string \<Rightarrow> string option"
  rq_content_type :: string
  rq_accept :: string
  rq_request_time :: string
  rq_server_time :: int

text \<open>\<open>None\<close> is the panic of the type assertion when \<open>request_start_time\<close> is not in the context.\<close>

definition buildRequestContext :: "gin_ctx \<Rightarrow> request_context option" where
  "buildRequestContext c = map_option (\<lambda>t.
     \<lparr>rq_http_method = gc_method c, rq_http_path = gc_path c, rq_query_params = gc_query c,
      rq_content_type = gc_header c ''Content-Type'', rq_accept = gc_header c ''Accept'',
      rq_request_time = gc_header c ''Date'', rq_server_time = t\<rparr>) (gc_start_time c)"

text \<open>Each parameter that is present and parses replaces the resource identifier.\<close>

definition param_id :: "uuid_lib \<Rightarrow> gin_ctx \<Rightarrow> string \<Rightarrow> uuid option \<Rightarrow> uuid option" where
  "param_id U c name rid =
     (if gc_param c name \<noteq> '''' then (case uuid_FromString U (gc_param c name) of Some i \<Rightarrow> Some i | None \<Rightarrow> rid)
      else rid)"

text \<open>The second component is the decision that a goroutine then writes to the audit log.\<close>

definition ABACMiddleware ::
  "jwt_lib \<Rightarrow> uuid_lib \<Rightarrow> 'd authz_db \<Rightarrow> (gorm_error \<Rightarrow> string) \<Rightarrow> instant \<Rightarrow> string \<Rightarrow> string \<Rightarrow> gin_ctx \<Rightarrow> 'd \<Rightarrow>
   mw_result \<times> request_context authz_decision option" where
  "ABACMiddleware J U D show_err now resource action c d =
     (case extractUserFromToken J U now c of
        (_, _, Some _) \<Rightarrow> (Abort 401 ''Invalid token'', None)
      | (userID, _, None) \<Rightarrow>
          (case buildRequestContext c of
             None \<Rightarrow> (Panic, None)
           | Some rc \<Rightarrow>
               let request = \<lparr>aq_UserID = userID, aq_Resource = resource, aq_Action = action,
                     aq_ResourceID = param_id U c ''task_id'' (param_id U c ''user_id'' (param_id U c ''id'' None)),
                     aq_Context = Some rc, aq_IPAddress = gc_ip c, aq_UserAgent = gc_header c ''User-Agent'',
                     aq_RequestID = gc_header c ''X-Request-ID''\<rparr>
               in case IsAuthorized D show_err now request d of
                    (_, Some _) \<Rightarrow> (Abort 500 ''Authorization check failed'', None)
                  | (decision, None) \<Rightarrow>
                      (if ad_Decision decision \<noteq> ''allowed'' then Abort 403 ''Access denied''
                       else Proceed (gin_Set ''auth_decision'' (VDecision (ad_Decision decision))
                              (gin_Set ''user_id'' (VUUID userID) c)),
                       Some decision)))"

definition ResourceOwnershipMiddleware :: "uuid_lib \<Rightarrow> string \<Rightarrow> gin_ctx \<Rightarrow> mw_result" where
  "ResourceOwnershipMiddleware U resourceType c =
     (case gin_Get c ''user_id'' of
        None \<Rightarrow> Abort 401 ''User not authenticated''
      | Some (VUUID userID) \<Rightarrow>
          if gin_Get c ''user_role'' = Some (VString ''admin'') then Proceed c
          else
            (let resourceID =
               (if gc_param c ''user_id'' \<noteq> '''' \<and> resourceType = ''user''
                then uuid_FromString U (gc_param c ''user_id'')
                else if gc_param c ''id'' \<noteq> '''' then uuid_FromString U (gc_param c ''id'')
                else Some uuid_Nil)
             in case resourceID of
                  None \<Rightarrow> Abort 400 ''Invalid resource ID''
                | Some rid \<Rightarrow>
                    if (resourceType = ''user'' \<or> resourceType = ''profile'') \<and> rid \<noteq> userID
                    then Abort 403 ''Can only access own profile'' else Proceed c)
      | Some _ \<Rightarrow> Abort 401 ''Invalid user ID'')"

definition AdminOnlyMiddleware :: "jwt_lib \<Rightarrow> uuid_lib \<Rightarrow> instant \<Rightarrow> gin_ctx \<Rightarrow> mw_result" where
  "AdminOnlyMiddleware J U now = RBACMiddleware J U now [''admin'']"

definition UserOrAdminMiddleware :: "jwt_lib \<Rightarrow> uuid_lib \<Rightarrow> instant \<Rightarrow> gin_ctx \<Rightarrow> mw_result" where
  "UserOrAdminMiddleware J U now = RBACMiddleware J U now [''user'', ''admin'']"

section \<open>The admin guard of main.go\<close>

text \<open>\<open>show_value\<close> is \<open>fmt.Sprintf("%v", v)\<close> for a value that is not a string.\<close>

definition user_id_text :: "(ctx_value \<Rightarrow> string) \<Rightarrow> ctx_value \<Rightarrow> string" where
  "user_id_text show_value v = (case v of VString s \<Rightarrow> s | _ \<Rightarrow> show_value v)"

definition adminOnlyMiddleware ::
  "uuid_lib \<Rightarrow> 'd authz_db \<Rightarrow> (ctx_value \<Rightarrow> string) \<Rightarrow> gin_ctx \<Rightarrow> 'd \<Rightarrow> mw_result" where
  "adminOnlyMiddleware U D show_value c d =
     (case gin_Get c ''user_id'' of
        None \<Rightarrow> Abort 401 ''unauthorized''
      | Some v \<Rightarrow>
          (case uuid_FromString U (user_id_text show_value v) of
             None \<Rightarrow> Abort 400 ''invalid_user_id''
           | Some userID \<Rightarrow>
               (case az_HasRole D userID ''admin'' d of
                  (_, Some _) \<Rightarrow> Abort 500 ''authorization_failed''
                | (isAdmin, None) \<Rightarrow> if \<not> isAdmin then Abort 403 ''forbidden'' else Proceed c)))"

section \<open>Who passes\<close>

text \<open>The claims of a valid token in the \<open>Authorization\<close> header.\<close>

definition presented_claims :: "'d auth_env \<Rightarrow> instant \<Rightarrow> gin_ctx \<Rightarrow> claims option" where
  "presented_claims A now c =
     (if has_prefix (gc_header c ''Authorization'') ''Bearer ''
      then (case jwt_parse (ae_jwt A) now (hmac_key (jwt_secret A)) (drop 7 (gc_header c ''Authorization'')) of
              Inr token \<Rightarrow> if jt_Valid token then jt_MapClaims token else None
            | Inl _ \<Rightarrow> None)
      else None)"

definition admits :: "instant \<Rightarrow> authz_config \<Rightarrow> claims \<Rightarrow> bool" where
  "admits now cfg c \<longleftrightarrow> \<not> token_expired now c \<and>
     claim_string c ''iss'' \<in> {None, Some ''taskify-backend''} \<and>
     (ac_Role cfg = '''' \<or> claim_string_or_empty c ''role'' \<in> {ac_Role cfg, ''admin''}) \<and>
     set (ac_Permissions cfg) \<subseteq> set (token_perms c)"

definition with_identity :: "claims \<Rightarrow> gin_ctx \<Rightarrow> gin_ctx" where
  "with_identity claims c = gin_Set ''user_permissions'' (claims_get claims ''permissions'')
     (gin_Set ''user_role'' (claims_get claims ''role'') (gin_Set ''user_id'' (claims_get claims ''user_id'') c))"

lemma missing_permission_None: "missing_permission ps rs = None \<longleftrightarrow> set rs \<subseteq> set ps"
  by (induction rs) auto

lemma bearer_nonempty: "has_prefix h ''Bearer '' \<Longrightarrow> h \<noteq> ''''"
  by (auto simp: has_prefix_def)

lemma AuthzMiddleware_cases:
  "AuthzMiddleware A now cfg c =
     (case presented_claims A now c of
        Some claims \<Rightarrow>
          if admits now cfg claims then Proceed (with_identity claims c)
          else if token_expired now claims then Abort 401 ''expired_token''
          else if claim_string claims ''iss'' \<notin> {None, Some ''taskify-backend''} then Abort 401 ''invalid_issuer''
          else if \<not> (ac_Role cfg = '''' \<or> claim_string_or_empty claims ''role'' \<in> {ac_Role cfg, ''admin''})
            then Abort 403 ''insufficient_role''
          else Abort 403 ''missing_permission''
      | None \<Rightarrow>
          Abort 401 (if gc_header c ''Authorization'' = '''' then ''missing_token''
            else if \<not> has_prefix (gc_header c ''Authorization'') ''Bearer '' then ''invalid_token_format''
            else case jwt_parse (ae_jwt A) now (hmac_key (jwt_secret A)) (drop 7 (gc_header c ''Authorization'')) of
                Inl _ \<Rightarrow> ''invalid_token'' | Inr t \<Rightarrow> if jt_Valid t then ''invalid_claims'' else ''expired_token''))"
proof (cases "has_prefix (gc_header c ''Authorization'') ''Bearer ''")
  case True
  then have t: "trim_prefix (gc_header c ''Authorization'') ''Bearer '' = drop 7 (gc_header c ''Authorization'')"
    by (simp add: trim_prefix_def eval_nat_numeral)
  show ?thesis
  proof (cases "jwt_parse (ae_jwt A) now (hmac_key (jwt_secret A)) (drop 7 (gc_header c ''Authorization''))")
    case (Inl e)
    then show ?thesis using True bearer_nonempty [OF True] by (simp add: AuthzMiddleware_def presented_claims_def t)
  next
    case (Inr tok)
    then show ?thesis using True bearer_nonempty [OF True]
      by (cases "jt_MapClaims tok") (auto simp: AuthzMiddleware_def presented_claims_def t missing_permission_None admits_def
          with_identity_def)
  qed
next
  case False
  then show ?thesis by (simp add: AuthzMiddleware_def presented_claims_def)
qed

text \<open>
  C3: what \<open>AuthzMiddleware\<close> lets through, and what it answers 403. A request passes exactly if its
  \<open>Authorization\<close> header carries a token that \<open>jwt.Parse\<close> accepts with the server's secret, and
  the token's claims pass each check the code makes: a numeric \<open>exp\<close> is not in the past (a token
  without one passes), an \<open>iss\<close> that is a string is \<open>taskify-backend\<close> (a token without one passes),
  the \<open>role\<close> is the configured one or \<open>admin\<close> if a role is configured, and every configured permission
  is a string of the \<open>permissions\<close> list. It then stores the token's identity in the context. The answer
  is 403 exactly if the token passes the checks of expiry and issuer and fails that of the role
  (\<open>insufficient_role\<close>) or, the role being right, that of the permissions (\<open>missing_permission\<close>).
\<close>

theorem authz_middleware_admits_iff:
  "(AuthzMiddleware A now cfg c = Proceed c' \<longleftrightarrow>
     (\<exists>claims. presented_claims A now c = Some claims \<and> \<not> token_expired now claims \<and>
        (claim_string claims ''iss'' = None \<or> claim_string claims ''iss'' = Some ''taskify-backend'') \<and>
        (ac_Role cfg = '''' \<or> claim_string_or_empty claims ''role'' = ac_Role cfg \<or>
         claim_string_or_empty claims ''role'' = ''admin'') \<and>
        set (ac_Permissions cfg) \<subseteq> set (token_perms claims) \<and>
        c' = with_identity claims c)) \<and>
   (AuthzMiddleware A now cfg c = Abort 403 e \<longleftrightarrow>
     (\<exists>claims. presented_claims A now c = Some claims \<and> \<not> token_expired now claims \<and>
        (claim_string claims ''iss'' = None \<or> claim_string claims ''iss'' = Some ''taskify-backend'') \<and>
        (if ac_Role cfg = '''' \<or> claim_string_or_empty claims ''role'' \<in> {ac_Role cfg, ''admin''}
         then \<not> set (ac_Permissions cfg) \<subseteq> set (token_perms claims) \<and> e = ''missing_permission''
         else e = ''insufficient_role'')))"
  unfolding AuthzMiddleware_cases by (auto simp: admits_def split: option.splits)

text \<open>A request with a token.\<close>

definition ex_ctx :: "string \<Rightarrow> gin_ctx" where
  "ex_ctx tok = \<lparr>gc_method = ''GET'', gc_path = ''/'',
     gc_header = (\<lambda>h. if h = ''Authorization'' then ''Bearer '' @ tok else ''''), gc_param = (\<lambda>_. ''''),
     gc_query = (\<lambda>_. None), gc_keys = Map.empty, gc_ip = '''', gc_start_time = None\<rparr>"

lemma presented_signed:
  assumes "jwt_lawful (ae_jwt A)" and "jwt_sign (ae_jwt A) (jwt_secret A) claims = Some s"
    and "map_of claims ''exp'' = Some (CNum e)" and "now < e * second"
    and "gc_header c ''Authorization'' = ''Bearer '' @ s"
  shows "presented_claims A now c = Some claims"
  using jwt_parse_signed [OF assms(1-4), of "hmac_key (jwt_secret A)"] assms(5)
  by (simp add: presented_claims_def has_prefix_def)

text \<open>
  Both tokens of a pair open the protected routes. Until it expires, the refresh token that
  \<open>GenerateToken\<close> issues passes the middleware as main.go configures it, with the user's identity,
  exactly as the access token does: the middleware does not look at the token's type.
\<close>

theorem refresh_token_opens_protected_routes:
  assumes "jwt_lawful (ae_jwt A)" and "GenerateToken A now j i u d = (Inr (acc, new), d')"
    and "now' < unix (now + hour) * second" and "tok \<in> {acc, new}"
    and "gc_header c ''Authorization'' = ''Bearer '' @ tok"
  shows "\<exists>c'. AuthzMiddleware A now' \<lparr>ac_Role = '''', ac_Permissions = []\<rparr> c = Proceed c' \<and>
    gin_Get c' ''user_id'' = Some (VString (uuid_String (ae_uuid A) u))"
proof -
  obtain roleName permissions jti where s:
    "jwt_sign (ae_jwt A) (jwt_secret A) (access_claims (ae_uuid A) now u roleName permissions) = Some acc"
    "jwt_sign (ae_jwt A) (jwt_secret A) (refresh_claims (ae_uuid A) now u jti) = Some new"
    using assms(2) by (auto simp: GenerateToken_def Let_def split: option.splits prod.splits)
  have e: "map_of (access_claims (ae_uuid A) now u roleName permissions) ''exp'' = Some (CNum (unix (now + hour)))"
    "map_of (refresh_claims (ae_uuid A) now u jti) ''exp'' = Some (CNum (unix (now + hour)))"
    by (simp_all add: access_claims_def refresh_claims_def)
  let ?cs = "if tok = acc then access_claims (ae_uuid A) now u roleName permissions else refresh_claims (ae_uuid A) now u jti"
  have "presented_claims A now' c = Some ?cs"
    using presented_signed [OF assms(1) s(1) e(1) assms(3), of c] presented_signed [OF assms(1) s(2) e(2) assms(3), of c]
      assms(4,5) by auto
  moreover have "admits now' \<lparr>ac_Role = '''', ac_Permissions = []\<rparr> ?cs"
    using assms(3) by (simp add: admits_def token_expired_def access_claims_def refresh_claims_def claim_string_def)
  moreover have "gin_Get (with_identity ?cs c) ''user_id'' = Some (VString (uuid_String (ae_uuid A) u))"
    by (simp add: with_identity_def claims_get_def access_claims_def refresh_claims_def)
  ultimately show ?thesis by (simp add: AuthzMiddleware_cases)
qed

theorem refresh_token_opens_protected_routes_witness:
  "\<exists>acc new d'. GenerateToken mem_auth_env 1 (Some 7) 8 5 [] = (Inr (acc, new), d') \<and>
     (\<exists>c'. AuthzMiddleware mem_auth_env 2 \<lparr>ac_Role = '''', ac_Permissions = []\<rparr> (ex_ctx new) = Proceed c')"
proof -
  have "7 \<notin> set (map (tk_JTI \<circ> fst) ([] :: (token \<times> bool) list))" by simp
  then obtain acc new d' where g: "GenerateToken mem_auth_env 1 (Some 7) 8 5 [] = (Inr (acc, new), d')"
    by (rule generate_ok [OF mem_auth_env_laws(1,3)])
  have "\<exists>c'. AuthzMiddleware mem_auth_env 2 \<lparr>ac_Role = '''', ac_Permissions = []\<rparr> (ex_ctx new) = Proceed c' \<and>
      gin_Get c' ''user_id'' = Some (VString (uuid_String (ae_uuid mem_auth_env) 5))"
    by (rule refresh_token_opens_protected_routes [OF mem_auth_env_laws(1) g])
      (simp_all add: unix_def dur_defs ex_ctx_def)
  then show ?thesis using g by blast
qed

section \<open>The constant secret of rbac\_abac.go\<close>

text \<open>
  Anyone can make an administrator's token for \<open>AdminOnlyMiddleware\<close>. Claims signed with the
  constant \<open>default_secret\<close>, for any user and with role \<open>admin\<close>, are let through whatever secret
  the server is configured with.
\<close>

theorem admin_token_is_forgeable:
  assumes "jwt_lawful J" and "uuid_lawful U" and "now < e * second"
    and "jwt_sign J ''default_secret'' [(''user_id'', CStr (uuid_String U u)), (''role'', CStr ''admin''), (''exp'', CNum e)] = Some s"
    and "gc_header c ''Authorization'' = ''Bearer '' @ s"
  shows "\<exists>c'. AdminOnlyMiddleware J U now c = Proceed c' \<and> gin_Get c' ''user_id'' = Some (VUUID u)"
proof -
  have "jwt_parse J now (\<lambda>_. Some ''default_secret'') s = Inr \<lparr>jt_Valid = True, jt_MapClaims =
      Some [(''user_id'', CStr (uuid_String U u)), (''role'', CStr ''admin''), (''exp'', CNum e)]\<rparr>"
    using assms(1,3,4) by (intro jwt_parse_signed) simp_all
  moreover have "has_prefix (gc_header c ''Authorization'') ''Bearer ''"
    "trim_prefix (gc_header c ''Authorization'') ''Bearer '' = s"
    using assms(5) by (simp_all add: has_prefix_def trim_prefix_def)
  ultimately show ?thesis using assms(2)
    by (simp add: AdminOnlyMiddleware_def RBACMiddleware_def extractUserFromToken_def claim_string_def
        claim_string_or_empty_def uuid_lawful_def)
qed

theorem admin_token_is_forgeable_witness:
  "\<exists>s c'. AdminOnlyMiddleware mem_jwt mem_uuid 5 (ex_ctx s) = Proceed c'"
proof -
  obtain s where s: "jwt_sign mem_jwt ''default_secret''
      [(''user_id'', CStr (uuid_String mem_uuid 5)), (''role'', CStr ''admin''), (''exp'', CNum 9)] = Some s"
    using mem_jwt_lawful unfolding jwt_lawful_def by blast
  have "\<exists>c'. AdminOnlyMiddleware mem_jwt mem_uuid 5 (ex_ctx s) = Proceed c' \<and> gin_Get c' ''user_id'' = Some (VUUID 5)"
    by (rule admin_token_is_forgeable [OF mem_jwt_lawful mem_uuid_lawful _ s]) (simp_all add: second_def ex_ctx_def)
  then show ?thesis by blast
qed

text \<open>
  \<open>ABACMiddleware\<close> never lets a request through. Nothing in the program puts
  \<open>request_start_time\<close> into the request's context, and without it the middleware panics for every
  request whose token it accepts; behind \<open>RecoveryWithLog\<close> the client gets a 500.
\<close>

theorem abac_middleware_always_fails:
  assumes "gc_start_time c = None"
  shows "fst (ABACMiddleware J U D show_err now resource action c d) \<in> {Abort 401 ''Invalid token'', Panic} \<and>
    resp_status (RecoveryWithLog (fst (guarded (\<lambda>c. fst (ABACMiddleware J U D show_err now resource action c d)) h s c)))
      \<in> {Some 401, Some 500}"
proof -
  have 1: "fst (ABACMiddleware J U D show_err now resource action c d) \<in> {Abort 401 ''Invalid token'', Panic}"
    using assms by (auto simp: ABACMiddleware_def buildRequestContext_def split: prod.splits option.splits)
  then show ?thesis by (auto simp: guarded_def RecoveryWithLog_def)
qed

theorem abac_middleware_always_fails_witness:
  "fst (ABACMiddleware mem_jwt mem_uuid mem_authz_db (\<lambda>_. []) 0 ''task'' ''read'' (ex_ctx ''t'') ex_tables)
     \<in> {Abort 401 ''Invalid token'', Panic}"
proof -
  have "gc_start_time (ex_ctx ''t'') = None" by (simp add: ex_ctx_def)
  then show ?thesis by (rule abac_middleware_always_fails [THEN conjunct1])
qed

section \<open>The admin guard\<close>

definition cache_route_guard ::
  "'t auth_env \<Rightarrow> 'd authz_db \<Rightarrow> (ctx_value \<Rightarrow> string) \<Rightarrow> instant \<Rightarrow> 'd \<Rightarrow> gin_ctx \<Rightarrow> mw_result" where
  "cache_route_guard A D show_value now d c =
     (case AuthzMiddleware A now \<lparr>ac_Role = '''', ac_Permissions = []\<rparr> c of
        Proceed c' \<Rightarrow> adminOnlyMiddleware (ae_uuid A) D show_value c' d
      | r \<Rightarrow> r)"

lemma adminOnly_Proceed:
  assumes "authz_reads D T d"
  shows "adminOnlyMiddleware U D show_value c d = Proceed c' \<longleftrightarrow> c' = c \<and>
    (\<exists>v u. gin_Get c ''user_id'' = Some v \<and> uuid_FromString U (user_id_text show_value v) = Some u \<and> holds_role T u ''admin'')"
  by (auto simp: adminOnlyMiddleware_def az_HasRole_answer [OF assms] split: option.splits)

text \<open>
  The cache routes are for administrators only. A request passes \<open>AuthzMiddleware\<close> and then the
  guard of main.go only if its token is valid and names a user who holds the role \<open>admin\<close> in the
  database, not merely in the token.
\<close>

theorem cache_routes_are_admin_only:
  assumes "authz_reads D T d" and "cache_route_guard A D show_value now d c = Proceed c'"
  shows "\<exists>claims u. presented_claims A now c = Some claims \<and> \<not> token_expired now claims \<and>
    uuid_FromString (ae_uuid A) (user_id_text show_value (claims_get claims ''user_id'')) = Some u \<and>
    holds_role T u ''admin''"
proof -
  obtain c1 where c1: "AuthzMiddleware A now \<lparr>ac_Role = '''', ac_Permissions = []\<rparr> c = Proceed c1"
    "adminOnlyMiddleware (ae_uuid A) D show_value c1 d = Proceed c'"
    using assms(2) by (auto simp: cache_route_guard_def split: mw_result.splits)
  then obtain claims where "presented_claims A now c = Some claims"
    "admits now \<lparr>ac_Role = '''', ac_Permissions = []\<rparr> claims" "c1 = with_identity claims c"
    by (auto simp: AuthzMiddleware_cases split: option.splits if_splits)
  with c1(2) show ?thesis
    by (auto simp: adminOnly_Proceed [OF assms(1)] with_identity_def admits_def)
qed

theorem cache_routes_are_admin_only_witness:
  "\<exists>c c' claims u. cache_route_guard mem_auth_env mem_authz_db (\<lambda>_. []) 2 (ex_tables\<lparr>tb_user_roles := [ex_user_role 5 2 None]\<rparr>) c = Proceed c' \<and>
     presented_claims mem_auth_env 2 c = Some claims \<and>
     uuid_FromString mem_uuid (user_id_text (\<lambda>_. []) (claims_get claims ''user_id'')) = Some u \<and>
     holds_role (ex_tables\<lparr>tb_user_roles := [ex_user_role 5 2 None]\<rparr>) u ''admin''"
proof -
  let ?T = "ex_tables\<lparr>tb_user_roles := [ex_user_role 5 2 None]\<rparr>"
  have "7 \<notin> set (map (tk_JTI \<circ> fst) ([] :: (token \<times> bool) list))" by simp
  then obtain acc new d' roleName permissions where s:
    "jwt_sign (ae_jwt mem_auth_env) (jwt_secret mem_auth_env) (access_claims (ae_uuid mem_auth_env) 1 5 roleName permissions) = Some acc"
    by (rule generate_ok [OF mem_auth_env_laws(1,3)])
  have p: "presented_claims mem_auth_env 2 (ex_ctx acc) = Some (access_claims (ae_uuid mem_auth_env) 1 5 roleName permissions)"
    by (rule presented_signed [OF mem_auth_env_laws(1) s, where e = "unix (1 + hour)"])
      (simp_all add: access_claims_def unix_def dur_defs ex_ctx_def)
  have ad: "admits 2 \<lparr>ac_Role = '''', ac_Permissions = []\<rparr> (access_claims (ae_uuid mem_auth_env) 1 5 roleName permissions)"
    by (simp add: admits_def token_expired_def access_claims_def claim_string_def unix_def dur_defs)
  have a: "AuthzMiddleware mem_auth_env 2 \<lparr>ac_Role = '''', ac_Permissions = []\<rparr> (ex_ctx acc) =
      Proceed (with_identity (access_claims (ae_uuid mem_auth_env) 1 5 roleName permissions) (ex_ctx acc))"
    unfolding AuthzMiddleware_cases p option.case using ad by (simp only: if_True)
  have u: "ae_uuid mem_auth_env = mem_uuid" by (simp add: mem_auth_env_def)
  have id: "gin_Get (with_identity (access_claims mem_uuid 1 5 roleName permissions) (ex_ctx acc)) ''user_id'' =
      Some (VString (uuid_String mem_uuid 5))"
    by (simp add: with_identity_def claims_get_def access_claims_def)
  have "holds_role ?T 5 ''admin''" by (simp add: holds_role_def ex_defs)
  moreover have "uuid_FromString mem_uuid (uuid_String mem_uuid 5) = Some 5"
    using mem_uuid_lawful by (simp add: uuid_lawful_def)
  ultimately have g: "cache_route_guard mem_auth_env mem_authz_db (\<lambda>_. []) 2 ?T (ex_ctx acc) =
      Proceed (with_identity (access_claims (ae_uuid mem_auth_env) 1 5 roleName permissions) (ex_ctx acc))"
    unfolding cache_route_guard_def a mw_result.case adminOnly_Proceed [OF mem_authz_reads] u
    using id by (simp add: user_id_text_def)
  from cache_routes_are_admin_only [OF mem_authz_reads g] obtain claims u' where
    "presented_claims mem_auth_env 2 (ex_ctx acc) = Some claims"
    "uuid_FromString (ae_uuid mem_auth_env) (user_id_text (\<lambda>_. []) (claims_get claims ''user_id'')) = Some u'"
    "holds_role ?T u' ''admin''" by blast
  then show ?thesis using g unfolding u by blast
qed

section \<open>Requests with a token\<close>

text \<open>The guard \<open>setupRoutes\<close> puts before the protected routes: any valid token passes.\<close>

definition no_requirements :: authz_config where
  "no_requirements = \<lparr>ac_Role = '''', ac_Permissions = []\<rparr>"

lemma guarded_no_token:
  assumes "\<And>claims. presented_claims A now c = Some claims \<Longrightarrow> \<not> admits now cfg claims"
  shows "\<exists>st e. guarded (AuthzMiddleware A now cfg) h s c = (RespondError st e, s) \<and> st \<in> {401, 403}"
  using assms by (auto simp: guarded_def AuthzMiddleware_cases split: option.splits)

lemma guarded_token:
  assumes "presented_claims A now c = Some claims" and "admits now cfg claims"
  shows "guarded (AuthzMiddleware A now cfg) h s c = h (with_identity claims c)"
  using assms by (simp add: guarded_def AuthzMiddleware_cases)

lemma with_identity_simps [simp]:
  "gc_param (with_identity claims c) = gc_param c" "gc_query (with_identity claims c) = gc_query c"
  "gc_header (with_identity claims c) = gc_header c"
  "gin_Get (with_identity claims c) ''user_id'' = Some (claims_get claims ''user_id'')"
  by (simp_all add: with_identity_def) (simp_all add: gin_Set_def)

lemma claims_get_string: "claims_get claims k = VString s \<longleftrightarrow> claim_string claims k = Some s"
  by (auto simp: claims_get_def claim_string_def split: option.splits claim.splits)

lemma claims_get_no_uuid: "claims_get claims k \<noteq> VUUID u"
proof -
  have "claim_value x \<noteq> VUUID u" for x by (cases x) simp_all
  then show ?thesis by (auto simp: claims_get_def split: option.splits)
qed

text \<open>An access token issued at time 0 in the environment of the examples.\<close>

definition ex_token :: "uuid \<Rightarrow> string" where
  "ex_token u = (case jwt_sign mem_jwt ''s'' (access_claims mem_uuid 0 u ''user'' []) of Some s \<Rightarrow> s | None \<Rightarrow> [])"

lemma ex_token_presented:
  assumes "gc_header c ''Authorization'' = ''Bearer '' @ ex_token u"
  shows "presented_claims mem_auth_env 1 c = Some (access_claims mem_uuid 0 u ''user'' [])"
proof -
  have s: "jwt_sign (ae_jwt mem_auth_env) (jwt_secret mem_auth_env) (access_claims mem_uuid 0 u ''user'' []) = Some (ex_token u)"
    by (simp add: mem_auth_env_def jwt_secret_def ex_token_def mem_jwt_def)
  show ?thesis
    by (rule presented_signed [OF mem_auth_env_laws(1) s, where e = "unix (0 + hour)"])
      (use assms in \<open>simp_all add: access_claims_def unix_def dur_defs\<close>)
qed

lemma ex_ctx_presented:
  "presented_claims mem_auth_env 1 (ex_ctx (ex_token u)) = Some (access_claims mem_uuid 0 u ''user'' [])"
  "presented_claims mem_auth_env 1 ((ex_ctx (ex_token u))\<lparr>gc_param := p\<rparr>) = Some (access_claims mem_uuid 0 u ''user'' [])"
  by (rule ex_token_presented, simp add: ex_ctx_def)+

lemma ex_token_admitted: "admits 1 no_requirements (access_claims mem_uuid 0 u ''user'' [])"
  by (simp add: admits_def no_requirements_def token_expired_def access_claims_def claim_string_def unix_def dur_defs)

lemma ex_token_user: "claims_get (access_claims mem_uuid 0 u ''user'' []) ''user_id'' = VString (uuid_String mem_uuid u)"
  by (simp add: claims_get_def access_claims_def)

end
