(* ===== verification/CacheHandler.thy ===== *)
theory CacheHandler
  imports UnifiedManager AuthzMiddleware
begin

text \<open>
  The cache management handlers (\<^verbatim>\<open>backend/internal/handlers/cache.go\<close>), the handler that clears the cache
  and the routes of \<^verbatim>\<open>backend/main.go\<close>. The manager is optional, as in the source; the cache is the interface
  \<open>cache_ops\<close>. The result of binding the JSON body is an argument. A handler that submits a job
  returns the list of its possible outcomes.
\<close>

section \<open>Data\<close>

record ('st, 'e, 'c) cache_ops =
  co_Delete :: "string \<Rightarrow> 'c \<Rightarrow> 'e option \<times> 'c"
  co_DeletePattern :: "string \<Rightarrow> 'c \<Rightarrow> 'e option \<times> 'c"
  co_Stats :: "'c \<Rightarrow> 'st"

record 'o warmup_request =
  wr_Key :: string
  wr_Data :: "'o go_value"
  wr_TTL :: duration
  wr_Priority :: int

record 'o batch_request =
  br_Keys :: "string list"
  br_Data :: "'o go_value"
  br_Priority :: int

record 'o scheduled_request =
  sr_Key :: string
  sr_Data :: "'o go_value"
  sr_TTL :: duration
  sr_ProcessAt :: instant
  sr_Priority :: int

datatype 'st cache_reply =
    Warming_triggered
  | Warmup_enqueued string duration int
  | Batch_enqueued nat int
  | Scheduled_enqueued string instant duration int
  | Pattern_evicted string
  | Key_evicted string
  | Manager_unavailable
  | Health_reply string bool manager_metrics "(string \<times> int) list option"
  | Stats_reply "'st option" "manager_metrics option" "(string \<times> int) list option"
  | Cache_cleared

text \<open>What a handler works on: the manager, the cache of the handler, and Redis.\<close>

record ('w, 'o, 'e, 'c, 'r) cache_app =
  ca_manager :: "('w, 'o, 'e, 'c) cache_manager option"
  ca_cache :: 'c
  ca_redis :: 'r

section \<open>Handlers\<close>

text \<open>The answer to an error of the manager; a panic of a submission is a panic of the handler.\<close>

definition manager_reply :: "string \<Rightarrow> nat \<Rightarrow> 'st cache_reply \<Rightarrow> 'e manager_result \<Rightarrow> 'st cache_reply response" where
  "manager_reply failure status reply x =
     (case x of Done None \<Rightarrow> Respond status reply | Done (Some _) \<Rightarrow> RespondError 500 failure | Crash \<Rightarrow> HandlerPanic)"

definition with_manager ::
  "string \<Rightarrow> nat \<Rightarrow> 'st cache_reply \<Rightarrow>
   (('w, 'o, 'e, 'c) cache_manager \<Rightarrow> 'r \<Rightarrow> ('w, 'o, 'e, 'c, 'r) manager_outcomes) \<Rightarrow>
   ('w, 'o, 'e, 'c, 'r) cache_app \<Rightarrow> ('st cache_reply response \<times> ('w, 'o, 'e, 'c, 'r) cache_app) list" where
  "with_manager failure status reply f app =
     (case ca_manager app of
        None \<Rightarrow> [(RespondError 503 ''Cache warming not available'', app)]
      | Some ucm \<Rightarrow> map (\<lambda>(x, ucm', r'). (manager_reply failure status reply x, app\<lparr>ca_manager := Some ucm', ca_redis := r'\<rparr>))
          (f ucm (ca_redis app)))"

definition ch_WarmCache ::
  "'r job_redis \<Rightarrow> 'o job_codec \<Rightarrow> instant \<Rightarrow> instant \<Rightarrow> ('w, 'o, 'e, 'c, 'r) cache_app \<Rightarrow>
   ('st cache_reply response \<times> ('w, 'o, 'e, 'c, 'r) cache_app) list" where
  "ch_WarmCache R J now now' app =
     with_manager ''Failed to trigger cache warming'' 200 Warming_triggered (ucm_WarmupCache R J now now') app"

definition ch_EnqueueWarmupJob ::
  "'r job_redis \<Rightarrow> 'o job_codec \<Rightarrow> instant \<Rightarrow> instant \<Rightarrow> string + 'o warmup_request \<Rightarrow> ('w, 'o, 'e, 'c, 'r) cache_app \<Rightarrow>
   ('st cache_reply response \<times> ('w, 'o, 'e, 'c, 'r) cache_app) list" where
  "ch_EnqueueWarmupJob R J now now' bound app =
     (case bound of
        Inl _ \<Rightarrow> [(RespondError 400 ''Invalid request'', app)]
      | Inr req \<Rightarrow>
          let ttl = (if wr_TTL req = 0 then 15 * minute else wr_TTL req);
              priority = (if wr_Priority req = 0 then 5 else wr_Priority req)
          in with_manager ''Failed to enqueue warmup job'' 202 (Warmup_enqueued (wr_Key req) ttl priority)
               (ucm_EnqueueWarmupJob R J now now' (wr_Key req) (wr_Data req) ttl priority) app)"

definition ch_EnqueueBatchJob ::
  "'r job_redis \<Rightarrow> 'o job_codec \<Rightarrow> instant \<Rightarrow> instant \<Rightarrow> string + 'o batch_request \<Rightarrow> ('w, 'o, 'e, 'c, 'r) cache_app \<Rightarrow>
   ('st cache_reply response \<times> ('w, 'o, 'e, 'c, 'r) cache_app) list" where
  "ch_EnqueueBatchJob R J now now' bound app =
     (case bound of
        Inl _ \<Rightarrow> [(RespondError 400 ''Invalid request'', app)]
      | Inr req \<Rightarrow>
          let priority = (if br_Priority req = 0 then 5 else br_Priority req)
          in with_manager ''Failed to enqueue batch job'' 202 (Batch_enqueued (length (br_Keys req)) priority)
               (ucm_EnqueueBatchWarmupJob R J now now' (br_Keys req) (br_Data req) priority) app)"

definition ch_EnqueueScheduledJob ::
  "'r job_redis \<Rightarrow> 'o job_codec \<Rightarrow> instant \<Rightarrow> instant \<Rightarrow> string + 'o scheduled_request \<Rightarrow> ('w, 'o, 'e, 'c, 'r) cache_app \<Rightarrow>
   ('st cache_reply response \<times> ('w, 'o, 'e, 'c, 'r) cache_app) list" where
  "ch_EnqueueScheduledJob R J now now' bound app =
     (case bound of
        Inl _ \<Rightarrow> [(RespondError 400 ''Invalid request'', app)]
      | Inr req \<Rightarrow>
          let ttl = (if sr_TTL req = 0 then 15 * minute else sr_TTL req);
              priority = (if sr_Priority req = 0 then 5 else sr_Priority req)
          in with_manager ''Failed to enqueue scheduled job'' 202 (Scheduled_enqueued (sr_Key req) (sr_ProcessAt req) ttl priority)
               (ucm_EnqueueScheduledWarmup R J now now' (sr_Key req) (sr_Data req) ttl (sr_ProcessAt req) priority) app)"

definition containsWildcard :: "string \<Rightarrow> bool" where
  "containsWildcard s \<longleftrightarrow> length s > 0 \<and> (last s = CHR ''*'' \<or> hd s = CHR ''*'')"

text \<open>The routes exist only when the cache is not nil, so the 503 branch of a nil cache is not reached.\<close>

definition ch_EvictCacheKey ::
  "('st, 'e, 'c) cache_ops \<Rightarrow> gin_ctx \<Rightarrow> ('w, 'o, 'e, 'c, 'r) cache_app \<Rightarrow>
   'st cache_reply response \<times> ('w, 'o, 'e, 'c, 'r) cache_app" where
  "ch_EvictCacheKey C c app =
     (let key = gc_param c ''key''
      in if key = '''' then (RespondError 400 ''Invalid request'', app)
         else if containsWildcard key
           then (case co_DeletePattern C key (ca_cache app) of
                   (Some _, k) \<Rightarrow> (RespondError 500 ''Failed to evict cache pattern'', app\<lparr>ca_cache := k\<rparr>)
                 | (None, k) \<Rightarrow> (Respond 200 (Pattern_evicted key), app\<lparr>ca_cache := k\<rparr>))
         else (case co_Delete C key (ca_cache app) of
                 (Some _, k) \<Rightarrow> (RespondError 500 ''Failed to evict cache key'', app\<lparr>ca_cache := k\<rparr>)
               | (None, k) \<Rightarrow> (Respond 200 (Key_evicted key), app\<lparr>ca_cache := k\<rparr>)))"

definition ch_GetCacheHealth ::
  "'r job_redis \<Rightarrow> ('w, 'o, 'e, 'c, 'r) cache_app \<Rightarrow> 'st cache_reply response \<times> ('w, 'o, 'e, 'c, 'r) cache_app" where
  "ch_GetCacheHealth R app =
     (case ca_manager app of
        None \<Rightarrow> (Respond 200 Manager_unavailable, app)
      | Some ucm \<Rightarrow>
          (case (ucm_IsRunning ucm, ucm_GetMetrics ucm) of
             (Some isRunning, Some metrics) \<Rightarrow>
               (case ucm_GetQueueSizes R ucm (ca_redis app) of
                  (sizes, r) \<Rightarrow> (Respond 200 (Health_reply (if isRunning then ''healthy'' else ''degraded'') isRunning metrics sizes),
                                app\<lparr>ca_redis := r\<rparr>))
           | _ \<Rightarrow> (HandlerPanic, app)))"

definition ch_GetCacheStats ::
  "'r job_redis \<Rightarrow> ('st, 'e, 'c) cache_ops \<Rightarrow> ('w, 'o, 'e, 'c, 'r) cache_app \<Rightarrow>
   'st cache_reply response \<times> ('w, 'o, 'e, 'c, 'r) cache_app" where
  "ch_GetCacheStats R C app =
     (let st = Some (co_Stats C (ca_cache app))
      in case ca_manager app of
           None \<Rightarrow> (Respond 200 (Stats_reply st None None), app)
         | Some ucm \<Rightarrow>
             (case ucm_GetMetrics ucm of
                None \<Rightarrow> (HandlerPanic, app)
              | Some metrics \<Rightarrow>
                  (case ucm_GetQueueSizes R ucm (ca_redis app) of
                     (sizes, r) \<Rightarrow> (Respond 200 (Stats_reply st (Some metrics) sizes), app\<lparr>ca_redis := r\<rparr>))))"

definition clearCacheHandler ::
  "('st, 'e, 'c) cache_ops \<Rightarrow> ('w, 'o, 'e, 'c, 'r) cache_app \<Rightarrow> 'st cache_reply response \<times> ('w, 'o, 'e, 'c, 'r) cache_app" where
  "clearCacheHandler C app =
     (case co_DeletePattern C ''*'' (ca_cache app) of
        (Some _, k) \<Rightarrow> (RespondError 500 ''cache error'', app\<lparr>ca_cache := k\<rparr>)
      | (None, k) \<Rightarrow> (Respond 200 Cache_cleared, app\<lparr>ca_cache := k\<rparr>))"

section \<open>Routes\<close>

datatype 'o cache_route =
    Get_stats
  | Delete_clear
  | Get_health
  | Post_warm
  | Post_warmup "string + 'o warmup_request"
  | Post_batch "string + 'o batch_request"
  | Post_scheduled "string + 'o scheduled_request"
  | Delete_evict

definition cache_handler ::
  "'r job_redis \<Rightarrow> 'o job_codec \<Rightarrow> ('st, 'e, 'c) cache_ops \<Rightarrow> instant \<Rightarrow> instant \<Rightarrow> 'o cache_route \<Rightarrow> gin_ctx \<Rightarrow>
   ('w, 'o, 'e, 'c, 'r) cache_app \<Rightarrow> ('st cache_reply response \<times> ('w, 'o, 'e, 'c, 'r) cache_app) list" where
  "cache_handler R J C now now' route c app =
     (case route of
        Get_stats \<Rightarrow> [ch_GetCacheStats R C app]
      | Delete_clear \<Rightarrow> [clearCacheHandler C app]
      | Get_health \<Rightarrow> [ch_GetCacheHealth R app]
      | Post_warm \<Rightarrow> ch_WarmCache R J now now' app
      | Post_warmup b \<Rightarrow> ch_EnqueueWarmupJob R J now now' b app
      | Post_batch b \<Rightarrow> ch_EnqueueBatchJob R J now now' b app
      | Post_scheduled b \<Rightarrow> ch_EnqueueScheduledJob R J now now' b app
      | Delete_evict \<Rightarrow> [ch_EvictCacheKey C c app])"

definition serve_cache ::
  "'t auth_env \<Rightarrow> 'd authz_db \<Rightarrow> (ctx_value \<Rightarrow> string) \<Rightarrow> 'd \<Rightarrow> 'r job_redis \<Rightarrow> 'o job_codec \<Rightarrow> ('st, 'e, 'c) cache_ops \<Rightarrow>
   instant \<Rightarrow> instant \<Rightarrow> 'o cache_route \<Rightarrow> gin_ctx \<Rightarrow> ('w, 'o, 'e, 'c, 'r) cache_app \<Rightarrow>
   ('st cache_reply response \<times> ('w, 'o, 'e, 'c, 'r) cache_app) list" where
  "serve_cache A D show_value d R J C now now' route c app =
     (case cache_route_guard A D show_value now d c of
        Proceed c' \<Rightarrow> cache_handler R J C now now' route c' app
      | Abort st e \<Rightarrow> [(RespondError st e, app)]
      | Panic \<Rightarrow> [(HandlerPanic, app)])"

text \<open>The caller is an administrator: a valid token of a user who holds the role in the database.\<close>

definition admin_request ::
  "'t auth_env \<Rightarrow> authz_tables \<Rightarrow> (ctx_value \<Rightarrow> string) \<Rightarrow> instant \<Rightarrow> gin_ctx \<Rightarrow> bool" where
  "admin_request A T show_value now c \<longleftrightarrow>
     (\<exists>claims u. presented_claims A now c = Some claims \<and> admits now no_requirements claims \<and>
        uuid_FromString (ae_uuid A) (user_id_text show_value (claims_get claims ''user_id'')) = Some u \<and> holds_role T u ''admin'')"

lemma guard_admin:
  assumes "authz_reads D T d"
  shows "admin_request A T show_value now c \<Longrightarrow> \<exists>claims. cache_route_guard A D show_value now d c = Proceed (with_identity claims c)"
    and "\<not> admin_request A T show_value now c \<Longrightarrow>
      \<exists>st e. cache_route_guard A D show_value now d c = Abort st e \<and> st \<in> {400, 401, 403, 500}"
proof -
  let ?mw = "AuthzMiddleware A now \<lparr>ac_Role = '''', ac_Permissions = []\<rparr> c"
  show "\<exists>claims. cache_route_guard A D show_value now d c = Proceed (with_identity claims c)"
    if a: "admin_request A T show_value now c"
  proof -
    obtain claims u where c: "presented_claims A now c = Some claims" "admits now no_requirements claims"
        "uuid_FromString (ae_uuid A) (user_id_text show_value (claims_get claims ''user_id'')) = Some u" "holds_role T u ''admin''"
      using a by (auto simp: admin_request_def)
    then have "?mw = Proceed (with_identity claims c)" by (simp add: AuthzMiddleware_cases no_requirements_def)
    moreover have "adminOnlyMiddleware (ae_uuid A) D show_value (with_identity claims c) d = Proceed (with_identity claims c)"
      using c(3,4) by (simp add: adminOnly_Proceed [OF assms])
    ultimately show ?thesis by (auto simp: cache_route_guard_def)
  qed
  show "\<exists>st e. cache_route_guard A D show_value now d c = Abort st e \<and> st \<in> {400, 401, 403, 500}"
    if a: "\<not> admin_request A T show_value now c"
  proof (cases "\<exists>claims. presented_claims A now c = Some claims \<and> admits now no_requirements claims")
    case False
    then have "\<exists>st e. ?mw = Abort st e \<and> st \<in> {401, 403}"
      by (auto simp: AuthzMiddleware_cases no_requirements_def split: option.splits)
    then show ?thesis by (auto simp: cache_route_guard_def)
  next
    case True
    then obtain claims where c: "presented_claims A now c = Some claims" "admits now no_requirements claims" by blast
    then have p: "?mw = Proceed (with_identity claims c)" by (simp add: AuthzMiddleware_cases no_requirements_def)
    have "adminOnlyMiddleware (ae_uuid A) D show_value (with_identity claims c) d \<noteq> Proceed (with_identity claims c)"
      using a c by (auto simp: adminOnly_Proceed [OF assms] admin_request_def)
    then have "\<exists>st e. adminOnlyMiddleware (ae_uuid A) D show_value (with_identity claims c) d = Abort st e \<and> st \<in> {400, 401, 403, 500}"
      by (auto simp: adminOnlyMiddleware_def split: option.splits prod.splits if_splits)
    then show ?thesis by (simp add: cache_route_guard_def p)
  qed
qed

text \<open>
  C32: Who is no administrator gets an error from every cache route, and neither the manager, nor the cache,
  nor Redis is touched; an administrator's request reaches its handler.
\<close>

theorem only_admins_manage_the_cache:
  assumes "authz_reads D T d"
  shows "if admin_request A T show_value now c
    then \<exists>c'. serve_cache A D show_value d R J C now now' route c app = cache_handler R J C now now' route c' app \<and>
           gc_param c' = gc_param c
    else \<exists>st e. serve_cache A D show_value d R J C now now' route c app = [(RespondError st e, app)] \<and> st \<in> {400, 401, 403, 500}"
  using guard_admin [OF assms, of A show_value now c]
  by (cases "admin_request A T show_value now c") (auto simp: serve_cache_def)

text \<open>
  An administrator who posts a batch of priority 1 to the integrated manager is told that as many keys as
  were sent are enqueued, and the only job in the pool is one for the key \<open><nil>\<close>.
\<close>

theorem batch_endpoint_warms_nil_key:
  assumes "ca_manager app = Some ucm" and "ucm_useIntegrated ucm" and "ucm_integratedWarmer ucm = Some icw"
    and "healthy_pool (sy_pool (icw_pool icw))" and "pool_room (sy_pool (icw_pool icw)) > 0" and "local_queue icw = []"
  shows "\<exists>icw'. cache_handler R J C now now' (Post_batch (Inr \<lparr>br_Keys = keys, br_Data = data, br_Priority = 1\<rparr>)) c app =
      [(Respond 202 (Batch_enqueued (length keys) 1),
        app\<lparr>ca_manager := Some (ucm\<lparr>ucm_integratedWarmer := Some icw'\<rparr>)\<rparr>)] \<and>
    map wj_Key (local_queue icw') = [''<nil>'']"
proof -
  obtain icw' where e: "icw_EnqueueBatchWarmupJob R J now now' keys data 1 icw (ca_redis app) = [(Enq_result None, icw', ca_redis app)]"
      "local_queue icw' = local_queue icw @ [\<lparr>wj_Key = ''<nil>'', wj_Data = data, wj_TTL = hour, wj_Priority = 1\<rparr>]"
    using nil_key_batch [of icw 1 R J now now' keys data "ca_redis app"] assms(4,5) by auto
  then show ?thesis using assms
    by (intro exI [of _ icw']) (simp add: cache_handler_def ch_EnqueueBatchJob_def with_manager_def ucm_EnqueueBatchWarmupJob_def on_integrated_def
        manager_reply_def)
qed

section \<open>Concrete requests\<close>

definition ex_cache_app :: "(unit, unit, unit, string \<rightharpoonup> unit go_value, mem_queues) cache_app" where
  "ex_cache_app = \<lparr>ca_manager = Some ex_manager, ca_cache = [''k'' \<mapsto> GNil], ca_redis = ex_queues\<rparr>"

definition ex_cache_ops :: "(nat, unit, string \<rightharpoonup> unit go_value) cache_ops" where
  "ex_cache_ops = \<lparr>co_Delete = (\<lambda>k c. (None, c(k := None))), co_DeletePattern = (\<lambda>p c. (None, Map.empty)), co_Stats = (\<lambda>c. 0)\<rparr>"

definition ex_anonymous :: gin_ctx where
  "ex_anonymous = (ex_ctx [])\<lparr>gc_header := (\<lambda>_. [])\<rparr>"

theorem only_admins_manage_the_cache_witness:
  "\<exists>st e. serve_cache mem_auth_env mem_authz_db (\<lambda>_. []) ex_tables mem_job_redis (ex_codec ex_batch) ex_cache_ops 1 1 Delete_clear
      ex_anonymous ex_cache_app = [(RespondError st e, ex_cache_app)]"
proof -
  have "presented_claims mem_auth_env 1 ex_anonymous = None"
    by (simp add: presented_claims_def ex_anonymous_def has_prefix_def)
  then have "\<not> admin_request mem_auth_env ex_tables (\<lambda>_. []) 1 ex_anonymous" by (simp add: admin_request_def)
  then show ?thesis
    using only_admins_manage_the_cache [OF mem_authz_reads [of ex_tables], of mem_auth_env "\<lambda>_. []" 1 ex_anonymous
        mem_job_redis "ex_codec ex_batch" ex_cache_ops 1 Delete_clear ex_cache_app] by auto
qed

theorem batch_endpoint_warms_nil_key_witness:
  "\<exists>icw'. cache_handler mem_job_redis (ex_codec ex_batch) ex_cache_ops 1 2 (Post_batch (Inr \<lparr>br_Keys = [''a'', ''b''], br_Data = GNil, br_Priority = 1\<rparr>))
      ex_anonymous ex_cache_app =
      [(Respond 202 (Batch_enqueued 2 1), ex_cache_app\<lparr>ca_manager := Some (ex_manager\<lparr>ucm_integratedWarmer := Some icw'\<rparr>)\<rparr>)] \<and>
    map wj_Key (local_queue icw') = [''<nil>'']"
  using batch_endpoint_warms_nil_key [of ex_cache_app ex_manager ex_icw mem_job_redis "ex_codec ex_batch" ex_cache_ops 1 2 "[''a'', ''b'']" GNil]
  by (simp add: ex_cache_app_def ex_manager_def ex_icw_simps numeral_2_eq_2)

end
