(* ===== verification/CircuitBreaker.thy ===== *)
theory CircuitBreaker
  imports Transitions
begin

text \<open>
  The circuit breaker in front of Redis (\<^verbatim>\<open>backend/internal/cache/circuit_breaker.go\<close>).
  \<open>allow\<close>, \<open>recordFailure\<close> and \<open>recordSuccess\<close> each run under the breaker's lock and are one step;
  \<open>Execute\<close> runs the caller's function between two of them without the lock, so concurrent calls
  interleave. The functions read the clock as an argument. \<open>breaker_step\<close> is that interleaving.
  The counters \<open>failureCount\<close> and \<open>successCount\<close> are mathematical integers.
\<close>

section \<open>Data\<close>

datatype cb_state = CircuitBreakerClosed | CircuitBreakerOpen | CircuitBreakerHalfOpen

record circuit_breaker =
  cb_state :: cb_state
  cb_failureCount :: int
  cb_successCount :: int
  cb_lastFailureTime :: instant
  cb_maxFailures :: int
  cb_timeout :: duration
  cb_halfOpenMaxCalls :: int

record cb_config =
  cfg_MaxFailures :: int
  cfg_Timeout :: duration
  cfg_HalfOpenMaxCalls :: int

text \<open>What \<open>Execute\<close> returns: the breaker's own error, or the error of the function.\<close>

datatype 'e cb_error = ErrCircuitBreakerOpen | ErrCall 'e

definition DefaultCircuitBreakerConfig :: cb_config where
  "DefaultCircuitBreakerConfig =
     \<lparr>cfg_MaxFailures = 5, cfg_Timeout = 30 * second, cfg_HalfOpenMaxCalls = 3\<rparr>"

text \<open>Instants count from Go's zero time, so a breaker that never failed has \<open>lastFailureTime = 0\<close>.\<close>

definition NewCircuitBreaker :: "cb_config option \<Rightarrow> circuit_breaker" where
  "NewCircuitBreaker config =
     (let cfg = (case config of None \<Rightarrow> DefaultCircuitBreakerConfig | Some c \<Rightarrow> c)
      in \<lparr>cb_state = CircuitBreakerClosed, cb_failureCount = 0, cb_successCount = 0,
          cb_lastFailureTime = 0, cb_maxFailures = cfg_MaxFailures cfg,
          cb_timeout = cfg_Timeout cfg, cb_halfOpenMaxCalls = cfg_HalfOpenMaxCalls cfg\<rparr>)"

section \<open>Operations\<close>

definition cb_shouldAttemptReset :: "instant \<Rightarrow> circuit_breaker \<Rightarrow> bool" where
  "cb_shouldAttemptReset now cb \<longleftrightarrow> time_sub now (cb_lastFailureTime cb) \<ge> cb_timeout cb"

definition cb_allow :: "instant \<Rightarrow> circuit_breaker \<Rightarrow> bool" where
  "cb_allow now cb =
     (case cb_state cb of
        CircuitBreakerClosed \<Rightarrow> True
      | CircuitBreakerOpen \<Rightarrow> cb_shouldAttemptReset now cb
      | CircuitBreakerHalfOpen \<Rightarrow> cb_successCount cb < cb_halfOpenMaxCalls cb)"

definition cb_recordFailure :: "instant \<Rightarrow> circuit_breaker \<Rightarrow> circuit_breaker" where
  "cb_recordFailure now cb =
     (let cb1 = cb\<lparr>cb_failureCount := cb_failureCount cb + 1, cb_lastFailureTime := now\<rparr>
      in case cb_state cb1 of
           CircuitBreakerClosed \<Rightarrow>
             (if cb_failureCount cb1 \<ge> cb_maxFailures cb1 then cb1\<lparr>cb_state := CircuitBreakerOpen\<rparr> else cb1)
         | CircuitBreakerHalfOpen \<Rightarrow> cb1\<lparr>cb_state := CircuitBreakerOpen, cb_successCount := 0\<rparr>
         | CircuitBreakerOpen \<Rightarrow> cb1)"

definition cb_recordSuccess :: "instant \<Rightarrow> circuit_breaker \<Rightarrow> circuit_breaker" where
  "cb_recordSuccess now cb =
     (case cb_state cb of
        CircuitBreakerClosed \<Rightarrow> cb\<lparr>cb_failureCount := 0\<rparr>
      | CircuitBreakerHalfOpen \<Rightarrow>
          (let cb1 = cb\<lparr>cb_successCount := cb_successCount cb + 1\<rparr>
           in if cb_successCount cb1 \<ge> cb_halfOpenMaxCalls cb1
              then cb1\<lparr>cb_state := CircuitBreakerClosed, cb_failureCount := 0, cb_successCount := 0\<rparr>
              else cb1)
      | CircuitBreakerOpen \<Rightarrow>
          (if cb_shouldAttemptReset now cb
           then cb\<lparr>cb_state := CircuitBreakerHalfOpen, cb_successCount := 1\<rparr> else cb))"

text \<open>
  \<open>Execute(fn)\<close>: \<open>fn\<close> acts on a world \<open>'s\<close> and returns an error or \<^const>\<open>None\<close>. \<open>t\<close> is the instant
  \<open>allow\<close> reads, \<open>t'\<close> the one the recording reads.
\<close>

definition cb_Execute ::
  "instant \<Rightarrow> instant \<Rightarrow> ('s \<Rightarrow> 'e option \<times> 's) \<Rightarrow> circuit_breaker \<Rightarrow> 's \<Rightarrow>
   'e cb_error option \<times> circuit_breaker \<times> 's" where
  "cb_Execute t t' fn cb s =
     (if \<not> cb_allow t cb then (Some ErrCircuitBreakerOpen, cb, s)
      else case fn s of
             (Some e, s') \<Rightarrow> (Some (ErrCall e), cb_recordFailure t' cb, s')
           | (None, s') \<Rightarrow> (None, cb_recordSuccess t' cb, s'))"

definition cb_stateName :: "circuit_breaker \<Rightarrow> string" where
  "cb_stateName cb =
     (case cb_state cb of
        CircuitBreakerOpen \<Rightarrow> ''open''
      | CircuitBreakerHalfOpen \<Rightarrow> ''half-open''
      | CircuitBreakerClosed \<Rightarrow> ''closed'')"

lemmas record_cb_defs = cb_recordFailure_def cb_recordSuccess_def Let_def

section \<open>The interface its clients use\<close>

text \<open>
  A guard either turns a call down, and then neither the guard nor the world changes, or runs it once
  and hands its result on.
\<close>

locale call_guard =
  fixes exec :: "instant \<Rightarrow> instant \<Rightarrow> ('s \<Rightarrow> 'e option \<times> 's) \<Rightarrow> 'g \<Rightarrow> 's \<Rightarrow> 'e cb_error option \<times> 'g \<times> 's"
    and admits :: "instant \<Rightarrow> 'g \<Rightarrow> bool"
  assumes exec_rejected: "\<not> admits t g \<Longrightarrow> exec t t' f g s = (Some ErrCircuitBreakerOpen, g, s)"
    and exec_admitted: "admits t g \<Longrightarrow>
      \<exists>g'. exec t t' f g s = (map_option ErrCall (fst (f s)), g', snd (f s))"
begin

lemma world_cases: "snd (snd (exec t t' f g s)) = (if admits t g then snd (f s) else s)"
  using exec_rejected [of t g t' f s] exec_admitted [of t g t' f s] by (cases "admits t g") auto

lemma error_cases:
  "fst (exec t t' f g s) =
     (if admits t g then map_option ErrCall (fst (f s)) else Some ErrCircuitBreakerOpen)"
  using exec_rejected [of t g t' f s] exec_admitted [of t g t' f s] by (cases "admits t g") auto

lemma world_invariant: "I s \<Longrightarrow> (\<And>s. I s \<Longrightarrow> I (snd (f s))) \<Longrightarrow> I (snd (snd (exec t t' f g s)))"
  by (simp add: world_cases)

lemma success_ran: "fst (exec t t' f g s) = None \<longleftrightarrow> admits t g \<and> fst (f s) = None"
  by (simp add: error_cases)

end

interpretation cb: call_guard cb_Execute cb_allow
  by unfold_locales (auto simp: cb_Execute_def split: prod.splits option.splits)

section \<open>Invariant of the interleaved breaker\<close>

text \<open>
  \<open>Execute\<close> calls in flight, the breaker and the clock. A call is admitted, and later records its
  failure or success; any calls of any number of goroutines may be in flight.
\<close>

record breaker_sys =
  bs_cb :: circuit_breaker
  bs_inflight :: nat
  bs_now :: instant

inductive breaker_step :: "breaker_sys \<Rightarrow> breaker_sys \<Rightarrow> bool" where
  tick: "bs_now s \<le> t \<Longrightarrow> breaker_step s (s\<lparr>bs_now := t\<rparr>)"
| admit: "cb_allow (bs_now s) (bs_cb s) \<Longrightarrow> breaker_step s (s\<lparr>bs_inflight := Suc (bs_inflight s)\<rparr>)"
| fail: "bs_inflight s = Suc n \<Longrightarrow>
    breaker_step s (s\<lparr>bs_cb := cb_recordFailure (bs_now s) (bs_cb s), bs_inflight := n\<rparr>)"
| succeed: "bs_inflight s = Suc n \<Longrightarrow>
    breaker_step s (s\<lparr>bs_cb := cb_recordSuccess (bs_now s) (bs_cb s), bs_inflight := n\<rparr>)"

inductive_cases breaker_stepE: "breaker_step s s'"

inductive breaker_reach :: "cb_config option \<Rightarrow> breaker_sys \<Rightarrow> bool" for cfg where
  start: "0 \<le> t \<Longrightarrow> breaker_reach cfg \<lparr>bs_cb = NewCircuitBreaker cfg, bs_inflight = 0, bs_now = t\<rparr>"
| step: "breaker_reach cfg s \<Longrightarrow> breaker_step s s' \<Longrightarrow> breaker_reach cfg s'"

definition cb_inv :: "circuit_breaker \<Rightarrow> bool" where
  "cb_inv cb \<longleftrightarrow> 0 \<le> cb_failureCount cb \<and>
     (case cb_state cb of
        CircuitBreakerClosed \<Rightarrow> cb_successCount cb = 0 \<and>
          (cb_failureCount cb < cb_maxFailures cb \<or> cb_failureCount cb = 0)
      | CircuitBreakerOpen \<Rightarrow> 1 \<le> cb_failureCount cb \<and> cb_successCount cb = 0
      | CircuitBreakerHalfOpen \<Rightarrow> 1 \<le> cb_failureCount cb \<and> 1 \<le> cb_successCount cb \<and>
          (cb_successCount cb < cb_halfOpenMaxCalls cb \<or> cb_successCount cb = 1))"

lemma cb_New_inv [inv_intros]: "cb_inv (NewCircuitBreaker cfg)"
  by (simp add: cb_inv_def NewCircuitBreaker_def Let_def)

lemma cb_recordFailure_inv [inv_intros]: "cb_inv cb \<Longrightarrow> cb_inv (cb_recordFailure now cb)"
  by (auto simp: cb_inv_def record_cb_defs split: cb_state.splits)

lemma cb_recordSuccess_inv [inv_intros]: "cb_inv cb \<Longrightarrow> cb_inv (cb_recordSuccess now cb)"
  by (auto simp: cb_inv_def record_cb_defs split: cb_state.splits)

lemma cb_record_config [simp]:
  "cb_maxFailures (cb_recordFailure now cb) = cb_maxFailures cb"
  "cb_timeout (cb_recordFailure now cb) = cb_timeout cb"
  "cb_halfOpenMaxCalls (cb_recordFailure now cb) = cb_halfOpenMaxCalls cb"
  "cb_maxFailures (cb_recordSuccess now cb) = cb_maxFailures cb"
  "cb_timeout (cb_recordSuccess now cb) = cb_timeout cb"
  "cb_halfOpenMaxCalls (cb_recordSuccess now cb) = cb_halfOpenMaxCalls cb"
  by (auto simp: record_cb_defs split: cb_state.splits)

lemma cb_lastFailureTime_record [simp]:
  "cb_lastFailureTime (cb_recordFailure now cb) = now"
  "cb_lastFailureTime (cb_recordSuccess now cb) = cb_lastFailureTime cb"
  by (auto simp: record_cb_defs split: cb_state.splits)

definition bs_inv :: "cb_config option \<Rightarrow> breaker_sys \<Rightarrow> bool" where
  "bs_inv cfg s \<longleftrightarrow> cb_inv (bs_cb s) \<and> cb_lastFailureTime (bs_cb s) \<le> bs_now s \<and>
     cb_maxFailures (bs_cb s) = cb_maxFailures (NewCircuitBreaker cfg) \<and>
     cb_timeout (bs_cb s) = cb_timeout (NewCircuitBreaker cfg) \<and>
     cb_halfOpenMaxCalls (bs_cb s) = cb_halfOpenMaxCalls (NewCircuitBreaker cfg)"

lemma breaker_step_inv: "breaker_step s s' \<Longrightarrow> bs_inv cfg s \<Longrightarrow> bs_inv cfg s'"
  by (erule breaker_stepE) (auto simp: bs_inv_def intro: inv_intros)

interpretation breaker: kept_invariant breaker_step "bs_inv cfg" for cfg
  by unfold_locales (blast intro: breaker_step_inv)

text \<open>
  C18: Whatever the interleaving of concurrent calls, a reachable breaker is consistent: closed, its
  failure count is below the limit and its success count zero; open, it has seen a failure and its
  success count is zero; half-open, its success count is at least one and, beyond the first, below the
  number that closes it. Its configuration never changes and its last failure is not in the future.
\<close>

theorem breaker_reachable_invariant:
  assumes "breaker_reach cfg s"
  shows "bs_inv cfg s"
  using assms
proof (induction rule: breaker_reach.induct)
  case (start t)
  then show ?case by (simp add: bs_inv_def cb_New_inv) (simp add: NewCircuitBreaker_def Let_def)
next
  case (step s s')
  then show ?case by (blast intro: breaker.kept)
qed

theorem breaker_reachable_invariant_witness:
  "bs_inv None \<lparr>bs_cb = cb_recordFailure 4 (NewCircuitBreaker None), bs_inflight = 0, bs_now = 4\<rparr>"
proof -
  let ?s0 = "\<lparr>bs_cb = NewCircuitBreaker None, bs_inflight = 0, bs_now = 4\<rparr>"
  let ?s1 = "\<lparr>bs_cb = NewCircuitBreaker None, bs_inflight = Suc 0, bs_now = 4\<rparr>"
  have "breaker_reach None ?s0" by (rule breaker_reach.start) simp
  moreover have "breaker_step ?s0 ?s1"
    using breaker_step.admit [of ?s0] by (simp add: cb_allow_def NewCircuitBreaker_def Let_def)
  moreover have "breaker_step ?s1 \<lparr>bs_cb = cb_recordFailure 4 (NewCircuitBreaker None), bs_inflight = 0, bs_now = 4\<rparr>"
    using breaker_step.fail [of ?s1 0] by simp
  ultimately have "breaker_reach None
      \<lparr>bs_cb = cb_recordFailure 4 (NewCircuitBreaker None), bs_inflight = 0, bs_now = 4\<rparr>"
    by (meson breaker_reach.step)
  then show ?thesis by (rule breaker_reachable_invariant)
qed

section \<open>Tripping, rejecting and recovering\<close>

text \<open>One \<open>Execute\<close> whose function fails, or succeeds, at the instants \<open>(t, t')\<close> of its two clock readings.\<close>

definition failing_call :: "circuit_breaker \<Rightarrow> instant \<times> instant \<Rightarrow> circuit_breaker" where
  "failing_call cb tt = fst (snd (cb_Execute (fst tt) (snd tt) (\<lambda>u. (Some (), u)) cb ()))"

definition succeeding_call :: "circuit_breaker \<Rightarrow> instant \<times> instant \<Rightarrow> circuit_breaker" where
  "succeeding_call cb tt =
     fst (snd (cb_Execute (fst tt) (snd tt) (\<lambda>u. (None :: unit option, u)) cb ()))"

lemma failing_call_eq:
  "failing_call cb (t, t') = (if cb_allow t cb then cb_recordFailure t' cb else cb)"
  by (simp add: failing_call_def cb_Execute_def)

lemma succeeding_call_eq:
  "succeeding_call cb (t, t') = (if cb_allow t cb then cb_recordSuccess t' cb else cb)"
  by (simp add: succeeding_call_def cb_Execute_def)

lemma failing_call_open: "cb_state cb = CircuitBreakerOpen \<Longrightarrow> cb_state (failing_call cb tt) = CircuitBreakerOpen"
  by (cases tt) (simp add: failing_call_eq record_cb_defs)

lemma failing_calls_open:
  "cb_state cb = CircuitBreakerOpen \<Longrightarrow> cb_state (foldl failing_call cb tts) = CircuitBreakerOpen"
  by (induction tts arbitrary: cb) (auto simp: failing_call_open)

lemma failing_calls_closed:
  "cb_state cb = CircuitBreakerClosed \<Longrightarrow> cb_failureCount cb < cb_maxFailures cb \<Longrightarrow>
   cb_state (foldl failing_call cb tts) =
     (if cb_failureCount cb + int (length tts) < cb_maxFailures cb
      then CircuitBreakerClosed else CircuitBreakerOpen)"
proof (induction tts arbitrary: cb)
  case (Cons tt tts)
  obtain t t' where tt: "tt = (t, t')" by (cases tt)
  have c: "failing_call cb tt = cb_recordFailure t' cb"
    using Cons.prems by (simp add: tt failing_call_eq cb_allow_def)
  show ?case
  proof (cases "cb_failureCount cb + 1 < cb_maxFailures cb")
    case True
    then have "cb_state (cb_recordFailure t' cb) = CircuitBreakerClosed"
      "cb_failureCount (cb_recordFailure t' cb) = cb_failureCount cb + 1"
      using Cons.prems by (simp_all add: record_cb_defs)
    then show ?thesis using Cons.IH [of "cb_recordFailure t' cb"] True c by (simp add: add.assoc)
  next
    case False
    then have "cb_state (cb_recordFailure t' cb) = CircuitBreakerOpen"
      using Cons.prems by (simp add: record_cb_defs)
    then show ?thesis using False c by (simp add: failing_calls_open)
  qed
qed simp

text \<open>
  A new breaker opens exactly at its \<open>maxFailures\<close>-th consecutive failure: after fewer failing
  calls it is closed, after that many or more it is open, whatever the instants of the calls.
\<close>

theorem breaker_trips_at_max_failures:
  assumes "0 < cb_maxFailures (NewCircuitBreaker cfg)"
  shows "cb_state (foldl failing_call (NewCircuitBreaker cfg) tts) =
    (if int (length tts) < cb_maxFailures (NewCircuitBreaker cfg)
     then CircuitBreakerClosed else CircuitBreakerOpen)"
  using failing_calls_closed [of "NewCircuitBreaker cfg" tts] assms
  by (simp add: NewCircuitBreaker_def Let_def)

theorem breaker_trips_at_max_failures_witness:
  "cb_state (foldl failing_call (NewCircuitBreaker None) [(1,1),(2,2),(3,3),(4,4)]) = CircuitBreakerClosed \<and>
   cb_state (foldl failing_call (NewCircuitBreaker None) [(1,1),(2,2),(3,3),(4,4),(5,5)]) = CircuitBreakerOpen"
  using breaker_trips_at_max_failures [of None "[(1,1),(2,2),(3,3),(4,4)]"]
    breaker_trips_at_max_failures [of None "[(1,1),(2,2),(3,3),(4,4),(5,5)]"]
  by (simp add: NewCircuitBreaker_def DefaultCircuitBreakerConfig_def)

lemma succeeding_calls_half_open:
  assumes "cb_state cb = CircuitBreakerHalfOpen" and "cb_successCount cb < cb_halfOpenMaxCalls cb"
  shows "cb_state (foldl succeeding_call cb tts) =
      (if cb_successCount cb + int (length tts) < cb_halfOpenMaxCalls cb
       then CircuitBreakerHalfOpen else CircuitBreakerClosed)"
  using assms
proof (induction tts arbitrary: cb)
  case (Cons tt tts)
  obtain t t' where tt: "tt = (t, t')" by (cases tt)
  have c: "succeeding_call cb tt = cb_recordSuccess t' cb"
    using Cons.prems by (simp add: tt succeeding_call_eq cb_allow_def)
  have closed: "cb_state (foldl succeeding_call cb' tts) = CircuitBreakerClosed"
    if "cb_state cb' = CircuitBreakerClosed" for cb'
    using that
    by (induction tts arbitrary: cb')
      (auto simp: succeeding_call_eq cb_recordSuccess_def)
  show ?case
  proof (cases "cb_successCount cb + 1 < cb_halfOpenMaxCalls cb")
    case True
    then have "cb_state (cb_recordSuccess t' cb) = CircuitBreakerHalfOpen"
      "cb_successCount (cb_recordSuccess t' cb) = cb_successCount cb + 1"
      using Cons.prems by (simp_all add: record_cb_defs)
    then show ?thesis using Cons.IH [of "cb_recordSuccess t' cb"] True c by (simp add: add.assoc)
  next
    case False
    then have "cb_state (cb_recordSuccess t' cb) = CircuitBreakerClosed"
      using Cons.prems by (simp add: record_cb_defs)
    then show ?thesis using False c closed by simp
  qed
qed simp

text \<open>
  C19: Recovery of a breaker whose \<open>halfOpenMaxCalls\<close> is at least two (the default is three; with one it never closes).
  If it is open and gets a call after its timeout, and that call and the following ones
  succeed, it is half-open until \<open>halfOpenMaxCalls\<close> calls have succeeded and closed from then on.
\<close>

theorem breaker_recovers:
  assumes "cb_state cb = CircuitBreakerOpen" and "2 \<le> cb_halfOpenMaxCalls cb"
    and "cb_shouldAttemptReset t cb" and "t \<le> t'"
  shows "cb_state (foldl succeeding_call cb ((t, t') # tts)) =
    (if int (length tts) + 1 < cb_halfOpenMaxCalls cb
     then CircuitBreakerHalfOpen else CircuitBreakerClosed)"
proof -
  have r: "cb_shouldAttemptReset t' cb"
    using assms(3) time_sub_mono [OF assms(4), of "cb_lastFailureTime cb"]
    by (simp add: cb_shouldAttemptReset_def)
  let ?cb = "cb_recordSuccess t' cb"
  have 1: "succeeding_call cb (t, t') = ?cb"
    using assms by (simp add: succeeding_call_eq cb_allow_def)
  have 2: "cb_state ?cb = CircuitBreakerHalfOpen" "cb_successCount ?cb = 1"
    using assms r by (simp_all add: record_cb_defs)
  show ?thesis using succeeding_calls_half_open [of ?cb tts] 2 assms(2)
    by (simp add: 1 add.commute)
qed

theorem breaker_recovers_witness:
  "cb_state (foldl succeeding_call
     (foldl failing_call (NewCircuitBreaker None) [(1,1),(2,2),(3,3),(4,4),(5,5)])
     [(5 + 30 * second, 5 + 30 * second), (6 + 30 * second, 6 + 30 * second), (7 + 30 * second, 7 + 30 * second)])
   = CircuitBreakerClosed"
proof -
  let ?cb = "foldl failing_call (NewCircuitBreaker None) [(1,1),(2,2),(3,3),(4,4),(5,5)]"
  have cb: "?cb = (NewCircuitBreaker None)\<lparr>cb_state := CircuitBreakerOpen, cb_failureCount := 5, cb_lastFailureTime := 5\<rparr>"
    by (simp add: NewCircuitBreaker_def DefaultCircuitBreakerConfig_def failing_call_eq cb_allow_def record_cb_defs)
  have "cb_shouldAttemptReset (5 + 30 * second) ?cb"
    unfolding cb by (simp add: cb_shouldAttemptReset_def NewCircuitBreaker_def DefaultCircuitBreakerConfig_def
        time_sub_def max_duration_def second_def)
  then show ?thesis
    using breaker_recovers [of ?cb "5 + 30 * second" "5 + 30 * second"
        "[(6 + 30 * second, 6 + 30 * second), (7 + 30 * second, 7 + 30 * second)]"]
    unfolding cb by (simp add: NewCircuitBreaker_def DefaultCircuitBreakerConfig_def)
qed

text \<open>
  While it is open and its timeout has not passed, the breaker runs nothing: \<open>Execute\<close> returns
  \<open>ErrCircuitBreakerOpen\<close>, the function's world and the breaker are unchanged.
\<close>

theorem breaker_open_rejects:
  assumes "cb_state cb = CircuitBreakerOpen" and "time_sub t (cb_lastFailureTime cb) < cb_timeout cb"
  shows "cb_Execute t t' fn cb s = (Some ErrCircuitBreakerOpen, cb, s)"
  using assms by (simp add: cb_Execute_def cb_allow_def cb_shouldAttemptReset_def)

theorem breaker_open_rejects_witness:
  "cb_Execute 7 8 (\<lambda>n. (None, n + 1)) ((NewCircuitBreaker None)\<lparr>cb_state := CircuitBreakerOpen, cb_lastFailureTime := 5\<rparr>) (0::nat)
   = (Some (ErrCircuitBreakerOpen :: unit cb_error),
      (NewCircuitBreaker None)\<lparr>cb_state := CircuitBreakerOpen, cb_lastFailureTime := 5\<rparr>, 0)"
  by (rule breaker_open_rejects)
    (simp_all add: NewCircuitBreaker_def DefaultCircuitBreakerConfig_def time_sub_def max_duration_def second_def)

section \<open>Two corners of the half-open state\<close>

text \<open>
  A breaker with \<open>halfOpenMaxCalls \<le> 1\<close> that has become half-open admits no call any more, and without
  calls in flight nothing but the clock can change it.
\<close>

definition cb_stuck :: "breaker_sys \<Rightarrow> bool" where
  "cb_stuck s \<longleftrightarrow> cb_state (bs_cb s) = CircuitBreakerHalfOpen \<and>
     cb_halfOpenMaxCalls (bs_cb s) \<le> cb_successCount (bs_cb s) \<and> bs_inflight s = 0"

lemma cb_stuck_step: "breaker_step s s' \<Longrightarrow> cb_stuck s \<Longrightarrow> cb_stuck s' \<and> bs_cb s' = bs_cb s"
  by (erule breaker_stepE) (auto simp: cb_stuck_def cb_allow_def)

interpretation stuck: kept_invariant breaker_step cb_stuck
  by unfold_locales (simp add: cb_stuck_step)

text \<open>
  With \<open>halfOpenMaxCalls = 1\<close> the breaker never closes again: the successful call that makes it
  half-open already uses up its only probe, and from then on, with no call in flight, every later state
  is half-open and rejects every call.
\<close>

theorem half_open_max_one_is_stuck:
  assumes "cb_state (bs_cb s) = CircuitBreakerOpen" and "cb_halfOpenMaxCalls (bs_cb s) = 1"
    and "cb_shouldAttemptReset (bs_now s) (bs_cb s)"
    and "breaker_step\<^sup>*\<^sup>* (s\<lparr>bs_cb := cb_recordSuccess (bs_now s) (bs_cb s), bs_inflight := 0\<rparr>) s'"
  shows "cb_state (bs_cb s') = CircuitBreakerHalfOpen \<and> \<not> cb_allow t (bs_cb s')"
proof -
  have "cb_stuck (s\<lparr>bs_cb := cb_recordSuccess (bs_now s) (bs_cb s), bs_inflight := 0\<rparr>)"
    using assms(1-3) by (simp add: cb_stuck_def record_cb_defs)
  then have "cb_stuck s'" by (rule stuck.along [OF assms(4)])
  then show ?thesis by (auto simp: cb_stuck_def cb_allow_def)
qed

theorem half_open_max_one_is_stuck_witness:
  "\<not> cb_allow 100 (bs_cb (\<lparr>bs_cb = cb_recordSuccess 9
      ((NewCircuitBreaker (Some \<lparr>cfg_MaxFailures = 1, cfg_Timeout = 2, cfg_HalfOpenMaxCalls = 1\<rparr>))
        \<lparr>cb_state := CircuitBreakerOpen\<rparr>), bs_inflight = 0, bs_now = 9\<rparr>))"
  using half_open_max_one_is_stuck
    [of "\<lparr>bs_cb = (NewCircuitBreaker (Some \<lparr>cfg_MaxFailures = 1, cfg_Timeout = 2, cfg_HalfOpenMaxCalls = 1\<rparr>))
        \<lparr>cb_state := CircuitBreakerOpen\<rparr>, bs_inflight = 1, bs_now = 9\<rparr>"
      "\<lparr>bs_cb = cb_recordSuccess 9
      ((NewCircuitBreaker (Some \<lparr>cfg_MaxFailures = 1, cfg_Timeout = 2, cfg_HalfOpenMaxCalls = 1\<rparr>))
        \<lparr>cb_state := CircuitBreakerOpen\<rparr>), bs_inflight = 0, bs_now = 9\<rparr>" 100]
  by (simp add: NewCircuitBreaker_def cb_shouldAttemptReset_def time_sub_def max_duration_def)

text \<open>
  The half-open limit does not bound concurrent probes: an open breaker whose timeout has passed
  admits any number of calls before the first of them returns, since admission changes no state.
\<close>

theorem open_after_timeout_admits_any_number:
  assumes "breaker_reach cfg s" and "cb_state (bs_cb s) = CircuitBreakerOpen"
    and "cb_shouldAttemptReset (bs_now s) (bs_cb s)"
  shows "breaker_reach cfg (s\<lparr>bs_inflight := bs_inflight s + n\<rparr>)"
proof (induction n)
  case 0 then show ?case using assms(1) by simp
next
  case (Suc n)
  have "breaker_step (s\<lparr>bs_inflight := bs_inflight s + n\<rparr>) (s\<lparr>bs_inflight := bs_inflight s + Suc n\<rparr>)"
    using breaker_step.admit [of "s\<lparr>bs_inflight := bs_inflight s + n\<rparr>"] assms(2,3) by (simp add: cb_allow_def)
  with Suc.IH show ?case by (rule breaker_reach.step)
qed

theorem open_after_timeout_admits_any_number_witness:
  "breaker_reach (Some \<lparr>cfg_MaxFailures = 1, cfg_Timeout = 0, cfg_HalfOpenMaxCalls = 3\<rparr>)
     \<lparr>bs_cb = cb_recordFailure 4 (NewCircuitBreaker (Some \<lparr>cfg_MaxFailures = 1, cfg_Timeout = 0, cfg_HalfOpenMaxCalls = 3\<rparr>)),
      bs_inflight = 1000, bs_now = 4\<rparr>"
proof -
  let ?cfg = "Some \<lparr>cfg_MaxFailures = 1, cfg_Timeout = 0, cfg_HalfOpenMaxCalls = 3\<rparr>"
  let ?s = "\<lambda>cb n. \<lparr>bs_cb = cb, bs_inflight = n, bs_now = 4\<rparr>"
  have "breaker_reach ?cfg (?s (NewCircuitBreaker ?cfg) 0)" by (rule breaker_reach.start) simp
  moreover have "breaker_step (?s (NewCircuitBreaker ?cfg) 0) (?s (NewCircuitBreaker ?cfg) (Suc 0))"
    using breaker_step.admit [of "?s (NewCircuitBreaker ?cfg) 0"]
    by (simp add: cb_allow_def NewCircuitBreaker_def Let_def)
  moreover have "breaker_step (?s (NewCircuitBreaker ?cfg) (Suc 0)) (?s (cb_recordFailure 4 (NewCircuitBreaker ?cfg)) 0)"
    using breaker_step.fail [of "?s (NewCircuitBreaker ?cfg) (Suc 0)" 0] by simp
  ultimately have "breaker_reach ?cfg (?s (cb_recordFailure 4 (NewCircuitBreaker ?cfg)) 0)"
    by (meson breaker_reach.step)
  from open_after_timeout_admits_any_number [OF this, of 1000] show ?thesis
    by (simp add: NewCircuitBreaker_def record_cb_defs cb_shouldAttemptReset_def time_sub_def max_duration_def)
qed

end
