(* ===== verification/CacheMetrics.thy ===== *)
theory CacheMetrics
  imports GoPrelude Complex_Main
begin

text \<open>
  The cache counters (\<^verbatim>\<open>backend/internal/cache/metrics.go\<close>). Every counter is an atomic
  \<open>int64\<close>, so it wraps; each \<open>Record\<close> is one atomic step. \<open>HitRate\<close> is the exact quotient, without
  the rounding of \<open>float64\<close>.
\<close>

record cache_metrics =
  cm_Hits :: int64
  cm_Misses :: int64
  cm_Errors :: int64
  cm_Sets :: int64
  cm_Deletes :: int64
  cm_StartTime :: instant

definition NewCacheMetrics :: "instant \<Rightarrow> cache_metrics" where
  "NewCacheMetrics now =
     \<lparr>cm_Hits = 0, cm_Misses = 0, cm_Errors = 0, cm_Sets = 0, cm_Deletes = 0, cm_StartTime = now\<rparr>"

definition RecordHit :: "cache_metrics \<Rightarrow> cache_metrics" where
  "RecordHit m = m\<lparr>cm_Hits := cm_Hits m + 1\<rparr>"

definition RecordMiss :: "cache_metrics \<Rightarrow> cache_metrics" where
  "RecordMiss m = m\<lparr>cm_Misses := cm_Misses m + 1\<rparr>"

definition RecordError :: "cache_metrics \<Rightarrow> cache_metrics" where
  "RecordError m = m\<lparr>cm_Errors := cm_Errors m + 1\<rparr>"

definition RecordSet :: "cache_metrics \<Rightarrow> cache_metrics" where
  "RecordSet m = m\<lparr>cm_Sets := cm_Sets m + 1\<rparr>"

definition RecordDelete :: "cache_metrics \<Rightarrow> cache_metrics" where
  "RecordDelete m = m\<lparr>cm_Deletes := cm_Deletes m + 1\<rparr>"

definition HitRate :: "cache_metrics \<Rightarrow> real" where
  "HitRate m =
     (let hits = cm_Hits m; misses = cm_Misses m; total = hits + misses
      in if total = 0 then 0 else real_of_int (sint hits) / real_of_int (sint total) * 100)"

definition metrics_Reset :: "instant \<Rightarrow> cache_metrics \<Rightarrow> cache_metrics" where
  "metrics_Reset now m =
     m\<lparr>cm_Hits := 0, cm_Misses := 0, cm_Errors := 0, cm_Sets := 0, cm_Deletes := 0, cm_StartTime := now\<rparr>"

lemmas record_defs = RecordHit_def RecordMiss_def RecordError_def RecordSet_def RecordDelete_def

text \<open>While the counters have not wrapped, the hit rate is a percentage.\<close>

lemma HitRate_percentage:
  assumes "0 \<le> sint (cm_Hits m)" and "0 \<le> sint (cm_Misses m)"
    and "sint (cm_Hits m) + sint (cm_Misses m) < 2 ^ 63"
  shows "0 \<le> HitRate m \<and> HitRate m \<le> 100"
proof -
  have s: "sint (cm_Hits m + cm_Misses m) = sint (cm_Hits m) + sint (cm_Misses m)"
    using assms by (simp add: sint_word_add signed_take_bit_int_eq_self)
  show ?thesis
  proof (cases "cm_Hits m + cm_Misses m = 0")
    case False
    then have "sint (cm_Hits m + cm_Misses m) \<noteq> 0" by (metis signed_0 signed_word_eqI)
    then have "0 < sint (cm_Hits m) + sint (cm_Misses m)" using assms(1,2) s by linarith
    then show ?thesis using False assms(1,2)
      by (simp add: HitRate_def Let_def s field_simps del: of_int_sint)
  qed (simp add: HitRate_def)
qed

end
