(* ===== verification/MultiLevelCache.thy ===== *)
theory MultiLevelCache
  imports RedisCache CircuitBreaker CacheMetrics
begin

text \<open>
  The two-level cache (\<^verbatim>\<open>backend/internal/cache/multilevel.go\<close>): the memory level, an optional Redis
  level behind the circuit breaker, and the counters. \<open>now\<close> is the clock when an operation starts
  and asks the breaker, \<open>now'\<close> the clock when the Redis call returns. Values read from Redis are
  put into the memory level as values; the source puts the caller's pointer there. The cache warmer
  the struct also holds is modelled with the warmer.
\<close>

section \<open>Data\<close>

record ('v, 'r) multi_level_cache =
  mlc_l1 :: "'v memory_cache"
  mlc_l2 :: "'r option"
  mlc_metrics :: cache_metrics
  mlc_cb :: circuit_breaker

text \<open>The parameters: the JSON codec and the Redis client.\<close>

record ('v, 'ty, 'r) cache_env =
  ce_codec :: "('v, 'ty) codec"
  ce_redis :: "'r redis_client"

definition NewMultiLevelCache :: "instant \<Rightarrow> 'r option \<Rightarrow> ('v, 'r) multi_level_cache" where
  "NewMultiLevelCache now redisCache =
     \<lparr>mlc_l1 = NewMemoryCache, mlc_l2 = redisCache, mlc_metrics = NewCacheMetrics now,
      mlc_cb = NewCircuitBreaker (Some DefaultCircuitBreakerConfig)\<rparr>"

section \<open>Operations\<close>

definition copyValueViaJSON :: "('v, 'ty) codec \<Rightarrow> 'v \<Rightarrow> 'ty dest \<Rightarrow> cache_error + 'v" where
  "copyValueViaJSON J src dest =
     (case marshal J src of
        None \<Rightarrow> Inl ErrMarshal
      | Some jsonData \<Rightarrow>
          (case unmarshal_dest J dest jsonData of None \<Rightarrow> Inl ErrUnmarshal | Some v \<Rightarrow> Inr v))"

definition copyValue :: "('v, 'ty) codec \<Rightarrow> 'v \<Rightarrow> 'ty dest \<Rightarrow> cache_error + 'v" where
  "copyValue J src dest =
     (case dest of
        DestNotPtr \<Rightarrow> Inl ErrDestNotPointer
      | DestNilPtr \<Rightarrow> Inl ErrDestNil
      | DestPtr ty \<Rightarrow> copyValueViaJSON J src dest)"

definition breaker_error :: "cache_error cb_error \<Rightarrow> cache_error" where
  "breaker_error e = (case e of ErrCircuitBreakerOpen \<Rightarrow> ErrBreaker | ErrCall x \<Rightarrow> x)"

definition mlc_Set ::
  "('v, 'ty, 'r) cache_env \<Rightarrow> instant \<Rightarrow> instant \<Rightarrow> string \<Rightarrow> 'v \<Rightarrow> duration \<Rightarrow> ('v, 'r) multi_level_cache \<Rightarrow>
   cache_error option \<times> ('v, 'r) multi_level_cache" where
  "mlc_Set E now now' key value ttl c =
     (let c1 = c\<lparr>mlc_l1 := mc_Set now key value ttl (mlc_l1 c), mlc_metrics := RecordSet (mlc_metrics c)\<rparr>
      in case mlc_l2 c1 of
           None \<Rightarrow> (None, c1)
         | Some r \<Rightarrow>
             (case cb_Execute now now' (rds_Set (ce_codec E) (ce_redis E) now key value ttl) (mlc_cb c1) r of
                (err, cb', r') \<Rightarrow>
                  let c2 = c1\<lparr>mlc_l2 := Some r', mlc_cb := cb'\<rparr>
                  in if err \<noteq> None then (None, c2\<lparr>mlc_metrics := RecordError (mlc_metrics c2)\<rparr>)
                     else (None, c2)))"

text \<open>The function \<open>Get\<close> gives to the breaker: it also fills the memory level on a Redis hit.\<close>

definition mlc_l2_get ::
  "('v, 'ty, 'r) cache_env \<Rightarrow> instant \<Rightarrow> instant \<Rightarrow> string \<Rightarrow> 'ty dest \<Rightarrow>
   'r \<times> 'v memory_cache \<times> 'v option \<Rightarrow> cache_error option \<times> 'r \<times> 'v memory_cache \<times> 'v option" where
  "mlc_l2_get E now now' key dest s =
     (case s of (r, l1, hit) \<Rightarrow>
        case rds_Get (ce_codec E) (ce_redis E) now key dest r of
          (Inl e, r') \<Rightarrow> (Some e, r', l1, hit)
        | (Inr v, r') \<Rightarrow> (None, r', mc_Set now' key v (5 * minute) l1, Some v))"

definition mlc_miss :: "('v, 'r) multi_level_cache \<Rightarrow> (cache_error + 'v) \<times> ('v, 'r) multi_level_cache" where
  "mlc_miss c = (Inl ErrCacheMiss, c\<lparr>mlc_metrics := RecordMiss (mlc_metrics c)\<rparr>)"

definition mlc_Get ::
  "('v, 'ty, 'r) cache_env \<Rightarrow> instant \<Rightarrow> instant \<Rightarrow> string \<Rightarrow> 'ty dest \<Rightarrow> ('v, 'r) multi_level_cache \<Rightarrow>
   (cache_error + 'v) \<times> ('v, 'r) multi_level_cache" where
  "mlc_Get E now now' key dest c =
     (case mc_Get now key (mlc_l1 c) of
        (Some value, l1') \<Rightarrow>
          (copyValue (ce_codec E) value dest,
           c\<lparr>mlc_l1 := l1', mlc_metrics := RecordHit (mlc_metrics c)\<rparr>)
      | (None, l1') \<Rightarrow>
          (case mlc_l2 c of
             None \<Rightarrow> mlc_miss (c\<lparr>mlc_l1 := l1'\<rparr>)
           | Some r \<Rightarrow>
               (case cb_Execute now now' (mlc_l2_get E now now' key dest) (mlc_cb c) (r, l1', None) of
                  (err, cb', r', l1'', l2Hit) \<Rightarrow>
                    let c1 = c\<lparr>mlc_l1 := l1'', mlc_l2 := Some r', mlc_cb := cb'\<rparr>
                    in case (err, l2Hit) of
                         (None, Some v) \<Rightarrow> (Inr v, c1\<lparr>mlc_metrics := RecordHit (mlc_metrics c1)\<rparr>)
                       | _ \<Rightarrow>
                           mlc_miss (if err \<noteq> None \<and> err \<noteq> Some (ErrCall ErrCacheMiss)
                                     then c1\<lparr>mlc_metrics := RecordError (mlc_metrics c1)\<rparr> else c1))))"

definition mlc_Delete ::
  "('v, 'ty, 'r) cache_env \<Rightarrow> instant \<Rightarrow> instant \<Rightarrow> string \<Rightarrow> ('v, 'r) multi_level_cache \<Rightarrow>
   cache_error option \<times> ('v, 'r) multi_level_cache" where
  "mlc_Delete E now now' key c =
     (let c1 = c\<lparr>mlc_l1 := mc_Delete key (mlc_l1 c), mlc_metrics := RecordDelete (mlc_metrics c)\<rparr>
      in case mlc_l2 c1 of
           None \<Rightarrow> (None, c1)
         | Some r \<Rightarrow>
             (case cb_Execute now now' (rds_Delete (ce_redis E) now key) (mlc_cb c1) r of
                (err, cb', r') \<Rightarrow>
                  let c2 = c1\<lparr>mlc_l2 := Some r', mlc_cb := cb'\<rparr>
                  in (map_option breaker_error err,
                      if err \<noteq> None then c2\<lparr>mlc_metrics := RecordError (mlc_metrics c2)\<rparr> else c2)))"

definition mlc_DeletePattern ::
  "('v, 'ty, 'r) cache_env \<Rightarrow> instant \<Rightarrow> string \<Rightarrow> ('v, 'r) multi_level_cache \<Rightarrow>
   cache_error option \<times> ('v, 'r) multi_level_cache" where
  "mlc_DeletePattern E now pattern c =
     (let c1 = c\<lparr>mlc_l1 := mc_DeletePattern pattern (mlc_l1 c)\<rparr>
      in case mlc_l2 c1 of
           None \<Rightarrow> (None, c1)
         | Some r \<Rightarrow>
             (case rds_DeletePattern (ce_redis E) now pattern r of (e, r') \<Rightarrow> (e, c1\<lparr>mlc_l2 := Some r'\<rparr>)))"

definition mlc_Exists ::
  "('v, 'ty, 'r) cache_env \<Rightarrow> instant \<Rightarrow> string \<Rightarrow> ('v, 'r) multi_level_cache \<Rightarrow>
   (cache_error + bool) \<times> ('v, 'r) multi_level_cache" where
  "mlc_Exists E now key c =
     (case mc_Get now key (mlc_l1 c) of
        (Some _, l1') \<Rightarrow> (Inr True, c\<lparr>mlc_l1 := l1'\<rparr>)
      | (None, l1') \<Rightarrow>
          (case mlc_l2 c of
             None \<Rightarrow> (Inr False, c\<lparr>mlc_l1 := l1'\<rparr>)
           | Some r \<Rightarrow>
               (case rds_Exists (ce_redis E) now key r of
                  (b, r') \<Rightarrow> (b, c\<lparr>mlc_l1 := l1', mlc_l2 := Some r'\<rparr>))))"

definition mlc_Health ::
  "('v, 'ty, 'r) cache_env \<Rightarrow> instant \<Rightarrow> ('v, 'r) multi_level_cache \<Rightarrow>
   cache_error option \<times> ('v, 'r) multi_level_cache" where
  "mlc_Health E now c =
     (case mlc_l2 c of
        None \<Rightarrow> (None, c)
      | Some r \<Rightarrow> (case rds_Health (ce_redis E) now r of (e, r') \<Rightarrow> (e, c\<lparr>mlc_l2 := Some r'\<rparr>)))"

text \<open>The codec gives back what was encoded, for this value and this destination type.\<close>

definition json_ok :: "('v, 'ty) codec \<Rightarrow> 'ty \<Rightarrow> 'v \<Rightarrow> bool" where
  "json_ok J ty v \<longleftrightarrow> (\<exists>d. marshal J v = Some d \<and> unmarshal J ty d = Some v)"

lemma copyValue_ok: "json_ok J ty v \<Longrightarrow> copyValue J v (DestPtr ty) = Inr v"
  by (auto simp: json_ok_def copyValue_def copyValueViaJSON_def unmarshal_dest_def)

section \<open>The memory level of the results\<close>

lemma l1_Set [cache_laws]: "mlc_l1 (snd (mlc_Set E now now' k v ttl c)) = mc_Set now k v ttl (mlc_l1 c)"
  by (auto simp: mlc_Set_def Let_def split: option.splits prod.splits)

lemma l1_Delete [cache_laws]: "mlc_l1 (snd (mlc_Delete E now now' k c)) = mc_Delete k (mlc_l1 c)"
  by (auto simp: mlc_Delete_def Let_def split: option.splits prod.splits)

lemma l1_DeletePattern [cache_laws]: "mlc_l1 (snd (mlc_DeletePattern E now p c)) = mc_DeletePattern p (mlc_l1 c)"
  by (auto simp: mlc_DeletePattern_def Let_def split: option.splits prod.splits)

lemma mlc_Get_l1_hit:
  "live now (mlc_l1 c) k = Some v \<Longrightarrow>
   fst (mlc_Get E now now' k dest c) = copyValue (ce_codec E) v dest"
  using fst_mc_Get [of now k "mlc_l1 c"] by (auto simp: mlc_Get_def split: prod.splits option.splits)

text \<open>
  C20: Reads see writes. After \<open>Set\<close>, a \<open>Get\<close> within the time to live returns the value, and
  \<open>Set\<close> reports no error, whatever Redis and the circuit breaker do.
\<close>

theorem mlc_read_your_write:
  assumes "t \<le> now + ttl" and "json_ok (ce_codec E) ty v"
  shows "fst (mlc_Set E now now' k v ttl c) = None \<and>
    fst (mlc_Get E t t' k (DestPtr ty) (snd (mlc_Set E now now' k v ttl c))) = Inr v"
proof -
  have "fst (mlc_Set E now now' k v ttl c) = None"
    by (auto simp: mlc_Set_def Let_def split: option.splits prod.splits)
  moreover have "live t (mlc_l1 (snd (mlc_Set E now now' k v ttl c))) k = Some v"
    using assms(1) by (simp add: cache_laws)
  ultimately show ?thesis using assms(2) by (simp add: mlc_Get_l1_hit copyValue_ok)
qed

theorem mlc_read_your_write_witness:
  fixes E :: "(int, unit, mem_server) cache_env"
  defines "E \<equiv> \<lparr>ce_codec = \<lparr>marshal = (\<lambda>v. if v = 7 then Some ''7'' else None),
      unmarshal = (\<lambda>_ s. if s = ''7'' then Some 7 else None)\<rparr>, ce_redis = mem_redis\<rparr>"
  shows "fst (mlc_Get E 8 8 ''k'' (DestPtr ())
    (snd (mlc_Set E 1 2 ''k'' 7 10 (NewMultiLevelCache 0 (Some []))))) = Inr 7"
  using mlc_read_your_write [of 8 1 10 E "()" 7 2 "''k''" "NewMultiLevelCache 0 (Some [])" 8]
  by (simp add: json_ok_def E_def)

section \<open>Counters and errors\<close>

lemma copyValue_not_miss: "copyValue J v dest \<noteq> Inl ErrCacheMiss"
  by (auto simp: copyValue_def copyValueViaJSON_def split: dest.splits option.splits)

definition get_error_ok :: "cache_error + 'v \<Rightarrow> bool" where
  "get_error_ok res =
     (case res of Inr _ \<Rightarrow> True
      | Inl e \<Rightarrow> e \<in> {ErrCacheMiss, ErrMarshal, ErrUnmarshal, ErrDestNotPointer, ErrDestNil})"

lemma copyValue_error_ok: "get_error_ok (copyValue J v dest)"
  by (auto simp: get_error_ok_def copyValue_def copyValueViaJSON_def split: dest.splits option.splits)

text \<open>The three ways a \<open>Get\<close> ends.\<close>

lemma mlc_Get_cases:
  obtains (hit) v l1' where "mc_Get now k (mlc_l1 c) = (Some v, l1')"
      "mlc_Get E now now' k dest c =
        (copyValue (ce_codec E) v dest, c\<lparr>mlc_l1 := l1', mlc_metrics := RecordHit (mlc_metrics c)\<rparr>)"
  | (l2_hit) v l1' r r' where "mc_Get now k (mlc_l1 c) = (None, l1')" "mlc_l2 c = Some r"
      "cb_allow now (mlc_cb c)" "rds_Get (ce_codec E) (ce_redis E) now k dest r = (Inr v, r')"
      "mlc_Get E now now' k dest c = (Inr v, c\<lparr>mlc_l1 := mc_Set now' k v (5 * minute) l1', mlc_l2 := Some r',
        mlc_cb := cb_recordSuccess now' (mlc_cb c), mlc_metrics := RecordHit (mlc_metrics c)\<rparr>)"
  | (miss) l1' l2' cb' m' where "mc_Get now k (mlc_l1 c) = (None, l1')"
      "mlc_Get E now now' k dest c = (Inl ErrCacheMiss,
        c\<lparr>mlc_l1 := l1', mlc_l2 := l2', mlc_cb := cb', mlc_metrics := RecordMiss m'\<rparr>)"
      "m' = mlc_metrics c \<or> m' = RecordError (mlc_metrics c)"
      "l2' = mlc_l2 c \<or> (\<exists>r. mlc_l2 c = Some r \<and> l2' = Some (snd (rds_Get (ce_codec E) (ce_redis E) now k dest r)))"
proof (cases "mc_Get now k (mlc_l1 c)")
  case (Pair v l1')
  show ?thesis
  proof (cases v)
    case (Some a) then show ?thesis using Pair by (intro hit) (auto simp: mlc_Get_def)
  next
    case None
    show ?thesis
    proof (cases "mlc_l2 c")
      case l2: None
      then have "mlc_Get E now now' k dest c = (Inl ErrCacheMiss,
          c\<lparr>mlc_l1 := l1', mlc_l2 := mlc_l2 c, mlc_cb := mlc_cb c, mlc_metrics := RecordMiss (mlc_metrics c)\<rparr>)"
        using Pair None by (simp add: mlc_Get_def mlc_miss_def)
      from miss [OF _ this] show ?thesis using Pair None by simp
    next
      case (Some r)
      obtain x r' where x: "rds_Get (ce_codec E) (ce_redis E) now k dest r = (x, r')" by fastforce
      show ?thesis
      proof (cases "cb_allow now (mlc_cb c)")
        case False
        then have "mlc_Get E now now' k dest c = (Inl ErrCacheMiss,
          c\<lparr>mlc_l1 := l1', mlc_l2 := mlc_l2 c, mlc_cb := mlc_cb c, mlc_metrics := RecordMiss (RecordError (mlc_metrics c))\<rparr>)"
          using Pair None Some by (simp add: mlc_Get_def mlc_miss_def cb_Execute_def Let_def)
        from miss [OF _ this] show ?thesis using Pair None by simp
      next
        case True
        show ?thesis
        proof (cases x)
          case (Inr w)
          then show ?thesis using Pair None Some x True
            by (intro l2_hit) (auto simp: mlc_Get_def cb_Execute_def mlc_l2_get_def Let_def)
        next
          case (Inl e)
          have "mlc_Get E now now' k dest c = (Inl ErrCacheMiss,
              c\<lparr>mlc_l1 := l1', mlc_l2 := Some r', mlc_cb := cb_recordFailure now' (mlc_cb c),
                mlc_metrics := RecordMiss (if e = ErrCacheMiss then mlc_metrics c else RecordError (mlc_metrics c))\<rparr>)"
            using Pair None Some x True Inl
            by (simp add: mlc_Get_def cb_Execute_def mlc_l2_get_def mlc_miss_def Let_def)
          from miss [OF _ this] show ?thesis using Pair None Some x by simp
        qed
      qed
    qed
  qed
qed

text \<open>
  Every \<open>Get\<close> counts as exactly one hit or one miss: a miss when it returns \<open>ErrCacheMiss\<close>, a hit
  otherwise. It never changes the set and delete counters, and it never reports a Redis or breaker
  failure: the only errors are the miss and those of the JSON copy.
\<close>

theorem mlc_get_accounting:
  "case mlc_Get E now now' k dest c of (res, c') \<Rightarrow>
     cm_Hits (mlc_metrics c') = cm_Hits (mlc_metrics c) + (if res = Inl ErrCacheMiss then 0 else 1) \<and>
     cm_Misses (mlc_metrics c') = cm_Misses (mlc_metrics c) + (if res = Inl ErrCacheMiss then 1 else 0) \<and>
     cm_Sets (mlc_metrics c') = cm_Sets (mlc_metrics c) \<and>
     cm_Deletes (mlc_metrics c') = cm_Deletes (mlc_metrics c) \<and> get_error_ok res"
  by (cases rule: mlc_Get_cases [of now k c E now' dest])
    (auto simp: record_defs copyValue_not_miss copyValue_error_ok, auto simp: get_error_ok_def)

section \<open>The breaker and the second level\<close>

lemma mlc_Get_absent:
  assumes "live now (mlc_l1 c) k = None" and "mlc_l2 c = Some r"
    and "rc_Get (ce_redis E) now k r = (Inl RedisNil, r)"
  shows "mlc_cb (snd (mlc_Get E now now' k dest c)) = failing_call (mlc_cb c) (now, now') \<and>
    mlc_l2 (snd (mlc_Get E now now' k dest c)) = Some r"
proof -
  have m: "fst (mc_Get now k (mlc_l1 c)) = None" using assms(1) by (simp add: fst_mc_Get)
  have g: "rds_Get (ce_codec E) (ce_redis E) now k dest r = (Inl ErrCacheMiss, r)"
    using assms(3) by (simp add: rds_Get_def)
  show ?thesis using m g assms(2)
    by (cases "mc_Get now k (mlc_l1 c)")
      (simp add: mlc_Get_def mlc_miss_def cb_Execute_def mlc_l2_get_def failing_call_eq Let_def)
qed

text \<open>\<open>Get\<close>s of the keys \<open>ks\<close>, each with its two clock readings.\<close>

definition mlc_gets ::
  "('v, 'ty, 'r) cache_env \<Rightarrow> 'ty dest \<Rightarrow> ('v, 'r) multi_level_cache \<Rightarrow> (string \<times> instant \<times> instant) list \<Rightarrow>
   ('v, 'r) multi_level_cache" where
  "mlc_gets E dest c ks = foldl (\<lambda>c (k, now, now'). snd (mlc_Get E now now' k dest c)) c ks"

lemma mlc_gets_absent:
  assumes "\<And>now k. rc_Get (ce_redis E) now k r = (Inl RedisNil, r)" and "mc_store (mlc_l1 c) = []"
    and "mlc_l2 c = Some r"
  shows "mlc_cb (mlc_gets E dest c ks) = foldl failing_call (mlc_cb c) (map snd ks)"
  using assms(2,3)
proof (induction ks arbitrary: c)
  case (Cons x ks)
  obtain k now now' where x: "x = (k, now, now')" by (cases x)
  let ?c = "snd (mlc_Get E now now' k dest c)"
  have l: "live now (mlc_l1 c) k = None" using Cons.prems by (simp add: live_def)
  have 1: "mlc_cb ?c = failing_call (mlc_cb c) (now, now')" "mlc_l2 ?c = Some r"
    using mlc_Get_absent [OF l Cons.prems(2) assms(1)] by auto
  have "mc_Get now k (mlc_l1 c) = (None, mlc_l1 c)" using Cons.prems by (simp add: mc_Get_def)
  moreover have "rds_Get (ce_codec E) (ce_redis E) now k dest r = (Inl ErrCacheMiss, r)"
    using assms(1) by (simp add: rds_Get_def)
  ultimately have 2: "mlc_l1 ?c = mlc_l1 c" using Cons.prems(2)
    by (simp add: mlc_Get_def mlc_miss_def cb_Execute_def mlc_l2_get_def Let_def)
  show ?case using Cons.IH [of ?c] 1 2 Cons.prems by (simp add: x mlc_gets_def)
qed (simp add: mlc_gets_def)

text \<open>
  Ordinary cache misses trip the breaker. On a new cache over a Redis that answers every GET with
  "no such key", the breaker is closed after fewer than five misses and open from the fifth on,
  although Redis never failed: the miss is reported to the breaker as an error.
\<close>

theorem five_misses_open_the_breaker:
  assumes "\<And>now k. rc_Get (ce_redis E) now k r = (Inl RedisNil, r)"
  shows "cb_state (mlc_cb (mlc_gets E dest (NewMultiLevelCache t0 (Some r)) ks)) =
    (if length ks < 5 then CircuitBreakerClosed else CircuitBreakerOpen)"
proof -
  let ?c = "NewMultiLevelCache t0 (Some r) :: ('b, 'a) multi_level_cache"
  have "mlc_cb (mlc_gets E dest ?c ks) = foldl failing_call (mlc_cb ?c) (map snd ks)"
    by (rule mlc_gets_absent [OF assms]) (simp_all add: NewMultiLevelCache_def NewMemoryCache_def)
  moreover have "cb_state (mlc_cb ?c) = CircuitBreakerClosed" "cb_failureCount (mlc_cb ?c) = 0"
    "cb_maxFailures (mlc_cb ?c) = 5"
    by (simp_all add: NewMultiLevelCache_def NewCircuitBreaker_def DefaultCircuitBreakerConfig_def)
  ultimately show ?thesis using failing_calls_closed [of "mlc_cb ?c" "map snd ks"] by auto
qed

theorem five_misses_open_the_breaker_witness:
  fixes E :: "(int, unit, mem_server) cache_env"
  defines "E \<equiv> \<lparr>ce_codec = \<lparr>marshal = (\<lambda>v. None), unmarshal = (\<lambda>_ s. None)\<rparr>, ce_redis = mem_redis\<rparr>"
  shows "cb_state (mlc_cb (mlc_gets E (DestPtr ()) (NewMultiLevelCache 0 (Some []))
    [(''a'', 1, 1), (''b'', 2, 2), (''c'', 3, 3), (''d'', 4, 4), (''e'', 5, 5)])) = CircuitBreakerOpen"
proof -
  have "rc_Get (ce_redis E) now k [] = (Inl RedisNil, [])" for now k
    by (simp add: E_def mem_redis_def mem_stored_def)
  from five_misses_open_the_breaker [of E "[]", OF this] show ?thesis by simp
qed

lemma rds_Get_stored:
  assumes "redis_lawful (ce_redis E) stored" and "stored now r k = Some d" and "unmarshal (ce_codec E) ty d = Some v"
  shows "fst (rds_Get (ce_codec E) (ce_redis E) now k (DestPtr ty) r) = Inr v"
  using lawful_Get [OF assms(1), of now k r] assms(2,3)
  by (auto simp: rds_Get_def unmarshal_dest_def split: prod.splits sum.splits)

text \<open>
  Deleted data comes back. While the breaker is open, \<open>Delete\<close> removes the key from the memory
  level only and returns the breaker's error; once the breaker admits a call again, \<open>Get\<close> returns the
  old value from Redis.
\<close>

theorem delete_under_open_breaker_resurrects:
  assumes "mlc_l2 c = Some r" and "\<not> cb_allow now (mlc_cb c)" and "cb_allow t (mlc_cb c)"
    and "redis_lawful (ce_redis E) stored" and "stored t r k = Some d"
    and "unmarshal (ce_codec E) ty d = Some v"
  shows "fst (mlc_Delete E now now' k c) = Some ErrBreaker \<and>
    fst (mlc_Get E t t' k (DestPtr ty) (snd (mlc_Delete E now now' k c))) = Inr v"
proof -
  let ?c = "snd (mlc_Delete E now now' k c)"
  have d: "fst (mlc_Delete E now now' k c) = Some ErrBreaker" "mlc_l2 ?c = Some r" "mlc_cb ?c = mlc_cb c"
    using assms(1,2) by (simp_all add: mlc_Delete_def cb_Execute_def breaker_error_def Let_def)
  have "live t (mlc_l1 ?c) k = None" by (simp add: cache_laws)
  then have m: "fst (mc_Get t k (mlc_l1 ?c)) = None" by (simp add: fst_mc_Get)
  have g: "fst (rds_Get (ce_codec E) (ce_redis E) t k (DestPtr ty) r) = Inr v"
    using assms(4-6) by (rule rds_Get_stored)
  have "fst (mlc_Get E t t' k (DestPtr ty) ?c) = Inr v"
    using m d g assms(3)
    by (cases "mc_Get t k (mlc_l1 ?c)"; cases "rds_Get (ce_codec E) (ce_redis E) t k (DestPtr ty) r")
      (simp add: mlc_Get_def cb_Execute_def mlc_l2_get_def Let_def)
  then show ?thesis using d by simp
qed

theorem delete_under_open_breaker_resurrects_witness:
  fixes E :: "(int, unit, mem_server) cache_env" and c :: "(int, mem_server) multi_level_cache"
  defines "E \<equiv> \<lparr>ce_codec = \<lparr>marshal = (\<lambda>v. None), unmarshal = (\<lambda>_ s. Some 7)\<rparr>, ce_redis = mem_redis\<rparr>"
    and "c \<equiv> (NewMultiLevelCache 0 (Some [(''k'', (''7'', 100 * second))]))
      \<lparr>mlc_cb := (NewCircuitBreaker None)\<lparr>cb_state := CircuitBreakerOpen, cb_lastFailureTime := 1\<rparr>\<rparr>"
  shows "fst (mlc_Get E (40 * second) 0 ''k'' (DestPtr ()) (snd (mlc_Delete E 2 2 ''k'' c))) = Inr 7"
proof -
  have "fst (mlc_Delete E 2 2 ''k'' c) = Some ErrBreaker \<and>
      fst (mlc_Get E (40 * second) 0 ''k'' (DestPtr ()) (snd (mlc_Delete E 2 2 ''k'' c))) = Inr 7"
    by (rule delete_under_open_breaker_resurrects [where r = "[(''k'', (''7'', 100 * second))]" and d = "''7''"
          and stored = mem_stored])
      (simp_all add: c_def E_def NewMultiLevelCache_def NewCircuitBreaker_def DefaultCircuitBreakerConfig_def
        cb_allow_def cb_shouldAttemptReset_def time_sub_def max_duration_def second_def
        mem_redis_lawful mem_stored_def)
  then show ?thesis by simp
qed

text \<open>
  A value fetched from Redis is served from memory for five minutes. From the moment it is
  fetched until five minutes later every \<open>Get\<close> returns it, whatever happens to Redis in between, even
  if its time to live there has passed or another instance has deleted or changed it.
\<close>

theorem l2_hit_is_served_for_five_minutes:
  assumes "live now (mlc_l1 c) k = None" and "mlc_Get E now now' k (DestPtr ty) c = (Inr v, c')"
    and "json_ok (ce_codec E) ty v" and "t \<le> now' + 5 * minute"
  shows "fst (mlc_Get E t t' k (DestPtr ty) (c'\<lparr>mlc_l2 := any_r, mlc_cb := any_cb\<rparr>)) = Inr v"
proof (cases rule: mlc_Get_cases [of now k c E now' "DestPtr ty"])
  case (hit w l1')
  then show ?thesis using assms(1) fst_mc_Get [of now k "mlc_l1 c"] by simp
next
  case (l2_hit w l1' r r')
  then have "mlc_l1 c' = mc_Set now' k v (5 * minute) l1'" using assms(2) by simp
  then have "live t (mlc_l1 (c'\<lparr>mlc_l2 := any_r, mlc_cb := any_cb\<rparr>)) k = Some v"
    using assms(4) by (simp add: live_Set)
  then show ?thesis using assms(3) by (simp add: mlc_Get_l1_hit copyValue_ok)
next
  case (miss l1' l2' cb' m')
  then show ?thesis using assms(2) by simp
qed

theorem l2_hit_is_served_for_five_minutes_witness:
  fixes E :: "(int, unit, mem_server) cache_env" and c :: "(int, mem_server) multi_level_cache"
  defines "E \<equiv> \<lparr>ce_codec = \<lparr>marshal = (\<lambda>v. Some ''7''), unmarshal = (\<lambda>_ s. Some 7)\<rparr>, ce_redis = mem_redis\<rparr>"
    and "c \<equiv> NewMultiLevelCache 0 (Some [(''k'', (''7'', 2))])"
  shows "fst (mlc_Get E (4 * minute) 0 ''k'' (DestPtr ())
    ((snd (mlc_Get E 1 1 ''k'' (DestPtr ()) c))\<lparr>mlc_l2 := Some [], mlc_cb := NewCircuitBreaker None\<rparr>)) = Inr 7"
  by (rule l2_hit_is_served_for_five_minutes [where now = 1 and now' = 1 and c = c])
    (simp_all add: c_def E_def NewMultiLevelCache_def NewMemoryCache_def live_def mlc_Get_def mc_Get_def
      NewCircuitBreaker_def DefaultCircuitBreakerConfig_def cb_Execute_def cb_allow_def mlc_l2_get_def
      rds_Get_def mem_redis_def mem_stored_def unmarshal_dest_def json_ok_def minute_def second_def Let_def)

end
