(* ===== verification/CacheCoherence.thy ===== *)
theory CacheCoherence
  imports MultiLevelCache
begin

text \<open>
  What a client of the two-level cache can rely on: the values a later \<open>Get\<close> could return. The locale
  \<open>value_cache\<close> is the interface; the two-level cache over a lawful Redis interprets it. Its laws only
  say which values become visible, so they hold whatever the circuit breaker does; a deletion is sure to
  take effect only when the breaker admits it (\<open>ready\<close>).
\<close>

section \<open>Visible values\<close>

definition visible ::
  "('v, 'ty, 'r) cache_env \<times> (instant \<Rightarrow> 'r \<Rightarrow> string \<Rightarrow> string option) \<Rightarrow> instant \<Rightarrow>
   ('v, 'r) multi_level_cache \<Rightarrow> 'ty \<Rightarrow> string \<Rightarrow> 'v \<Rightarrow> bool" where
  "visible e t c ty k v \<longleftrightarrow> (\<exists>t'\<ge>t. live t' (mlc_l1 c) k = Some v \<or>
     (\<exists>r d. mlc_l2 c = Some r \<and> snd e t' r k = Some d \<and> unmarshal (ce_codec (fst e)) ty d = Some v))"

definition env_lawful ::
  "('v, 'ty, 'r) cache_env \<times> (instant \<Rightarrow> 'r \<Rightarrow> string \<Rightarrow> string option) \<Rightarrow> bool" where
  "env_lawful e = redis_lawful (ce_redis (fst e)) (snd e)"

definition storable :: "('v, 'ty, 'r) cache_env \<times> 's \<Rightarrow> 'ty \<Rightarrow> 'v \<Rightarrow> bool" where
  "storable e ty v = json_ok (ce_codec (fst e)) ty v"

definition ready :: "instant \<Rightarrow> ('v, 'r) multi_level_cache \<Rightarrow> bool" where
  "ready t c \<longleftrightarrow> mlc_l2 c = None \<or> cb_allow t (mlc_cb c)"

text \<open>The operations with the environment first.\<close>

definition vget where "vget e now now' k ty c = mlc_Get (fst e) now now' k (DestPtr ty) c"
definition vset where "vset e now now' k v ttl c = snd (mlc_Set (fst e) now now' k v ttl c)"
definition vdel where "vdel e now now' k c = snd (mlc_Delete (fst e) now now' k c)"
definition vdelpat where "vdelpat e now p c = snd (mlc_DeletePattern (fst e) now p c)"

lemmas v_defs = vget_def vset_def vdel_def vdelpat_def

lemma visible_later: "visible e t' c ty k v \<Longrightarrow> t \<le> t' \<Longrightarrow> visible e t c ty k v"
  unfolding visible_def by (meson order_trans)

text \<open>When a level does not show more than before, neither does the cache.\<close>

lemma visible_sub:
  assumes "visible e t c' ty k v"
    and "\<And>t' v. t \<le> t' \<Longrightarrow> live t' (mlc_l1 c') k = Some v \<Longrightarrow> visible e t c ty k v"
    and "\<And>t' r' d v. t \<le> t' \<Longrightarrow> mlc_l2 c' = Some r' \<Longrightarrow> snd e t' r' k = Some d \<Longrightarrow>
      unmarshal (ce_codec (fst e)) ty d = Some v \<Longrightarrow> visible e t c ty k v"
  shows "visible e t c ty k v"
  using assms unfolding visible_def by blast

lemma visible_l1: "t \<le> t' \<Longrightarrow> live t' (mlc_l1 c) k = Some v \<Longrightarrow> visible e t c ty k v"
  unfolding visible_def by blast

lemma visible_l2:
  "t \<le> t' \<Longrightarrow> mlc_l2 c = Some r \<Longrightarrow> snd e t' r k = Some d \<Longrightarrow> unmarshal (ce_codec (fst e)) ty d = Some v \<Longrightarrow>
   visible e t c ty k v"
  unfolding visible_def by blast

section \<open>The four operations\<close>

lemma rds_Get_state:
  assumes "redis_lawful cl stored" and "now \<le> t"
  shows "stored t (snd (rds_Get J cl now k dest r)) = stored t r"
  using lawful_Get [OF assms(1), of now k r t] assms(2)
  by (auto simp: rds_Get_def split: prod.splits sum.splits option.splits redis_error.splits)

lemma rds_Get_value:
  assumes "redis_lawful cl stored" and "fst (rds_Get J cl now k (DestPtr ty) r) = Inr v"
  shows "\<exists>d. stored now r k = Some d \<and> unmarshal J ty d = Some v"
  using lawful_Get [OF assms(1), of now k r now] assms(2)
  by (auto simp: rds_Get_def unmarshal_dest_def split: prod.splits sum.splits option.splits redis_error.splits if_splits)

lemma vget_result:
  assumes "env_lawful e" and "t \<le> now" and "fst (vget e now now' k ty c) = Inr v"
  shows "\<exists>w. visible e t c ty k w \<and> (storable e ty w \<longrightarrow> v = w)"
proof (cases rule: mlc_Get_cases [of now k c "fst e" now' "DestPtr ty"])
  case (hit w l1')
  then have "live now (mlc_l1 c) k = Some w" using fst_mc_Get [of now k "mlc_l1 c"] by simp
  then have "visible e t c ty k w" using assms(2) by (intro visible_l1)
  moreover have "v = w" if "storable e ty w"
    using that hit(2) assms(3) by (simp add: vget_def storable_def copyValue_ok)
  ultimately show ?thesis by blast
next
  case (l2_hit w l1' r r')
  then have "w = v" using assms(3) by (simp add: vget_def)
  moreover obtain d where "snd e now r k = Some d" "unmarshal (ce_codec (fst e)) ty d = Some w"
    using rds_Get_value [of "ce_redis (fst e)" "snd e" "ce_codec (fst e)" now k ty r w] l2_hit(4) assms(1)
    by (auto simp: env_lawful_def)
  then have "visible e t c ty k w" using assms(2) l2_hit(2) by (intro visible_l2)
  ultimately show ?thesis by blast
next
  case (miss l1' l2' cb' m')
  then show ?thesis using assms(3) by (simp add: vget_def)
qed

lemma vget_visible:
  assumes "env_lawful e" and "t \<le> now" and "k' = k \<Longrightarrow> ty' = ty"
    and "visible e now (snd (vget e now now' k ty c)) ty' k' v"
  shows "visible e t c ty' k' v"
proof -
  let ?c' = "snd (vget e now now' k ty c)"
  have l1: "live t' l1' k' = live t' (mlc_l1 c) k'" if "now \<le> t'" "mc_Get now k (mlc_l1 c) = (x, l1')" for t' l1' x
    using live_Get [OF that(1), of k "mlc_l1 c" k'] that(2) by simp
  have l2: "snd e t' (snd (rds_Get (ce_codec (fst e)) (ce_redis (fst e)) now k dest r)) k' = snd e t' r k'"
    if "now \<le> t'" for t' dest r
    using assms(1) that unfolding env_lawful_def by (simp only: rds_Get_state)
  have "visible e now c ty' k' v"
  proof (cases rule: mlc_Get_cases [of now k c "fst e" now' "DestPtr ty"])
    case (hit w l1')
    then show ?thesis using assms(4) l1 [OF _ hit(1)] by (auto simp: vget_def visible_def)
  next
    case (l2_hit w l1' r r')
    have c': "mlc_l1 ?c' = mc_Set now' k w (5 * minute) l1'" "mlc_l2 ?c' = Some r'"
      using l2_hit(5) by (simp_all add: vget_def)
    have r': "snd e t' r' k' = snd e t' r k'" if "now \<le> t'" for t'
      using l2 [OF that, of "DestPtr ty" r] l2_hit(4) by simp
    obtain d where d: "snd e now r k = Some d" "unmarshal (ce_codec (fst e)) ty d = Some w"
      using rds_Get_value [of "ce_redis (fst e)" "snd e" "ce_codec (fst e)" now k ty r w] l2_hit(4) assms(1)
      by (auto simp: env_lawful_def)
    from assms(4) show ?thesis
    proof (rule visible_def [THEN iffD1, elim_format])
      assume "\<exists>t'\<ge>now. live t' (mlc_l1 ?c') k' = Some v \<or>
        (\<exists>r d. mlc_l2 ?c' = Some r \<and> snd e t' r k' = Some d \<and> unmarshal (ce_codec (fst e)) ty' d = Some v)"
      then obtain t' where t': "now \<le> t'" and "live t' (mlc_l1 ?c') k' = Some v \<or>
        (\<exists>d. snd e t' r' k' = Some d \<and> unmarshal (ce_codec (fst e)) ty' d = Some v)" using c'(2) by auto
      then consider "live t' (mlc_l1 ?c') k' = Some v"
        | d where "snd e t' r' k' = Some d" "unmarshal (ce_codec (fst e)) ty' d = Some v" by blast
      then show ?thesis
      proof cases
        case 1
        show ?thesis
        proof (cases "k' = k")
          case True
          then have "w = v" using 1 c'(1) by (simp add: live_Set split: if_splits)
          then show ?thesis using d l2_hit(2) True assms(3) by (intro visible_l2 [OF order_refl]) auto
        next
          case False
          then have "live t' (mlc_l1 c) k' = Some v" using 1 c'(1) l1 [OF t' l2_hit(1)] by (simp add: live_Set)
          then show ?thesis using t' by (rule visible_l1 [rotated])
        qed
      next
        case 2
        then show ?thesis using r' [OF t'] l2_hit(2) t' by (intro visible_l2 [of now t']) auto
      qed
    qed
  next
    case (miss l1' l2' cb' m')
    have c': "mlc_l1 ?c' = l1'" "mlc_l2 ?c' = l2'" using miss(2) by (simp_all add: vget_def)
    show ?thesis using assms(4) l1 [OF _ miss(1)] l2 miss(4) unfolding visible_def c' by fastforce
  qed
  then show ?thesis using assms(2) by (rule visible_later)
qed

text \<open>What the two levels hold after a \<open>Set\<close>.\<close>

lemma vset_l1: "mlc_l1 (vset e now now' k v ttl c) = mc_Set now k v ttl (mlc_l1 c)"
  unfolding vset_def by (rule l1_Set)

lemma vset_l2:
  "mlc_l2 (vset e now now' k v ttl c) = mlc_l2 c \<or>
   (\<exists>r. mlc_l2 c = Some r \<and> mlc_l2 (vset e now now' k v ttl c) =
      Some (snd (rds_Set (ce_codec (fst e)) (ce_redis (fst e)) now k v ttl r)))"
  by (auto simp: vset_def mlc_Set_def cb_Execute_def Let_def split: option.splits prod.splits)

lemma vset_stored:
  assumes "env_lawful e" and "0 < ttl" and "marshal (ce_codec (fst e)) v = Some d0"
    and "mlc_l2 (vset e now now' k v ttl c) = Some r" and "snd e t r k' = Some d"
  shows "k' = k \<and> d = d0 \<or> (\<exists>r0. mlc_l2 c = Some r0 \<and> snd e t r0 k' = Some d)"
proof -
  have st: "snd e t (snd (rds_Set (ce_codec (fst e)) (ce_redis (fst e)) now k v ttl r)) k' =
      (if k' = k then if t < now + ttl then Some d0 else None else snd e t r k')" for r
    using assms(1-3) unfolding env_lawful_def by (intro rds_Set_lawful(2))
  from vset_l2 [of e now now' k v ttl c] show ?thesis
  proof (elim disjE exE conjE)
    assume "mlc_l2 (vset e now now' k v ttl c) = mlc_l2 c"
    then have "mlc_l2 c = Some r" using assms(4) by simp
    then show ?thesis using assms(5) by blast
  next
    fix r0
    assume r0: "mlc_l2 c = Some r0" "mlc_l2 (vset e now now' k v ttl c) =
      Some (snd (rds_Set (ce_codec (fst e)) (ce_redis (fst e)) now k v ttl r0))"
    then have "(if k' = k then if t < now + ttl then Some d0 else None else snd e t r0 k') = Some d"
      using assms(4,5) st [of r0] by simp
    then show ?thesis using r0(1) by (simp split: if_splits)
  qed
qed

lemma vset_visible:
  assumes "env_lawful e" and "0 < ttl" and "t \<le> now" and "k' = k \<Longrightarrow> ty' = ty" and "storable e ty v"
    and "visible e now (vset e now now' k v ttl c) ty' k' w"
  shows "visible e t c ty' k' w \<or> k' = k \<and> w = v"
proof -
  obtain d0 where d0: "marshal (ce_codec (fst e)) v = Some d0" "unmarshal (ce_codec (fst e)) ty d0 = Some v"
    using assms(5) by (auto simp: storable_def json_ok_def)
  from assms(6) consider t' where "t \<le> t'" "live t' (mlc_l1 (vset e now now' k v ttl c)) k' = Some w"
    | t' r d where "t \<le> t'" "mlc_l2 (vset e now now' k v ttl c) = Some r" "snd e t' r k' = Some d"
      "unmarshal (ce_codec (fst e)) ty' d = Some w"
    unfolding visible_def using assms(3) by (meson order_trans)
  then show ?thesis
  proof cases
    case 1
    then show ?thesis using visible_l1 [OF 1(1)] by (simp add: vset_l1 live_Set split: if_splits)
  next
    case 2
    from vset_stored [OF assms(1,2) d0(1) 2(2,3)] show ?thesis
      using visible_l2 [OF 2(1) _ _ 2(4)] 2(4) d0(2) assms(4) by auto
  qed
qed

lemma vdel_visible:
  assumes "env_lawful e" and "t \<le> now" and "visible e now (vdel e now now' k c) ty k' w"
  shows "visible e t c ty k' w \<and> (ready now c \<longrightarrow> k' \<noteq> k)"
proof -
  have l1: "mlc_l1 (vdel e now now' k c) = mc_Delete k (mlc_l1 c)" unfolding vdel_def by (rule l1_Delete)
  have l2: "mlc_l2 (vdel e now now' k c) =
      (if cb_allow now (mlc_cb c) then map_option (\<lambda>r. snd (rds_Delete (ce_redis (fst e)) now k r)) (mlc_l2 c) else mlc_l2 c)"
    by (auto simp: vdel_def mlc_Delete_def cb_Execute_def Let_def split: option.splits prod.splits)
  have st: "snd e t' (snd (rds_Delete (ce_redis (fst e)) now k r)) k' = (if k' = k then None else snd e t' r k')" for t' r
    using assms(1) unfolding env_lawful_def by (intro rds_Delete_lawful(2))
  obtain t' where t': "now \<le> t'" and v: "live t' (mlc_l1 (vdel e now now' k c)) k' = Some w \<or>
      (\<exists>r d. mlc_l2 (vdel e now now' k c) = Some r \<and> snd e t' r k' = Some d \<and>
         unmarshal (ce_codec (fst e)) ty d = Some w)"
    using assms(3) by (auto simp: visible_def)
  have tt: "t \<le> t'" using t' assms(2) by simp
  from v show ?thesis
  proof (elim disjE exE conjE)
    assume "live t' (mlc_l1 (vdel e now now' k c)) k' = Some w"
    then show ?thesis using tt unfolding l1 by (auto simp: live_Delete intro: visible_l1 split: if_splits)
  next
    fix r d
    assume r: "mlc_l2 (vdel e now now' k c) = Some r" "snd e t' r k' = Some d"
      "unmarshal (ce_codec (fst e)) ty d = Some w"
    then obtain r0 where r0: "mlc_l2 c = Some r0" unfolding l2 by (cases "mlc_l2 c") (auto split: if_splits)
    show ?thesis
    proof (cases "cb_allow now (mlc_cb c)")
      case True
      then have "r = snd (rds_Delete (ce_redis (fst e)) now k r0)" using r(1) r0 unfolding l2 by simp
      then have "k' \<noteq> k" "snd e t' r0 k' = Some d" using r(2) st [of t' r0] by (auto split: if_splits)
      then show ?thesis using tt r0 r(3) by (auto intro: visible_l2)
    next
      case False
      then have "r = r0" using r(1) r0 unfolding l2 by simp
      then show ?thesis using False tt r0 r(2,3) by (auto simp: ready_def intro: visible_l2)
    qed
  qed
qed

lemma vdelpat_visible:
  assumes "env_lawful e" and "t \<le> now" and "literal q"
    and "visible e now (vdelpat e now (q @ ''*'') c) ty k w"
  shows "visible e t c ty k w \<and> \<not> has_prefix k q"
proof -
  have l1: "mlc_l1 (vdelpat e now (q @ ''*'') c) = mc_DeletePattern (q @ ''*'') (mlc_l1 c)"
    unfolding vdelpat_def by (rule l1_DeletePattern)
  have l2: "mlc_l2 (vdelpat e now (q @ ''*'') c) =
      map_option (\<lambda>r. snd (rds_DeletePattern (ce_redis (fst e)) now (q @ ''*'') r)) (mlc_l2 c)"
    by (auto simp: vdelpat_def mlc_DeletePattern_def Let_def split: option.splits prod.splits)
  obtain t' where t': "now \<le> t'" and v: "live t' (mlc_l1 (vdelpat e now (q @ ''*'') c)) k = Some w \<or>
      (\<exists>r d. mlc_l2 (vdelpat e now (q @ ''*'') c) = Some r \<and> snd e t' r k = Some d \<and>
         unmarshal (ce_codec (fst e)) ty d = Some w)"
    using assms(4) by (auto simp: visible_def)
  have st: "snd e t' (snd (rds_DeletePattern (ce_redis (fst e)) now (q @ ''*'') r)) k =
      (if has_prefix k q then None else snd e t' r k)" for r
    using assms(1,3) t' unfolding env_lawful_def by (intro rds_DeletePattern_lawful(2))
  have tt: "t \<le> t'" using t' assms(2) by simp
  from v show ?thesis
  proof (elim disjE exE conjE)
    assume "live t' (mlc_l1 (vdelpat e now (q @ ''*'') c)) k = Some w"
    then show ?thesis using tt unfolding l1
      by (auto simp: live_DeletePattern matchPattern_prefix intro: visible_l1 split: if_splits)
  next
    fix r d
    assume r: "mlc_l2 (vdelpat e now (q @ ''*'') c) = Some r" "snd e t' r k = Some d"
      "unmarshal (ce_codec (fst e)) ty d = Some w"
    then obtain r0 where "mlc_l2 c = Some r0" "r = snd (rds_DeletePattern (ce_redis (fst e)) now (q @ ''*'') r0)"
      unfolding l2 by auto
    then show ?thesis using r(2,3) st [of r0] tt by (auto intro: visible_l2 split: if_splits)
  qed
qed

section \<open>The interface\<close>

locale value_cache =
  fixes lawful :: "'e \<Rightarrow> bool" and vis :: "'e \<Rightarrow> instant \<Rightarrow> 'c \<Rightarrow> 'ty \<Rightarrow> string \<Rightarrow> 'v \<Rightarrow> bool"
    and can_store :: "'e \<Rightarrow> 'ty \<Rightarrow> 'v \<Rightarrow> bool" and admitting :: "instant \<Rightarrow> 'c \<Rightarrow> bool"
    and cget :: "'e \<Rightarrow> instant \<Rightarrow> instant \<Rightarrow> string \<Rightarrow> 'ty \<Rightarrow> 'c \<Rightarrow> (cache_error + 'v) \<times> 'c"
    and cset :: "'e \<Rightarrow> instant \<Rightarrow> instant \<Rightarrow> string \<Rightarrow> 'v \<Rightarrow> duration \<Rightarrow> 'c \<Rightarrow> 'c"
    and cdel :: "'e \<Rightarrow> instant \<Rightarrow> instant \<Rightarrow> string \<Rightarrow> 'c \<Rightarrow> 'c"
    and cdelpat :: "'e \<Rightarrow> instant \<Rightarrow> string \<Rightarrow> 'c \<Rightarrow> 'c"
  assumes vis_later: "vis e t' c ty k v \<Longrightarrow> t \<le> t' \<Longrightarrow> vis e t c ty k v"
    and get_result: "lawful e \<Longrightarrow> t \<le> now \<Longrightarrow> fst (cget e now now' k ty c) = Inr v \<Longrightarrow>
      \<exists>w. vis e t c ty k w \<and> (can_store e ty w \<longrightarrow> v = w)"
    and get_vis: "lawful e \<Longrightarrow> t \<le> now \<Longrightarrow> (k' = k \<Longrightarrow> ty' = ty) \<Longrightarrow>
      vis e now (snd (cget e now now' k ty c)) ty' k' v \<Longrightarrow> vis e t c ty' k' v"
    and set_vis: "lawful e \<Longrightarrow> 0 < ttl \<Longrightarrow> t \<le> now \<Longrightarrow> (k' = k \<Longrightarrow> ty' = ty) \<Longrightarrow> can_store e ty v \<Longrightarrow>
      vis e now (cset e now now' k v ttl c) ty' k' w \<Longrightarrow> vis e t c ty' k' w \<or> k' = k \<and> w = v"
    and del_vis: "lawful e \<Longrightarrow> t \<le> now \<Longrightarrow> vis e now (cdel e now now' k c) ty k' w \<Longrightarrow>
      vis e t c ty k' w \<and> (admitting now c \<longrightarrow> k' \<noteq> k)"
    and delpat_vis: "lawful e \<Longrightarrow> t \<le> now \<Longrightarrow> literal q \<Longrightarrow>
      vis e now (cdelpat e now (q @ ''*'') c) ty k w \<Longrightarrow> vis e t c ty k w \<and> \<not> has_prefix k q"
begin

text \<open>A read that falls back to a source: the value is the source's if everything visible is.\<close>

lemma get_agrees:
  assumes "lawful e" and "t \<le> now" and "\<And>w. vis e t c ty k w \<Longrightarrow> w = x" and "can_store e ty x"
    and "fst (cget e now now' k ty c) = Inr v"
  shows "v = x"
  using get_result [OF assms(1,2,5)] assms(3,4) by blast

text \<open>Filling the cache after a miss shows at most the new value more.\<close>

lemma fill_vis:
  assumes "lawful e" and "0 < ttl" and "t \<le> t1" "t1 \<le> t3" and "k' = k \<Longrightarrow> ty' = ty"
    and "can_store e ty x" and "vis e t3 (cset e t3 t4 k x ttl (snd (cget e t1 t2 k ty c))) ty' k' w"
  shows "vis e t c ty' k' w \<or> k' = k \<and> w = x"
  using set_vis [OF assms(1,2,4,5,6,7)] get_vis [OF assms(1,3,5)] by blast

end

interpretation mlcv: value_cache env_lawful visible storable ready vget vset vdel vdelpat
  by unfold_locales (fact visible_later vget_result vget_visible vset_visible vdel_visible vdelpat_visible)+

end
