(* ===== verification/TaskService.thy ===== *)
theory TaskService
  imports Models Strconv
begin

text \<open>
  The task service (\<^verbatim>\<open>backend/internal/services/tasks.go\<close>) over a parameter database, and the interface
  \<open>TaskService\<close> as a record of operations. Page arithmetic is on 64-bit words, as Go's \<open>int\<close> is. Of a page query
  only its documented meaning is assumed: a slice of some permutation of the table that the clause sorts.
\<close>

record 'd task_db =
  kdb_create :: "task \<Rightarrow> 'd \<Rightarrow> gorm_error option \<times> 'd"
  kdb_first :: "uuid \<Rightarrow> 'd \<Rightarrow> gorm_error + task"
  kdb_find :: "'d \<Rightarrow> gorm_error + task list"
  kdb_find_user :: "uuid \<Rightarrow> 'd \<Rightarrow> gorm_error + task list"
  kdb_count :: "'d \<Rightarrow> int64"
  kdb_find_page :: "string \<Rightarrow> int64 \<Rightarrow> int64 \<Rightarrow> 'd \<Rightarrow> gorm_error + task list"
  kdb_updates :: "uuid \<Rightarrow> task \<Rightarrow> 'd \<Rightarrow> gorm_error option \<times> 'd"
  kdb_delete :: "uuid \<Rightarrow> 'd \<Rightarrow> gorm_error option \<times> 'd"

record 'd task_service =
  ts_CreateTask :: "task \<Rightarrow> 'd \<Rightarrow> gorm_error option \<times> 'd"
  ts_GetTaskByID :: "uuid \<Rightarrow> 'd \<Rightarrow> gorm_error + task"
  ts_GetTasks :: "'d \<Rightarrow> gorm_error + task list"
  ts_UpdateTask :: "uuid \<Rightarrow> task \<Rightarrow> 'd \<Rightarrow> gorm_error option \<times> 'd"
  ts_DeleteTask :: "uuid \<Rightarrow> 'd \<Rightarrow> gorm_error option \<times> 'd"
  ts_GetTasksPaginated :: "string \<Rightarrow> string \<Rightarrow> string \<Rightarrow> string \<Rightarrow> 'd \<Rightarrow> gorm_error + task list \<times> int64"

section \<open>Operations\<close>

definition sort_column :: "string \<Rightarrow> string" where
  "sort_column sortBy = (if sortBy \<in> {''created_at'', ''updated_at'', ''title''} then sortBy else ''created_at'')"

definition sort_order :: "string \<Rightarrow> string" where
  "sort_order order = (if order \<noteq> ''asc'' \<and> order \<noteq> ''desc'' then ''desc'' else order)"

definition page_number :: "string \<Rightarrow> int64" where
  "page_number page = (case Atoi page of Some v \<Rightarrow> if v > 0 then word_of_int v else 1 | None \<Rightarrow> 1)"

definition page_size :: "string \<Rightarrow> int64" where
  "page_size pageSize =
     (case Atoi pageSize of Some v \<Rightarrow> if v > 0 \<and> v \<le> 100 then word_of_int v else 10 | None \<Rightarrow> 10)"

definition GetTasksPaginated ::
  "'d task_db \<Rightarrow> string \<Rightarrow> string \<Rightarrow> string \<Rightarrow> string \<Rightarrow> 'd \<Rightarrow> gorm_error + task list \<times> int64" where
  "GetTasksPaginated K sortBy order page pageSize d =
     (let p = page_number page; ps = page_size pageSize;
          offset = (p - 1) * ps;
          total = kdb_count K d
      in case kdb_find_page K (sort_column sortBy @ '' '' @ sort_order order) offset ps d of
           Inl err \<Rightarrow> Inl err
         | Inr tasks \<Rightarrow> Inr (tasks, total))"

definition TaskServiceImpl :: "'d task_db \<Rightarrow> 'd task_service" where
  "TaskServiceImpl K =
     \<lparr>ts_CreateTask = kdb_create K, ts_GetTaskByID = kdb_first K, ts_GetTasks = kdb_find K,
      ts_UpdateTask = kdb_updates K, ts_DeleteTask = kdb_delete K,
      ts_GetTasksPaginated = GetTasksPaginated K\<rparr>"

section \<open>Pages\<close>

definition order_clauses :: "string list" where
  "order_clauses = [''created_at asc'', ''created_at desc'', ''updated_at asc'', ''updated_at desc'',
     ''title asc'', ''title desc'']"

lemma page_size_bounds: "1 \<le> sint (page_size s) \<and> sint (page_size s) \<le> 100"
proof -
  have "sint (word_of_int v :: int64) = v" if "0 < v" "v \<le> 100" for v
    using that by (intro sint_int64) (simp add: in_int64_def)
  then show ?thesis by (auto simp: page_size_def split: option.splits)
qed

lemma page_number_pos: "1 \<le> sint (page_number s)"
proof -
  have "sint (word_of_int v :: int64) = v" if "0 < v" "in_int64 v" for v
    using that by (intro sint_int64)
  then show ?thesis by (auto simp: page_number_def dest: Atoi_range split: option.splits)
qed

lemma order_clause_ok: "sort_column sortBy @ '' '' @ sort_order order \<in> set order_clauses"
  by (auto simp: sort_column_def sort_order_def order_clauses_def)

text \<open>
  Whatever the client sends, the query is safe and bounded: it is ordered by one of six fixed
  clauses, it asks for between 1 and 100 rows, and the total that is returned is the table's count.
\<close>

theorem pagination_is_bounded:
  "\<exists>clause lim. GetTasksPaginated K sortBy order page pageSize d =
      (case kdb_find_page K clause ((page_number page - 1) * lim) lim d of
         Inl e \<Rightarrow> Inl e | Inr tasks \<Rightarrow> Inr (tasks, kdb_count K d)) \<and>
    clause \<in> set order_clauses \<and> 1 \<le> sint lim \<and> sint lim \<le> 100 \<and> 1 \<le> sint (page_number page)"
  using order_clause_ok [of sortBy order] page_size_bounds [of pageSize] page_number_pos [of page]
  by (auto simp: GetTasksPaginated_def Let_def intro!: exI [of _ "sort_column sortBy @ '' '' @ sort_order order"]
      exI [of _ "page_size pageSize"])

text \<open>
  The order of a clause on rows; \<open>coll\<close> is the collation of the database. The columns are not unique, and the database orders rows that
  tie as it likes, anew for each query: a page is a slice of some permutation of the table that the clause sorts.
\<close>

definition sort_le :: "(string \<Rightarrow> string \<Rightarrow> bool) \<Rightarrow> string \<Rightarrow> task \<Rightarrow> task \<Rightarrow> bool" where
  "sort_le coll clause x y \<longleftrightarrow>
     (if clause = ''created_at asc'' then t_CreatedAt x \<le> t_CreatedAt y
      else if clause = ''created_at desc'' then t_CreatedAt y \<le> t_CreatedAt x
      else if clause = ''updated_at asc'' then t_UpdatedAt x \<le> t_UpdatedAt y
      else if clause = ''updated_at desc'' then t_UpdatedAt y \<le> t_UpdatedAt x
      else if clause = ''title asc'' then coll (t_Title x) (t_Title y)
      else coll (t_Title y) (t_Title x))"

definition page_reads :: "'d task_db \<Rightarrow> (string \<Rightarrow> string \<Rightarrow> bool) \<Rightarrow> task list \<Rightarrow> 'd \<Rightarrow> bool" where
  "page_reads K coll rows d \<longleftrightarrow> kdb_find K d = Inr rows \<and> kdb_count K d = of_nat (length rows) \<and>
     (\<forall>clause \<in> set order_clauses. \<forall>off lim. 0 \<le> sint off \<longrightarrow> 0 < sint lim \<longrightarrow>
       (\<exists>ys. mset ys = mset rows \<and> sorted_wrt (sort_le coll clause) ys \<and>
         kdb_find_page K clause off lim d = Inr (take (nat (sint lim)) (drop (nat (sint off)) ys))))"






text \<open>
  With ties the pages need not tile: there is a database that orders every page as asked and that shows one of two tasks with
  equal times (as a batch insert leaves them) on both pages of size one, and the other on neither.
\<close>

theorem tied_rows_may_repeat:
  assumes "t_CreatedAt x = t_CreatedAt y" and "t_UpdatedAt x = t_UpdatedAt y"
  shows "\<exists>K :: unit task_db. page_reads K (\<lambda>_ _. True) [x, y] () \<and>
    GetTasksPaginated K ''created_at'' ''asc'' ''1'' ''1'' () = Inr ([x], 2) \<and>
    GetTasksPaginated K ''created_at'' ''asc'' ''2'' ''1'' () = Inr ([x], 2)"
proof -
  let ?ys = "\<lambda>off :: int64. if off = 0 then [x, y] else [y, x]"
  let ?K = "\<lparr>kdb_create = \<lambda>_ _. (None, ()), kdb_first = \<lambda>_ _. Inr x, kdb_find = \<lambda>_. Inr [x, y], kdb_find_user = \<lambda>_ _. Inr [x, y],
    kdb_count = \<lambda>_. 2, kdb_find_page = \<lambda>_ off lim _. Inr (take (nat (sint lim)) (drop (nat (sint off)) (?ys off))),
    kdb_updates = \<lambda>_ _ _. (None, ()), kdb_delete = \<lambda>_ _. (None, ())\<rparr> :: unit task_db"
  have "mset (?ys off) = mset [x, y] \<and> sorted_wrt (sort_le (\<lambda>_ _. True) clause) (?ys off)" for off clause
    using assms by (simp add: sort_le_def)
  then have "\<exists>ys. mset ys = mset [x, y] \<and> sorted_wrt (sort_le (\<lambda>_ _. True) clause) ys \<and>
      kdb_find_page ?K clause off lim () = Inr (take (nat (sint lim)) (drop (nat (sint off)) ys))" for clause off lim
    by (intro exI [of _ "?ys off"]) simp
  then have "page_reads ?K (\<lambda>_ _. True) [x, y] ()" by (simp add: page_reads_def)
  moreover have "page_number ''1'' = 1" "page_number ''2'' = 2" "page_size ''1'' = 1"
    by (simp_all add: page_number_def page_size_def Atoi_def digit_val_def in_int64_def)
  then have "GetTasksPaginated ?K ''created_at'' ''asc'' ''1'' ''1'' () = Inr ([x], 2)"
    and "GetTasksPaginated ?K ''created_at'' ''asc'' ''2'' ''1'' () = Inr ([x], 2)"
    by (simp_all add: GetTasksPaginated_def Let_def)
  ultimately show ?thesis by blast
qed

definition mem_sort :: "string \<Rightarrow> task list \<Rightarrow> task list" where
  "mem_sort clause d =
     (if clause = ''created_at asc'' then sort_key t_CreatedAt d
      else if clause = ''created_at desc'' then rev (sort_key t_CreatedAt d)
      else if clause = ''updated_at asc'' then sort_key t_UpdatedAt d
      else if clause = ''updated_at desc'' then rev (sort_key t_UpdatedAt d)
      else if clause = ''title asc'' then sort_key (\<lambda>t. length (t_Title t)) d
      else rev (sort_key (\<lambda>t. length (t_Title t)) d))"

definition mem_task_db :: "(task list) task_db" where
  "mem_task_db = \<lparr>
     kdb_create = (\<lambda>t d. if t_ID t \<in> set (map t_ID d) then (Some (DbError ''duplicate key''), d)
       else (None, d @ [t\<lparr>t_CreatedAt := 7, t_UpdatedAt := 7\<rparr>])),
     kdb_first = (\<lambda>i d. case find (\<lambda>t. t_ID t = i) d of None \<Rightarrow> Inl ErrRecordNotFound | Some t \<Rightarrow> Inr t),
     kdb_find = (\<lambda>d. Inr d),
     kdb_find_user = (\<lambda>u d. Inr (filter (\<lambda>t. t_UserID t = u) d)),
     kdb_count = (\<lambda>d. of_nat (length d)),
     kdb_find_page = (\<lambda>clause off lim d. Inr (take (nat (sint lim)) (drop (nat (sint off)) (mem_sort clause d)))),
     kdb_updates = (\<lambda>i u d. (None, map (\<lambda>t. if t_ID t = i then t\<lparr>
         t_UserID := (if t_UserID u = uuid_Nil then t_UserID t else t_UserID u),
         t_Title := (if t_Title u = [] then t_Title t else t_Title u),
         t_Description := (if t_Description u = [] then t_Description t else t_Description u),
         t_Status := (if t_Status u = [] then t_Status t else t_Status u), t_UpdatedAt := 8\<rparr> else t) d)),
     kdb_delete = (\<lambda>i d. (None, filter (\<lambda>t. t_ID t \<noteq> i) d))\<rparr>"

definition ex_task :: "uuid \<Rightarrow> uuid \<Rightarrow> string \<Rightarrow> task" where
  "ex_task i u title = \<lparr>t_ID = i, t_UserID = u, t_Title = title, t_Description = ''d'', t_Status = ''pending'',
     t_CreatedAt = 1, t_UpdatedAt = 1\<rparr>"






theorem tied_rows_may_repeat_witness:
  "\<exists>K :: unit task_db. GetTasksPaginated K ''created_at'' ''asc'' ''1'' ''1'' () = Inr ([ex_task 1 5 ''a''], 2) \<and>
    GetTasksPaginated K ''created_at'' ''asc'' ''2'' ''1'' () = Inr ([ex_task 1 5 ''a''], 2)"
  using tied_rows_may_repeat [of "ex_task 1 5 ''a''" "ex_task 2 5 ''b''"] by (auto simp: ex_task_def)

text \<open>
  A huge page number wraps around. For page \<open>9223372036854775807\<close> the offset overflows to a
  negative number; the query builder drops offsets that are not positive, so the client gets the first
  page.
\<close>

theorem huge_page_is_the_first_page:
  assumes "\<And>clause off lim. sint off \<le> 0 \<Longrightarrow> kdb_find_page K clause off lim d = kdb_find_page K clause 0 lim d"
  shows "GetTasksPaginated K sortBy order ''9223372036854775807'' ''10'' d =
    GetTasksPaginated K sortBy order ''1'' ''10'' d"
proof -
  have ps: "page_size ''10'' = 10" by (simp add: page_size_def Atoi_def digit_val_def in_int64_def)
  have p: "page_number ''9223372036854775807'' = 9223372036854775807" "page_number ''1'' = 1"
    by (simp_all add: page_number_def Atoi_def digit_val_def in_int64_def)
  have "sint ((9223372036854775807 - 1) * 10 :: int64) = - 20" by simp
  then have "kdb_find_page K clause ((9223372036854775807 - 1) * 10) 10 d = kdb_find_page K clause 0 10 d" for clause
    by (intro assms) simp
  then show ?thesis unfolding GetTasksPaginated_def ps p by (simp add: Let_def)
qed

theorem huge_page_is_the_first_page_witness:
  "GetTasksPaginated mem_task_db ''title'' ''asc'' ''9223372036854775807'' ''10'' [ex_task 1 5 ''a''] =
    Inr ([ex_task 1 5 ''a''], 1)"
proof -
  have "GetTasksPaginated mem_task_db ''title'' ''asc'' ''9223372036854775807'' ''10'' [ex_task 1 5 ''a''] =
      GetTasksPaginated mem_task_db ''title'' ''asc'' ''1'' ''10'' [ex_task 1 5 ''a'']"
    by (rule huge_page_is_the_first_page) (simp add: mem_task_db_def)
  also have "\<dots> = Inr ([ex_task 1 5 ''a''], 1)"
    by (simp add: mem_sort_def GetTasksPaginated_def mem_task_db_def page_size_def page_number_def Atoi_def digit_val_def in_int64_def)
  finally show ?thesis .
qed

end
