(* ===== verification/CachedTasks.thy ===== *)
theory CachedTasks
  imports CacheCoherence TaskService AuthService
begin

text \<open>
  The cached task service (\<^verbatim>\<open>backend/internal/services/cached_tasks.go\<close>): a \<open>TaskService\<close> behind the
  two-level cache. The state is the cache and the database. The \<open>i\<close>-th call of the cache in an
  operation starts at \<open>tm (2 * i)\<close> and its Redis call returns at \<open>tm (2 * i + 1)\<close>. The results of the
  cache's \<open>Set\<close> and \<open>Delete\<close> are ignored, as in the source.
\<close>

section \<open>Keys and values\<close>

text \<open>What the service and its warmer store; \<open>CVNil\<close> is the nil interface, \<open>null\<close> in JSON.\<close>

datatype cached = CVNil | CVTask task | CVTasks "task list" | CVPage "task list" int64

datatype cached_ty = TyTask | TyTasks | TyPage

text \<open>The destination variable after a successful \<open>Get\<close>: a value of its own type; \<open>null\<close> leaves it as it was declared.\<close>

definition zero_task :: task where
  "zero_task = \<lparr>t_ID = uuid_Nil, t_UserID = uuid_Nil, t_Title = [], t_Description = [], t_Status = [],
     t_CreatedAt = 0, t_UpdatedAt = 0\<rparr>"

fun as_task :: "cached \<Rightarrow> task" where "as_task (CVTask x) = x" | "as_task _ = zero_task"
fun as_tasks :: "cached \<Rightarrow> task list" where "as_tasks (CVTasks xs) = xs" | "as_tasks _ = []"
fun as_page :: "cached \<Rightarrow> task list \<times> int64" where "as_page (CVPage xs n) = (xs, n)" | "as_page _ = ([], 0)"

definition task_key :: "uuid_lib \<Rightarrow> uuid \<Rightarrow> string" where
  "task_key U i = ''task:'' @ uuid_String U i"

definition page_key :: "string \<Rightarrow> string \<Rightarrow> string \<Rightarrow> string \<Rightarrow> string" where
  "page_key sortBy order page pageSize =
     ''tasks_paginated:'' @ sortBy @ '':'' @ order @ '':'' @ page @ '':'' @ pageSize"

definition user_tasks_key :: "uuid_lib \<Rightarrow> uuid \<Rightarrow> string" where
  "user_tasks_key U u = ''user_tasks:'' @ uuid_String U u"

definition user_pattern :: "uuid_lib \<Rightarrow> uuid \<Rightarrow> string" where
  "user_pattern U u = ''user_tasks:'' @ uuid_String U u @ '':*''"

type_synonym 'r task_cache = "(cached, 'r) multi_level_cache"
type_synonym 'r task_env =
  "(cached, cached_ty, 'r) cache_env \<times> (instant \<Rightarrow> 'r \<Rightarrow> string \<Rightarrow> string option)"

section \<open>Operations\<close>

definition cts_CreateTask ::
  "'r task_env \<Rightarrow> uuid_lib \<Rightarrow> 'd task_service \<Rightarrow> (nat \<Rightarrow> instant) \<Rightarrow> task \<Rightarrow> 'r task_cache \<Rightarrow> 'd \<Rightarrow>
   gorm_error option \<times> 'r task_cache \<times> 'd" where
  "cts_CreateTask e U S tm task c d =
     (case ts_CreateTask S task d of
        (Some err, d') \<Rightarrow> (Some err, c, d')
      | (None, d') \<Rightarrow>
          let c1 = vset e (tm 0) (tm 1) (task_key U (t_ID task)) (CVTask task) (30 * minute) c;
              c2 = vdelpat e (tm 2) (user_pattern U (t_UserID task)) c1;
              c3 = vdelpat e (tm 4) ''tasks_paginated:*'' c2;
              c4 = vdel e (tm 6) (tm 7) ''all_tasks'' c3
          in (None, c4, d'))"

definition cts_GetTaskByID ::
  "'r task_env \<Rightarrow> uuid_lib \<Rightarrow> 'd task_service \<Rightarrow> (nat \<Rightarrow> instant) \<Rightarrow> uuid \<Rightarrow> 'r task_cache \<Rightarrow> 'd \<Rightarrow>
   (gorm_error + task) \<times> 'r task_cache" where
  "cts_GetTaskByID e U S tm i c d =
     (case vget e (tm 0) (tm 1) (task_key U i) TyTask c of
        (Inr v, c1) \<Rightarrow> (Inr (as_task v), c1)
      | (Inl _, c1) \<Rightarrow>
          (case ts_GetTaskByID S i d of
             Inl err \<Rightarrow> (Inl err, c1)
           | Inr task \<Rightarrow> (Inr task, vset e (tm 2) (tm 3) (task_key U i) (CVTask task) (30 * minute) c1)))"

definition cts_GetTasks ::
  "'r task_env \<Rightarrow> 'd task_service \<Rightarrow> (nat \<Rightarrow> instant) \<Rightarrow> 'r task_cache \<Rightarrow> 'd \<Rightarrow>
   (gorm_error + task list) \<times> 'r task_cache" where
  "cts_GetTasks e S tm c d =
     (case vget e (tm 0) (tm 1) ''all_tasks'' TyTasks c of
        (Inr v, c1) \<Rightarrow> (Inr (as_tasks v), c1)
      | (Inl _, c1) \<Rightarrow>
          (case ts_GetTasks S d of
             Inl err \<Rightarrow> (Inl err, c1)
           | Inr tasks \<Rightarrow> (Inr tasks, vset e (tm 2) (tm 3) ''all_tasks'' (CVTasks tasks) (10 * minute) c1)))"

definition cts_GetTasksPaginated ::
  "'r task_env \<Rightarrow> 'd task_service \<Rightarrow> (nat \<Rightarrow> instant) \<Rightarrow> string \<Rightarrow> string \<Rightarrow> string \<Rightarrow> string \<Rightarrow> 'r task_cache \<Rightarrow> 'd \<Rightarrow>
   (gorm_error + task list \<times> int64) \<times> 'r task_cache" where
  "cts_GetTasksPaginated e S tm sortBy order page pageSize c d =
     (let cacheKey = page_key sortBy order page pageSize
      in case vget e (tm 0) (tm 1) cacheKey TyPage c of
           (Inr v, c1) \<Rightarrow> (Inr (as_page v), c1)
         | (Inl _, c1) \<Rightarrow>
             (case ts_GetTasksPaginated S sortBy order page pageSize d of
                Inl err \<Rightarrow> (Inl err, c1)
              | Inr (tasks, count_all) \<Rightarrow>
                  (Inr (tasks, count_all), vset e (tm 2) (tm 3) cacheKey (CVPage tasks count_all) (5 * minute) c1)))"

text \<open>The invalidations \<open>UpdateTask\<close> and \<open>DeleteTask\<close> share; \<open>got\<close> is the task they looked up.\<close>

definition drop_user_tasks ::
  "'r task_env \<Rightarrow> uuid_lib \<Rightarrow> instant \<Rightarrow> gorm_error + task \<Rightarrow> 'r task_cache \<Rightarrow> 'r task_cache" where
  "drop_user_tasks e U now got c =
     (case got of Inr task \<Rightarrow> vdelpat e now (user_pattern U (t_UserID task)) c | Inl _ \<Rightarrow> c)"

definition cts_UpdateTask ::
  "'r task_env \<Rightarrow> uuid_lib \<Rightarrow> 'd task_service \<Rightarrow> (nat \<Rightarrow> instant) \<Rightarrow> uuid \<Rightarrow> task \<Rightarrow> 'r task_cache \<Rightarrow> 'd \<Rightarrow>
   gorm_error option \<times> 'r task_cache \<times> 'd" where
  "cts_UpdateTask e U S tm i updated c d =
     (case ts_UpdateTask S i updated d of
        (Some err, d') \<Rightarrow> (Some err, c, d')
      | (None, d') \<Rightarrow>
          let c1 = vdel e (tm 0) (tm 1) (task_key U i) c;
              c2 = drop_user_tasks e U (tm 2) (ts_GetTaskByID S i d') c1;
              c3 = vdelpat e (tm 4) ''tasks_paginated:*'' c2;
              c4 = vdel e (tm 6) (tm 7) ''all_tasks'' c3
          in (None, c4, d'))"

definition cts_DeleteTask ::
  "'r task_env \<Rightarrow> uuid_lib \<Rightarrow> 'd task_service \<Rightarrow> (nat \<Rightarrow> instant) \<Rightarrow> uuid \<Rightarrow> 'r task_cache \<Rightarrow> 'd \<Rightarrow>
   gorm_error option \<times> 'r task_cache \<times> 'd" where
  "cts_DeleteTask e U S tm i c d =
     (let got = ts_GetTaskByID S i d
      in case ts_DeleteTask S i d of
        (Some err, d') \<Rightarrow> (Some err, c, d')
      | (None, d') \<Rightarrow>
          let c1 = vdel e (tm 0) (tm 1) (task_key U i) c;
              c2 = drop_user_tasks e U (tm 2) got c1;
              c3 = vdelpat e (tm 4) ''tasks_paginated:*'' c2;
              c4 = vdel e (tm 6) (tm 7) ''all_tasks'' c3
          in (None, c4, d'))"

text \<open>\<open>GetTasksByUser\<close> reads the database directly, not through the task service.\<close>

definition cts_GetTasksByUser ::
  "'r task_env \<Rightarrow> uuid_lib \<Rightarrow> 'd task_db \<Rightarrow> (nat \<Rightarrow> instant) \<Rightarrow> uuid \<Rightarrow> 'r task_cache \<Rightarrow> 'd \<Rightarrow>
   (gorm_error + task list) \<times> 'r task_cache" where
  "cts_GetTasksByUser e U K tm userID c d =
     (case vget e (tm 0) (tm 1) (user_tasks_key U userID) TyTasks c of
        (Inr v, c1) \<Rightarrow> (Inr (as_tasks v), c1)
      | (Inl _, c1) \<Rightarrow>
          (case kdb_find_user K userID d of
             Inl err \<Rightarrow> (Inl err, c1)
           | Inr tasks \<Rightarrow>
               (Inr tasks, vset e (tm 2) (tm 3) (user_tasks_key U userID) (CVTasks tasks) (15 * minute) c1)))"

text \<open>The goroutine of \<open>WarmCriticalData\<close>, when it runs without interruption.\<close>

definition cts_WarmCriticalData ::
  "'r task_env \<Rightarrow> 'd task_service \<Rightarrow> (nat \<Rightarrow> instant) \<Rightarrow> 'r task_cache \<Rightarrow> 'd \<Rightarrow> 'r task_cache" where
  "cts_WarmCriticalData e S tm c d =
     (let c1 = (case ts_GetTasks S d of
          Inr tasks \<Rightarrow> vset e (tm 0) (tm 1) ''all_tasks'' (CVTasks tasks) (10 * minute) c | Inl _ \<Rightarrow> c)
      in case ts_GetTasksPaginated S ''created_at'' ''desc'' ''1'' ''10'' d of
           Inr (tasks, count_all) \<Rightarrow>
             vset e (tm 2) (tm 3) ''tasks_paginated:created_at:desc:1:10'' (CVPage tasks count_all) (5 * minute) c1
         | Inl _ \<Rightarrow> c1)"

section \<open>Coherence\<close>

text \<open>
  The reads of the service interface. A page read is tracked when its parameters contain no colon:
  then no other read shares its key.
\<close>

datatype task_read = RdTask uuid | RdAll | RdPage string string string string

fun read_key :: "uuid_lib \<Rightarrow> task_read \<Rightarrow> string" where
  "read_key U (RdTask i) = task_key U i"
| "read_key U RdAll = ''all_tasks''"
| "read_key U (RdPage a b p n) = page_key a b p n"

fun read_ty :: "task_read \<Rightarrow> cached_ty" where
  "read_ty (RdTask i) = TyTask"
| "read_ty RdAll = TyTasks"
| "read_ty (RdPage a b p n) = TyPage"

fun read_val :: "'d task_service \<Rightarrow> 'd \<Rightarrow> task_read \<Rightarrow> gorm_error + cached" where
  "read_val S d (RdTask i) = (case ts_GetTaskByID S i d of Inl e \<Rightarrow> Inl e | Inr x \<Rightarrow> Inr (CVTask x))"
| "read_val S d RdAll = (case ts_GetTasks S d of Inl e \<Rightarrow> Inl e | Inr xs \<Rightarrow> Inr (CVTasks xs))"
| "read_val S d (RdPage a b p n) =
     (case ts_GetTasksPaginated S a b p n d of Inl e \<Rightarrow> Inl e | Inr (xs, m) \<Rightarrow> Inr (CVPage xs m))"

definition colon_free :: "string \<Rightarrow> bool" where
  "colon_free s \<longleftrightarrow> CHR '':'' \<notin> set s"

fun tracked :: "task_read \<Rightarrow> bool" where
  "tracked (RdPage a b p n) \<longleftrightarrow> colon_free a \<and> colon_free b \<and> colon_free p \<and> colon_free n"
| "tracked _ = True"

definition uuid_plain :: "uuid_lib \<Rightarrow> bool" where
  "uuid_plain U \<longleftrightarrow> uuid_lawful U \<and> (\<forall>i. literal (uuid_String U i))"

lemma split_colon:
  "colon_free x \<Longrightarrow> colon_free x' \<Longrightarrow> x @ '':'' @ y = x' @ '':'' @ y' \<Longrightarrow> x = x' \<and> y = y'"
proof (induction x arbitrary: x')
  case Nil
  then show ?case by (cases x') (auto simp: colon_free_def)
next
  case (Cons a x)
  then show ?case by (cases x') (auto simp: colon_free_def)
qed

lemma page_key_inj:
  assumes "tracked (RdPage a b p n)" and "page_key a b p n = page_key a' b' p' n'"
  shows "RdPage a b p n = RdPage a' b' p' n'"
proof -
  have eq: "a @ '':'' @ b @ '':'' @ p @ '':'' @ n = a' @ '':'' @ b' @ '':'' @ p' @ '':'' @ n'"
    using assms(2) by (simp add: page_key_def)
  have z: "count_list s (CHR '':'') = 0 \<longleftrightarrow> colon_free s" for s
    by (simp add: colon_free_def count_list_0_iff)
  have "count_list (a @ '':'' @ b @ '':'' @ p @ '':'' @ n) (CHR '':'') =
      count_list (a' @ '':'' @ b' @ '':'' @ p' @ '':'' @ n') (CHR '':'')" by (simp only: eq)
  then have "count_list a' (CHR '':'') = 0 \<and> count_list b' (CHR '':'') = 0 \<and>
      count_list p' (CHR '':'') = 0 \<and> count_list n' (CHR '':'') = 0"
    using assms(1) by (simp add: z [symmetric] del: count_list_0_iff)
  then have f: "colon_free a'" "colon_free b'" "colon_free p'" "colon_free n'" by (simp_all add: z)
  note t = assms(1) [unfolded tracked.simps]
  have 1: "a = a' \<and> b @ '':'' @ p @ '':'' @ n = b' @ '':'' @ p' @ '':'' @ n'"
    by (rule split_colon [OF conjunct1 [OF t] f(1) eq])
  have 2: "b = b' \<and> p @ '':'' @ n = p' @ '':'' @ n'"
    by (rule split_colon [OF t [THEN conjunct2, THEN conjunct1] f(2) conjunct2 [OF 1]])
  have 3: "p = p' \<and> n = n'"
    by (rule split_colon [OF t [THEN conjunct2, THEN conjunct2, THEN conjunct1] f(3) conjunct2 [OF 2]])
  show ?thesis using 1 2 3 by blast
qed

lemma read_key_inj:
  assumes "uuid_plain U" and "tracked rd" and "read_key U rd = read_key U rd'"
  shows "rd = rd'"
proof -
  have u: "uuid_String U i = uuid_String U j \<Longrightarrow> i = j" for i j
    using assms(1) unfolding uuid_plain_def uuid_lawful_def by (metis option.inject)
  show ?thesis
  proof (cases rd)
    case (RdTask i)
    then show ?thesis using assms(3) u by (cases rd') (auto simp: task_key_def page_key_def)
  next
    case RdAll
    then show ?thesis using assms(3) by (cases rd') (auto simp: task_key_def page_key_def)
  next
    case rd: (RdPage a b p n)
    show ?thesis
    proof (cases rd')
      case (RdPage a' b' p' n')
      have "page_key a b p n = page_key a' b' p' n'" using assms(3) rd RdPage by simp
      then show ?thesis using page_key_inj [of a b p n a' b' p' n'] assms(2) unfolding rd RdPage by blast
    qed (use assms(3) rd in \<open>auto simp: task_key_def page_key_def\<close>)
  qed
qed

text \<open>Everything a tracked read could find in the cache is what the service would answer.\<close>

definition coherent ::
  "'r task_env \<Rightarrow> uuid_lib \<Rightarrow> 'd task_service \<Rightarrow> instant \<Rightarrow> 'r task_cache \<Rightarrow> 'd \<Rightarrow> bool" where
  "coherent e U S t c d \<longleftrightarrow>
     (\<forall>rd v. tracked rd \<longrightarrow> visible e t c (read_ty rd) (read_key U rd) v \<longrightarrow> read_val S d rd = Inr v)"

text \<open>Every answer of the service survives the JSON round trip.\<close>

definition answers_storable :: "'r task_env \<Rightarrow> 'd task_service \<Rightarrow> bool" where
  "answers_storable e S \<longleftrightarrow> (\<forall>d rd v. read_val S d rd = Inr v \<longrightarrow> storable e (read_ty rd) v)"

lemma coherent_later: "coherent e U S t c d \<Longrightarrow> t \<le> t' \<Longrightarrow> coherent e U S t' c d"
  unfolding coherent_def by (meson mlcv.vis_later)

text \<open>The three reads are one cache-aside read.\<close>

definition aside ::
  "'r task_env \<Rightarrow> uuid_lib \<Rightarrow> 'd task_service \<Rightarrow> (nat \<Rightarrow> instant) \<Rightarrow> duration \<Rightarrow> task_read \<Rightarrow> 'r task_cache \<Rightarrow> 'd \<Rightarrow>
   (gorm_error + cached) \<times> 'r task_cache" where
  "aside e U S tm ttl rd c d =
     (case vget e (tm 0) (tm 1) (read_key U rd) (read_ty rd) c of
        (Inr v, c1) \<Rightarrow> (Inr v, c1)
      | (Inl _, c1) \<Rightarrow>
          (case read_val S d rd of
             Inl err \<Rightarrow> (Inl err, c1)
           | Inr v \<Rightarrow> (Inr v, vset e (tm 2) (tm 3) (read_key U rd) v ttl c1)))"

text \<open>Looking a key up and filling it keep the cache coherent.\<close>

lemma lookup_coherent:
  assumes laws: "env_lawful e" "uuid_plain U" and coh: "coherent e U S t c d" and "t \<le> now"
  shows "coherent e U S now (snd (vget e now now' (read_key U rd) (read_ty rd) c)) d"
  unfolding coherent_def
proof (intro allI impI)
  fix rd' v assume *: "tracked rd'" "visible e now (snd (vget e now now' (read_key U rd) (read_ty rd) c)) (read_ty rd') (read_key U rd') v"
  have "visible e t c (read_ty rd') (read_key U rd') v"
    by (rule mlcv.get_vis [OF laws(1) assms(4) _ *(2)]) (use read_key_inj [OF laws(2) *(1)] in auto)
  then show "read_val S d rd' = Inr v" using coh *(1) unfolding coherent_def by blast
qed

lemma fill_coherent:
  assumes laws: "env_lawful e" "uuid_plain U" and coh: "coherent e U S t c d" and "t \<le> now" and "0 < ttl"
    and v: "read_val S d rd = Inr v" "storable e (read_ty rd) v"
  shows "coherent e U S now (vset e now now' (read_key U rd) v ttl c) d"
  unfolding coherent_def
proof (intro allI impI)
  fix rd' w assume *: "tracked rd'" "visible e now (vset e now now' (read_key U rd) v ttl c) (read_ty rd') (read_key U rd') w"
  have key: "read_key U rd' = read_key U rd \<Longrightarrow> rd' = rd" using read_key_inj [OF laws(2) *(1)] by simp
  have "visible e t c (read_ty rd') (read_key U rd') w \<or> read_key U rd' = read_key U rd \<and> w = v"
    by (rule mlcv.set_vis [OF laws(1) assms(5,4) _ v(2) *(2)]) (use key in auto)
  then show "read_val S d rd' = Inr w" using coh *(1) key v(1) unfolding coherent_def by blast
qed

lemma aside_ok:
  assumes laws: "env_lawful e" "uuid_plain U" "answers_storable e S"
    and coh: "coherent e U S t c d" and times: "t \<le> tm 0" "tm 0 \<le> tm 2" and ttl: "0 < ttl"
  shows "tracked rd \<Longrightarrow> fst (aside e U S tm ttl rd c d) = read_val S d rd"
    and "coherent e U S (tm 2) (snd (aside e U S tm ttl rd c d)) d"
proof -
  obtain x c1 where g: "vget e (tm 0) (tm 1) (read_key U rd) (read_ty rd) c = (x, c1)" by fastforce
  have c1: "coherent e U S (tm 0) c1 d" using lookup_coherent [OF laws(1,2) coh times(1), of "tm 1" rd] g by simp
  show "fst (aside e U S tm ttl rd c d) = read_val S d rd" if tr: "tracked rd"
  proof (cases x)
    case (Inl e)
    then show ?thesis using g by (auto simp: aside_def split: sum.splits)
  next
    case (Inr v)
    obtain w where w: "visible e t c (read_ty rd) (read_key U rd) w" "storable e (read_ty rd) w \<longrightarrow> v = w"
      using mlcv.get_result [OF laws(1) times(1), of "tm 1" "read_key U rd" "read_ty rd" c v] g Inr by auto
    then have "read_val S d rd = Inr w" using coh tr unfolding coherent_def by blast
    then show ?thesis using w(2) laws(3) g Inr by (auto simp: aside_def answers_storable_def)
  qed
  show "coherent e U S (tm 2) (snd (aside e U S tm ttl rd c d)) d"
  proof (cases "\<exists>v e'. x = Inl e' \<and> read_val S d rd = Inr v")
    case True
    then obtain v e' where v: "x = Inl e'" "read_val S d rd = Inr v" by blast
    then have "storable e (read_ty rd) v" using laws(3) unfolding answers_storable_def by blast
    from fill_coherent [OF laws(1,2) c1 times(2) ttl v(2) this] show ?thesis using g v by (simp add: aside_def)
  next
    case False
    then have "snd (aside e U S tm ttl rd c d) = c1" using g by (auto simp: aside_def split: sum.splits)
    then show ?thesis using coherent_later [OF c1 times(2)] by simp
  qed
qed

section \<open>Histories of the cached service\<close>

text \<open>
  What the task service's writes do to its single-task reads: a failed write changes no read, a
  successful one only the read of the task it names; a task is created under a new identifier.
\<close>

definition write_frames :: "'d task_service \<Rightarrow> bool" where
  "write_frames S \<longleftrightarrow>
     (\<forall>x d e d'. ts_CreateTask S x d = (e, d') \<longrightarrow> (\<forall>rd. e \<noteq> None \<or> (\<exists>j. rd = RdTask j \<and> j \<noteq> t_ID x) \<longrightarrow>
        read_val S d' rd = read_val S d rd) \<and> (e = None \<longrightarrow> (\<forall>y. ts_GetTaskByID S (t_ID x) d \<noteq> Inr y))) \<and>
     (\<forall>i x d e d'. ts_UpdateTask S i x d = (e, d') \<longrightarrow> (\<forall>rd. e \<noteq> None \<or> (\<exists>j. rd = RdTask j \<and> j \<noteq> i) \<longrightarrow>
        read_val S d' rd = read_val S d rd)) \<and>
     (\<forall>i d e d'. ts_DeleteTask S i d = (e, d') \<longrightarrow> (\<forall>rd. e \<noteq> None \<or> (\<exists>j. rd = RdTask j \<and> j \<noteq> i) \<longrightarrow>
        read_val S d' rd = read_val S d rd))"

datatype task_op =
    OpCreate task | OpUpdate uuid task | OpDelete uuid
  | OpGet uuid | OpAll | OpPage string string string string

datatype task_result =
    Done "gorm_error option" | GotTask "gorm_error + task" | GotTasks "gorm_error + task list"
  | GotPage "gorm_error + task list \<times> int64"

fun plain_step :: "'d task_service \<Rightarrow> task_op \<Rightarrow> 'd \<Rightarrow> task_result \<times> 'd" where
  "plain_step S (OpCreate x) d = (case ts_CreateTask S x d of (e, d') \<Rightarrow> (Done e, d'))"
| "plain_step S (OpUpdate i x) d = (case ts_UpdateTask S i x d of (e, d') \<Rightarrow> (Done e, d'))"
| "plain_step S (OpDelete i) d = (case ts_DeleteTask S i d of (e, d') \<Rightarrow> (Done e, d'))"
| "plain_step S (OpGet i) d = (GotTask (ts_GetTaskByID S i d), d)"
| "plain_step S OpAll d = (GotTasks (ts_GetTasks S d), d)"
| "plain_step S (OpPage a b p n) d = (GotPage (ts_GetTasksPaginated S a b p n d), d)"

fun cached_step ::
  "'r task_env \<Rightarrow> uuid_lib \<Rightarrow> 'd task_service \<Rightarrow> (nat \<Rightarrow> instant) \<Rightarrow> task_op \<Rightarrow> 'r task_cache \<Rightarrow> 'd \<Rightarrow>
   task_result \<times> 'r task_cache \<times> 'd" where
  "cached_step e U S tm (OpCreate x) c d = (case cts_CreateTask e U S tm x c d of (r, s) \<Rightarrow> (Done r, s))"
| "cached_step e U S tm (OpUpdate i x) c d = (case cts_UpdateTask e U S tm i x c d of (r, s) \<Rightarrow> (Done r, s))"
| "cached_step e U S tm (OpDelete i) c d = (case cts_DeleteTask e U S tm i c d of (r, s) \<Rightarrow> (Done r, s))"
| "cached_step e U S tm (OpGet i) c d = (case cts_GetTaskByID e U S tm i c d of (r, c') \<Rightarrow> (GotTask r, c', d))"
| "cached_step e U S tm OpAll c d = (case cts_GetTasks e S tm c d of (r, c') \<Rightarrow> (GotTasks r, c', d))"
| "cached_step e U S tm (OpPage a b p n) c d =
     (case cts_GetTasksPaginated e S tm a b p n c d of (r, c') \<Rightarrow> (GotPage r, c', d))"

fun run_plain :: "'d task_service \<Rightarrow> task_op list \<Rightarrow> 'd \<Rightarrow> task_result list" where
  "run_plain S [] d = []"
| "run_plain S (op # ops) d = (case plain_step S op d of (r, d') \<Rightarrow> r # run_plain S ops d')"

fun run_cached ::
  "'r task_env \<Rightarrow> uuid_lib \<Rightarrow> 'd task_service \<Rightarrow> ((nat \<Rightarrow> instant) \<times> task_op) list \<Rightarrow> 'r task_cache \<Rightarrow> 'd \<Rightarrow>
   task_result list" where
  "run_cached e U S [] c d = []"
| "run_cached e U S ((tm, op) # ops) c d =
     (case cached_step e U S tm op c d of (r, c', d') \<Rightarrow> r # run_cached e U S ops c' d')"

text \<open>
  What an operation needs to keep the cache coherent. The deletions of one key are admitted by the
  circuit breaker when they are made; a page read has no colon in its parameters; the service stores
  a created task exactly as it was given.
\<close>

definition list_deletable :: "'r task_env \<Rightarrow> (nat \<Rightarrow> instant) \<Rightarrow> 'r task_cache \<Rightarrow> bool" where
  "list_deletable e tm c \<longleftrightarrow> ready (tm 6) (vdelpat e (tm 4) ''tasks_paginated:*'' c)"

fun op_ok ::
  "'r task_env \<Rightarrow> uuid_lib \<Rightarrow> 'd task_service \<Rightarrow> (nat \<Rightarrow> instant) \<Rightarrow> task_op \<Rightarrow> 'r task_cache \<Rightarrow> 'd \<Rightarrow> bool" where
  "op_ok e U S tm (OpCreate x) c d \<longleftrightarrow>
     (case ts_CreateTask S x d of
        (None, d') \<Rightarrow> ts_GetTaskByID S (t_ID x) d' = Inr x \<and>
          list_deletable e tm (vdelpat e (tm 2) (user_pattern U (t_UserID x))
            (vset e (tm 0) (tm 1) (task_key U (t_ID x)) (CVTask x) (30 * minute) c))
      | (Some _, _) \<Rightarrow> True)"
| "op_ok e U S tm (OpUpdate i x) c d \<longleftrightarrow>
     (case ts_UpdateTask S i x d of
        (None, d') \<Rightarrow> ready (tm 0) c \<and>
          list_deletable e tm (drop_user_tasks e U (tm 2) (ts_GetTaskByID S i d') (vdel e (tm 0) (tm 1) (task_key U i) c))
      | (Some _, _) \<Rightarrow> True)"
| "op_ok e U S tm (OpDelete i) c d \<longleftrightarrow>
     (case ts_DeleteTask S i d of
        (None, d') \<Rightarrow> ready (tm 0) c \<and>
          list_deletable e tm (drop_user_tasks e U (tm 2) (ts_GetTaskByID S i d) (vdel e (tm 0) (tm 1) (task_key U i) c))
      | (Some _, _) \<Rightarrow> True)"
| "op_ok e U S tm (OpPage a b p n) c d \<longleftrightarrow> tracked (RdPage a b p n)"
| "op_ok e U S tm _ c d \<longleftrightarrow> True"

fun history_ok ::
  "'r task_env \<Rightarrow> uuid_lib \<Rightarrow> 'd task_service \<Rightarrow> instant \<Rightarrow> ((nat \<Rightarrow> instant) \<times> task_op) list \<Rightarrow> 'r task_cache \<Rightarrow> 'd \<Rightarrow> bool" where
  "history_ok e U S t [] c d \<longleftrightarrow> True"
| "history_ok e U S t ((tm, op) # ops) c d \<longleftrightarrow>
     t \<le> tm 0 \<and> mono tm \<and> op_ok e U S tm op c d \<and>
     (case cached_step e U S tm op c d of (_, c', d') \<Rightarrow> history_ok e U S (tm 6) ops c' d')"

text \<open>The invalidations at the end of every write.\<close>

lemma user_pattern_eq: "user_pattern U u = (''user_tasks:'' @ uuid_String U u @ '':'') @ ''*''"
  by (simp add: user_pattern_def)

lemma drop_user_tasks_vis:
  assumes "env_lawful e" and "uuid_plain U" and "t \<le> now"
    and "visible e now (drop_user_tasks e U now got c) ty k w"
  shows "visible e t c ty k w"
proof (cases got)
  case (Inl err)
  then show ?thesis using assms(3,4) mlcv.vis_later by (simp add: drop_user_tasks_def)
next
  case (Inr x)
  have s: "literal (''user_tasks:'' @ uuid_String U (t_UserID x) @ '':'')"
    using assms(2) by (simp add: uuid_plain_def)
  show ?thesis using mlcv.delpat_vis [OF assms(1,3) s] assms(4) Inr
    by (simp add: drop_user_tasks_def user_pattern_eq del: append_assoc append_Cons)
qed

lemma list_invalidation:
  assumes "env_lawful e" and "mono tm" and "t \<le> tm 4" and "list_deletable e tm c"
    and "visible e (tm 6) (vdel e (tm 6) (tm 7) ''all_tasks'' (vdelpat e (tm 4) ''tasks_paginated:*'' c)) (read_ty rd) (read_key U rd) w"
  shows "visible e t c (read_ty rd) (read_key U rd) w \<and> (\<exists>j. rd = RdTask j)"
proof -
  have "tm 4 \<le> tm 6" using assms(2) by (auto intro: monoD)
  then have 1: "visible e (tm 4) (vdelpat e (tm 4) ''tasks_paginated:*'' c) (read_ty rd) (read_key U rd) w \<and>
      read_key U rd \<noteq> ''all_tasks''"
    using mlcv.del_vis [OF assms(1) _ assms(5), of "tm 4"] assms(4) by (auto simp: list_deletable_def)
  have "literal ''tasks_paginated:''" by simp
  from mlcv.delpat_vis [OF assms(1,3) this, of c "read_ty rd" "read_key U rd" w] 1
  have 2: "visible e t c (read_ty rd) (read_key U rd) w" "\<not> has_prefix (read_key U rd) ''tasks_paginated:''" by simp_all
  have "\<exists>j. rd = RdTask j"
  proof (cases rd)
    case RdAll then show ?thesis using 1 by simp
  next
    case (RdPage a b p n)
    then show ?thesis using 2(2) by (simp add: page_key_def has_prefix_def)
  qed simp
  with 2(1) show ?thesis by blast
qed

lemma writes_end:
  assumes "env_lawful e" and "mono tm" and "list_deletable e tm c2"
    and "\<And>j w. visible e (tm 2) c2 TyTask (task_key U j) w \<Longrightarrow> read_val S d' (RdTask j) = Inr w"
  shows "coherent e U S (tm 6) (vdel e (tm 6) (tm 7) ''all_tasks'' (vdelpat e (tm 4) ''tasks_paginated:*'' c2)) d'"
  unfolding coherent_def
proof (intro allI impI)
  fix rd w
  assume "visible e (tm 6) (vdel e (tm 6) (tm 7) ''all_tasks'' (vdelpat e (tm 4) ''tasks_paginated:*'' c2))
    (read_ty rd) (read_key U rd) w"
  moreover have "tm 2 \<le> tm 4" using assms(2) by (auto intro: monoD)
  ultimately have "visible e (tm 2) c2 (read_ty rd) (read_key U rd) w \<and> (\<exists>j. rd = RdTask j)"
    by (intro list_invalidation [OF assms(1,2) _ assms(3)])
  then show "read_val S d' rd = Inr w" using assms(4) by auto
qed

text \<open>\<open>UpdateTask\<close> and \<open>DeleteTask\<close> after a successful write.\<close>

lemma removal_coherent:
  assumes laws: "env_lawful e" "uuid_plain U"
    and coh: "coherent e U S t c d" and times: "t \<le> tm 0" "mono tm"
    and adm: "ready (tm 0) c" "list_deletable e tm (drop_user_tasks e U (tm 2) got (vdel e (tm 0) (tm 1) (task_key U i) c))"
    and frame: "\<And>j. j \<noteq> i \<Longrightarrow> read_val S d' (RdTask j) = read_val S d (RdTask j)"
  shows "coherent e U S (tm 6) (vdel e (tm 6) (tm 7) ''all_tasks'' (vdelpat e (tm 4) ''tasks_paginated:*''
    (drop_user_tasks e U (tm 2) got (vdel e (tm 0) (tm 1) (task_key U i) c)))) d'"
proof (rule writes_end [OF laws(1) times(2) adm(2)])
  fix j w
  assume v: "visible e (tm 2) (drop_user_tasks e U (tm 2) got (vdel e (tm 0) (tm 1) (task_key U i) c)) TyTask (task_key U j) w"
  have "tm 0 \<le> tm 2" using times(2) by (auto intro: monoD)
  then have "visible e (tm 0) (vdel e (tm 0) (tm 1) (task_key U i) c) TyTask (task_key U j) w"
    using drop_user_tasks_vis [OF laws _ v] by blast
  then have 1: "visible e t c TyTask (task_key U j) w" "task_key U j \<noteq> task_key U i"
    using mlcv.del_vis [OF laws(1) times(1)] adm(1) by blast+
  then have "read_val S d (RdTask j) = Inr w"
    using coh [unfolded coherent_def, THEN spec [of _ "RdTask j"], THEN spec [of _ w]] by simp
  then show "read_val S d' (RdTask j) = Inr w" using frame [of j] 1(2) by metis
qed

lemma creation_coherent:
  assumes laws: "env_lawful e" "uuid_plain U" "answers_storable e S"
    and coh: "coherent e U S t c d" and times: "t \<le> tm 0" "mono tm"
    and adm: "list_deletable e tm (vdelpat e (tm 2) (user_pattern U (t_UserID x))
      (vset e (tm 0) (tm 1) (task_key U (t_ID x)) (CVTask x) (30 * minute) c))"
    and stored: "ts_GetTaskByID S (t_ID x) d' = Inr x"
    and new: "\<And>y. ts_GetTaskByID S (t_ID x) d \<noteq> Inr y"
    and frame: "\<And>j. j \<noteq> t_ID x \<Longrightarrow> read_val S d' (RdTask j) = read_val S d (RdTask j)"
  shows "coherent e U S (tm 6) (vdel e (tm 6) (tm 7) ''all_tasks'' (vdelpat e (tm 4) ''tasks_paginated:*''
    (vdelpat e (tm 2) (user_pattern U (t_UserID x))
      (vset e (tm 0) (tm 1) (task_key U (t_ID x)) (CVTask x) (30 * minute) c)))) d'"
proof (rule writes_end [OF laws(1) times(2) adm])
  fix j w
  assume v: "visible e (tm 2) (vdelpat e (tm 2) (user_pattern U (t_UserID x))
    (vset e (tm 0) (tm 1) (task_key U (t_ID x)) (CVTask x) (30 * minute) c)) TyTask (task_key U j) w"
  have t02: "tm 0 \<le> tm 2" using times(2) by (auto intro: monoD)
  have r: "read_val S d' (RdTask (t_ID x)) = Inr (CVTask x)" using stored by simp
  then have st: "storable e TyTask (CVTask x)"
    using laws(3) [unfolded answers_storable_def, THEN spec [of _ d'], THEN spec [of _ "RdTask (t_ID x)"]] by simp
  have star: "literal (''user_tasks:'' @ uuid_String U (t_UserID x) @ '':'')"
    using laws(2) by (simp add: uuid_plain_def)
  have "visible e (tm 0) (vset e (tm 0) (tm 1) (task_key U (t_ID x)) (CVTask x) (30 * minute) c) TyTask (task_key U j) w"
    using mlcv.delpat_vis [OF laws(1) t02 star] v unfolding user_pattern_eq by blast
  then have "visible e t c TyTask (task_key U j) w \<or> task_key U j = task_key U (t_ID x) \<and> w = CVTask x"
    by (intro mlcv.set_vis [OF laws(1) _ times(1) _ st]) (simp_all add: dur_defs)
  moreover have "read_val S d (RdTask j) = Inr w" if "visible e t c TyTask (task_key U j) w"
    using coh [unfolded coherent_def, THEN spec [of _ "RdTask j"], THEN spec [of _ w]] that by simp
  moreover have "j = t_ID x" if "task_key U j = task_key U (t_ID x)"
    using read_key_inj [OF laws(2), of "RdTask j" "RdTask (t_ID x)"] that by simp
  ultimately consider "j = t_ID x" "w = CVTask x" | "read_val S d (RdTask j) = Inr w" by blast
  then show "read_val S d' (RdTask j) = Inr w"
  proof cases
    case 1 then show ?thesis using r by simp
  next
    case 2
    then have "j \<noteq> t_ID x" using new by (auto split: sum.splits)
    then show ?thesis using frame 2 by simp
  qed
qed

text \<open>One operation.\<close>

lemma reads_as_aside:
  "cts_GetTaskByID e U S tm i c d =
     (case fst (aside e U S tm (30 * minute) (RdTask i) c d) of Inl err \<Rightarrow> Inl err | Inr v \<Rightarrow> Inr (as_task v),
      snd (aside e U S tm (30 * minute) (RdTask i) c d))"
  "cts_GetTasks e S tm c d =
     (case fst (aside e U S tm (10 * minute) RdAll c d) of Inl err \<Rightarrow> Inl err | Inr v \<Rightarrow> Inr (as_tasks v),
      snd (aside e U S tm (10 * minute) RdAll c d))"
  "cts_GetTasksPaginated e S tm a b p n c d =
     (case fst (aside e U S tm (5 * minute) (RdPage a b p n) c d) of Inl err \<Rightarrow> Inl err | Inr v \<Rightarrow> Inr (as_page v),
      snd (aside e U S tm (5 * minute) (RdPage a b p n) c d))"
  by (auto simp: cts_GetTaskByID_def cts_GetTasks_def cts_GetTasksPaginated_def aside_def Let_def
      split: sum.splits prod.splits)

text \<open>A write that failed leaves every read as it was; the three writes, and the reads.\<close>

lemma failed_write_coherent:
  assumes "coherent e U S t c d" and "t \<le> t'" and "\<And>rd. read_val S d' rd = read_val S d rd"
  shows "coherent e U S t' c d'"
  using coherent_later [OF assms(1,2)] assms(3) by (simp add: coherent_def)

lemma removal_step_ok:
  assumes laws: "env_lawful e" "uuid_plain U"
    and coh: "coherent e U S t c d" and times: "t \<le> tm 0" "mono tm"
    and frame: "\<And>rd. err \<noteq> None \<or> (\<exists>j. rd = RdTask j \<and> j \<noteq> i) \<Longrightarrow> read_val S d' rd = read_val S d rd"
    and ok: "err = None \<Longrightarrow> ready (tm 0) c \<and>
      list_deletable e tm (drop_user_tasks e U (tm 2) got (vdel e (tm 0) (tm 1) (task_key U i) c))"
  shows "coherent e U S (tm 6) (case err of Some _ \<Rightarrow> c | None \<Rightarrow>
    vdel e (tm 6) (tm 7) ''all_tasks'' (vdelpat e (tm 4) ''tasks_paginated:*''
      (drop_user_tasks e U (tm 2) got (vdel e (tm 0) (tm 1) (task_key U i) c)))) d'"
proof (cases err)
  case None
  with ok have adm: "ready (tm 0) c" "list_deletable e tm (drop_user_tasks e U (tm 2) got (vdel e (tm 0) (tm 1) (task_key U i) c))"
    by simp_all
  have "coherent e U S (tm 6) (vdel e (tm 6) (tm 7) ''all_tasks'' (vdelpat e (tm 4) ''tasks_paginated:*''
      (drop_user_tasks e U (tm 2) got (vdel e (tm 0) (tm 1) (task_key U i) c)))) d'"
    by (rule removal_coherent [OF laws coh times adm]) (use frame in blast)
  then show ?thesis using None by simp
next
  case (Some y)
  have "t \<le> tm 6" using times monoD [OF times(2), of 0 6] by simp
  then show ?thesis using failed_write_coherent [OF coh _ frame] Some by simp
qed

lemma create_step_ok:
  assumes laws: "env_lawful e" "uuid_plain U" "answers_storable e S" "write_frames S"
    and coh: "coherent e U S t c d" and times: "t \<le> tm 0" "mono tm" and ok: "op_ok e U S tm (OpCreate x) c d"
  shows "case cts_CreateTask e U S tm x c d of (r, c', d') \<Rightarrow> (r, d') = ts_CreateTask S x d \<and> coherent e U S (tm 6) c' d'"
proof -
  obtain err d' where w: "ts_CreateTask S x d = (err, d')" by fastforce
  have fr: "read_val S d' rd = read_val S d rd" if "err \<noteq> None \<or> (\<exists>j. rd = RdTask j \<and> j \<noteq> t_ID x)" for rd
    using laws(4) [unfolded write_frames_def, THEN conjunct1, rule_format, OF w, THEN conjunct1] that by blast
  show ?thesis
  proof (cases err)
    case None
    have adm: "ts_GetTaskByID S (t_ID x) d' = Inr x"
        "list_deletable e tm (vdelpat e (tm 2) (user_pattern U (t_UserID x))
          (vset e (tm 0) (tm 1) (task_key U (t_ID x)) (CVTask x) (30 * minute) c))"
      using ok w None by simp_all
    have new: "ts_GetTaskByID S (t_ID x) d \<noteq> Inr y" for y
      using laws(4) [unfolded write_frames_def, THEN conjunct1, rule_format, OF w, THEN conjunct2] None by simp
    have "coherent e U S (tm 6) (vdel e (tm 6) (tm 7) ''all_tasks'' (vdelpat e (tm 4) ''tasks_paginated:*''
      (vdelpat e (tm 2) (user_pattern U (t_UserID x))
        (vset e (tm 0) (tm 1) (task_key U (t_ID x)) (CVTask x) (30 * minute) c)))) d'"
      by (rule creation_coherent [OF laws(1-3) coh times adm(2,1) new]) (use fr in blast)
    then show ?thesis using w None by (simp add: cts_CreateTask_def Let_def)
  next
    case (Some y)
    have "t \<le> tm 6" using times monoD [OF times(2), of 0 6] by simp
    then show ?thesis using failed_write_coherent [OF coh _ fr] w Some by (simp add: cts_CreateTask_def)
  qed
qed

lemma step_ok:
  assumes laws: "env_lawful e" "uuid_plain U" "answers_storable e S" "write_frames S"
    and coh: "coherent e U S t c d" and times: "t \<le> tm 0" "mono tm" and ok: "op_ok e U S tm op c d"
  shows "case cached_step e U S tm op c d of (r, c', d') \<Rightarrow>
    (r, d') = plain_step S op d \<and> coherent e U S (tm 6) c' d'"
proof -
  have t02: "tm 0 \<le> tm 2" "tm 2 \<le> tm 6" using monoD [OF times(2), of 0 2] monoD [OF times(2), of 2 6] by simp_all
  note rd = aside_ok [OF laws(1-3) coh times(1) t02(1)]
  have rc: "coherent e U S (tm 6) (snd (aside e U S tm ttl x c d)) d" if "0 < ttl" for ttl x
    using coherent_later [OF rd(2) [OF that] t02(2)] .
  have pos: "0 < 30 * minute" "0 < 10 * minute" "0 < 5 * minute" by (simp_all add: dur_defs)
  show ?thesis
  proof (cases op)
    case (OpGet i)
    then show ?thesis using rd(1) [OF pos(1), of "RdTask i"] rc [OF pos(1), of "RdTask i"]
      by (simp add: reads_as_aside(1) split: sum.splits)
  next
    case OpAll
    then show ?thesis using rd(1) [OF pos(2), of RdAll] rc [OF pos(2), of RdAll]
      by (simp add: reads_as_aside(2) [of e S tm c d U] split: sum.splits)
  next
    case (OpPage a b p n)
    then show ?thesis using rd(1) [OF pos(3), of "RdPage a b p n"] rc [OF pos(3), of "RdPage a b p n"] ok
      by (auto simp: reads_as_aside(3) [of e S tm a b p n c d U] split: sum.splits)
  next
    case (OpCreate x)
    then show ?thesis using create_step_ok [OF laws coh times ok [unfolded OpCreate]] by (auto split: prod.splits)
  next
    case (OpUpdate i x)
    obtain err d' where w: "ts_UpdateTask S i x d = (err, d')" by fastforce
    have fr: "read_val S d' rd = read_val S d rd" if "err \<noteq> None \<or> (\<exists>j. rd = RdTask j \<and> j \<noteq> i)" for rd
      using laws(4) w that unfolding write_frames_def by blast
    have "coherent e U S (tm 6) (case err of Some _ \<Rightarrow> c | None \<Rightarrow>
        vdel e (tm 6) (tm 7) ''all_tasks'' (vdelpat e (tm 4) ''tasks_paginated:*''
          (drop_user_tasks e U (tm 2) (ts_GetTaskByID S i d') (vdel e (tm 0) (tm 1) (task_key U i) c)))) d'"
      by (rule removal_step_ok [OF laws(1,2) coh times fr]) (use w ok OpUpdate in simp_all)
    then show ?thesis using w OpUpdate by (cases err) (simp_all add: cts_UpdateTask_def Let_def)
  next
    case (OpDelete i)
    obtain err d' where w: "ts_DeleteTask S i d = (err, d')" by fastforce
    have fr: "read_val S d' rd = read_val S d rd" if "err \<noteq> None \<or> (\<exists>j. rd = RdTask j \<and> j \<noteq> i)" for rd
      using laws(4) w that unfolding write_frames_def by blast
    have "coherent e U S (tm 6) (case err of Some _ \<Rightarrow> c | None \<Rightarrow>
        vdel e (tm 6) (tm 7) ''all_tasks'' (vdelpat e (tm 4) ''tasks_paginated:*''
          (drop_user_tasks e U (tm 2) (ts_GetTaskByID S i d) (vdel e (tm 0) (tm 1) (task_key U i) c)))) d'"
      by (rule removal_step_ok [OF laws(1,2) coh times fr]) (use w ok OpDelete in simp_all)
    then show ?thesis using w OpDelete by (cases err) (simp_all add: cts_DeleteTask_def Let_def)
  qed
qed

lemma history_refines:
  assumes laws: "env_lawful e" "uuid_plain U" "answers_storable e S" "write_frames S"
  shows "coherent e U S t c d \<Longrightarrow> history_ok e U S t ops c d \<Longrightarrow>
    run_cached e U S ops c d = run_plain S (map snd ops) d"
proof (induction ops arbitrary: t c d)
  case (Cons x ops)
  obtain tm op where x: "x = (tm, op)" by fastforce
  obtain r c' d' where st: "cached_step e U S tm op c d = (r, c', d')" by (cases "cached_step e U S tm op c d") auto
  have h: "t \<le> tm 0" "mono tm" "op_ok e U S tm op c d" "history_ok e U S (tm 6) ops c' d'"
    using Cons.prems(2) st by (simp_all add: x)
  have "(r, d') = plain_step S op d" "coherent e U S (tm 6) c' d'"
    using step_ok [OF laws Cons.prems(1) h(1-3)] st by simp_all
  then show ?case using Cons.IH [OF _ h(4)] st by (simp add: x split: prod.split) (metis prod.inject)
qed simp

lemma coherent_empty:
  assumes "mlc_l2 c = None" and "mc_store (mlc_l1 c) = []"
  shows "coherent e U S t c d"
  using assms by (simp add: coherent_def visible_def live_def)

section \<open>A concrete environment\<close>

text \<open>Values are spelled by their numbers, so that every value survives the round trip.\<close>

definition enc_task :: "task \<Rightarrow> uuid \<times> uuid \<times> string \<times> string \<times> string \<times> int \<times> int" where
  "enc_task x = (t_ID x, t_UserID x, t_Title x, t_Description x, t_Status x, t_CreatedAt x, t_UpdatedAt x)"

definition dec_task :: "uuid \<times> uuid \<times> string \<times> string \<times> string \<times> int \<times> int \<Rightarrow> task" where
  "dec_task y = (case y of (i, u, ti, de, s, cr, up) \<Rightarrow> \<lparr>t_ID = i, t_UserID = u, t_Title = ti,
     t_Description = de, t_Status = s, t_CreatedAt = cr, t_UpdatedAt = up\<rparr>)"

definition enc_cached where
  "enc_cached v = (case v of CVNil \<Rightarrow> Inr (Inr (Inr ())) | CVTask x \<Rightarrow> Inl (enc_task x) | CVTasks xs \<Rightarrow> Inr (Inl (map enc_task xs))
     | CVPage xs n \<Rightarrow> Inr (Inr (Inl (map enc_task xs, n))))"

definition dec_cached where
  "dec_cached y = (case y of Inl a \<Rightarrow> CVTask (dec_task a) | Inr (Inl as) \<Rightarrow> CVTasks (map dec_task as)
     | Inr (Inr (Inl (as, n))) \<Rightarrow> CVPage (map dec_task as) n | Inr (Inr (Inr (u :: unit))) \<Rightarrow> CVNil)"

definition mem_codec :: "(cached, cached_ty) codec" where
  "mem_codec = \<lparr>marshal = (\<lambda>v. Some (replicate (to_nat (enc_cached v)) (CHR ''x''))),
     unmarshal = (\<lambda>ty s. Some (dec_cached (from_nat (length s))))\<rparr>"

lemma dec_enc_task [simp]: "dec_task (enc_task x) = x"
  by (simp add: dec_task_def enc_task_def)

lemma dec_enc_cached: "dec_cached (enc_cached v) = v"
  by (cases v) (simp_all add: dec_cached_def enc_cached_def comp_def)

definition mem_task_env :: "mem_server task_env" where
  "mem_task_env = (\<lparr>ce_codec = mem_codec, ce_redis = mem_redis\<rparr>, mem_stored)"

lemma mem_storable [simp]: "storable mem_task_env ty v"
  by (simp add: storable_def json_ok_def mem_task_env_def mem_codec_def dec_enc_cached)

lemma mem_uuid_plain: "uuid_plain mem_uuid"
proof -
  have "literal (uuid_String mem_uuid i)" for i by (simp add: mem_uuid_def literal_def list_all_iff)
  then show ?thesis using mem_uuid_lawful by (simp add: uuid_plain_def)
qed

lemma mem_task_env_laws: "env_lawful mem_task_env" "uuid_plain mem_uuid" "answers_storable mem_task_env S"
  using mem_uuid_plain mem_redis_lawful
  by (simp_all add: answers_storable_def) (simp add: env_lawful_def mem_task_env_def)

lemma find_map_other:
  assumes "\<And>x. t_ID (f x) = t_ID x" and "j \<noteq> i"
  shows "find (\<lambda>t. t_ID t = j) (map (\<lambda>t. if t_ID t = i then f t else t) d) = find (\<lambda>t. t_ID t = j) d"
  using assms by (induction d) auto

lemma find_filter_other: "j \<noteq> i \<Longrightarrow> find (\<lambda>t. t_ID t = j) (filter (\<lambda>t. t_ID t \<noteq> i) d) = find (\<lambda>t. t_ID t = j) d"
  by (induction d) auto

lemma find_append_other:
  "j \<noteq> t_ID x \<Longrightarrow> find (\<lambda>t. t_ID t = j) (d @ [x]) = find (\<lambda>t. t_ID t = j) d"
  by (induction d) auto

lemma mem_write_frames: "write_frames (TaskServiceImpl mem_task_db)"
proof -
  have "find (\<lambda>t. t_ID t = i) d = None" if "i \<notin> t_ID ` set d" for i and d :: "task list"
    using that by (auto simp: find_None_iff)
  then show ?thesis
    unfolding write_frames_def TaskServiceImpl_def
    by (auto simp: mem_task_db_def find_map_other find_filter_other find_append_other)
qed

section \<open>Histories in which the breaker stays closed\<close>

text \<open>
  The breaker is closed and has counted at most \<open>n\<close> failures; its limit is the program's, five. With
  a Redis that answers, only a lookup of an absent key is a failure to the breaker, and the fill or
  the deletion after it counts as a success, which resets the count.
\<close>

definition calm :: "int \<Rightarrow> 'r task_cache \<Rightarrow> bool" where
  "calm n c \<longleftrightarrow> mlc_l2 c = None \<or> cb_state (mlc_cb c) = CircuitBreakerClosed \<and>
     cb_failureCount (mlc_cb c) \<le> n \<and> cb_maxFailures (mlc_cb c) = 5"

lemma calm_ready: "calm n c \<Longrightarrow> ready t c"
  by (auto simp: calm_def ready_def cb_allow_def)

lemma calm_mono: "calm n c \<Longrightarrow> n \<le> m \<Longrightarrow> calm m c"
  by (auto simp: calm_def)

lemma calm_vset_resets:
  assumes "env_lawful e" and "0 < ttl" and "storable e ty v" and "calm m c"
  shows "calm 0 (vset e t t' k v ttl c)"
proof -
  obtain x where x: "marshal (ce_codec (fst e)) v = Some x" using assms(3) by (auto simp: storable_def json_ok_def)
  have "fst (rds_Set (ce_codec (fst e)) (ce_redis (fst e)) t k v ttl r) = None" for r
    using rds_Set_lawful(1) [OF assms(1) [unfolded env_lawful_def] assms(2) x] .
  then show ?thesis using assms(4)
    by (auto simp: calm_def vset_def mlc_Set_def cb_Execute_def cb_allow_def cb_recordSuccess_def Let_def
        split: option.splits prod.splits) (metis fst_conv option.distinct(1))+
qed

lemma calm_vset:
  "env_lawful e \<Longrightarrow> 0 < ttl \<Longrightarrow> storable e ty v \<Longrightarrow> 0 \<le> n \<Longrightarrow> calm n c \<Longrightarrow> calm n (vset e t t' k v ttl c)"
  by (rule calm_mono [OF calm_vset_resets])

lemma calm_vdel:
  assumes "env_lawful e" and "0 \<le> n" and "calm n c"
  shows "calm n (vdel e t t' k c)"
proof -
  have "fst (rds_Delete (ce_redis (fst e)) t k r) = None" for r
    using rds_Delete_lawful(1) [OF assms(1) [unfolded env_lawful_def]] .
  then show ?thesis using assms(2,3)
    by (auto simp: calm_def vdel_def mlc_Delete_def cb_Execute_def cb_allow_def cb_recordSuccess_def Let_def
        split: option.splits prod.splits) (metis fst_conv option.distinct(1))+
qed

lemma calm_vdelpat: "calm n c \<Longrightarrow> calm n (vdelpat e t p c)"
  by (auto simp: calm_def vdelpat_def mlc_DeletePattern_def Let_def split: option.splits prod.splits)

lemma calm_drop: "calm n c \<Longrightarrow> calm n (drop_user_tasks e U t got c)"
  by (auto simp: drop_user_tasks_def calm_vdelpat split: sum.splits)

lemma calm_vget:
  assumes "calm n c" and "0 \<le> n" and "n \<le> 3" and "vget e t t' k ty c = (x, c')"
  shows "calm (case x of Inl _ \<Rightarrow> n + 1 | Inr _ \<Rightarrow> n) c'"
  using assms
  by (auto simp: calm_def vget_def mlc_Get_def mlc_miss_def cb_Execute_def cb_allow_def cb_recordSuccess_def
      cb_recordFailure_def mlc_l2_get_def Let_def split: option.splits prod.splits sum.splits if_splits)

text \<open>A read through the cache that does not fail leaves the count where it was, one that fails adds one.\<close>

lemma calm_aside:
  assumes "env_lawful e" and "answers_storable e S" and "0 < ttl" and "calm n c" and "0 \<le> n" and "n \<le> 3"
  shows "calm (case fst (aside e U S tm ttl rd c d) of Inl _ \<Rightarrow> n + 1 | Inr _ \<Rightarrow> n) (snd (aside e U S tm ttl rd c d))"
proof -
  obtain x c1 where g: "vget e (tm 0) (tm 1) (read_key U rd) (read_ty rd) c = (x, c1)" by fastforce
  note c1 = calm_vget [OF assms(4-6) g]
  have fill: "calm n (vset e (tm 2) (tm 3) (read_key U rd) v ttl c1)" if "x = Inl err" "read_val S d rd = Inr v" for err v
  proof -
    have "storable e (read_ty rd) v" using assms(2) that(2) by (auto simp: answers_storable_def)
    moreover have "calm (n + 1) c1" using c1 that(1) by simp
    ultimately have "calm 0 (vset e (tm 2) (tm 3) (read_key U rd) v ttl c1)"
      using assms(1,3) by (auto intro: calm_vset_resets)
    then show ?thesis using assms(5) by (rule calm_mono)
  qed
  show ?thesis using c1 fill g by (auto simp: aside_def split: sum.splits)
qed

fun read_failed :: "task_result \<Rightarrow> bool" where
  "read_failed (GotTask (Inl _)) = True"
| "read_failed (GotTasks (Inl _)) = True"
| "read_failed (GotPage (Inl _)) = True"
| "read_failed _ = False"

text \<open>
  What is asked of a history, in terms of the plain service: the clock does not run backwards, the
  parameters of page reads contain no colon, and the service stores a created task exactly as given.
\<close>

fun op_plain :: "'d task_service \<Rightarrow> task_op \<Rightarrow> 'd \<Rightarrow> bool" where
  "op_plain S (OpCreate x) d \<longleftrightarrow>
     (case ts_CreateTask S x d of (None, d') \<Rightarrow> ts_GetTaskByID S (t_ID x) d' = Inr x | (Some _, _) \<Rightarrow> True)"
| "op_plain S (OpPage a b p n) d \<longleftrightarrow> colon_free a \<and> colon_free b \<and> colon_free p \<and> colon_free n"
| "op_plain S _ d \<longleftrightarrow> True"

fun history_plain :: "'d task_service \<Rightarrow> instant \<Rightarrow> ((nat \<Rightarrow> instant) \<times> task_op) list \<Rightarrow> 'd \<Rightarrow> bool" where
  "history_plain S t [] d \<longleftrightarrow> True"
| "history_plain S t ((tm, op) # ops) d \<longleftrightarrow>
     t \<le> tm 0 \<and> mono tm \<and> op_plain S op d \<and> history_plain S (tm 6) ops (snd (plain_step S op d))"

lemma calm_write:
  assumes "env_lawful e" and "0 \<le> n" and "calm n c2"
  shows "list_deletable e tm c2 \<and> calm n (vdel e (tm 6) (tm 7) ''all_tasks'' (vdelpat e (tm 4) ''tasks_paginated:*'' c2))"
  unfolding list_deletable_def
  by (intro conjI calm_ready [of n] calm_vdel calm_vdelpat assms)

lemma calm_step:
  assumes laws: "env_lawful e" "answers_storable e S" and n: "0 \<le> n" "n \<le> 3" "calm n c" and ok: "op_plain S op d"
  shows "op_ok e U S tm op c d \<and>
    (case cached_step e U S tm op c d of (r, c', _) \<Rightarrow> calm (n + (if read_failed r then 1 else 0)) c')"
proof -
  have removal: "ready (tm 0) c \<and>
      list_deletable e tm (drop_user_tasks e U (tm 2) got (vdel e (tm 0) (tm 1) (task_key U i) c)) \<and>
      calm n (vdel e (tm 6) (tm 7) ''all_tasks'' (vdelpat e (tm 4) ''tasks_paginated:*''
        (drop_user_tasks e U (tm 2) got (vdel e (tm 0) (tm 1) (task_key U i) c))))" for got i
    using calm_ready [OF n(3)] calm_write [OF laws(1) n(1) calm_drop [OF calm_vdel [OF laws(1) n(1,3)]]] by blast
  note rd = calm_aside [OF laws _ n(3,1,2), of _ U tm _ d]
  have pos: "0 < 30 * minute" "0 < 10 * minute" "0 < 5 * minute" by (simp_all add: dur_defs)
  show ?thesis
  proof (cases op)
    case (OpGet i)
    then show ?thesis using rd [OF pos(1), of "RdTask i"] by (auto simp: reads_as_aside(1) split: sum.splits)
  next
    case OpAll
    then show ?thesis using rd [OF pos(2), of RdAll] by (auto simp: reads_as_aside(2) [of e S tm c d U] split: sum.splits)
  next
    case (OpPage a b p m)
    then show ?thesis using rd [OF pos(3), of "RdPage a b p m"] ok
      by (auto simp: reads_as_aside(3) [of e S tm a b p m c d U] split: sum.splits)
  next
    case (OpUpdate i x)
    then show ?thesis using removal n by (auto simp: cts_UpdateTask_def Let_def split: option.splits prod.splits)
  next
    case (OpDelete i)
    then show ?thesis using removal n by (auto simp: cts_DeleteTask_def Let_def split: option.splits prod.splits)
  next
    case (OpCreate x)
    obtain err d' where w: "ts_CreateTask S x d = (err, d')" by fastforce
    show ?thesis
    proof (cases err)
      case None
      then have r: "read_val S d' (RdTask (t_ID x)) = Inr (CVTask x)" using ok w OpCreate by simp
      have "storable e TyTask (CVTask x)"
        using laws(2) [unfolded answers_storable_def, THEN spec [of _ d'], THEN spec [of _ "RdTask (t_ID x)"]] r by simp
      from calm_write [OF laws(1) n(1) calm_vdelpat [OF calm_vset [OF laws(1) pos(1) this n(1,3)]]]
      show ?thesis using w None ok OpCreate by (simp add: cts_CreateTask_def Let_def)
    next
      case (Some y)
      then show ?thesis using w n OpCreate by (simp add: cts_CreateTask_def)
    qed
  qed
qed

lemma calm_history:
  assumes laws: "env_lawful e" "uuid_plain U" "answers_storable e S" "write_frames S"
  shows "coherent e U S t c d \<Longrightarrow> 0 \<le> n \<Longrightarrow> calm n c \<Longrightarrow> history_plain S t ops d \<Longrightarrow>
    n + int (length (filter read_failed (run_plain S (map snd ops) d))) \<le> 3 \<Longrightarrow> history_ok e U S t ops c d"
proof (induction ops arbitrary: t c d n)
  case (Cons x ops)
  obtain tm op where x: "x = (tm, op)" by fastforce
  obtain r c' d' where st: "cached_step e U S tm op c d = (r, c', d')" by (cases "cached_step e U S tm op c d") auto
  have h: "t \<le> tm 0" "mono tm" "op_plain S op d" "history_plain S (tm 6) ops (snd (plain_step S op d))"
    using Cons.prems(4) by (simp_all add: x)
  have "n \<le> 3" using Cons.prems(5) by linarith
  then have ok: "op_ok e U S tm op c d" and calm: "calm (n + (if read_failed r then 1 else 0)) c'"
    using calm_step [OF laws(1,3) Cons.prems(2) _ Cons.prems(3) h(3), of U tm] st by simp_all
  have eq: "plain_step S op d = (r, d')" and coh: "coherent e U S (tm 6) c' d'"
    using step_ok [OF laws Cons.prems(1) h(1,2) ok] st by simp_all
  have "history_ok e U S (tm 6) ops c' d'"
    by (rule Cons.IH [OF coh _ calm]) (use Cons.prems(2,5) h(4) eq in \<open>simp_all add: x split: if_splits\<close>)
  then show ?case using h ok st by (simp add: x)
qed simp

text \<open>
  C4: served one request after the other, over a Redis that answers or without Redis, the cached task
  service gives the answers of the plain service to every history of creations, updates, deletions
  and reads in which at most three reads fail. Assumed of the history: the clock does not run
  backwards, the parameters of page reads contain no colon, and what the database stores for a created
  task is the task as given. Assumed at its start: the breaker is closed and has counted no failure, and
  the cache holds nothing the service would not answer, as a new and empty one does. (Failed reads are
  limited because five misses in a row that no fill follows open the breaker, and deletions are then
  lost.)
\<close>

theorem cached_service_refines_plain:
  assumes "env_lawful e" and "uuid_plain U" and "answers_storable e S" and "write_frames S"
    and "coherent e U S t c d" and "calm 0 c" and "history_plain S t ops d"
    and "length (filter read_failed (run_plain S (map snd ops) d)) \<le> 3"
  shows "run_cached e U S ops c d = run_plain S (map snd ops) d"
  using history_refines [OF assms(1-5) calm_history [OF assms(1-5) _ assms(6,7)]] assms(8) by simp

definition ex_update :: task where
  "ex_update = zero_task\<lparr>t_Title := ''new''\<rparr>"

text \<open>With an empty Redis behind the memory level; one of the reads is of a task that does not exist.\<close>

theorem cached_service_refines_plain_witness:
  "run_cached mem_task_env mem_uuid (TaskServiceImpl mem_task_db)
     [(\<lambda>i. int i, OpGet 1), (\<lambda>i. int i + 10, OpGet 2), (\<lambda>i. int i + 20, OpUpdate 1 ex_update), (\<lambda>i. int i + 30, OpGet 1)]
     (NewMultiLevelCache 0 (Some [])) [ex_task 1 5 ''old''] =
   [GotTask (Inr (ex_task 1 5 ''old'')), GotTask (Inl ErrRecordNotFound), Done None,
    GotTask (Inr ((ex_task 1 5 ''new'')\<lparr>t_UpdatedAt := 8\<rparr>))]"
proof -
  let ?S = "TaskServiceImpl mem_task_db"
  let ?h = "[(\<lambda>i. int i, OpGet 1), (\<lambda>i. int i + 10, OpGet 2), (\<lambda>i. int i + 20, OpUpdate 1 ex_update), (\<lambda>i. int i + 30, OpGet 1)]"
  let ?c = "NewMultiLevelCache 0 (Some []) :: mem_server task_cache"
  have coh: "coherent mem_task_env mem_uuid ?S 0 ?c [ex_task 1 5 ''old'']"
    by (simp add: coherent_def visible_def live_def NewMultiLevelCache_def NewMemoryCache_def mem_task_env_def mem_stored_def)
  have calm: "calm 0 ?c"
    by (simp add: calm_def NewMultiLevelCache_def NewCircuitBreaker_def DefaultCircuitBreakerConfig_def)
  have h: "history_plain ?S 0 ?h [ex_task 1 5 ''old'']" by (simp add: mono_def)
  have r: "run_plain ?S (map snd ?h) [ex_task 1 5 ''old''] =
      [GotTask (Inr (ex_task 1 5 ''old'')), GotTask (Inl ErrRecordNotFound), Done None,
       GotTask (Inr ((ex_task 1 5 ''new'')\<lparr>t_UpdatedAt := 8\<rparr>))]"
    by (simp add: TaskServiceImpl_def mem_task_db_def ex_task_def ex_update_def zero_task_def)
  then have "length (filter read_failed (run_plain ?S (map snd ?h) [ex_task 1 5 ''old''])) \<le> 3" by simp
  from cached_service_refines_plain [OF mem_task_env_laws mem_write_frames coh calm h this] show ?thesis unfolding r .
qed

section \<open>Where coherence ends\<close>

lemma vget_l1_hit:
  "live now (mlc_l1 c) k = Some v \<Longrightarrow> storable e ty v \<Longrightarrow> fst (vget e now now' k ty c) = Inr v"
  by (simp add: vget_def mlc_Get_l1_hit storable_def copyValue_ok)

lemma l1_ops:
  "live t (mlc_l1 (vset e t0 t1 k v ttl c)) k' =
     (if k' = k then if t > t0 + ttl then None else Some v else live t (mlc_l1 c) k')"
  "live t (mlc_l1 (vdel e t0 t1 k c)) k' = (if k' = k then None else live t (mlc_l1 c) k')"
  "live t (mlc_l1 (vdelpat e t0 p c)) k' = (if matchPattern k' p then None else live t (mlc_l1 c) k')"
  by (simp_all add: v_defs l1_Set l1_Delete l1_DeletePattern live_Set live_Delete live_DeletePattern)

lemma match_user_pattern: "matchPattern k (user_pattern U u) = has_prefix k (''user_tasks:'' @ uuid_String U u @ '':'')"
  using matchPattern_prefix [of k "''user_tasks:'' @ uuid_String U u @ '':''"]
  by (simp add: user_pattern_eq del: append_assoc append_Cons)

lemma match_pages: "matchPattern k ''tasks_paginated:*'' = has_prefix k ''tasks_paginated:''"
  using matchPattern_prefix [of k "''tasks_paginated:''"] by simp

lemma live_after_invalidation:
  assumes "\<not> has_prefix k ''tasks_paginated:''" and "\<not> has_prefix k (''user_tasks:'' @ uuid_String U u @ '':'')"
    and "k \<noteq> ''all_tasks''"
  shows "live t (mlc_l1 (vdel e t4 t5 ''all_tasks'' (vdelpat e t3 ''tasks_paginated:*''
    (vdelpat e t2 (user_pattern U u) c)))) k = live t (mlc_l1 c) k"
  using assms by (simp add: l1_ops match_user_pattern match_pages)

text \<open>
  Two different page queries share one cache key. The query for titles in ascending order and
  the query that falls back to the default order get the same key, so after the first one was stored
  the second is answered with its rows for five minutes, whatever the service would answer.
\<close>

theorem page_keys_collide:
  assumes "ts_GetTasksPaginated S ''title'' ''asc'' ''1:x'' ''10'' d = Inr (tasks, m)"
    and "fst (vget e (tm 0) (tm 1) (page_key ''title'' ''asc'' ''1:x'' ''10'') TyPage c) = Inl err"
    and "storable e TyPage (CVPage tasks m)" and "tm' 0 \<le> tm 2 + 5 * minute"
  shows "fst (cts_GetTasksPaginated e S tm' ''title:asc'' ''1'' ''x'' ''10''
      (snd (cts_GetTasksPaginated e S tm ''title'' ''asc'' ''1:x'' ''10'' c d)) d') = Inr (tasks, m)"
proof -
  let ?k = "page_key ''title'' ''asc'' ''1:x'' ''10''"
  have k: "page_key ''title:asc'' ''1'' ''x'' ''10'' = ?k" by (simp add: page_key_def)
  obtain c1 where g: "vget e (tm 0) (tm 1) ?k TyPage c = (Inl err, c1)"
    using assms(2) by (cases "vget e (tm 0) (tm 1) ?k TyPage c") auto
  have s: "snd (cts_GetTasksPaginated e S tm ''title'' ''asc'' ''1:x'' ''10'' c d) =
      vset e (tm 2) (tm 3) ?k (CVPage tasks m) (5 * minute) c1"
    unfolding cts_GetTasksPaginated_def Let_def g using assms(1) by simp
  let ?c2 = "vset e (tm 2) (tm 3) ?k (CVPage tasks m) (5 * minute) c1"
  have "live (tm' 0) (mlc_l1 ?c2) ?k = Some (CVPage tasks m)" using assms(4) by (simp add: l1_ops)
  then have f: "fst (vget e (tm' 0) (tm' 1) ?k TyPage ?c2) = Inr (CVPage tasks m)" using assms(3) by (rule vget_l1_hit)
  obtain c3 where h: "vget e (tm' 0) (tm' 1) ?k TyPage ?c2 = (Inr (CVPage tasks m), c3)"
    using f by (cases "vget e (tm' 0) (tm' 1) ?k TyPage ?c2") auto
  show ?thesis unfolding s by (simp add: cts_GetTasksPaginated_def k h [simplified])
qed

theorem page_keys_collide_witness:
  "let S = TaskServiceImpl (mem_task_db\<lparr>kdb_find_page := (\<lambda>cl off lim d. Inr (if cl = ''title asc'' then [ex_task 1 5 ''a''] else []))\<rparr>)
   in fst (cts_GetTasksPaginated mem_task_env S (\<lambda>i. 9) ''title:asc'' ''1'' ''x'' ''10''
     (snd (cts_GetTasksPaginated mem_task_env S (\<lambda>i. 0) ''title'' ''asc'' ''1:x'' ''10'' (NewMultiLevelCache 0 None) [])) [])
   = Inr ([ex_task 1 5 ''a''], 0)
   \<and> ts_GetTasksPaginated S ''title:asc'' ''1'' ''x'' ''10'' [] = Inr ([], 0)"
proof -
  let ?S = "TaskServiceImpl (mem_task_db\<lparr>kdb_find_page := (\<lambda>cl off lim d. Inr (if cl = ''title asc'' then [ex_task 1 5 ''a''] else []))\<rparr>)"
  have p: "ts_GetTasksPaginated ?S ''title'' ''asc'' ''1:x'' ''10'' [] = Inr ([ex_task 1 5 ''a''], 0)"
    "ts_GetTasksPaginated ?S ''title:asc'' ''1'' ''x'' ''10'' [] = Inr ([], 0)"
    by (simp_all add: TaskServiceImpl_def GetTasksPaginated_def Let_def mem_task_db_def sort_column_def sort_order_def)
  have "fst (cts_GetTasksPaginated mem_task_env ?S (\<lambda>i. 9) ''title:asc'' ''1'' ''x'' ''10''
      (snd (cts_GetTasksPaginated mem_task_env ?S (\<lambda>i. 0) ''title'' ''asc'' ''1:x'' ''10'' (NewMultiLevelCache 0 None) [])) [])
      = Inr ([ex_task 1 5 ''a''], 0)"
  proof (rule page_keys_collide [OF p(1)])
    show "fst (vget mem_task_env 0 0 (page_key ''title'' ''asc'' ''1:x'' ''10'') TyPage (NewMultiLevelCache 0 None)) = Inl ErrCacheMiss"
      by (simp add: vget_def mlc_Get_def mc_Get_def NewMultiLevelCache_def NewMemoryCache_def mlc_miss_def)
  qed (simp_all add: dur_defs)
  then show ?thesis using p(2) by (simp add: Let_def)
qed

text \<open>
  A created task is served as the handler built it, not as the database stored it. For thirty
  minutes after \<open>CreateTask\<close>, \<open>GetTaskByID\<close> returns the task that was passed in, with the zero
  timestamps the handler leaves, whatever row the database now holds.
\<close>

theorem created_task_is_served_as_given:
  assumes "ts_CreateTask S x d = (None, d')" and "storable e TyTask (CVTask x)"
    and "tm' 0 \<le> tm 0 + 30 * minute"
  shows "case cts_CreateTask e U S tm x c d of (err, c', d1) \<Rightarrow>
    err = None \<and> d1 = d' \<and> fst (cts_GetTaskByID e U S tm' (t_ID x) c' d2) = Inr x"
proof -
  let ?k = "task_key U (t_ID x)"
  let ?c1 = "vset e (tm 0) (tm 1) ?k (CVTask x) (30 * minute) c"
  let ?c4 = "vdel e (tm 6) (tm 7) ''all_tasks'' (vdelpat e (tm 4) ''tasks_paginated:*''
    (vdelpat e (tm 2) (user_pattern U (t_UserID x)) ?c1))"
  have "live (tm' 0) (mlc_l1 ?c1) ?k = Some (CVTask x)" using assms(3) by (simp add: l1_ops)
  then have "live (tm' 0) (mlc_l1 ?c4) ?k = Some (CVTask x)"
    by (subst live_after_invalidation) (simp_all add: task_key_def has_prefix_def)
  then have "fst (vget e (tm' 0) (tm' 1) ?k TyTask ?c4) = Inr (CVTask x)" using assms(2) by (rule vget_l1_hit)
  then have "fst (cts_GetTaskByID e U S tm' (t_ID x) ?c4 d2) = Inr x"
    by (auto simp: cts_GetTaskByID_def split: prod.splits sum.splits)
  then show ?thesis using assms(1) by (simp add: cts_CreateTask_def Let_def)
qed

theorem created_task_is_served_as_given_witness:
  "case cts_CreateTask mem_task_env mem_uuid (TaskServiceImpl mem_task_db) (\<lambda>i. 0) (ex_task 1 5 ''a'')
      (NewMultiLevelCache 0 None) [] of (err, c', d') \<Rightarrow>
     fst (cts_GetTaskByID mem_task_env mem_uuid (TaskServiceImpl mem_task_db) (\<lambda>i. 9) 1 c' d') = Inr (ex_task 1 5 ''a'') \<and>
     ts_GetTaskByID (TaskServiceImpl mem_task_db) 1 d' = Inr ((ex_task 1 5 ''a'')\<lparr>t_CreatedAt := 7, t_UpdatedAt := 7\<rparr>)"
proof -
  let ?S = "TaskServiceImpl mem_task_db" and ?x = "ex_task 1 5 ''a''"
  let ?d' = "[?x\<lparr>t_CreatedAt := 7, t_UpdatedAt := 7\<rparr>]"
  have c: "ts_CreateTask ?S ?x [] = (None, ?d')" by (simp add: TaskServiceImpl_def mem_task_db_def)
  have "case cts_CreateTask mem_task_env mem_uuid ?S (\<lambda>i. 0) ?x (NewMultiLevelCache 0 None) [] of (err, c', d1) \<Rightarrow>
      err = None \<and> d1 = ?d' \<and> fst (cts_GetTaskByID mem_task_env mem_uuid ?S (\<lambda>i. 9) (t_ID ?x) c' ?d') = Inr ?x"
    by (rule created_task_is_served_as_given [OF c]) (simp_all add: dur_defs)
  moreover have "ts_GetTaskByID ?S 1 ?d' = Inr (?x\<lparr>t_CreatedAt := 7, t_UpdatedAt := 7\<rparr>)" "t_ID ?x = 1"
    by (simp_all add: TaskServiceImpl_def mem_task_db_def ex_task_def)
  ultimately show ?thesis by (auto split: prod.splits)
qed

text \<open>
  A user's task list is never invalidated. \<open>CreateTask\<close> deletes the keys that match
  \<open>user_tasks:<id>:*\<close>, the list is stored under \<open>user_tasks:<id>\<close>, which does not match: the user
  gets the old list as long as the entry lives.
\<close>

theorem user_task_list_goes_stale:
  assumes "live (tm' 0) (mlc_l1 c) (user_tasks_key U (t_UserID x)) = Some (CVTasks old)"
    and "storable e TyTasks (CVTasks old)" and "uuid_plain U"
  shows "case cts_CreateTask e U S tm x c d of (err, c', d') \<Rightarrow>
    fst (cts_GetTasksByUser e U K tm' (t_UserID x) c' d') = Inr old"
proof -
  let ?k = "user_tasks_key U (t_UserID x)"
  have hit: "fst (cts_GetTasksByUser e U K tm' (t_UserID x) c' d') = Inr old"
    if "live (tm' 0) (mlc_l1 c') ?k = Some (CVTasks old)" for c' d'
    using vget_l1_hit [OF that assms(2), of "tm' 1"] by (auto simp: cts_GetTasksByUser_def split: prod.splits sum.splits)
  show ?thesis
  proof (cases "fst (ts_CreateTask S x d)")
    case None
    let ?c1 = "vset e (tm 0) (tm 1) (task_key U (t_ID x)) (CVTask x) (30 * minute) c"
    have "live (tm' 0) (mlc_l1 ?c1) ?k = Some (CVTasks old)"
      using assms(1) by (simp add: l1_ops task_key_def user_tasks_key_def)
    then have "live (tm' 0) (mlc_l1 (vdel e (tm 6) (tm 7) ''all_tasks'' (vdelpat e (tm 4) ''tasks_paginated:*''
        (vdelpat e (tm 2) (user_pattern U (t_UserID x)) ?c1)))) ?k = Some (CVTasks old)"
      by (subst live_after_invalidation) (simp_all add: user_tasks_key_def has_prefix_def)
    then show ?thesis using None hit by (auto simp: cts_CreateTask_def Let_def split: prod.splits)
  next
    case (Some err)
    then show ?thesis using hit [OF assms(1)] by (auto simp: cts_CreateTask_def split: prod.splits)
  qed
qed

theorem user_task_list_goes_stale_witness:
  "case cts_CreateTask mem_task_env mem_uuid (TaskServiceImpl mem_task_db) (\<lambda>i. 1) (ex_task 1 5 ''a'')
      ((NewMultiLevelCache 0 None)\<lparr>mlc_l1 := mc_Set 0 (user_tasks_key mem_uuid 5) (CVTasks []) (15 * minute) NewMemoryCache\<rparr>) [] of
     (err, c', d') \<Rightarrow> fst (cts_GetTasksByUser mem_task_env mem_uuid mem_task_db (\<lambda>i. 9) 5 c' d') = Inr []"
proof -
  have u: "t_UserID (ex_task 1 5 ''a'') = 5" by (simp add: ex_task_def)
  show ?thesis
    using user_task_list_goes_stale [where tm' = "\<lambda>i. 9" and c = "(NewMultiLevelCache 0 None)\<lparr>mlc_l1 := mc_Set 0 (user_tasks_key mem_uuid 5) (CVTasks []) (15 * minute) NewMemoryCache\<rparr>"
        and U = mem_uuid and x = "ex_task 1 5 ''a''" and old = "[]" and e = mem_task_env and S = "TaskServiceImpl mem_task_db" and tm = "\<lambda>i. 1" and d = "[]" and K = mem_task_db]
    by (simp add: u live_Set dur_defs mem_uuid_plain)
qed

end
