(* ===== verification/Utils.thy ===== *)
theory Utils
  imports AuthService GoTime
begin

text \<open>
  The helpers of \<^verbatim>\<open>backend/internal/utils/utils.go\<close> and what the handlers use of Go's \<^verbatim>\<open>strings\<close>.
  \<open>ToLower\<close> and \<open>TrimSpace\<close> are those of ASCII strings, on which the Unicode functions of Go agree with
  them.
\<close>

section \<open>Strings\<close>

definition lower_char :: "char \<Rightarrow> char" where
  "lower_char c = (let n = (of_char c :: nat) in if 65 \<le> n \<and> n \<le> 90 then char_of (n + 32) else c)"

definition ToLower :: "string \<Rightarrow> string" where
  "ToLower s = map lower_char s"

definition is_space :: "char \<Rightarrow> bool" where
  "is_space c = (let n = (of_char c :: nat) in n = 32 \<or> (9 \<le> n \<and> n \<le> 13))"

definition TrimSpace :: "string \<Rightarrow> string" where
  "TrimSpace s = rev (dropWhile is_space (rev (dropWhile is_space s)))"

fun str_contains :: "string \<Rightarrow> string \<Rightarrow> bool" where
  "str_contains [] p = (p = [])"
| "str_contains (c # cs) p = (has_prefix (c # cs) p \<or> str_contains cs p)"

lemma lower_char_idem [simp]: "lower_char (lower_char c) = lower_char c"
proof (cases "65 \<le> (of_char c :: nat) \<and> (of_char c :: nat) \<le> 90")
  case True
  then have "(of_char c :: nat) + 32 < 256" by simp
  then have "(of_char (char_of ((of_char c :: nat) + 32) :: char) :: nat) = of_char c + 32" by (simp add: of_char_of)
  then show ?thesis using True by (simp add: lower_char_def Let_def)
qed (auto simp: lower_char_def Let_def)

lemma ToLower_idem [simp]: "ToLower (ToLower s) = ToLower s"
  by (simp add: ToLower_def)

lemma str_contains_iff: "str_contains s p \<longleftrightarrow> (\<exists>a b. s = a @ p @ b)"
proof (induction s)
  case (Cons c cs)
  then show ?case by (auto simp: has_prefix_iff Cons_eq_append_conv)
qed auto

section \<open>utils.go\<close>

definition ParseJWT :: "jwt_lib \<Rightarrow> instant \<Rightarrow> string \<Rightarrow> string \<Rightarrow> jwt_error + jwt_token" where
  "ParseJWT J now tokenString secret = jwt_parse J now (\<lambda>_. Some secret) tokenString"

definition IsValidUUID :: "uuid_lib \<Rightarrow> string \<Rightarrow> bool" where
  "IsValidUUID U u \<longleftrightarrow> uuid_FromString U u \<noteq> None"

text \<open>The process environment; \<open>os.Getenv\<close> gives the empty string for an unset variable.\<close>

type_synonym environ = "string \<Rightarrow> string option"

definition Getenv :: "environ \<Rightarrow> string \<Rightarrow> string" where
  "Getenv env key = (case env key of Some v \<Rightarrow> v | None \<Rightarrow> '''')"

definition GetEnv :: "environ \<Rightarrow> string \<Rightarrow> string \<Rightarrow> string" where
  "GetEnv env key defaultValue = (case env key of Some v \<Rightarrow> v | None \<Rightarrow> defaultValue)"

definition GetEnvAsInt :: "environ \<Rightarrow> string \<Rightarrow> int \<Rightarrow> int" where
  "GetEnvAsInt env key defaultValue =
     (let valueStr = Getenv env key
      in if valueStr = '''' then defaultValue
         else case Atoi valueStr of None \<Rightarrow> defaultValue | Some v \<Rightarrow> v)"

definition GetEnvAsDuration :: "environ \<Rightarrow> string \<Rightarrow> duration \<Rightarrow> duration" where
  "GetEnvAsDuration env key defaultValue =
     (let valueStr = Getenv env key
      in if valueStr = '''' then defaultValue
         else case ParseDuration valueStr of None \<Rightarrow> defaultValue | Some v \<Rightarrow> v)"

end
