(* ===== verification/TaskHandler.thy ===== *)
theory TaskHandler
  imports CachedTasks AuthzMiddleware Utils
begin

text \<open>
  The task handlers (\<^verbatim>\<open>backend/internal/handlers/tasks.go\<close>). A handler maps the request context, the
  result of binding the JSON body and the state of the task service to a response and the new state.
  The service is the interface \<open>task_backend\<close>, which the plain and the cached service implement.
\<close>

section \<open>The service behind the handlers\<close>

record 's task_backend =
  ti_CreateTask :: "task \<Rightarrow> 's \<Rightarrow> gorm_error option \<times> 's"
  ti_GetTaskByID :: "uuid \<Rightarrow> 's \<Rightarrow> (gorm_error + task) \<times> 's"
  ti_UpdateTask :: "uuid \<Rightarrow> task \<Rightarrow> 's \<Rightarrow> gorm_error option \<times> 's"
  ti_DeleteTask :: "uuid \<Rightarrow> 's \<Rightarrow> gorm_error option \<times> 's"
  ti_GetTasksPaginated :: "string \<Rightarrow> string \<Rightarrow> string \<Rightarrow> string \<Rightarrow> 's \<Rightarrow> (gorm_error + task list \<times> int64) \<times> 's"
  ti_user_tasks :: "uuid \<Rightarrow> 's \<Rightarrow> gorm_error + task list"

text \<open>\<open>initializeApplication\<close> takes the cached service when the cache has both levels, else the plain one.\<close>

definition plain_backend :: "'d task_db \<Rightarrow> 'd task_backend" where
  "plain_backend K = (let S = TaskServiceImpl K in
     \<lparr>ti_CreateTask = ts_CreateTask S, ti_GetTaskByID = (\<lambda>i d. (ts_GetTaskByID S i d, d)),
      ti_UpdateTask = ts_UpdateTask S, ti_DeleteTask = ts_DeleteTask S,
      ti_GetTasksPaginated = (\<lambda>a b p n d. (ts_GetTasksPaginated S a b p n d, d)),
      ti_user_tasks = kdb_find_user K\<rparr>)"

definition cached_backend ::
  "'r task_env \<Rightarrow> uuid_lib \<Rightarrow> 'd task_db \<Rightarrow> (nat \<Rightarrow> instant) \<Rightarrow> ('r task_cache \<times> 'd) task_backend" where
  "cached_backend e U K tm = (let S = TaskServiceImpl K in
     \<lparr>ti_CreateTask = (\<lambda>x (c, d). cts_CreateTask e U S tm x c d),
      ti_GetTaskByID = (\<lambda>i (c, d). case cts_GetTaskByID e U S tm i c d of (r, c') \<Rightarrow> (r, c', d)),
      ti_UpdateTask = (\<lambda>i x (c, d). cts_UpdateTask e U S tm i x c d),
      ti_DeleteTask = (\<lambda>i (c, d). cts_DeleteTask e U S tm i c d),
      ti_GetTasksPaginated = (\<lambda>a b p n (c, d). case cts_GetTasksPaginated e S tm a b p n c d of (r, c') \<Rightarrow> (r, c', d)),
      ti_user_tasks = (\<lambda>u (c, d). kdb_find_user K u d)\<rparr>)"

section \<open>Handlers\<close>

record task_input =
  in_Title :: string
  in_Description :: string
  in_Status :: string

datatype task_reply =
    TaskJSON task | TasksJSON "task list" | PageJSON "task list" int64 | MessageJSON string | NoBody

text \<open>\<open>Inl\<close> is the error of \<open>ShouldBindJSON\<close>; the binding of \<open>CreateTask\<close> requires a title.\<close>

type_synonym 'i bound = "string + 'i"

definition handleTaskError :: "gorm_error \<Rightarrow> task_reply response" where
  "handleTaskError err =
     (if err = ErrRecordNotFound then RespondError 404 ''task not found''
      else RespondError 500 ''failed to process task request'')"

definition th_CreateTask ::
  "uuid_lib \<Rightarrow> 's task_backend \<Rightarrow> uuid option \<Rightarrow> task_input bound \<Rightarrow> gin_ctx \<Rightarrow> 's \<Rightarrow> task_reply response \<times> 's" where
  "th_CreateTask U B new_id body c s =
     (case gin_Get c ''user_id'' of
        None \<Rightarrow> (RespondError 401 ''User not authenticated'', s)
      | Some (VString userIDStr) \<Rightarrow>
          (case body of
             Inl err \<Rightarrow> (RespondError 400 err, s)
           | Inr taskInput \<Rightarrow>
               let status = (if in_Status taskInput = '''' then ''pending'' else in_Status taskInput)
               in case new_id of
                    None \<Rightarrow> (RespondError 500 ''failed to generate task ID'', s)
                  | Some taskID \<Rightarrow>
                      let task = zero_task\<lparr>t_ID := taskID, t_UserID := uuid_FromStringOrNil U userIDStr,
                            t_Title := in_Title taskInput, t_Description := in_Description taskInput,
                            t_Status := status\<rparr>
                      in case ti_CreateTask B task s of
                           (Some _, s') \<Rightarrow> (RespondError 500 ''failed to create task'', s')
                         | (None, s') \<Rightarrow> (Respond 201 (TaskJSON task), s'))
      | Some _ \<Rightarrow> (RespondError 500 ''Invalid user ID format'', s))"

definition th_UpdateTask ::
  "uuid_lib \<Rightarrow> 's task_backend \<Rightarrow> task_input bound \<Rightarrow> gin_ctx \<Rightarrow> 's \<Rightarrow> task_reply response \<times> 's" where
  "th_UpdateTask U B body c s =
     (let i = uuid_FromStringOrNil U (gc_param c ''id'')
      in case body of
           Inl err \<Rightarrow> (RespondError 400 err, s)
         | Inr taskInput \<Rightarrow>
             let updated = zero_task\<lparr>t_Title := in_Title taskInput,
                   t_Description := in_Description taskInput, t_Status := in_Status taskInput\<rparr>
             in case ti_UpdateTask B i updated s of
                  (Some err, s') \<Rightarrow> (handleTaskError err, s')
                | (None, s') \<Rightarrow> (Respond 200 (MessageJSON ''task updated successfully''), s'))"

definition th_DeleteTask :: "uuid_lib \<Rightarrow> 's task_backend \<Rightarrow> gin_ctx \<Rightarrow> 's \<Rightarrow> task_reply response \<times> 's" where
  "th_DeleteTask U B c s =
     (case ti_DeleteTask B (uuid_FromStringOrNil U (gc_param c ''id'')) s of
        (Some err, s') \<Rightarrow> (handleTaskError err, s')
      | (None, s') \<Rightarrow> (Respond 204 NoBody, s'))"

definition th_GetTaskByID :: "uuid_lib \<Rightarrow> 's task_backend \<Rightarrow> gin_ctx \<Rightarrow> 's \<Rightarrow> task_reply response \<times> 's" where
  "th_GetTaskByID U B c s =
     (case ti_GetTaskByID B (uuid_FromStringOrNil U (gc_param c ''id'')) s of
        (Inl err, s') \<Rightarrow> (handleTaskError err, s')
      | (Inr task, s') \<Rightarrow> (Respond 200 (TaskJSON task), s'))"

definition th_GetTasksByUser :: "uuid_lib \<Rightarrow> 's task_backend \<Rightarrow> gin_ctx \<Rightarrow> 's \<Rightarrow> task_reply response \<times> 's" where
  "th_GetTasksByUser U B c s =
     (case ti_user_tasks B (uuid_FromStringOrNil U (gc_param c ''user_id'')) s of
        Inl err \<Rightarrow> (handleTaskError err, s)
      | Inr tasks \<Rightarrow> (Respond 200 (TasksJSON tasks), s))"

definition th_GetTasks :: "'s task_backend \<Rightarrow> gin_ctx \<Rightarrow> 's \<Rightarrow> task_reply response \<times> 's" where
  "th_GetTasks B c s =
     (let sortBy = DefaultQuery c ''sortBy'' ''created_at''; order = DefaultQuery c ''order'' ''desc'';
          page = DefaultQuery c ''page'' ''1''; pageSize = DefaultQuery c ''pageSize'' ''10''
      in case ti_GetTasksPaginated B sortBy order page pageSize s of
           (Inl err, s') \<Rightarrow> (handleTaskError err, s')
         | (Inr (tasks, count_all), s') \<Rightarrow> (Respond 200 (PageJSON tasks count_all), s'))"

section \<open>The task routes\<close>

text \<open>The requests under \<open>/tasks\<close> and \<open>/users/:user_id/tasks\<close>, behind the middleware as \<open>setupRoutes\<close> puts it.\<close>

datatype task_route =
    PostTask "uuid option" "task_input bound" | PutTask "task_input bound" | DeleteTaskR | GetTaskR | GetUserTasksR | GetTasksR

fun task_handler :: "uuid_lib \<Rightarrow> 's task_backend \<Rightarrow> task_route \<Rightarrow> gin_ctx \<Rightarrow> 's \<Rightarrow> task_reply response \<times> 's" where
  "task_handler U B (PostTask new_id body) c s = th_CreateTask U B new_id body c s"
| "task_handler U B (PutTask body) c s = th_UpdateTask U B body c s"
| "task_handler U B DeleteTaskR c s = th_DeleteTask U B c s"
| "task_handler U B GetTaskR c s = th_GetTaskByID U B c s"
| "task_handler U B GetUserTasksR c s = th_GetTasksByUser U B c s"
| "task_handler U B GetTasksR c s = th_GetTasks B c s"

definition serve_task ::
  "'t auth_env \<Rightarrow> 's task_backend \<Rightarrow> instant \<Rightarrow> task_route \<Rightarrow> gin_ctx \<Rightarrow> 's \<Rightarrow> task_reply response \<times> 's" where
  "serve_task A B now r c s =
     guarded (AuthzMiddleware A now no_requirements) (\<lambda>c'. task_handler (ae_uuid A) B r c' s) s c"

section \<open>What the routes guarantee\<close>

lemma serve_task_token:
  assumes "presented_claims A now c = Some claims" and "admits now no_requirements claims"
  shows "serve_task A B now r c s = task_handler (ae_uuid A) B r (with_identity claims c) s"
  unfolding serve_task_def by (rule guarded_token [OF assms])

text \<open>Without a valid token nothing happens.\<close>

text \<open>
  A task route changes the state or answers with anything but 401 or 403 only when the request
  carries a valid token; without one the state of the service, cache and database included, is untouched.
\<close>

theorem task_routes_fail_closed:
  "(case serve_task A B now r c s of (resp, s') \<Rightarrow>
     (\<exists>claims. presented_claims A now c = Some claims \<and> admits now no_requirements claims) \<or>
     (s' = s \<and> resp_status resp \<in> {Some 401, Some 403}))"
proof (cases "\<exists>claims. presented_claims A now c = Some claims \<and> admits now no_requirements claims")
  case False
  then obtain st e where "serve_task A B now r c s = (RespondError st e, s)" "st \<in> {401, 403}"
    using guarded_no_token [of A now c no_requirements "\<lambda>c'. task_handler (ae_uuid A) B r c' s" s]
    unfolding serve_task_def by blast
  then show ?thesis by auto
qed (auto split: prod.split)

text \<open>What a database promises about an insert: the row is found under its identifier with the data given.\<close>

definition same_data :: "task \<Rightarrow> task \<Rightarrow> bool" where
  "same_data x y \<longleftrightarrow> t_ID y = t_ID x \<and> t_UserID y = t_UserID x \<and> t_Title y = t_Title x \<and>
     t_Description y = t_Description x \<and> t_Status y = t_Status x"

definition create_stores :: "'d task_db \<Rightarrow> bool" where
  "create_stores K \<longleftrightarrow>
     (\<forall>x d d'. kdb_create K x d = (None, d') \<longrightarrow> (\<exists>y. kdb_first K (t_ID x) d' = Inr y \<and> same_data x y))"

definition parse_or_nil :: "uuid_lib \<Rightarrow> bool" where
  "parse_or_nil U \<longleftrightarrow> (\<forall>s. uuid_FromStringOrNil U s = (case uuid_FromString U s of Some u \<Rightarrow> u | None \<Rightarrow> uuid_Nil))"

lemma FromStringOrNil_String: "parse_or_nil U \<Longrightarrow> uuid_lawful U \<Longrightarrow> uuid_FromStringOrNil U (uuid_String U i) = i"
  by (simp add: parse_or_nil_def uuid_lawful_def)

lemma create_responds:
  assumes "serve_task A B now (PostTask new_id (Inr inp)) c s = (Respond 201 r, s')"
  obtains claims uid i x where "presented_claims A now c = Some claims" "admits now no_requirements claims"
    "claim_string claims ''user_id'' = Some uid" "new_id = Some i" "r = TaskJSON x"
    "x = zero_task\<lparr>t_ID := i, t_UserID := uuid_FromStringOrNil (ae_uuid A) uid, t_Title := in_Title inp,
       t_Description := in_Description inp,
       t_Status := (if in_Status inp = '''' then ''pending'' else in_Status inp)\<rparr>"
    "ti_CreateTask B x s = (None, s')"
proof -
  obtain claims where k: "presented_claims A now c = Some claims" "admits now no_requirements claims"
    using guarded_no_token [of A now c no_requirements "\<lambda>c'. task_handler (ae_uuid A) B (PostTask new_id (Inr inp)) c' s" s]
      assms unfolding serve_task_def by force
  have "th_CreateTask (ae_uuid A) B new_id (Inr inp) (with_identity claims c) s = (Respond 201 r, s')"
    using assms unfolding serve_task_token [OF k] by simp
  then obtain uid where uid: "claims_get claims ''user_id'' = VString uid"
    by (auto simp: th_CreateTask_def split: ctx_value.splits)
  with \<open>th_CreateTask _ _ _ _ _ _ = _\<close> obtain i where i: "new_id = Some i"
    by (auto simp: th_CreateTask_def Let_def split: option.splits)
  show ?thesis using \<open>th_CreateTask _ _ _ _ _ _ = _\<close> k uid i
    by (intro that [OF k _ i, of uid]) (auto simp: th_CreateTask_def claims_get_string [symmetric] Let_def split: option.splits prod.splits)
qed

text \<open>What an accepted body becomes: a task of the token's user under the new identifier.\<close>

definition posted_as :: "'t auth_env \<Rightarrow> instant \<Rightarrow> gin_ctx \<Rightarrow> uuid option \<Rightarrow> task_input \<Rightarrow> task \<Rightarrow> bool" where
  "posted_as A now c new_id inp x \<longleftrightarrow> (\<exists>claims uid. presented_claims A now c = Some claims \<and>
     claim_string claims ''user_id'' = Some uid \<and> t_UserID x = uuid_FromStringOrNil (ae_uuid A) uid \<and>
     new_id = Some (t_ID x) \<and> t_Title x = in_Title inp \<and> t_Description x = in_Description inp \<and>
     t_Status x = (if in_Status inp = [] then ''pending'' else in_Status inp))"

lemma create_posts:
  assumes "serve_task A B now (PostTask new_id (Inr inp)) c s = (Respond 201 (TaskJSON x), s')"
  shows "posted_as A now c new_id inp x" and "ti_CreateTask B x s = (None, s')"
proof -
  obtain claims uid i where c: "presented_claims A now c = Some claims" "claim_string claims ''user_id'' = Some uid"
    "new_id = Some i" "x = zero_task\<lparr>t_ID := i, t_UserID := uuid_FromStringOrNil (ae_uuid A) uid, t_Title := in_Title inp,
       t_Description := in_Description inp, t_Status := (if in_Status inp = [] then ''pending'' else in_Status inp)\<rparr>"
    "ti_CreateTask B x s = (None, s')"
    by (rule create_responds [OF assms]) simp
  then show "posted_as A now c new_id inp x" unfolding posted_as_def by (intro exI [of _ claims] exI [of _ uid]) simp
  show "ti_CreateTask B x s = (None, s')" by (rule c(5))
qed

text \<open>
  C21: What is posted is what is read, over the plain task service and over the cached one, which main.go uses
  whenever Redis answers. When \<open>POST /tasks\<close> answers 201, the task belongs to the user of the token and
  has the title, the description and the status of the body (\<open>pending\<close> when the body has none). A
  \<open>GET\<close> of its identifier with any valid token then answers 200: over the plain service with the stored
  row, which has the same data; over the cached one, for thirty minutes and whatever Redis and the breaker
  do, with the very task of the first answer, whose timestamps are therefore zero.
\<close>

theorem posted_task_is_read_back:
  assumes "create_stores K" and "parse_or_nil (ae_uuid A)" and "uuid_lawful (ae_uuid A)"
    and "presented_claims A now' c' = Some claims'" and "admits now' no_requirements claims'"
    and "gc_param c' ''id'' = uuid_String (ae_uuid A) (t_ID x)"
  shows "(serve_task A (plain_backend K) now (PostTask new_id (Inr inp)) c d = (Respond 201 (TaskJSON x), d') \<longrightarrow>
      posted_as A now c new_id inp x \<and>
      (\<exists>y. serve_task A (plain_backend K) now' GetTaskR c' d' = (Respond 200 (TaskJSON y), d') \<and> same_data x y)) \<and>
    (serve_task A (cached_backend e (ae_uuid A) K tm) now (PostTask new_id (Inr inp)) c (m, d) = (Respond 201 (TaskJSON x), (m', d')) \<and>
       storable e TyTask (CVTask x) \<and> tm' 0 \<le> tm 0 + 30 * minute \<longrightarrow>
      posted_as A now c new_id inp x \<and>
      (\<exists>m''. serve_task A (cached_backend e (ae_uuid A) K tm') now' GetTaskR c' (m', d') = (Respond 200 (TaskJSON x), (m'', d'))))"
proof (intro conjI impI; (elim conjE)?)
  have id: "uuid_FromStringOrNil (ae_uuid A) (gc_param c' ''id'') = t_ID x"
    using assms(6) FromStringOrNil_String [OF assms(2,3)] by simp
  note get = serve_task_token [OF assms(4,5)] th_GetTaskByID_def id
  {
    assume p: "serve_task A (plain_backend K) now (PostTask new_id (Inr inp)) c d = (Respond 201 (TaskJSON x), d')"
    show "posted_as A now c new_id inp x" by (rule create_posts(1) [OF p])
    have "kdb_create K x d = (None, d')" using create_posts(2) [OF p] by (simp add: plain_backend_def TaskServiceImpl_def)
    then obtain y where "kdb_first K (t_ID x) d' = Inr y" "same_data x y"
      using assms(1) unfolding create_stores_def by blast
    then show "\<exists>y. serve_task A (plain_backend K) now' GetTaskR c' d' = (Respond 200 (TaskJSON y), d') \<and> same_data x y"
      by (simp add: get plain_backend_def TaskServiceImpl_def)
  next
    assume p: "serve_task A (cached_backend e (ae_uuid A) K tm) now (PostTask new_id (Inr inp)) c (m, d) = (Respond 201 (TaskJSON x), (m', d'))"
      and x: "storable e TyTask (CVTask x)" "tm' 0 \<le> tm 0 + 30 * minute"
    show "posted_as A now c new_id inp x" by (rule create_posts(1) [OF p])
    have cr: "cts_CreateTask e (ae_uuid A) (TaskServiceImpl K) tm x m d = (None, m', d')"
      using create_posts(2) [OF p] by (simp add: cached_backend_def Let_def)
    then have "ts_CreateTask (TaskServiceImpl K) x d = (None, d')"
      by (auto simp: cts_CreateTask_def Let_def split: prod.splits option.splits)
    from created_task_is_served_as_given [where tm = tm and tm' = tm' and U = "ae_uuid A" and c = m and ?d2.0 = d', OF this x] cr
    have "fst (cts_GetTaskByID e (ae_uuid A) (TaskServiceImpl K) tm' (t_ID x) m' d') = Inr x" by simp
    then show "\<exists>m''. serve_task A (cached_backend e (ae_uuid A) K tm') now' GetTaskR c' (m', d') = (Respond 200 (TaskJSON x), (m'', d'))"
      by (auto simp: get cached_backend_def Let_def split: prod.splits)
  }
qed

lemma mem_create_stores: "create_stores mem_task_db"
proof -
  have "find (\<lambda>t. t_ID t = i) (d @ [x]) = Some x" if "i \<notin> set (map t_ID d)" "t_ID x = i" for i x and d :: "task list"
    using that by (induction d) auto
  then show ?thesis by (auto simp: create_stores_def mem_task_db_def same_data_def split: if_splits)
qed

lemma mem_parse_or_nil: "parse_or_nil mem_uuid"
  by (simp add: parse_or_nil_def mem_uuid_def uuid_Nil_def)

theorem posted_task_is_read_back_witness:
  "\<exists>x y d' m' m''. t_UserID x = 5 \<and> t_Status x = ''pending'' \<and> same_data x y \<and>
     serve_task mem_auth_env (plain_backend mem_task_db) 1 GetTaskR
       ((ex_ctx (ex_token 6))\<lparr>gc_param := (\<lambda>_. uuid_String mem_uuid 3)\<rparr>) d' = (Respond 200 (TaskJSON y), d') \<and>
     serve_task mem_auth_env (cached_backend mem_task_env mem_uuid mem_task_db (\<lambda>i. 9)) 1 GetTaskR
       ((ex_ctx (ex_token 6))\<lparr>gc_param := (\<lambda>_. uuid_String mem_uuid 3)\<rparr>) (m', d') = (Respond 200 (TaskJSON x), (m'', d'))"
proof -
  let ?c = "ex_ctx (ex_token 5)" and ?c' = "(ex_ctx (ex_token 6))\<lparr>gc_param := (\<lambda>_. uuid_String mem_uuid 3)\<rparr>"
  let ?inp = "\<lparr>in_Title = ''t'', in_Description = ''d'', in_Status = []\<rparr>"
  let ?x = "zero_task\<lparr>t_ID := 3, t_UserID := 5, t_Title := ''t'', t_Description := ''d'', t_Status := ''pending''\<rparr>"
  let ?d' = "[?x\<lparr>t_CreatedAt := 7, t_UpdatedAt := 7\<rparr>]"
  let ?m = "NewMultiLevelCache 0 (Some []) :: mem_server task_cache"
  let ?post = "\<lambda>B. serve_task mem_auth_env B 1 (PostTask (Some 3) (Inr ?inp)) ?c"
  have U: "ae_uuid mem_auth_env = mem_uuid" by (simp add: mem_auth_env_def)
  have "claims_get (access_claims mem_uuid 0 5 ''user'' []) ''user_id'' = VString (uuid_String mem_uuid 5)"
    by (rule ex_token_user)
  then have cr: "?post B s = (case ti_CreateTask B ?x s of (Some _, s') \<Rightarrow> (RespondError 500 ''failed to create task'', s')
      | (None, s') \<Rightarrow> (Respond 201 (TaskJSON ?x), s'))" for B and s :: 's
    using FromStringOrNil_String [OF mem_parse_or_nil mem_uuid_lawful]
    by (simp add: serve_task_token [OF ex_ctx_presented(1) ex_token_admitted] U th_CreateTask_def Let_def)
  have p: "?post (plain_backend mem_task_db) [] = (Respond 201 (TaskJSON ?x), ?d')"
    by (simp add: cr plain_backend_def TaskServiceImpl_def mem_task_db_def)
  obtain m' where q: "?post (cached_backend mem_task_env mem_uuid mem_task_db (\<lambda>i. 0)) (?m, []) = (Respond 201 (TaskJSON ?x), (m', ?d'))"
    by (simp add: cr cached_backend_def cts_CreateTask_def TaskServiceImpl_def mem_task_db_def Let_def)
  have id: "gc_param ?c' ''id'' = uuid_String (ae_uuid mem_auth_env) (t_ID ?x)" by (simp add: U)
  note r = posted_task_is_read_back [OF mem_create_stores _ _ ex_ctx_presented(2) [where u = 6 and p = "\<lambda>_. uuid_String mem_uuid 3"]
      ex_token_admitted id, unfolded U, OF mem_parse_or_nil mem_uuid_lawful]
  obtain y where y: "serve_task mem_auth_env (plain_backend mem_task_db) 1 GetTaskR ?c' ?d' = (Respond 200 (TaskJSON y), ?d')" "same_data ?x y"
    using r [THEN conjunct1, rule_format, OF p] by blast
  have "storable mem_task_env TyTask (CVTask ?x)" "(9 :: instant) \<le> 0 + 30 * minute" by (simp_all add: dur_defs)
  then obtain m'' where "serve_task mem_auth_env (cached_backend mem_task_env mem_uuid mem_task_db (\<lambda>i. 9)) 1 GetTaskR ?c' (m', ?d') =
      (Respond 200 (TaskJSON ?x), (m'', ?d'))"
    using r [where tm' = "\<lambda>i. 9" and tm = "\<lambda>i. 0" and e = mem_task_env, THEN conjunct2, rule_format, OF conjI [OF q conjI]] by blast
  then show ?thesis using y by (intro exI [of _ ?x] exI [of _ y] exI [of _ ?d'] exI [of _ m'] exI [of _ m'']) simp
qed

section \<open>What the routes do not check\<close>

text \<open>
  Nobody owns a task. Apart from \<open>POST\<close>, the answer of a task route and its effect do not
  depend on who asks: any two valid tokens read, change and delete the same tasks. The handlers look
  neither at the token's user nor at its role, and no route calls the authorization service.
\<close>

theorem task_routes_ignore_ownership:
  assumes "presented_claims A now c = Some k" and "admits now no_requirements k"
    and "presented_claims A now c' = Some k'" and "admits now no_requirements k'"
    and "gc_param c' = gc_param c" and "gc_query c' = gc_query c" and "\<And>i b. r \<noteq> PostTask i b"
  shows "serve_task A B now r c' s = serve_task A B now r c s"
  unfolding serve_task_token [OF assms(1,2)] serve_task_token [OF assms(3,4)]
  using assms(5,6) assms(7) [of "case r of PostTask i _ \<Rightarrow> i | _ \<Rightarrow> None" "case r of PostTask _ b \<Rightarrow> b | _ \<Rightarrow> Inl []"] by (cases r)
    (simp_all add: th_UpdateTask_def th_DeleteTask_def th_GetTaskByID_def th_GetTasksByUser_def th_GetTasks_def DefaultQuery_def)

theorem task_routes_ignore_ownership_witness:
  "serve_task mem_auth_env (plain_backend mem_task_db) 1 DeleteTaskR
     ((ex_ctx (ex_token 6))\<lparr>gc_param := (\<lambda>_. uuid_String mem_uuid 1)\<rparr>) [ex_task 1 5 ''a''] = (Respond 204 NoBody, [])"
proof -
  let ?c = "\<lambda>u. (ex_ctx (ex_token u))\<lparr>gc_param := (\<lambda>_. uuid_String mem_uuid 1)\<rparr>"
  note k = ex_ctx_presented(2) ex_token_admitted
  have "ae_uuid mem_auth_env = mem_uuid" by (simp add: mem_auth_env_def)
  then have "serve_task mem_auth_env (plain_backend mem_task_db) 1 DeleteTaskR (?c 5) [ex_task 1 5 ''a''] = (Respond 204 NoBody, [])"
    using FromStringOrNil_String [OF mem_parse_or_nil mem_uuid_lawful, of 1]
    by (simp add: serve_task_token [OF k] th_DeleteTask_def plain_backend_def TaskServiceImpl_def mem_task_db_def ex_task_def)
  moreover have "serve_task mem_auth_env (plain_backend mem_task_db) 1 DeleteTaskR (?c 6) [ex_task 1 5 ''a''] =
      serve_task mem_auth_env (plain_backend mem_task_db) 1 DeleteTaskR (?c 5) [ex_task 1 5 ''a'']"
    by (rule task_routes_ignore_ownership [OF k k]) (simp_all add: ex_ctx_def)
  ultimately show ?thesis by simp
qed

text \<open>A write that matches no row is no error of the database, and changes nothing.\<close>

definition missing_rows_are_silent :: "'d task_db \<Rightarrow> bool" where
  "missing_rows_are_silent K \<longleftrightarrow> (\<forall>i d. kdb_first K i d = Inl ErrRecordNotFound \<longrightarrow>
     (\<forall>x. kdb_updates K i x d = (None, d)) \<and> kdb_delete K i d = (None, d))"

text \<open>
  Changing or deleting a task that does not exist succeeds: \<open>PUT\<close> answers 200 "task updated
  successfully" and \<open>DELETE\<close> 204, for an unknown identifier as for one that is no UUID, although the
  handlers have a 404 for it, which \<open>GET\<close> gives.
\<close>

theorem missing_task_is_updated:
  assumes "missing_rows_are_silent K" and "presented_claims A now c = Some k" and "admits now no_requirements k"
    and "kdb_first K (uuid_FromStringOrNil (ae_uuid A) (gc_param c ''id'')) d = Inl ErrRecordNotFound"
  shows "serve_task A (plain_backend K) now (PutTask (Inr inp)) c d = (Respond 200 (MessageJSON ''task updated successfully''), d) \<and>
    serve_task A (plain_backend K) now DeleteTaskR c d = (Respond 204 NoBody, d) \<and>
    serve_task A (plain_backend K) now GetTaskR c d = (RespondError 404 ''task not found'', d)"
  using assms(1,4) unfolding missing_rows_are_silent_def serve_task_token [OF assms(2,3)]
  by (simp_all add: th_UpdateTask_def th_DeleteTask_def th_GetTaskByID_def plain_backend_def TaskServiceImpl_def
      handleTaskError_def Let_def)

lemma mem_missing_rows: "missing_rows_are_silent mem_task_db"
proof -
  have "map (\<lambda>t. if t_ID t = i then f t else t) d = d \<and> filter (\<lambda>t. t_ID t \<noteq> i) d = d"
    if "find (\<lambda>t. t_ID t = i) d = None" for i f and d :: "task list"
    using that by (induction d) (auto split: if_splits)
  then show ?thesis by (auto simp: missing_rows_are_silent_def mem_task_db_def split: option.splits)
qed

theorem missing_task_is_updated_witness:
  "serve_task mem_auth_env (plain_backend mem_task_db) 1 (PutTask (Inr \<lparr>in_Title = ''t'', in_Description = '''', in_Status = ''''\<rparr>))
     ((ex_ctx (ex_token 6))\<lparr>gc_param := (\<lambda>_. ''no uuid'')\<rparr>) [] = (Respond 200 (MessageJSON ''task updated successfully''), [])"
  by (rule missing_task_is_updated [THEN conjunct1, OF mem_missing_rows ex_ctx_presented(2) ex_token_admitted]) (simp_all add: mem_task_db_def)

end
