(* ===== verification/UserHandler.thy ===== *)
theory UserHandler
  imports AuthzMiddleware Utils
begin

text \<open>
  The user service (\<^verbatim>\<open>backend/internal/services/users.go\<close>) and the user handlers
  (\<^verbatim>\<open>backend/internal/handlers/users.go\<close>). The service's queries are a parameter; an update is a
  map from column names to values, as the handler decodes it from the body.
\<close>

section \<open>The service\<close>

text \<open>A delete or an update returns \<open>RowsAffected\<close> and the error.\<close>

record ('d, 'j) user_db =
  udb_find_user :: "uuid \<Rightarrow> 'd \<Rightarrow> gorm_error + user list"
  udb_find_users :: "'d \<Rightarrow> gorm_error + user list"
  udb_raw_user :: "string \<Rightarrow> 'd \<Rightarrow> gorm_error + user list"
  udb_delete_user :: "uuid \<Rightarrow> 'd \<Rightarrow> (nat \<times> gorm_error option) \<times> 'd"
  udb_update_user :: "uuid \<Rightarrow> (string \<times> 'j) list \<Rightarrow> 'd \<Rightarrow> (nat \<times> gorm_error option) \<times> 'd"

definition zero_user :: user where
  "zero_user = \<lparr>u_ID = uuid_Nil, u_Username = '''', u_Email = '''', u_Password = '''', u_FirstName = '''',
     u_LastName = '''', u_Department = '''', u_Position = '''', u_IsActive = False, u_LastLoginAt = None,
     u_CreatedAt = 0, u_UpdatedAt = 0, u_DeletedAt = None, u_Roles = []\<rparr>"

definition us_GetUserProfileMalicious :: "('d, 'j) user_db \<Rightarrow> string \<Rightarrow> 'd \<Rightarrow> gorm_error + user list" where
  "us_GetUserProfileMalicious K userID d = udb_raw_user K userID d"

text \<open>\<open>Find\<close> into a struct leaves it zero when there is no row; that is no error.\<close>

definition us_GetUserProfile :: "('d, 'j) user_db \<Rightarrow> uuid \<Rightarrow> 'd \<Rightarrow> gorm_error + user" where
  "us_GetUserProfile K userID d =
     (case udb_find_user K userID d of
        Inl err \<Rightarrow> Inl err
      | Inr rows \<Rightarrow> Inr (case rows of [] \<Rightarrow> zero_user | u # _ \<Rightarrow> u))"

definition us_GetUsers :: "('d, 'j) user_db \<Rightarrow> 'd \<Rightarrow> gorm_error + user list" where
  "us_GetUsers K d = udb_find_users K d"

definition us_DeleteUser :: "('d, 'j) user_db \<Rightarrow> uuid \<Rightarrow> 'd \<Rightarrow> gorm_error option \<times> 'd" where
  "us_DeleteUser K userId d =
     (case udb_delete_user K userId d of
        ((rows, err), d') \<Rightarrow> (if rows = 0 then Some ErrRecordNotFound else err, d'))"

definition us_UpdateUser :: "('d, 'j) user_db \<Rightarrow> uuid \<Rightarrow> (string \<times> 'j) list \<Rightarrow> 'd \<Rightarrow> gorm_error option \<times> 'd" where
  "us_UpdateUser K userID updates d =
     (case udb_update_user K userID updates d of
        ((rows, err), d') \<Rightarrow> (if rows = 0 then Some ErrRecordNotFound else err, d'))"

section \<open>The handlers\<close>

record profile =
  pf_id :: uuid
  pf_username :: string
  pf_email :: string
  pf_first_name :: string
  pf_last_name :: string
  pf_created_at :: instant
  pf_updated_at :: instant

definition profile_of :: "user \<Rightarrow> profile" where
  "profile_of u = \<lparr>pf_id = u_ID u, pf_username = u_Username u, pf_email = u_Email u,
     pf_first_name = u_FirstName u, pf_last_name = u_LastName u, pf_created_at = u_CreatedAt u,
     pf_updated_at = u_UpdatedAt u\<rparr>"

datatype user_reply = ProfileJSON profile | ProfilesJSON "profile list" | UserMessage string

record ('d, 'j) user_handler =
  uh_uuid :: uuid_lib
  uh_users :: "('d, 'j) user_db"
  uh_authz :: "'d authz_db"
  uh_show :: "gorm_error \<Rightarrow> string"

text \<open>
  What the five handlers share: the user of the context, which must be a \<open>uuid.UUID\<close>; the target in the
  path; the authorization request, with no context, address or agent; the translation of an error.
\<close>

definition current_user :: "gin_ctx \<Rightarrow> user_reply response + uuid" where
  "current_user c =
     (case gin_Get c ''user_id'' of
        None \<Rightarrow> Inl (RespondError 401 ''User not authenticated'')
      | Some (VUUID u) \<Rightarrow> Inr u
      | Some _ \<Rightarrow> Inl (RespondError 500 ''Invalid user ID format''))"

definition target_user :: "uuid_lib \<Rightarrow> gin_ctx \<Rightarrow> user_reply response + uuid" where
  "target_user U c =
     (let userIDParam = gc_param c ''user_id''
      in if \<not> IsValidUUID U userIDParam then Inl (RespondError 400 ''Invalid user ID format'')
         else case uuid_FromString U userIDParam of
                None \<Rightarrow> Inl (RespondError 400 ''Invalid user ID'')
              | Some u \<Rightarrow> Inr u)"

definition plain_request :: "uuid \<Rightarrow> string \<Rightarrow> string \<Rightarrow> uuid option \<Rightarrow> unit authz_request" where
  "plain_request u res act rid = \<lparr>aq_UserID = u, aq_Resource = res, aq_Action = act, aq_ResourceID = rid,
     aq_Context = None, aq_IPAddress = '''', aq_UserAgent = '''', aq_RequestID = ''''\<rparr>"

definition denied ::
  "('d, 'j) user_handler \<Rightarrow> instant \<Rightarrow> uuid \<Rightarrow> string \<Rightarrow> string \<Rightarrow> uuid option \<Rightarrow> 'd \<Rightarrow> user_reply response option" where
  "denied H now u res act rid d =
     (case IsAuthorized (uh_authz H) (uh_show H) now (plain_request u res act rid) d of
        (_, Some _) \<Rightarrow> Some (RespondError 500 ''Authorization check failed'')
      | (decision, None) \<Rightarrow>
          if ad_Decision decision \<noteq> ''allowed'' then Some (RespondError 403 ''Access denied'') else None)"

definition user_error :: "string \<Rightarrow> gorm_error \<Rightarrow> user_reply response" where
  "user_error msg err =
     (if err = ErrRecordNotFound then RespondError 404 ''User not found'' else RespondError 500 msg)"

definition respond_profile :: "('d, 'j) user_handler \<Rightarrow> uuid \<Rightarrow> 'd \<Rightarrow> user_reply response" where
  "respond_profile H u d =
     (case us_GetUserProfile (uh_users H) u d of
        Inl err \<Rightarrow> user_error ''Failed to get user profile'' err
      | Inr user \<Rightarrow> Respond 200 (ProfileJSON (profile_of user)))"

definition uh_GetUserProfile :: "('d, 'j) user_handler \<Rightarrow> instant \<Rightarrow> gin_ctx \<Rightarrow> 'd \<Rightarrow> user_reply response \<times> 'd" where
  "uh_GetUserProfile H now c d =
     (case current_user c of
        Inl r \<Rightarrow> (r, d)
      | Inr u \<Rightarrow>
          (case denied H now u ''profile'' ''read'' (Some u) d of
             Some r \<Rightarrow> (r, d)
           | None \<Rightarrow> (respond_profile H u d, d)))"

definition uh_GetUserProfileByUserId :: "('d, 'j) user_handler \<Rightarrow> instant \<Rightarrow> gin_ctx \<Rightarrow> 'd \<Rightarrow> user_reply response \<times> 'd" where
  "uh_GetUserProfileByUserId H now c d =
     (case current_user c of
        Inl r \<Rightarrow> (r, d)
      | Inr u \<Rightarrow>
          (case target_user (uh_uuid H) c of
             Inl r \<Rightarrow> (r, d)
           | Inr target \<Rightarrow>
               (case denied H now u ''profile'' ''read'' (Some target) d of
                  Some r \<Rightarrow> (r, d)
                | None \<Rightarrow> (respond_profile H target d, d))))"

definition uh_GetUsers :: "('d, 'j) user_handler \<Rightarrow> instant \<Rightarrow> gin_ctx \<Rightarrow> 'd \<Rightarrow> user_reply response \<times> 'd" where
  "uh_GetUsers H now c d =
     (case current_user c of
        Inl r \<Rightarrow> (r, d)
      | Inr u \<Rightarrow>
          (case denied H now u ''users'' ''list'' None d of
             Some r \<Rightarrow> (r, d)
           | None \<Rightarrow>
               (case us_GetUsers (uh_users H) d of
                  Inl _ \<Rightarrow> (RespondError 500 ''Failed to get users'', d)
                | Inr users \<Rightarrow> (Respond 200 (ProfilesJSON (map profile_of users)), d))))"

definition uh_DeleteUser :: "('d, 'j) user_handler \<Rightarrow> instant \<Rightarrow> gin_ctx \<Rightarrow> 'd \<Rightarrow> user_reply response \<times> 'd" where
  "uh_DeleteUser H now c d =
     (case current_user c of
        Inl r \<Rightarrow> (r, d)
      | Inr u \<Rightarrow>
          (case target_user (uh_uuid H) c of
             Inl r \<Rightarrow> (r, d)
           | Inr target \<Rightarrow>
               (case denied H now u ''user'' ''delete'' (Some target) d of
                  Some r \<Rightarrow> (r, d)
                | None \<Rightarrow>
                    (case us_DeleteUser (uh_users H) target d of
                       (Some err, d') \<Rightarrow> (user_error ''Failed to delete user'' err, d')
                     | (None, d') \<Rightarrow> (Respond 200 (UserMessage ''User deleted successfully''), d')))))"

definition uh_UpdateUserProfile ::
  "('d, 'j) user_handler \<Rightarrow> instant \<Rightarrow> (string + (string \<times> 'j) list) \<Rightarrow> gin_ctx \<Rightarrow> 'd \<Rightarrow> user_reply response \<times> 'd" where
  "uh_UpdateUserProfile H now body c d =
     (case current_user c of
        Inl r \<Rightarrow> (r, d)
      | Inr u \<Rightarrow>
          (case target_user (uh_uuid H) c of
             Inl r \<Rightarrow> (r, d)
           | Inr target \<Rightarrow>
               (case body of
                  Inl _ \<Rightarrow> (RespondError 400 ''Invalid request body'', d)
                | Inr updateData \<Rightarrow>
                    (case denied H now u ''profile'' ''update'' (Some target) d of
                       Some r \<Rightarrow> (r, d)
                     | None \<Rightarrow>
                         (case us_UpdateUser (uh_users H) target updateData d of
                            (Some err, d') \<Rightarrow> (user_error ''Failed to update user profile'' err, d')
                          | (None, d') \<Rightarrow> (Respond 200 (UserMessage ''User updated successfully''), d'))))))"

datatype 'j user_route =
    GetProfileR | GetProfileByIdR | GetUsersR | DeleteUserR | PutProfileR "string + (string \<times> 'j) list"

fun user_route_handler :: "('d, 'j) user_handler \<Rightarrow> instant \<Rightarrow> 'j user_route \<Rightarrow> gin_ctx \<Rightarrow> 'd \<Rightarrow> user_reply response \<times> 'd" where
  "user_route_handler H now GetProfileR c d = uh_GetUserProfile H now c d"
| "user_route_handler H now GetProfileByIdR c d = uh_GetUserProfileByUserId H now c d"
| "user_route_handler H now GetUsersR c d = uh_GetUsers H now c d"
| "user_route_handler H now DeleteUserR c d = uh_DeleteUser H now c d"
| "user_route_handler H now (PutProfileR body) c d = uh_UpdateUserProfile H now body c d"

text \<open>The user routes as \<open>setupRoutes\<close> registers them.\<close>

definition serve_user ::
  "'t auth_env \<Rightarrow> ('d, 'j) user_handler \<Rightarrow> instant \<Rightarrow> 'j user_route \<Rightarrow> gin_ctx \<Rightarrow> 'd \<Rightarrow> user_reply response \<times> 'd" where
  "serve_user A H now r c d =
     guarded (AuthzMiddleware A now no_requirements) (\<lambda>c'. user_route_handler H now r c' d) d c"

section \<open>The routes as they are registered\<close>

text \<open>
  No user route ever works. \<open>AuthzMiddleware\<close> stores the token's \<open>user_id\<close> as the JSON value it
  is, a string, and every user handler insists on a \<open>uuid.UUID\<close>: with a valid token each of the
  five routes answers 500 "Invalid user ID format", without one 401 or 403, and the database is
  never touched.
\<close>

theorem user_routes_never_work:
  "case serve_user A H now r c d of (resp, d') \<Rightarrow> d' = d \<and>
     (if \<exists>claims. presented_claims A now c = Some claims \<and> admits now no_requirements claims
      then resp = RespondError 500 ''Invalid user ID format'' else resp_status resp \<in> {Some 401, Some 403})"
proof (cases "\<exists>claims. presented_claims A now c = Some claims \<and> admits now no_requirements claims")
  case True
  then obtain claims where k: "presented_claims A now c = Some claims" "admits now no_requirements claims" by blast
  have "current_user (with_identity claims c) = Inl (RespondError 500 ''Invalid user ID format'')"
    using claims_get_no_uuid [of claims "''user_id''"] by (auto simp: current_user_def split: ctx_value.splits)
  then have "user_route_handler H now r (with_identity claims c) d = (RespondError 500 ''Invalid user ID format'', d)"
    by (cases r) (simp_all add: uh_GetUserProfile_def uh_GetUserProfileByUserId_def uh_GetUsers_def
        uh_DeleteUser_def uh_UpdateUserProfile_def)
  then show ?thesis using True unfolding serve_user_def guarded_token [OF k] by simp
next
  case False
  then obtain st e where "serve_user A H now r c d = (RespondError st e, d)" "st \<in> {401, 403}"
    using guarded_no_token [of A now c no_requirements "\<lambda>c'. user_route_handler H now r c' d" d]
    unfolding serve_user_def by blast
  then show ?thesis using False by auto
qed

section \<open>The handlers behind a middleware that stores the UUID\<close>

text \<open>
  \<open>RBACMiddleware\<close>, \<open>PermissionMiddleware\<close> and \<open>ABACMiddleware\<close> store a \<open>uuid.UUID\<close>, as the handlers
  expect. Then the policy decides.
\<close>

lemma denied_answer:
  assumes "authz_reads (uh_authz H) T d"
  shows "denied H now u res act rid d =
    (if authz_policy T (plain_request u res act rid) then None else Some (RespondError 403 ''Access denied''))"
  using IsAuthorized_answer [OF assms, of "uh_show H" now "plain_request u res act rid"]
  by (auto simp: denied_def split: prod.splits if_splits)

lemma current_user_uuid: "gin_Get c ''user_id'' = Some (VUUID u) \<Longrightarrow> current_user c = Inr u"
  by (simp add: current_user_def)

lemma target_user_iff: "target_user U c = Inr t \<longleftrightarrow> uuid_FromString U (gc_param c ''user_id'') = Some t"
  by (auto simp: target_user_def IsValidUUID_def Let_def split: option.splits if_splits)

lemma target_user_bad: "uuid_FromString U (gc_param c ''user_id'') = None \<Longrightarrow>
    target_user U c = Inl (RespondError 400 ''Invalid user ID format'')"
  by (simp add: target_user_def IsValidUUID_def)

text \<open>
  C34: \<open>DeleteUser\<close> deletes exactly what the policy allows: with a user in the context and a valid
  identifier in the path, the row is deleted when the user has the permission \<open>user:delete\<close> and is an
  administrator or the target; otherwise the answer is 403 and nothing changes. A malformed identifier
  is 400.
\<close>

theorem delete_user_follows_policy:
  assumes "authz_reads (uh_authz H) T d" and "gin_Get c ''user_id'' = Some (VUUID u)"
  shows "uh_DeleteUser H now c d =
    (case uuid_FromString (uh_uuid H) (gc_param c ''user_id'') of
       None \<Rightarrow> (RespondError 400 ''Invalid user ID format'', d)
     | Some target \<Rightarrow>
         if holds_permission T u ''user'' ''delete'' \<and> (holds_role T u ''admin'' \<or> target = u)
         then (case udb_delete_user (uh_users H) target d of
                 ((rows, err), d') \<Rightarrow>
                   (if rows = 0 then RespondError 404 ''User not found''
                    else if err = None then Respond 200 (UserMessage ''User deleted successfully'')
                    else if err = Some ErrRecordNotFound then RespondError 404 ''User not found''
                    else RespondError 500 ''Failed to delete user'', d'))
         else (RespondError 403 ''Access denied'', d))"
proof (cases "uuid_FromString (uh_uuid H) (gc_param c ''user_id'')")
  case None
  then show ?thesis
    using current_user_uuid [OF assms(2)] by (simp add: uh_DeleteUser_def target_user_bad)
next
  case (Some target)
  then have t: "target_user (uh_uuid H) c = Inr target" by (simp add: target_user_iff)
  have "authz_policy T (plain_request u ''user'' ''delete'' (Some target)) \<longleftrightarrow>
      holds_permission T u ''user'' ''delete'' \<and> (holds_role T u ''admin'' \<or> target = u)"
    by (auto simp: authz_policy_def plain_request_def user_rule_def)
  then show ?thesis using Some t current_user_uuid [OF assms(2)]
    by (auto simp: uh_DeleteUser_def denied_answer [OF assms(1)] us_DeleteUser_def user_error_def split: prod.splits option.splits)
qed

text \<open>The example tables with the permission \<open>user:delete\<close> for the role \<open>user\<close>.\<close>

definition ex_user_handler :: "(authz_tables, bool) user_handler" where
  "ex_user_handler = \<lparr>uh_uuid = mem_uuid,
     uh_users = \<lparr>udb_find_user = (\<lambda>i T. Inr (filter (\<lambda>u. u_ID u = i \<and> u_DeletedAt u = None) (tb_users T))),
       udb_find_users = (\<lambda>T. Inr (filter (\<lambda>u. u_DeletedAt u = None) (tb_users T))),
       udb_raw_user = (\<lambda>s T. Inr (filter (\<lambda>u. uuid_String mem_uuid (u_ID u) = s) (tb_users T))),
       udb_delete_user = (\<lambda>i T. ((length (filter (\<lambda>u. u_ID u = i \<and> u_DeletedAt u = None) (tb_users T)), None),
         T\<lparr>tb_users := map (\<lambda>u. if u_ID u = i then u\<lparr>u_DeletedAt := Some 1\<rparr> else u) (tb_users T)\<rparr>)),
       udb_update_user = (\<lambda>i up T. ((length (filter (\<lambda>u. u_ID u = i \<and> u_DeletedAt u = None) (tb_users T)), None),
         T\<lparr>tb_users := map (\<lambda>u. if u_ID u = i
           then (case map_of up ''is_active'' of Some v \<Rightarrow> u\<lparr>u_IsActive := v\<rparr> | None \<Rightarrow> u) else u) (tb_users T)\<rparr>))\<rparr>,
     uh_authz = mem_authz_db, uh_show = (\<lambda>_. ''e'')\<rparr>"

definition ex_delete_tables :: authz_tables where
  "ex_delete_tables = ex_tables\<lparr>tb_role_permissions := [ex_grant 1 (ex_permission 14 ''user'' ''delete'')],
     tb_permissions := [ex_permission 14 ''user'' ''delete''], tb_users := [zero_user\<lparr>u_ID := 5\<rparr>, zero_user\<lparr>u_ID := 6\<rparr>]\<rparr>"

definition ex_user_ctx :: "uuid \<Rightarrow> uuid \<Rightarrow> gin_ctx" where
  "ex_user_ctx u target = gin_Set ''user_id'' (VUUID u) ((ex_ctx [])\<lparr>gc_param := (\<lambda>_. uuid_String mem_uuid target)\<rparr>)"

lemma ex_user_ctx_simps:
  "gin_Get (ex_user_ctx u target) ''user_id'' = Some (VUUID u)"
  "uuid_FromString mem_uuid (gc_param (ex_user_ctx u target) ''user_id'') = Some target"
  using mem_uuid_lawful by (simp_all add: ex_user_ctx_def uuid_lawful_def) (simp add: gin_Set_def)

theorem delete_user_follows_policy_witness:
  "fst (uh_DeleteUser ex_user_handler 0 (ex_user_ctx 5 6) ex_delete_tables) = RespondError 403 ''Access denied'' \<and>
   fst (uh_DeleteUser ex_user_handler 0 (ex_user_ctx 5 5) ex_delete_tables) = Respond 200 (UserMessage ''User deleted successfully'')"
proof -
  have h: "authz_reads (uh_authz ex_user_handler) ex_delete_tables ex_delete_tables" "uh_uuid ex_user_handler = mem_uuid"
    by (simp_all add: ex_user_handler_def)
  have p: "holds_permission ex_delete_tables 5 ''user'' ''delete''" "\<not> holds_role ex_delete_tables 5 ''admin''"
    by (simp_all add: holds_permission_def holds_role_def ex_delete_tables_def ex_defs)
  have x: "udb_delete_user (uh_users ex_user_handler) 5 ex_delete_tables =
      ((1, None), snd (udb_delete_user (uh_users ex_user_handler) 5 ex_delete_tables))"
    by (simp add: ex_user_handler_def ex_delete_tables_def zero_user_def)
  show ?thesis
    using delete_user_follows_policy [OF h(1) ex_user_ctx_simps(1) [of 5 6], of 0] p
      delete_user_follows_policy [OF h(1) ex_user_ctx_simps(1) [of 5 5], of 0] x
    by (simp add: h(2) ex_user_ctx_simps(2) split: prod.splits)
qed

text \<open>
  A profile that does not exist is served: \<open>Find\<close> reports no missing row, so the handler answers 200
  with the zero profile and its 404 branch is dead.
\<close>

lemma missing_profile_is_served:
  assumes "authz_reads (uh_authz H) T d" and "gin_Get c ''user_id'' = Some (VUUID u)"
    and "uuid_FromString (uh_uuid H) (gc_param c ''user_id'') = Some target"
    and "holds_permission T u ''profile'' ''read''" and "udb_find_user (uh_users H) target d = Inr []"
  shows "uh_GetUserProfileByUserId H now c d = (Respond 200 (ProfileJSON (profile_of zero_user)), d)"
proof -
  have "authz_policy T (plain_request u ''profile'' ''read'' (Some target))"
    using assms(4) by (simp add: authz_policy_def plain_request_def user_rule_def)
  then show ?thesis
    using assms(3,5) current_user_uuid [OF assms(2)]
    by (simp add: uh_GetUserProfileByUserId_def target_user_iff [THEN iffD2] denied_answer [OF assms(1)] respond_profile_def
        us_GetUserProfile_def)
qed

text \<open>
  Updating a profile is a mass assignment. Whoever may update a profile at all (the user itself,
  with the permission \<open>profile:update\<close>) has the whole body written to the row: any column, such as
  \<open>is_active\<close>, \<open>email\<close> or \<open>password\<close>, with any value.
\<close>

theorem profile_update_is_mass_assignment:
  assumes "authz_reads (uh_authz H) T d" and "gin_Get c ''user_id'' = Some (VUUID u)"
    and "uuid_FromString (uh_uuid H) (gc_param c ''user_id'') = Some u"
    and "holds_permission T u ''profile'' ''update''"
    and "udb_update_user (uh_users H) u updates d = ((n, None), d')" and "0 < n"
  shows "uh_UpdateUserProfile H now (Inr updates) c d = (Respond 200 (UserMessage ''User updated successfully''), d')"
proof -
  have "authz_policy T (plain_request u ''profile'' ''update'' (Some u))"
    using assms(4) by (simp add: authz_policy_def plain_request_def user_rule_def)
  then show ?thesis
    using assms(3,5,6) current_user_uuid [OF assms(2)]
    by (simp add: uh_UpdateUserProfile_def target_user_iff [THEN iffD2] denied_answer [OF assms(1)] us_UpdateUser_def)
qed

theorem profile_update_is_mass_assignment_witness:
  "\<exists>T'. uh_UpdateUserProfile ex_user_handler 0 (Inr [(''is_active'', True)]) (ex_user_ctx 5 5)
     (ex_tables\<lparr>tb_role_permissions := [ex_grant 1 (ex_permission 2 ''profile'' ''update'')],
       tb_permissions := [ex_permission 2 ''profile'' ''update''], tb_users := [zero_user\<lparr>u_ID := 5\<rparr>]\<rparr>) =
     (Respond 200 (UserMessage ''User updated successfully''), T') \<and> tb_users T' = [zero_user\<lparr>u_ID := 5, u_IsActive := True\<rparr>]"
proof -
  let ?T = "ex_tables\<lparr>tb_role_permissions := [ex_grant 1 (ex_permission 2 ''profile'' ''update'')],
       tb_permissions := [ex_permission 2 ''profile'' ''update''], tb_users := [zero_user\<lparr>u_ID := 5\<rparr>]\<rparr>"
  let ?T' = "?T\<lparr>tb_users := [zero_user\<lparr>u_ID := 5, u_IsActive := True\<rparr>]\<rparr>"
  have "uh_UpdateUserProfile ex_user_handler 0 (Inr [(''is_active'', True)]) (ex_user_ctx 5 5) ?T =
      (Respond 200 (UserMessage ''User updated successfully''), ?T')"
  proof (rule profile_update_is_mass_assignment [where T = ?T and u = 5 and n = 1])
    show "authz_reads (uh_authz ex_user_handler) ?T ?T" by (simp add: ex_user_handler_def)
    show "uuid_FromString (uh_uuid ex_user_handler) (gc_param (ex_user_ctx 5 5) ''user_id'') = Some 5"
      using ex_user_ctx_simps(2) by (simp add: ex_user_handler_def)
    show "holds_permission ?T 5 ''profile'' ''update''" by (simp add: holds_permission_def ex_defs)
    show "udb_update_user (uh_users ex_user_handler) 5 [(''is_active'', True)] ?T = ((1, None), ?T')"
      by (simp add: ex_user_handler_def zero_user_def)
  qed (simp_all add: ex_user_ctx_simps)
  then show ?thesis by simp
qed

end
