(* ===== verification/AuthHandler.thy ===== *)
theory AuthHandler
  imports AuthzMiddleware Utils
begin

text \<open>
  The handlers of login, refresh and logout (\<^verbatim>\<open>backend/internal/handlers/auth.go\<close>, \<^verbatim>\<open>refresh.go\<close>,
  \<^verbatim>\<open>logout.go\<close>) over the authentication service. The body is the result of binding the JSON. Logout is
  written but \<open>setupRoutes\<close> does not register it. Emails are lower-cased and trimmed as ASCII strings.
\<close>

section \<open>Login\<close>

record login_request =
  lq_Email :: string
  lq_Password :: string

record user_profile =
  up_ID :: string
  up_Email :: string
  up_FirstName :: string
  up_LastName :: string
  up_Department :: string
  up_Position :: string
  up_IsActive :: bool
  up_LastLoginAt :: "instant option"
  up_Roles :: "string list"

record login_response =
  lr_AccessToken :: string
  lr_RefreshToken :: string
  lr_TokenType :: string
  lr_ExpiresIn :: int
  lr_User :: user_profile
  lr_Permissions :: "string list"

definition login_profile :: "uuid_lib \<Rightarrow> user \<Rightarrow> user_profile" where
  "login_profile U u = \<lparr>up_ID = uuid_String U (u_ID u), up_Email = u_Email u, up_FirstName = u_FirstName u,
     up_LastName = u_LastName u, up_Department = u_Department u, up_Position = u_Position u,
     up_IsActive = u_IsActive u, up_LastLoginAt = u_LastLoginAt u, up_Roles = GetRoleNames u\<rparr>"

text \<open>\<open>save\<close> is \<open>h.db.Save(user)\<close>, whose error is ignored; \<open>now\<close> is the time of \<open>GenerateToken\<close>, \<open>stamp\<close> the later \<open>time.Now()\<close>.\<close>

definition lh_Token ::
  "'d auth_env \<Rightarrow> (user \<Rightarrow> 'd \<Rightarrow> gorm_error option \<times> 'd) \<Rightarrow> instant \<Rightarrow> instant \<Rightarrow> uuid option \<Rightarrow> uuid \<Rightarrow>
   (string + login_request) \<Rightarrow> 'd \<Rightarrow> login_response response \<times> 'd" where
  "lh_Token A save now stamp jti_opt new_id body d =
     (case body of
        Inl _ \<Rightarrow> (RespondError 400 ''invalid_request'', d)
      | Inr req \<Rightarrow>
          (let email = ToLower (TrimSpace (lq_Email req))
           in case LoginUser A email (lq_Password req) d of
                Inl _ \<Rightarrow> (RespondError 401 ''invalid_credentials'', d)
              | Inr user \<Rightarrow>
                  if \<not> u_IsActive user then (RespondError 403 ''account_disabled'', d)
                  else (case GenerateToken A now jti_opt new_id (u_ID user) d of
                          (Inl _, d1) \<Rightarrow> (RespondError 500 ''token_generation_failed'', d1)
                        | (Inr (accessToken, refreshToken), d1) \<Rightarrow>
                            let user' = user\<lparr>u_LastLoginAt := Some stamp\<rparr>;
                                d2 = snd (save user' d1);
                                permissions = (case GetUserPermissions A (u_ID user') d2 of Inl _ \<Rightarrow> [] | Inr ps \<Rightarrow> ps)
                            in (Respond 200 \<lparr>lr_AccessToken = accessToken, lr_RefreshToken = refreshToken,
                                  lr_TokenType = ''Bearer'', lr_ExpiresIn = 3600,
                                  lr_User = login_profile (ae_uuid A) user', lr_Permissions = permissions\<rparr>, d2))))"

section \<open>Refresh and logout\<close>

record refresh_response =
  rr_AccessToken :: string
  rr_RefreshToken :: string
  rr_TokenType :: string
  rr_ExpiresIn :: int

definition rh_Refresh ::
  "'d auth_env \<Rightarrow> instant \<Rightarrow> uuid option \<Rightarrow> uuid \<Rightarrow> (string + string) \<Rightarrow> 'd \<Rightarrow> refresh_response response \<times> 'd" where
  "rh_Refresh A now jti_opt new_id body d =
     (case body of
        Inl _ \<Rightarrow> (RespondError 400 ''invalid_request'', d)
      | Inr refreshToken \<Rightarrow>
          (case RefreshToken A now jti_opt new_id refreshToken d of
             (Inl _, d') \<Rightarrow> (RespondError 401 ''invalid_token'', d')
           | (Inr (accessToken, newRefreshToken, expiresIn), d') \<Rightarrow>
               (Respond 200 \<lparr>rr_AccessToken = accessToken, rr_RefreshToken = newRefreshToken,
                  rr_TokenType = ''Bearer'', rr_ExpiresIn = expiresIn\<rparr>, d')))"

definition lo_Logout :: "'d auth_env \<Rightarrow> instant \<Rightarrow> (string + string) \<Rightarrow> 'd \<Rightarrow> string response \<times> 'd" where
  "lo_Logout A now body d =
     (case body of
        Inl _ \<Rightarrow> (RespondError 400 ''invalid_request'', d)
      | Inr refreshToken \<Rightarrow>
          (case RevokeToken A now refreshToken d of
             (Some _, d') \<Rightarrow> (Respond 200 ''Successfully logged out'', d')
           | (None, d') \<Rightarrow> (Respond 200 ''Successfully logged out'', d')))"

section \<open>What login promises\<close>

text \<open>
  The query of \<open>LoginUser\<close>: the first active user with exactly this email. Rows come without their
  associations, which the query does not preload.
\<close>

definition login_reads :: "'d auth_env \<Rightarrow> ('d \<Rightarrow> user list) \<Rightarrow> bool" where
  "login_reads A us \<longleftrightarrow> (\<forall>email d. tdb_login_user (ae_db A) email d =
     first_row (map_option (\<lambda>u. u\<lparr>u_Roles := []\<rparr>)
       (find (\<lambda>u. u_Email u = email \<and> u_IsActive u \<and> u_DeletedAt u = None) (us d))))"

definition active_user :: "user list \<Rightarrow> string \<Rightarrow> user option" where
  "active_user us email = find (\<lambda>u. u_Email u = email \<and> u_IsActive u \<and> u_DeletedAt u = None) us"

lemma LoginUser_cases:
  assumes "login_reads A us"
  shows "LoginUser A email pw d =
    (case active_user (us d) email of
       None \<Rightarrow> Inl ErrRecordNotFound
     | Some u \<Rightarrow> if ae_compare A (u_Password u) pw then Inr (u\<lparr>u_Roles := []\<rparr>) else Inl ErrInvalidData)"
  using assms by (auto simp: login_reads_def LoginUser_def active_user_def first_row_def split: option.splits)

lemma active_userD: "active_user us email = Some u \<Longrightarrow> u \<in> set us \<and> u_Email u = email \<and> u_IsActive u"
  by (auto simp: active_user_def dest: find_SomeD)

text \<open>
  C35: Login, completely. A well-formed request is answered by the account whose email is the trimmed,
  lower-case email of the request: 401 when there is none or the password is wrong, with the same
  body in both cases and nothing changed, 500 when the tokens cannot be made, and otherwise 200 with
  a pair of tokens that \<open>GenerateToken\<close> made for this user. The 403 for a disabled account is never
  sent, and the list of roles is always empty.
\<close>

theorem login_outcome:
  assumes "login_reads A us"
  shows "case lh_Token A save now stamp j i (Inr req) d of (resp, d') \<Rightarrow>
    (case active_user (us d) (ToLower (TrimSpace (lq_Email req))) of
       None \<Rightarrow> resp = RespondError 401 ''invalid_credentials'' \<and> d' = d
     | Some u \<Rightarrow>
         if \<not> ae_compare A (u_Password u) (lq_Password req)
         then resp = RespondError 401 ''invalid_credentials'' \<and> d' = d
         else (case GenerateToken A now j i (u_ID u) d of
                 (Inl _, d1) \<Rightarrow> resp = RespondError 500 ''token_generation_failed'' \<and> d' = d1
               | (Inr (acc, new), d1) \<Rightarrow>
                   (\<exists>r. resp = Respond 200 r \<and> lr_AccessToken r = acc \<and> lr_RefreshToken r = new \<and>
                      up_Email (lr_User r) = ToLower (TrimSpace (lq_Email req)) \<and>
                      up_ID (lr_User r) = uuid_String (ae_uuid A) (u_ID u) \<and> up_Roles (lr_User r) = [] \<and>
                      d' = snd (save (u\<lparr>u_Roles := [], u_LastLoginAt := Some stamp\<rparr>) d1))))"
proof (cases "active_user (us d) (ToLower (TrimSpace (lq_Email req)))")
  case None
  then show ?thesis by (simp add: lh_Token_def LoginUser_cases [OF assms])
next
  case (Some u)
  have u: "u_Email u = ToLower (TrimSpace (lq_Email req))" "u_IsActive u" using active_userD [OF Some] by simp_all
  obtain x d1 where g: "GenerateToken A now j i (u_ID u) d = (x, d1)" by fastforce
  show ?thesis
  proof (cases "ae_compare A (u_Password u) (lq_Password req)")
    case False
    then show ?thesis using Some by (simp add: lh_Token_def LoginUser_cases [OF assms])
  next
    case True
    then show ?thesis using Some g u
      by (cases x) (auto simp: lh_Token_def LoginUser_cases [OF assms] Let_def login_profile_def GetRoleNames_def)
  qed
qed

text \<open>An environment whose database also holds users: the tokens table with a fixed list of accounts.\<close>

definition ex_account :: user where
  "ex_account = \<lparr>u_ID = 5, u_Username = ''ann'', u_Email = ''ann@x.org'', u_Password = ''Secret1!'', u_FirstName = ''Ann'',
     u_LastName = ''Lee'', u_Department = '''', u_Position = '''', u_IsActive = True, u_LastLoginAt = None,
     u_CreatedAt = 0, u_UpdatedAt = 0, u_DeletedAt = None, u_Roles = []\<rparr>"

definition mem_login_env :: "((token \<times> bool) list) auth_env" where
  "mem_login_env = mem_auth_env\<lparr>ae_db := mem_auth_db\<lparr>tdb_login_user := (\<lambda>email d.
     first_row (map_option (\<lambda>u. u\<lparr>u_Roles := []\<rparr>)
       (find (\<lambda>u. u_Email u = email \<and> u_IsActive u \<and> u_DeletedAt u = None) [ex_account])))\<rparr>\<rparr>"

lemma mem_login_laws:
  "login_reads mem_login_env (\<lambda>d. [ex_account])" "jwt_lawful (ae_jwt mem_login_env)"
  "uuid_lawful (ae_uuid mem_login_env)" "token_table (ae_db mem_login_env) (\<lambda>d. d)"
  using mem_auth_env_laws by (simp_all add: login_reads_def mem_login_env_def mem_auth_env_def token_table_def)

theorem login_outcome_witness:
  "fst (lh_Token mem_login_env (\<lambda>u d. (None, d)) 0 1 (Some 7) 8 (Inr \<lparr>lq_Email = '' Ann@X.org'', lq_Password = ''secret1!''\<rparr>) [])
     = RespondError 401 ''invalid_credentials''"
proof -
  have e: "ToLower (TrimSpace '' Ann@X.org'') = ''ann@x.org''" by code_simp
  have "active_user [ex_account] ''ann@x.org'' = Some ex_account" by (simp add: active_user_def ex_account_def)
  moreover have "\<not> ae_compare mem_login_env (u_Password ex_account) ''secret1!''"
    by (simp add: mem_login_env_def mem_auth_env_def ex_account_def)
  ultimately show ?thesis
    using login_outcome [OF mem_login_laws(1), where save = "\<lambda>u d. (None, d)" and now = 0 and stamp = 1 and j = "Some 7" and i = 8
        and req = "\<lparr>lq_Email = '' Ann@X.org'', lq_Password = ''secret1!''\<rparr>" and d = "[]"]
    by (simp add: e split: prod.splits)
qed

section \<open>A session\<close>

lemma Refresh_status:
  "resp_status (fst (rh_Refresh A now j i (Inr s) d)) =
    Some (case fst (RefreshToken A now j i s d) of Inl _ \<Rightarrow> 401 | Inr _ \<Rightarrow> 200)"
  by (auto simp: rh_Refresh_def split: prod.splits sum.splits)

lemma Logout_state: "lo_Logout A now (Inr s) d = (Respond 200 ''Successfully logged out'', snd (RevokeToken A now s d))"
  by (auto simp: lo_Logout_def split: prod.splits option.splits)

text \<open>A signed access token passes the guard until its hour is over; a logout ends the refreshes of its token.\<close>

lemma access_token_admitted:
  assumes "jwt_lawful (ae_jwt A)"
    and sign: "jwt_sign (ae_jwt A) (jwt_secret A) (access_claims (ae_uuid A) now u roleName permissions) = Some acc"
    and later: "now' < unix (now + hour) * second" and ctx: "gc_header c ''Authorization'' = ''Bearer '' @ acc"
  shows "\<exists>c'. AuthzMiddleware A now' no_requirements c = Proceed c' \<and>
    gin_Get c' ''user_id'' = Some (VString (uuid_String (ae_uuid A) u))"
proof -
  let ?cs = "access_claims (ae_uuid A) now u roleName permissions"
  have "presented_claims A now' c = Some ?cs"
    by (rule presented_signed [OF assms(1) sign _ later]) (use ctx in \<open>simp_all add: access_claims_def\<close>)
  moreover have "admits now' no_requirements ?cs"
    using later by (simp add: admits_def no_requirements_def token_expired_def access_claims_def claim_string_def)
  moreover have "claims_get ?cs ''user_id'' = VString (uuid_String (ae_uuid A) u)"
    by (simp add: claims_get_def access_claims_def)
  ultimately show ?thesis by (simp add: AuthzMiddleware_cases)
qed

lemma logout_ends_session:
  assumes "jwt_lawful (ae_jwt A)" and table: "token_table (ae_db A) R" and id: "refresh_identity A now' new = Inr (j, u)"
  shows "case lo_Logout A now' (Inr new) d' of (r, d'') \<Rightarrow> resp_status r = Some 200 \<and>
    rh_Refresh A now'' j'' i'' (Inr new) d'' = (RespondError 401 ''invalid_token'', d'')"
proof -
  have "RevokeToken A now' new d' = (case tdb_delete_jti (ae_db A) j d' of (e, d'') \<Rightarrow> (map_option GormError e, d''))"
    by (rule identity_jti [OF id]) (simp add: RevokeToken_def)
  then obtain e where "tdb_delete_jti (ae_db A) j d' = (e, snd (RevokeToken A now' new d'))"
    by (cases "tdb_delete_jti (ae_db A) j d'") simp
  then have "R (snd (RevokeToken A now' new d')) = mark_rows (\<lambda>x. tk_JTI x = j) (R d')" using token_tableD(4) [OF table] by blast
  then have "\<not> token_live (R (snd (RevokeToken A now' new d'))) j u now''" by (simp only: mark_rows_dead not_False_eq_True)
  from refresh_dead [OF assms(1) table id this, of j'' i''] obtain e' where
    "RefreshToken A now'' j'' i'' new (snd (RevokeToken A now' new d')) = (Inl e', snd (RevokeToken A now' new d'))" by blast
  then show ?thesis by (simp add: Logout_state rh_Refresh_def)
qed

text \<open>
  C9: A session, end to end. After a login answered with 200, and until the hour is over: the access
  token passes the guard of the protected routes as the user who logged in; the refresh token is
  answered with 200; and once \<open>Logout\<close> has been called with the refresh token, which always answers
  200, every refresh with it is answered with 401 and changes nothing.
\<close>

theorem session_life_cycle:
  assumes laws: "jwt_lawful (ae_jwt A)" "uuid_lawful (ae_uuid A)" "token_table (ae_db A) R"
    and save: "\<And>u d. R (snd (save u d)) = R d"
    and fresh: "j \<notin> set (map (tk_JTI \<circ> fst) (R d))"
    and login: "lh_Token A save now stamp (Some j) i (Inr req) d = (Respond 200 rsp, d')"
    and later: "now' < unix (now + hour) * second" "fresh_ids (R d') j' i'"
    and ctx: "gc_header c ''Authorization'' = ''Bearer '' @ lr_AccessToken rsp"
  shows "(\<exists>c'. AuthzMiddleware A now' no_requirements c = Proceed c' \<and>
      gin_Get c' ''user_id'' = Some (VString (up_ID (lr_User rsp)))) \<and>
    resp_status (fst (rh_Refresh A now' (Some j') i' (Inr (lr_RefreshToken rsp)) d')) = Some 200 \<and>
    (case lo_Logout A now' (Inr (lr_RefreshToken rsp)) d' of (r, d'') \<Rightarrow> resp_status r = Some 200 \<and>
      rh_Refresh A now'' j'' i'' (Inr (lr_RefreshToken rsp)) d'' = (RespondError 401 ''invalid_token'', d''))"
proof -
  obtain u where u: "LoginUser A (ToLower (TrimSpace (lq_Email req))) (lq_Password req) d = Inr u" "u_IsActive u"
    using login by (auto simp: lh_Token_def Let_def split: sum.splits if_splits)
  obtain acc new d1 roleName permissions where g: "GenerateToken A now (Some j) i (u_ID u) d = (Inr (acc, new), d1)"
    "R d1 = R d @ [(new_row now j i (u_ID u) new, False)]"
    "jwt_sign (ae_jwt A) (jwt_secret A) (access_claims (ae_uuid A) now (u_ID u) roleName permissions) = Some acc"
    "jwt_sign (ae_jwt A) (jwt_secret A) (refresh_claims (ae_uuid A) now (u_ID u) j) = Some new"
    by (rule generate_ok [OF laws(1,3) fresh])
  have r: "lr_AccessToken rsp = acc" "lr_RefreshToken rsp = new" "up_ID (lr_User rsp) = uuid_String (ae_uuid A) (u_ID u)"
    "R d' = R d1"
    using login u g(1) save by (auto simp: lh_Token_def Let_def login_profile_def)
  have 1: "\<exists>c'. AuthzMiddleware A now' no_requirements c = Proceed c' \<and>
      gin_Get c' ''user_id'' = Some (VString (up_ID (lr_User rsp)))"
    unfolding r(3) by (rule access_token_admitted [OF laws(1) g(3) later(1)]) (simp add: ctx r(1))
  have id: "refresh_identity A now' new = Inr (j, u_ID u)"
    by (rule identity_of_refresh_token [OF laws(1,2) g(4) later(1)])
  have "now' < now + hour" using later(1) unix_le [of "now + hour"] by simp
  then have "token_live (R d') j (u_ID u) now'" unfolding r(4) g(2) token_live_append by (simp add: new_row_def)
  then have 2: "resp_status (fst (rh_Refresh A now' (Some j') i' (Inr (lr_RefreshToken rsp)) d')) = Some 200"
    using refresh_live [OF laws(1,3) id _ later(2)] by (auto simp: Refresh_status r(2))
  from 1 2 logout_ends_session [OF laws(1,3) id, of now'' j'' i'' d'] show ?thesis unfolding r(2) by blast
qed

theorem session_life_cycle_witness:
  "\<exists>rsp d'. lh_Token mem_login_env (\<lambda>u d. (None, d)) 0 1 (Some 7) 8 (Inr \<lparr>lq_Email = ''ANN@x.org'', lq_Password = ''Secret1!''\<rparr>) [] = (Respond 200 rsp, d') \<and>
     resp_status (fst (rh_Refresh mem_login_env 2 (Some 10) 11 (Inr (lr_RefreshToken rsp)) d')) = Some 200"
proof -
  let ?req = "\<lparr>lq_Email = ''ANN@x.org'', lq_Password = ''Secret1!''\<rparr>"
  have e: "ToLower (TrimSpace ''ANN@x.org'') = ''ann@x.org''" by code_simp
  have a: "active_user [ex_account] ''ann@x.org'' = Some ex_account" by (simp add: active_user_def ex_account_def)
  have p: "ae_compare mem_login_env (u_Password ex_account) ''Secret1!''" "u_IsActive ex_account" "u_ID ex_account = 5"
    by (simp_all add: mem_login_env_def mem_auth_env_def ex_account_def)
  have f: "7 \<notin> set (map (tk_JTI \<circ> fst) ([] :: (token \<times> bool) list))" by simp
  obtain acc new d1 where g: "GenerateToken mem_login_env 0 (Some 7) 8 5 [] = (Inr (acc, new), d1)" "d1 = [(new_row 0 7 8 5 new, False)]"
    by (rule generate_ok [OF mem_login_laws(2,4) f, where now = 0 and new_id = 8 and u = 5]) simp
  obtain rsp where l: "lh_Token mem_login_env (\<lambda>u d. (None, d)) 0 1 (Some 7) 8 (Inr ?req) [] = (Respond 200 rsp, d1)"
    using a p g by (auto simp: lh_Token_def LoginUser_cases [OF mem_login_laws(1)] e Let_def)
  have fr: "fresh_ids d1 10 11" by (simp add: g(2) fresh_ids_def new_row_def)
  have "(2::int) < unix (0 + hour) * second" by (simp add: unix_def dur_defs)
  note 1 = session_life_cycle [OF mem_login_laws(2-4) _ f l this fr, where c = "ex_ctx (lr_AccessToken rsp)"]
  have "resp_status (fst (rh_Refresh mem_login_env 2 (Some 10) 11 (Inr (lr_RefreshToken rsp)) d1)) = Some 200"
    using 1 by (simp add: ex_ctx_def)
  then show ?thesis using l by blast
qed

end
