(* ===== verification/Registration.thy ===== *)
theory Registration
  imports AuthHandler
begin

text \<open>
  Registration (\<^verbatim>\<open>backend/internal/services/register.go\<close>, \<^verbatim>\<open>backend/internal/handlers/register.go\<close>).
  The service inserts the user, the role and two attributes in one transaction: \<open>'d\<close> is the
  database, \<open>'t\<close> an open transaction. The clock's \<open>i\<close>-th reading is \<open>tm i\<close>.
\<close>

section \<open>The service\<close>

record reg_request =
  rg_Username :: string
  rg_Email :: string
  rg_Password :: string
  rg_FirstName :: string
  rg_LastName :: string
  rg_Department :: string
  rg_Position :: string

record ('d, 't) reg_db =
  rdb_by_email :: "string \<Rightarrow> 'd \<Rightarrow> gorm_error + user"
  rdb_by_username :: "string \<Rightarrow> 'd \<Rightarrow> gorm_error + user"
  rdb_begin :: "'d \<Rightarrow> gorm_error + 't"
  rdb_create_user :: "user \<Rightarrow> 't \<Rightarrow> gorm_error option \<times> 't"
  rdb_first_role :: "string \<Rightarrow> 't \<Rightarrow> gorm_error + role"
  rdb_create_user_role :: "user_role \<Rightarrow> 't \<Rightarrow> gorm_error option \<times> 't"
  rdb_create_attribute :: "user_attribute \<Rightarrow> 't \<Rightarrow> gorm_error option \<times> 't"
  rdb_rollback :: "'t \<Rightarrow> 'd"
  rdb_commit :: "'t \<Rightarrow> gorm_error option \<times> 'd"
  rdb_reload :: "uuid \<Rightarrow> 'd \<Rightarrow> gorm_error + user"

datatype register_error =
    EmailExists | UsernameExists | HashFailed string | NoDefaultRole | RegDb gorm_error

text \<open>\<open>hash\<close> is \<open>bcrypt.GenerateFromPassword\<close>; it fails, for instance, on more than 72 bytes.\<close>

definition new_user :: "(nat \<Rightarrow> instant) \<Rightarrow> uuid \<Rightarrow> string \<Rightarrow> reg_request \<Rightarrow> user" where
  "new_user tm new_id hashed req = \<lparr>u_ID = new_id, u_Username = rg_Username req, u_Email = rg_Email req,
     u_Password = hashed, u_FirstName = rg_FirstName req, u_LastName = rg_LastName req,
     u_Department = rg_Department req, u_Position = rg_Position req, u_IsActive = True, u_LastLoginAt = None,
     u_CreatedAt = tm 0, u_UpdatedAt = tm 1, u_DeletedAt = None, u_Roles = []\<rparr>"

definition role_assignment :: "instant \<Rightarrow> uuid \<Rightarrow> uuid \<Rightarrow> user_role" where
  "role_assignment now userID roleID = \<lparr>ur_UserID = userID, ur_RoleID = roleID, ur_AssignedBy = None,
     ur_AssignedAt = Some now, ur_ExpiresAt = None, ur_CreatedAt = now, ur_UpdatedAt = now, ur_DeletedAt = None\<rparr>"

text \<open>The identifier and the timestamps are left zero here: gorm and the database fill them in on the insert.\<close>

definition new_attribute :: "uuid \<Rightarrow> string \<Rightarrow> string \<Rightarrow> user_attribute" where
  "new_attribute userID name val = \<lparr>ua_ID = uuid_Nil, ua_UserID = userID, ua_Name = name, ua_Value = val,
     ua_Type = ''string'', ua_Source = '''', ua_ExpiresAt = None, ua_CreatedAt = 0, ua_UpdatedAt = 0, ua_DeletedAt = None\<rparr>"

definition default_attributes :: "uuid \<Rightarrow> user_attribute list" where
  "default_attributes userID =
     [new_attribute userID ''account_type'' ''standard'', new_attribute userID ''clearance_level'' ''basic'']"

text \<open>The loop over the default attributes; \<open>Inl\<close> is the first error with the transaction as it then is.\<close>

primrec create_attributes :: "('d, 't) reg_db \<Rightarrow> user_attribute list \<Rightarrow> 't \<Rightarrow> (gorm_error \<times> 't) + 't" where
  "create_attributes K [] t = Inr t"
| "create_attributes K (attr # attrs) t =
     (case rdb_create_attribute K attr t of
        (Some err, t') \<Rightarrow> Inl (err, t')
      | (None, t') \<Rightarrow> create_attributes K attrs t')"

text \<open>The body of the transaction after \<open>Begin\<close>: the error that makes the caller roll back, or the transaction.\<close>

definition register_tx ::
  "('d, 't) reg_db \<Rightarrow> instant \<Rightarrow> user \<Rightarrow> 't \<Rightarrow> (register_error \<times> 't) + 't" where
  "register_tx K now user t =
     (case rdb_create_user K user t of
        (Some err, t1) \<Rightarrow> Inl (RegDb err, t1)
      | (None, t1) \<Rightarrow>
          (case rdb_first_role K ''user'' t1 of
             Inl err \<Rightarrow> Inl (if err = ErrRecordNotFound then NoDefaultRole else RegDb err, t1)
           | Inr userRole \<Rightarrow>
               (case rdb_create_user_role K (role_assignment now (u_ID user) (r_ID userRole)) t1 of
                  (Some err, t2) \<Rightarrow> Inl (RegDb err, t2)
                | (None, t2) \<Rightarrow>
                    (case create_attributes K (default_attributes (u_ID user)) t2 of
                       Inl (err, t3) \<Rightarrow> Inl (RegDb err, t3)
                     | Inr t3 \<Rightarrow> Inr t3))))"

definition RegisterUser ::
  "('d, 't) reg_db \<Rightarrow> (string \<Rightarrow> string + string) \<Rightarrow> (nat \<Rightarrow> instant) \<Rightarrow> uuid \<Rightarrow> reg_request \<Rightarrow> 'd \<Rightarrow>
   (register_error + user) \<times> 'd" where
  "RegisterUser K hash tm new_id req d =
     (case rdb_by_email K (rg_Email req) d of
        Inr _ \<Rightarrow> (Inl EmailExists, d)
      | Inl err \<Rightarrow>
          if err \<noteq> ErrRecordNotFound then (Inl (RegDb err), d)
          else
            (case rdb_by_username K (rg_Username req) d of
               Inr _ \<Rightarrow> (Inl UsernameExists, d)
             | Inl err \<Rightarrow>
                 if err \<noteq> ErrRecordNotFound then (Inl (RegDb err), d)
                 else
                   (case hash (rg_Password req) of
                      Inl e \<Rightarrow> (Inl (HashFailed e), d)
                    | Inr hashed \<Rightarrow>
                        let user = new_user tm new_id hashed req
                        in case rdb_begin K d of
                             Inl err \<Rightarrow> (Inl (RegDb err), d)
                           | Inr t \<Rightarrow>
                               (case register_tx K (tm 2) user t of
                                  Inl (e, t') \<Rightarrow> (Inl e, rdb_rollback K t')
                                | Inr t' \<Rightarrow>
                                    (case rdb_commit K t' of
                                       (Some err, d') \<Rightarrow> (Inl (RegDb err), d')
                                     | (None, d') \<Rightarrow>
                                         (case rdb_reload K (u_ID user) d' of
                                            Inl err \<Rightarrow> (Inl (RegDb err), d')
                                          | Inr user' \<Rightarrow> (Inr user', d')))))))"

section \<open>The handler\<close>

definition username_char :: "char \<Rightarrow> bool" where
  "username_char c = (let n = (of_char c :: nat) in
     (97 \<le> n \<and> n \<le> 122) \<or> (65 \<le> n \<and> n \<le> 90) \<or> (48 \<le> n \<and> n \<le> 57) \<or> n = 95)"

definition upper_letter :: "char \<Rightarrow> bool" where
  "upper_letter c = (let n = (of_char c :: nat) in 65 \<le> n \<and> n \<le> 90)"

definition lower_letter :: "char \<Rightarrow> bool" where
  "lower_letter c = (let n = (of_char c :: nat) in 97 \<le> n \<and> n \<le> 122)"

definition special_char :: "char \<Rightarrow> bool" where
  "special_char c \<longleftrightarrow> c \<in> set ''!@#$%^&*()_+-=[]{}|;:,.<>?''"

fun join :: "string \<Rightarrow> string list \<Rightarrow> string" where
  "join sep [] = ''''"
| "join sep [x] = x"
| "join sep (x # y # xs) = x @ sep @ join sep (y # xs)"

definition missing_kinds :: "string \<Rightarrow> string list" where
  "missing_kinds password =
     (if list_ex upper_letter password then [] else [''uppercase letter'']) @
     (if list_ex lower_letter password then [] else [''lowercase letter'']) @
     (if list_ex is_digit password then [] else [''number'']) @
     (if list_ex special_char password then [] else [''special character''])"

text \<open>\<open>None\<close> is success; \<open>Some\<close> carries the message of the error.\<close>

definition validatePassword :: "string \<Rightarrow> string option" where
  "validatePassword password =
     (if length password < 8 then Some ''password must be at least 8 characters long''
      else if missing_kinds password \<noteq> []
        then Some (''password must contain at least one '' @ join '', '' (missing_kinds password))
      else None)"

definition validateRegistrationRequest :: "reg_request \<Rightarrow> string + reg_request" where
  "validateRegistrationRequest req =
     (let req1 = req\<lparr>rg_Username := TrimSpace (rg_Username req)\<rparr>
      in if length (rg_Username req1) < 3 then Inl ''username must be at least 3 characters long''
         else if \<not> list_all username_char (rg_Username req1)
           then Inl ''username can only contain letters, numbers, and underscores''
         else let req2 = req1\<lparr>rg_FirstName := TrimSpace (rg_FirstName req1), rg_LastName := TrimSpace (rg_LastName req1)\<rparr>
         in if rg_FirstName req2 = '''' then Inl ''first name is required''
            else if rg_LastName req2 = '''' then Inl ''last name is required''
            else case validatePassword (rg_Password req2) of
                   Some err \<Rightarrow> Inl err
                 | None \<Rightarrow> Inr (req2\<lparr>rg_Department := TrimSpace (rg_Department req2), rg_Position := TrimSpace (rg_Position req2)\<rparr>))"

record registration_detail =
  rd_ID :: string
  rd_Username :: string
  rd_Email :: string
  rd_FirstName :: string
  rd_LastName :: string
  rd_Department :: string
  rd_Position :: string
  rd_IsActive :: bool
  rd_Role :: string

definition registration_detail_of :: "uuid_lib \<Rightarrow> user \<Rightarrow> registration_detail" where
  "registration_detail_of U u = \<lparr>rd_ID = uuid_String U (u_ID u), rd_Username = u_Username u, rd_Email = u_Email u,
     rd_FirstName = u_FirstName u, rd_LastName = u_LastName u, rd_Department = u_Department u,
     rd_Position = u_Position u, rd_IsActive = u_IsActive u, rd_Role = ''user''\<rparr>"

text \<open>The text of an error (\<open>err.Error()\<close>); \<open>show_err\<close> is that of a database error.\<close>

fun error_text :: "(gorm_error \<Rightarrow> string) \<Rightarrow> register_error \<Rightarrow> string" where
  "error_text show_err EmailExists = ''email already exists''"
| "error_text show_err UsernameExists = ''username already exists''"
| "error_text show_err (HashFailed s) = s"
| "error_text show_err NoDefaultRole = ''default user role not found - please contact administrator''"
| "error_text show_err (RegDb e) = show_err e"

text \<open>The status and the \<open>details\<close> of the response to an error.\<close>

definition registration_failed :: "string \<Rightarrow> registration_detail response" where
  "registration_failed err =
     (if str_contains err ''email already exists'' then RespondError 409 ''An account with this email already exists''
      else if str_contains err ''username already exists'' then RespondError 409 ''This username is already taken''
      else if str_contains err ''default user role not found''
        then RespondError 500 ''System configuration error. Please contact administrator.''
      else RespondError 500 ''An unexpected error occurred. Please try again later.'')"

definition rh_Registration ::
  "('d, 't) reg_db \<Rightarrow> uuid_lib \<Rightarrow> (gorm_error \<Rightarrow> string) \<Rightarrow> (string \<Rightarrow> string + string) \<Rightarrow> (nat \<Rightarrow> instant) \<Rightarrow> uuid \<Rightarrow>
   (string + reg_request) \<Rightarrow> 'd \<Rightarrow> registration_detail response \<times> 'd" where
  "rh_Registration K U show_err hash tm new_id body d =
     (case body of
        Inl _ \<Rightarrow> (RespondError 400 ''Invalid request data'', d)
      | Inr req0 \<Rightarrow>
          (case validateRegistrationRequest req0 of
             Inl _ \<Rightarrow> (RespondError 400 ''Validation failed'', d)
           | Inr req \<Rightarrow>
               (case RegisterUser K hash tm new_id req d of
                  (Inl err, d') \<Rightarrow> (registration_failed (error_text show_err err), d')
                | (Inr user, d') \<Rightarrow> (Respond 201 (registration_detail_of U user), d'))))"

section \<open>Transactions\<close>

record reg_tables =
  rt_users :: "user list"
  rt_roles :: "role list"
  rt_user_roles :: "user_role list"
  rt_attributes :: "user_attribute list"

text \<open>
  \<open>V d\<close> are the committed tables; \<open>W t\<close> are the tables a transaction started from and those it sees. An
  insert that succeeds appends a row to what the transaction sees; \<open>Rollback\<close> and a failed \<open>Commit\<close>
  leave the tables it started from, \<open>Commit\<close> publishes those it sees. A user and a role assignment are inserted with
  all their fields set; an attribute gets its identifier from the column's default, one that is not in use,
  and its timestamps from gorm.
\<close>

definition inserts :: "('t \<Rightarrow> reg_tables \<times> reg_tables) \<Rightarrow> gorm_error option \<times> 't \<Rightarrow> 't \<Rightarrow> (reg_tables \<Rightarrow> reg_tables) \<Rightarrow> bool" where
  "inserts W r t f \<longleftrightarrow> fst (W (snd r)) = fst (W t) \<and> (fst r = None \<longrightarrow> snd (W (snd r)) = f (snd (W t)))"

definition stored_as :: "user_attribute \<Rightarrow> user_attribute \<Rightarrow> bool" where
  "stored_as a b \<longleftrightarrow> b = a\<lparr>ua_ID := ua_ID b, ua_CreatedAt := ua_CreatedAt b, ua_UpdatedAt := ua_UpdatedAt b\<rparr>"

definition inserts_attribute :: "('t \<Rightarrow> reg_tables \<times> reg_tables) \<Rightarrow> gorm_error option \<times> 't \<Rightarrow> 't \<Rightarrow> user_attribute \<Rightarrow> bool" where
  "inserts_attribute W r t a \<longleftrightarrow> fst (W (snd r)) = fst (W t) \<and>
     (fst r = None \<longrightarrow> (\<exists>b. stored_as a b \<and> ua_ID b \<notin> ua_ID ` set (rt_attributes (snd (W t))) \<and>
        snd (W (snd r)) = (snd (W t))\<lparr>rt_attributes := rt_attributes (snd (W t)) @ [b]\<rparr>))"

definition tx_lawful :: "('d, 't) reg_db \<Rightarrow> ('d \<Rightarrow> reg_tables) \<Rightarrow> ('t \<Rightarrow> reg_tables \<times> reg_tables) \<Rightarrow> bool" where
  "tx_lawful K V W \<longleftrightarrow>
     (\<forall>d t. rdb_begin K d = Inr t \<longrightarrow> W t = (V d, V d)) \<and>
     (\<forall>u t. inserts W (rdb_create_user K u t) t (\<lambda>T. T\<lparr>rt_users := rt_users T @ [u]\<rparr>)) \<and>
     (\<forall>r t. inserts W (rdb_create_user_role K r t) t (\<lambda>T. T\<lparr>rt_user_roles := rt_user_roles T @ [r]\<rparr>)) \<and>
     (\<forall>a t. inserts_attribute W (rdb_create_attribute K a t) t a) \<and>
     (\<forall>n t. rdb_first_role K n t = first_row (find (\<lambda>r. r_Name r = n) (rt_roles (snd (W t))))) \<and>
     (\<forall>t. V (rdb_rollback K t) = fst (W t)) \<and>
     (\<forall>t. V (snd (rdb_commit K t)) = (if fst (rdb_commit K t) = None then snd (W t) else fst (W t)))"

lemma tx_lawfulD:
  assumes "tx_lawful K V W"
  shows "rdb_begin K d = Inr t \<Longrightarrow> W t = (V d, V d)"
    and "inserts W (rdb_create_user K u t) t (\<lambda>T. T\<lparr>rt_users := rt_users T @ [u]\<rparr>)"
    and "inserts W (rdb_create_user_role K r t) t (\<lambda>T. T\<lparr>rt_user_roles := rt_user_roles T @ [r]\<rparr>)"
    and "inserts_attribute W (rdb_create_attribute K a t) t a"
    and "rdb_first_role K n t = first_row (find (\<lambda>r. r_Name r = n) (rt_roles (snd (W t))))"
    and "V (rdb_rollback K t) = fst (W t)"
    and "V (snd (rdb_commit K t)) = (if fst (rdb_commit K t) = None then snd (W t) else fst (W t))"
  using assms unfolding tx_lawful_def by blast+

text \<open>The rows \<open>bs\<close> the inserts of \<open>attrs\<close> add to \<open>old\<close>, and the tables after a registration.\<close>

fun stored_rows :: "user_attribute list \<Rightarrow> user_attribute list \<Rightarrow> user_attribute list \<Rightarrow> bool" where
  "stored_rows old [] bs \<longleftrightarrow> bs = []"
| "stored_rows old (a # attrs) (b # bs) \<longleftrightarrow> stored_as a b \<and> ua_ID b \<notin> ua_ID ` set old \<and> stored_rows (old @ [b]) attrs bs"
| "stored_rows old (a # attrs) [] \<longleftrightarrow> False"

definition registered :: "user \<Rightarrow> role \<Rightarrow> instant \<Rightarrow> reg_tables \<Rightarrow> reg_tables \<Rightarrow> bool" where
  "registered u r now T T' \<longleftrightarrow> (\<exists>bs. stored_rows (rt_attributes T) (default_attributes (u_ID u)) bs \<and>
     T' = T\<lparr>rt_users := rt_users T @ [u],
       rt_user_roles := rt_user_roles T @ [role_assignment now (u_ID u) (r_ID r)],
       rt_attributes := rt_attributes T @ bs\<rparr>)"

lemma registered_users: "registered u r now T T' \<Longrightarrow> rt_users T' = rt_users T @ [u]"
  by (auto simp: registered_def)

lemma create_attributes_tx:
  assumes "tx_lawful K V W"
  shows "case create_attributes K attrs t of
      Inl (err, t') \<Rightarrow> fst (W t') = fst (W t)
    | Inr t' \<Rightarrow> fst (W t') = fst (W t) \<and> (\<exists>bs. stored_rows (rt_attributes (snd (W t))) attrs bs \<and>
        snd (W t') = (snd (W t))\<lparr>rt_attributes := rt_attributes (snd (W t)) @ bs\<rparr>)"
proof (induction attrs arbitrary: t)
  case (Cons a attrs)
  obtain e t1 where c: "rdb_create_attribute K a t = (e, t1)" by fastforce
  have i: "fst (W t1) = fst (W t)" "e = None \<Longrightarrow> \<exists>b. stored_as a b \<and> ua_ID b \<notin> ua_ID ` set (rt_attributes (snd (W t))) \<and>
      snd (W t1) = (snd (W t))\<lparr>rt_attributes := rt_attributes (snd (W t)) @ [b]\<rparr>"
    using tx_lawfulD(4) [OF assms, of a t] by (simp_all add: inserts_attribute_def c)
  show ?case
  proof (cases e)
    case (Some err)
    then show ?thesis using i(1) by (simp add: c)
  next
    case None
    then obtain b where b: "stored_as a b" "ua_ID b \<notin> ua_ID ` set (rt_attributes (snd (W t)))"
      "snd (W t1) = (snd (W t))\<lparr>rt_attributes := rt_attributes (snd (W t)) @ [b]\<rparr>" using i(2) by blast
    show ?thesis
    proof (cases "create_attributes K attrs t1")
      case (Inl x)
      then show ?thesis using Cons.IH [of t1] i(1) None by (cases x) (simp add: c)
    next
      case (Inr t2)
      then obtain bs where "fst (W t2) = fst (W t1)" "stored_rows (rt_attributes (snd (W t1))) attrs bs"
        "snd (W t2) = (snd (W t1))\<lparr>rt_attributes := rt_attributes (snd (W t1)) @ bs\<rparr>" using Cons.IH [of t1] by auto
      then show ?thesis using Inr i(1) b None by (simp add: c) (intro exI [of _ "b # bs"], simp)
    qed
  qed
qed simp

lemma register_tx_cases:
  assumes "tx_lawful K V W" and "W t = (T, T)"
  shows "case register_tx K now u t of
      Inl (e, t') \<Rightarrow> fst (W t') = T
    | Inr t' \<Rightarrow> \<exists>r. find (\<lambda>r. r_Name r = ''user'') (rt_roles T) = Some r \<and> fst (W t') = T \<and> registered u r now T (snd (W t'))"
proof -
  obtain e1 t1 where 1: "rdb_create_user K u t = (e1, t1)" by fastforce
  have w1: "fst (W t1) = T" "e1 = None \<Longrightarrow> snd (W t1) = T\<lparr>rt_users := rt_users T @ [u]\<rparr>"
    using tx_lawfulD(2) [OF assms(1), of u t] assms(2) by (simp_all add: inserts_def 1)
  show ?thesis
  proof (cases "e1 = None \<and> (\<exists>r. find (\<lambda>r. r_Name r = ''user'') (rt_roles T) = Some r)")
    case False
    then show ?thesis using w1
      by (auto simp: register_tx_def 1 tx_lawfulD(5) [OF assms(1)] first_row_def split: option.splits)
  next
    case True
    then obtain r where r: "find (\<lambda>r. r_Name r = ''user'') (rt_roles T) = Some r" "e1 = None" by blast
    have first: "rdb_first_role K ''user'' t1 = Inr r" using w1(2) [OF r(2)] r(1)
      by (simp add: tx_lawfulD(5) [OF assms(1)] first_row_def)
    obtain e2 t2 where 2: "rdb_create_user_role K (role_assignment now (u_ID u) (r_ID r)) t1 = (e2, t2)" by fastforce
    have w2: "fst (W t2) = T" "e2 = None \<Longrightarrow> snd (W t2) = (snd (W t1))\<lparr>rt_user_roles := rt_user_roles (snd (W t1)) @
        [role_assignment now (u_ID u) (r_ID r)]\<rparr>"
      using tx_lawfulD(3) [OF assms(1), of "role_assignment now (u_ID u) (r_ID r)" t1] w1(1) by (simp_all add: inserts_def 2)
    show ?thesis
    proof (cases e2)
      case (Some e)
      then show ?thesis using r 1 first 2 w2(1) by (simp add: register_tx_def)
    next
      case None
      then show ?thesis
        using create_attributes_tx [OF assms(1), where attrs = "default_attributes (u_ID u)" and t = t2] r 1 first 2 w1(2) w2
        by (auto simp: register_tx_def registered_def split: sum.splits)
    qed
  qed
qed

lemma registration_is_atomic_lemma:
  assumes "tx_lawful K V W"
  shows "case RegisterUser K hash tm i req d of (res, d') \<Rightarrow>
    (V d' = V d \<and> (\<exists>e. res = Inl e)) \<or>
    (\<exists>h r. hash (rg_Password req) = Inr h \<and> find (\<lambda>r. r_Name r = ''user'') (rt_roles (V d)) = Some r \<and>
       registered (new_user tm i h req) r (tm 2) (V d) (V d') \<and>
       res = (case rdb_reload K i d' of Inl err \<Rightarrow> Inl (RegDb err) | Inr u \<Rightarrow> Inr u))"
proof (cases "(\<exists>h t. rdb_by_email K (rg_Email req) d = Inl ErrRecordNotFound \<and>
    rdb_by_username K (rg_Username req) d = Inl ErrRecordNotFound \<and> hash (rg_Password req) = Inr h \<and> rdb_begin K d = Inr t)")
  case False
  then have "snd (RegisterUser K hash tm i req d) = d \<and> (\<exists>e. fst (RegisterUser K hash tm i req d) = Inl e)"
    by (auto simp: RegisterUser_def Let_def split: sum.splits)
  then show ?thesis by (auto split: prod.splits)
next
  case True
  then obtain h t where p: "rdb_by_email K (rg_Email req) d = Inl ErrRecordNotFound"
    "rdb_by_username K (rg_Username req) d = Inl ErrRecordNotFound" "hash (rg_Password req) = Inr h" "rdb_begin K d = Inr t"
    by blast
  let ?u = "new_user tm i h req"
  have id: "u_ID ?u = i" by (simp add: new_user_def)
  note tx = register_tx_cases [OF assms tx_lawfulD(1) [OF assms p(4)], where now = "tm 2" and u = ?u]
  show ?thesis
  proof (cases "register_tx K (tm 2) ?u t")
    case (Inl x)
    then show ?thesis using tx by (cases x) (simp add: RegisterUser_def p tx_lawfulD(6) [OF assms])
  next
    case (Inr t')
    obtain e d' where c: "rdb_commit K t' = (e, d')" by fastforce
    have v: "V d' = (if e = None then snd (W t') else fst (W t'))" using tx_lawfulD(7) [OF assms, of t'] by (simp add: c)
    obtain r where "find (\<lambda>r. r_Name r = ''user'') (rt_roles (V d)) = Some r" "fst (W t') = V d" "registered ?u r (tm 2) (V d) (snd (W t'))"
      using tx Inr by auto
    then show ?thesis using v by (cases e) (auto simp: RegisterUser_def p Inr c id split: sum.splits)
  qed
qed

text \<open>
  C10: Registration is atomic. \<open>RegisterUser\<close> leaves the tables as they were and returns an error, or it
  adds the user, one assignment of the role \<open>user\<close> and the two default attributes together, each attribute
  under a new identifier and with the timestamps the insert gives it; then it returns an error only if
  reading the new user back failed.
\<close>

theorem registration_is_atomic:
  assumes "tx_lawful K V W"
  shows "case RegisterUser K hash tm i req d of (res, d') \<Rightarrow>
    (V d' = V d \<and> (\<exists>e. res = Inl e)) \<or>
    (\<exists>h r. hash (rg_Password req) = Inr h \<and> find (\<lambda>r. r_Name r = ''user'') (rt_roles (V d)) = Some r \<and>
       registered (new_user tm i h req) r (tm 2) (V d) (V d') \<and>
       res = (case rdb_reload K i d' of Inl err \<Rightarrow> Inl (RegDb err) | Inr u \<Rightarrow> Inr u))"
  using assms by (rule registration_is_atomic_lemma)

section \<open>A concrete database\<close>

definition mem_reg_db :: "(reg_tables, reg_tables \<times> reg_tables) reg_db" where
  "mem_reg_db = \<lparr>
     rdb_by_email = (\<lambda>e T. first_row (find (\<lambda>u. u_Email u = e \<and> u_DeletedAt u = None) (rt_users T))),
     rdb_by_username = (\<lambda>n T. first_row (find (\<lambda>u. u_Username u = n \<and> u_DeletedAt u = None) (rt_users T))),
     rdb_begin = (\<lambda>T. Inr (T, T)),
     rdb_create_user = (\<lambda>u (B, T). (None, B, T\<lparr>rt_users := rt_users T @ [u]\<rparr>)),
     rdb_first_role = (\<lambda>n (B, T). first_row (find (\<lambda>r. r_Name r = n) (rt_roles T))),
     rdb_create_user_role = (\<lambda>r (B, T). (None, B, T\<lparr>rt_user_roles := rt_user_roles T @ [r]\<rparr>)),
     rdb_create_attribute = (\<lambda>a (B, T). let b = a\<lparr>ua_ID := of_nat (length (rt_attributes T) + 1), ua_CreatedAt := 1, ua_UpdatedAt := 1\<rparr>
        in if ua_ID b \<in> ua_ID ` set (rt_attributes T) then (Some (DbError ''duplicate key''), B, T)
           else (None, B, T\<lparr>rt_attributes := rt_attributes T @ [b]\<rparr>)),
     rdb_rollback = fst, rdb_commit = (\<lambda>(B, T). (None, T)),
     rdb_reload = (\<lambda>i T. first_row (find (\<lambda>u. u_ID u = i) (rt_users T)))\<rparr>"

text \<open>The tables after the registration of a user 4 at time 1.\<close>

definition ex_registered_tables :: "user \<Rightarrow> reg_tables" where
  "ex_registered_tables u = \<lparr>rt_users = [u], rt_roles = [ex_role 1 ''user''], rt_user_roles = [role_assignment 1 4 1],
     rt_attributes = [(new_attribute 4 ''account_type'' ''standard'')\<lparr>ua_ID := 1, ua_CreatedAt := 1, ua_UpdatedAt := 1\<rparr>,
       (new_attribute 4 ''clearance_level'' ''basic'')\<lparr>ua_ID := 2, ua_CreatedAt := 1, ua_UpdatedAt := 1\<rparr>]\<rparr>"

lemma mem_tx_lawful: "tx_lawful mem_reg_db (\<lambda>T. T) (\<lambda>t. t)"
proof -
  have "inserts_attribute (\<lambda>t. t) (rdb_create_attribute mem_reg_db a (B, T)) (B, T) a" for a B T
    unfolding inserts_attribute_def
    by (auto simp: mem_reg_db_def stored_as_def Let_def
        intro!: exI [of _ "a\<lparr>ua_ID := of_nat (length (rt_attributes T) + 1), ua_CreatedAt := 1, ua_UpdatedAt := 1\<rparr>"])
  then show ?thesis
    by (auto simp: tx_lawful_def) (auto simp: inserts_def mem_reg_db_def split: prod.splits)
qed

definition ex_reg_request :: "string \<Rightarrow> reg_request" where
  "ex_reg_request email = \<lparr>rg_Username = '' bob_1'', rg_Email = email, rg_Password = ''Passw0rd!'', rg_FirstName = ''Bob'',
     rg_LastName = ''Ray'', rg_Department = '''', rg_Position = ''''\<rparr>"

definition ex_reg_tables :: "role list \<Rightarrow> reg_tables" where
  "ex_reg_tables rs = \<lparr>rt_users = [], rt_roles = rs, rt_user_roles = [], rt_attributes = []\<rparr>"

theorem registration_is_atomic_witness:
  "snd (RegisterUser mem_reg_db Inr (\<lambda>_. 1) 4 (ex_reg_request ''b@x.org'') (ex_reg_tables [])) = ex_reg_tables []"
  using registration_is_atomic [OF mem_tx_lawful, where hash = Inr and tm = "\<lambda>_. 1" and i = 4
      and req = "ex_reg_request ''b@x.org''" and d = "ex_reg_tables []"]
  by (simp add: ex_reg_tables_def split: prod.splits)

lemma ex_register_user:
  "RegisterUser mem_reg_db Inr (\<lambda>_. 1) 4 ((ex_reg_request email)\<lparr>rg_Username := ''bob_1''\<rparr>) (ex_reg_tables [ex_role 1 ''user'']) =
    (Inr (new_user (\<lambda>_. 1) 4 ''Passw0rd!'' ((ex_reg_request email)\<lparr>rg_Username := ''bob_1''\<rparr>)),
     ex_registered_tables (new_user (\<lambda>_. 1) 4 ''Passw0rd!'' ((ex_reg_request email)\<lparr>rg_Username := ''bob_1''\<rparr>)))"
  by (simp add: RegisterUser_def mem_reg_db_def ex_reg_tables_def first_row_def ex_reg_request_def register_tx_def
      ex_role_def ex_registered_tables_def default_attributes_def new_user_def Let_def)

section \<open>What a successful registration means\<close>

lemma validate_ok:
  assumes "validateRegistrationRequest req0 = Inr req"
  shows "rg_Username req = TrimSpace (rg_Username req0)" "3 \<le> length (rg_Username req)"
    "list_all username_char (rg_Username req)" "rg_FirstName req \<noteq> ''''" "rg_LastName req \<noteq> ''''"
    "validatePassword (rg_Password req0) = None" "rg_Email req = rg_Email req0" "rg_Password req = rg_Password req0"
  using assms by (auto simp: validateRegistrationRequest_def Let_def split: if_splits option.splits)

lemma password_ok:
  "validatePassword p = None \<longleftrightarrow> 8 \<le> length p \<and> list_ex upper_letter p \<and> list_ex lower_letter p \<and>
     list_ex is_digit p \<and> list_ex special_char p"
  by (auto simp: validatePassword_def missing_kinds_def)

lemma registered_response:
  assumes "rh_Registration K U show_err hash tm i (Inr req0) d = (Respond 201 r, d')"
  obtains req u where "validateRegistrationRequest req0 = Inr req" "RegisterUser K hash tm i req d = (Inr u, d')"
    "r = registration_detail_of U u"
  using assms by (auto simp: rh_Registration_def registration_failed_def split: sum.splits prod.splits if_splits)

text \<open>Reading a row back gives the row, with its roles filled in.\<close>

definition reload_lawful :: "('d, 't) reg_db \<Rightarrow> ('d \<Rightarrow> reg_tables) \<Rightarrow> bool" where
  "reload_lawful K V \<longleftrightarrow> (\<forall>i d u. rdb_reload K i d = Inr u \<longrightarrow>
     (\<exists>x. find (\<lambda>x. u_ID x = i) (rt_users (V d)) = Some x \<and> u\<lparr>u_Roles := []\<rparr> = x\<lparr>u_Roles := []\<rparr>))"

lemma find_append_new: "i \<notin> u_ID ` set us \<Longrightarrow> u_ID x = i \<Longrightarrow> find (\<lambda>x. u_ID x = i) (us @ [x]) = Some x"
  by (induction us) auto

text \<open>
  When registration answers 201, the request was valid (a trimmed user name of at least three letters,
  digits or underscores, names that are not blank, a password of eight characters of the four
  kinds), exactly one active user with the data of the request was added, whose password is the
  hash, together with the role \<open>user\<close>, and the response shows that user.
\<close>

theorem registration_creates_valid_user:
  assumes "tx_lawful K V W" and "reload_lawful K V" and "i \<notin> u_ID ` set (rt_users (V d))"
    and "rh_Registration K U show_err hash tm i (Inr req0) d = (Respond 201 r, d')"
  shows "\<exists>req h role. validateRegistrationRequest req0 = Inr req \<and>
    3 \<le> length (rg_Username req) \<and> list_all username_char (rg_Username req) \<and>
    rg_FirstName req \<noteq> '''' \<and> rg_LastName req \<noteq> '''' \<and>
    8 \<le> length (rg_Password req) \<and> list_ex upper_letter (rg_Password req) \<and> list_ex lower_letter (rg_Password req) \<and>
    list_ex is_digit (rg_Password req) \<and> list_ex special_char (rg_Password req) \<and>
    hash (rg_Password req) = Inr h \<and> r_Name role = ''user'' \<and> role \<in> set (rt_roles (V d)) \<and>
    registered (new_user tm i h req) role (tm 2) (V d) (V d') \<and>
    r = registration_detail_of U (new_user tm i h req)"
proof -
  obtain req u where v: "validateRegistrationRequest req0 = Inr req" "RegisterUser K hash tm i req d = (Inr u, d')"
    "r = registration_detail_of U u"
    by (rule registered_response [OF assms(4)])
  obtain h role where a: "hash (rg_Password req) = Inr h" "find (\<lambda>r. r_Name r = ''user'') (rt_roles (V d)) = Some role"
    "registered (new_user tm i h req) role (tm 2) (V d) (V d')" "rdb_reload K i d' = Inr u"
    using registration_is_atomic_lemma [OF assms(1), where hash = hash and tm = tm and i = i and req = req and d = d] v(2) by (auto split: sum.splits)
  have "find (\<lambda>x. u_ID x = i) (rt_users (V d')) = Some (new_user tm i h req)"
    using find_append_new [OF assms(3), of "new_user tm i h req"] registered_users [OF a(3)] by (simp add: new_user_def)
  then have "u\<lparr>u_Roles := []\<rparr> = new_user tm i h req"
    using assms(2) a(4) unfolding reload_lawful_def by (fastforce simp: new_user_def)
  moreover have "registration_detail_of U u = registration_detail_of U (u\<lparr>u_Roles := []\<rparr>)"
    by (simp add: registration_detail_of_def)
  ultimately have "r = registration_detail_of U (new_user tm i h req)" using v(3) by simp
  then show ?thesis using v(1) a(1,3) find_SomeD [OF a(2)] validate_ok [OF v(1)] password_ok [of "rg_Password req0"] by auto
qed

theorem registration_creates_valid_user_witness:
  "\<exists>r T. rh_Registration mem_reg_db mem_uuid (\<lambda>_. []) Inr (\<lambda>_. 1) 4 (Inr (ex_reg_request ''b@x.org'')) (ex_reg_tables [ex_role 1 ''user'']) =
     (Respond 201 r, T) \<and> rd_Username r = ''bob_1'' \<and> length (rt_users T) = 1"
proof -
  let ?T = "ex_reg_tables [ex_role 1 ''user'']"
  let ?req = "(ex_reg_request ''b@x.org'')\<lparr>rg_Username := ''bob_1''\<rparr>"
  have v: "validateRegistrationRequest (ex_reg_request ''b@x.org'') = Inr ?req" by code_simp
  have "RegisterUser mem_reg_db Inr (\<lambda>_. 1) 4 ?req ?T =
      (Inr (new_user (\<lambda>_. 1) 4 ''Passw0rd!'' ?req), ex_registered_tables (new_user (\<lambda>_. 1) 4 ''Passw0rd!'' ?req))"
    by (simp add: ex_register_user)
  then obtain r T where r: "rh_Registration mem_reg_db mem_uuid (\<lambda>_. []) Inr (\<lambda>_. 1) 4 (Inr (ex_reg_request ''b@x.org'')) ?T = (Respond 201 r, T)"
    by (simp add: rh_Registration_def v)
  have "reload_lawful mem_reg_db (\<lambda>T. T)"
    by (auto simp: reload_lawful_def mem_reg_db_def first_row_def split: option.splits)
  moreover have "4 \<notin> u_ID ` set (rt_users ?T)" by (simp add: ex_reg_tables_def)
  ultimately have "rd_Username r = ''bob_1'' \<and> length (rt_users T) = 1"
    using registration_creates_valid_user [OF mem_tx_lawful _ _ r] v
    by (auto simp: registration_detail_of_def new_user_def ex_reg_tables_def dest!: registered_users)
  then show ?thesis using r by blast
qed

section \<open>Registering and logging in\<close>

text \<open>
  An account registered under an email with a capital letter cannot log in. Registration stores
  the email as it was sent, login looks for the lower-case one, and the comparison of the database
  distinguishes them: whatever spelling and password is presented, the answer is 401.
\<close>

theorem mixed_case_account_cannot_log_in:
  assumes "tx_lawful K V W" and "login_reads A (\<lambda>d. rt_users (V d))"
    and "rh_Registration K U show_err hash tm i (Inr req) d = (Respond 201 r, d')"
    and "ToLower (rg_Email req) \<noteq> rg_Email req"
    and "\<And>u. u \<in> set (rt_users (V d)) \<Longrightarrow> u_Email u \<noteq> ToLower (rg_Email req)"
    and "ToLower (TrimSpace (lq_Email login)) = ToLower (rg_Email req)"
  shows "lh_Token A save now stamp j i' (Inr login) d' = (RespondError 401 ''invalid_credentials'', d')"
proof -
  obtain req' u where v: "validateRegistrationRequest req = Inr req'" "RegisterUser K hash tm i req' d = (Inr u, d')"
    by (rule registered_response [OF assms(3)])
  obtain h role where a: "registered (new_user tm i h req') role (tm 2) (V d) (V d')"
    using registration_is_atomic_lemma [OF assms(1), where hash = hash and tm = tm and i = i and req = req' and d = d] v(2) by auto
  have "u_Email x \<noteq> ToLower (rg_Email req)" if "x \<in> set (rt_users (V d'))" for x
    using that assms(4,5) validate_ok(7) [OF v(1)] by (auto simp: registered_users [OF a] new_user_def)
  then have "active_user (rt_users (V d')) (ToLower (rg_Email req)) = None"
    by (auto simp: active_user_def find_None_iff)
  then show ?thesis
    by (simp add: lh_Token_def LoginUser_cases [OF assms(2)] assms(6))
qed

definition mem_reg_login_env :: "reg_tables auth_env" where
  "mem_reg_login_env = \<lparr>ae_jwt = mem_jwt, ae_uuid = mem_uuid, ae_db = \<lparr>
     tdb_login_user = (\<lambda>email d. first_row (map_option (\<lambda>u. u\<lparr>u_Roles := []\<rparr>)
       (find (\<lambda>u. u_Email u = email \<and> u_IsActive u \<and> u_DeletedAt u = None) (rt_users d)))),
     tdb_role_name = (\<lambda>_ _. Inr ''user''), tdb_permissions = (\<lambda>_ _. Inr []),
     tdb_first_token = (\<lambda>_ _ _ _. Inl ErrRecordNotFound), tdb_create_token = (\<lambda>_ d. (None, d)),
     tdb_delete_token = (\<lambda>_ d. (None, d)), tdb_delete_jti = (\<lambda>_ d. (None, d))\<rparr>,
     ae_compare = (=), ae_JWT_SECRET = ''s''\<rparr>"

lemma mem_reg_login_reads: "login_reads mem_reg_login_env (\<lambda>d. rt_users d)"
  by (simp add: login_reads_def mem_reg_login_env_def)

lemma ex_registered:
  "rh_Registration mem_reg_db mem_uuid (\<lambda>_. []) Inr (\<lambda>_. 1) 4 (Inr (ex_reg_request email)) (ex_reg_tables [ex_role 1 ''user'']) =
    (Respond 201 (registration_detail_of mem_uuid (new_user (\<lambda>_. 1) 4 ''Passw0rd!'' ((ex_reg_request email)\<lparr>rg_Username := ''bob_1''\<rparr>))),
     ex_registered_tables (new_user (\<lambda>_. 1) 4 ''Passw0rd!'' ((ex_reg_request email)\<lparr>rg_Username := ''bob_1''\<rparr>)))"
proof -
  have "TrimSpace '' bob_1'' = ''bob_1''" "TrimSpace ''Bob'' = ''Bob''" "TrimSpace ''Ray'' = ''Ray''" "TrimSpace '''' = ''''"
    "list_all username_char ''bob_1''" "validatePassword ''Passw0rd!'' = None" by code_simp+
  then have v: "validateRegistrationRequest (ex_reg_request email) = Inr ((ex_reg_request email)\<lparr>rg_Username := ''bob_1''\<rparr>)"
    by (simp add: validateRegistrationRequest_def ex_reg_request_def Let_def)
  let ?req = "(ex_reg_request email)\<lparr>rg_Username := ''bob_1''\<rparr>" and ?T = "ex_reg_tables [ex_role 1 ''user'']"
  have "RegisterUser mem_reg_db Inr (\<lambda>_. 1) 4 ?req ?T =
      (Inr (new_user (\<lambda>_. 1) 4 ''Passw0rd!'' ?req), ex_registered_tables (new_user (\<lambda>_. 1) 4 ''Passw0rd!'' ?req))"
    by (simp add: ex_register_user)
  then show ?thesis by (simp add: rh_Registration_def v)
qed

lemma ex_reg_simps [simp]:
  "rg_Email (ex_reg_request email) = email" "rg_Password (ex_reg_request email) = ''Passw0rd!''"
  "rt_users (ex_reg_tables rs) = []"
  by (simp_all add: ex_reg_request_def ex_reg_tables_def)

theorem mixed_case_account_cannot_log_in_witness:
  "\<exists>r T. rh_Registration mem_reg_db mem_uuid (\<lambda>_. []) Inr (\<lambda>_. 1) 4 (Inr (ex_reg_request ''Bob@x.org'')) (ex_reg_tables [ex_role 1 ''user'']) =
     (Respond 201 r, T) \<and>
     fst (lh_Token mem_reg_login_env (\<lambda>u d. (None, d)) 0 1 (Some 7) 8 (Inr \<lparr>lq_Email = ''Bob@x.org'', lq_Password = ''Passw0rd!''\<rparr>) T)
       = RespondError 401 ''invalid_credentials''"
proof -
  have e: "ToLower ''Bob@x.org'' = ''bob@x.org''" "ToLower (TrimSpace ''Bob@x.org'') = ''bob@x.org''" by code_simp+
  show ?thesis
    using mixed_case_account_cannot_log_in [OF mem_tx_lawful mem_reg_login_reads ex_registered [of "''Bob@x.org''"],
        where login = "\<lparr>lq_Email = ''Bob@x.org'', lq_Password = ''Passw0rd!''\<rparr>" and save = "\<lambda>u d. (None, d)" and now = 0
          and stamp = 1 and j = "Some 7" and i' = 8]
    by (simp add: ex_registered e)
qed

text \<open>
  C24: An account registered under a lower-case, trimmed email that no other row has can log in: right after the
  201, a login with the same email and password is answered with 200 and the tokens \<open>GenerateToken\<close> makes
  for the new user, and with 500 only if it makes none.
\<close>

theorem registered_account_can_log_in:
  assumes "tx_lawful K V W" and "login_reads A (\<lambda>d. rt_users (V d))"
    and "rh_Registration K U show_err hash tm i (Inr req) d = (Respond 201 r, d')"
    and "ToLower (TrimSpace (rg_Email req)) = rg_Email req"
    and "\<And>u. u \<in> set (rt_users (V d)) \<Longrightarrow> u_Email u \<noteq> rg_Email req"
    and "\<And>p h. hash p = Inr h \<Longrightarrow> ae_compare A h p"
  shows "case lh_Token A save now stamp j i' (Inr \<lparr>lq_Email = rg_Email req, lq_Password = rg_Password req\<rparr>) d' of (resp, d'') \<Rightarrow>
    (case GenerateToken A now j i' i d' of
       (Inl _, _) \<Rightarrow> resp_status resp = Some 500
     | (Inr (acc, new), _) \<Rightarrow> \<exists>rsp. resp = Respond 200 rsp \<and> lr_AccessToken rsp = acc \<and> lr_RefreshToken rsp = new)"
proof -
  obtain req' u where v: "validateRegistrationRequest req = Inr req'" "RegisterUser K hash tm i req' d = (Inr u, d')"
    by (rule registered_response [OF assms(3)])
  obtain h role where a: "hash (rg_Password req') = Inr h" "registered (new_user tm i h req') role (tm 2) (V d) (V d')"
    using registration_is_atomic_lemma [OF assms(1), where hash = hash and tm = tm and i = i and req = req' and d = d] v(2) by auto
  note e = validate_ok(7,8) [OF v(1)]
  have "find P (us @ [x]) = Some x" if "\<And>u. u \<in> set us \<Longrightarrow> \<not> P u" "P x" for P x and us :: "user list"
    using that by (induction us) auto
  then have "active_user (rt_users (V d')) (rg_Email req) = Some (new_user tm i h req')"
    using assms(5) by (simp add: active_user_def registered_users [OF a(2)] new_user_def e)
  moreover have "ae_compare A h (rg_Password req)" using assms(6) a(1) e(2) by simp
  ultimately show ?thesis
    by (auto simp: lh_Token_def LoginUser_cases [OF assms(2)] assms(4) Let_def new_user_def split: prod.splits sum.splits)
qed

theorem registered_account_can_log_in_witness:
  "\<exists>r T. rh_Registration mem_reg_db mem_uuid (\<lambda>_. []) Inr (\<lambda>_. 1) 4 (Inr (ex_reg_request ''bob@x.org'')) (ex_reg_tables [ex_role 1 ''user'']) =
     (Respond 201 r, T) \<and>
     resp_status (fst (lh_Token mem_reg_login_env (\<lambda>u d. (None, d)) 0 1 (Some 7) 8 (Inr \<lparr>lq_Email = ''bob@x.org'', lq_Password = ''Passw0rd!''\<rparr>) T))
       = Some 200"
proof -
  have e: "ToLower (TrimSpace ''bob@x.org'') = ''bob@x.org''" by code_simp
  let ?d' = "ex_registered_tables (new_user (\<lambda>_. 1) 4 ''Passw0rd!'' ((ex_reg_request ''bob@x.org'')\<lparr>rg_Username := ''bob_1''\<rparr>))"
  obtain x d1 where g: "GenerateToken mem_reg_login_env 0 (Some 7) 8 4 ?d' = (Inr x, d1)"
    by (simp add: GenerateToken_def mem_reg_login_env_def mem_jwt_def Let_def)
  have "ae_compare mem_reg_login_env h p" if "Inr p = Inr h" for p h
    using that by (simp add: mem_reg_login_env_def)
  then show ?thesis
    using registered_account_can_log_in [OF mem_tx_lawful mem_reg_login_reads ex_registered [of "''bob@x.org''"],
        where save = "\<lambda>u d. (None, d)" and now = 0 and stamp = 1 and j = "Some 7" and i' = 8] g
    by (cases x) (auto simp: ex_registered e split: prod.splits)
qed

end
