(* ===== verification/Worker.thy ===== *)
theory Worker
  imports JobCodec Transitions
begin

text \<open>
  The background worker (\<^verbatim>\<open>backend/internal/worker/worker.go\<close>): jobs on Redis lists, popped by any number of
  goroutines, executed by the handler registered for their type, retried or moved to the dead queue. Redis is
  the parameter \<open>R\<close>, the JSON encoding \<open>J\<close>; the state \<open>'r\<close> is that of Redis and of whatever the handlers act on.
  A handler gets a pointer to the job and may change it.
\<close>

section \<open>Data\<close>

abbreviation "JobTypeEmailNotification \<equiv> ''email_notification''"
abbreviation "JobTypeTaskReminder \<equiv> ''task_reminder''"
abbreviation "JobTypeDataExport \<equiv> ''data_export''"
abbreviation "JobTypeCleanup \<equiv> ''cleanup''"

record 'o queue_job =
  qj_ID :: string
  qj_Type :: string
  qj_Payload :: "'o payload"
  qj_Attempts :: int
  qj_MaxTries :: int
  qj_CreatedAt :: instant
  qj_ProcessAt :: instant

type_synonym ('o, 'r) job_handler = "'o queue_job \<Rightarrow> 'r \<Rightarrow> string option \<times> 'o queue_job \<times> 'r"

record ('o, 'r) worker =
  wk_handlers :: "string \<rightharpoonup> ('o, 'r) job_handler"
  wk_queues :: "string list"
  wk_cancelled :: bool

text \<open>The encoding of jobs and of the document of the dead queue: the job, the error and the instant.\<close>

record 'o worker_codec =
  wc_marshal :: "'o queue_job \<Rightarrow> string option"
  wc_unmarshal :: "string \<Rightarrow> 'o queue_job option"
  wc_marshal_dead :: "'o queue_job \<Rightarrow> string \<Rightarrow> instant \<Rightarrow> string option"

datatype worker_error =
    WE_pop redis_error
  | WE_invalid_result
  | WE_unmarshal
  | WE_no_handler string
  | WE_marshal
  | WE_redis redis_error

text \<open>A shift by a negative count panics, which ends the process.\<close>

datatype turn_result = WOk | WErr worker_error | WPanic

definition NewWorker :: "string list \<Rightarrow> ('o, 'r) worker" where
  "NewWorker queues = \<lparr>wk_handlers = Map.empty, wk_queues = queues, wk_cancelled = False\<rparr>"

definition RegisterHandler :: "string \<Rightarrow> ('o, 'r) job_handler \<Rightarrow> ('o, 'r) worker \<Rightarrow> ('o, 'r) worker" where
  "RegisterHandler jobType handler w = w\<lparr>wk_handlers := (wk_handlers w)(jobType \<mapsto> handler)\<rparr>"

definition wk_Stop :: "('o, 'r) worker \<Rightarrow> ('o, 'r) worker" where
  "wk_Stop w = w\<lparr>wk_cancelled := True\<rparr>"

section \<open>One turn of a worker\<close>

definition push_result :: "redis_error option \<Rightarrow> turn_result" where
  "push_result e = (case e of None \<Rightarrow> WOk | Some e \<Rightarrow> WErr (WE_redis e))"

definition enqueueJob :: "'r job_redis \<Rightarrow> 'o worker_codec \<Rightarrow> string \<Rightarrow> 'o queue_job \<Rightarrow> 'r \<Rightarrow> turn_result \<times> 'r" where
  "enqueueJob R J queue job r =
     (case wc_marshal J job of
        None \<Rightarrow> (WErr WE_marshal, r)
      | Some jobData \<Rightarrow> (case jr_RPush R queue jobData r of (e, r') \<Rightarrow> (push_result e, r')))"

definition requeueJob :: "'r job_redis \<Rightarrow> 'o worker_codec \<Rightarrow> string \<Rightarrow> 'o queue_job \<Rightarrow> 'r \<Rightarrow> turn_result \<times> 'r" where
  "requeueJob R J queue job r = enqueueJob R J queue job r"

text \<open>\<open>time.Duration(1 << n) * time.Minute\<close> on an \<open>int64\<close>; \<open>None\<close> when the shift panics.\<close>

definition int64_of :: "int \<Rightarrow> int" where
  "int64_of n = signed_take_bit 63 n"

definition retry_delay :: "int \<Rightarrow> duration option" where
  "retry_delay n = (if n < 0 then None
     else Some (int64_of (int64_of (if n < 64 then 2 ^ nat n else 0) * minute)))"

definition retryJob :: "'r job_redis \<Rightarrow> 'o worker_codec \<Rightarrow> instant \<Rightarrow> 'o queue_job \<Rightarrow> 'r \<Rightarrow> turn_result \<times> 'r" where
  "retryJob R J now job r =
     (case retry_delay (qj_Attempts job) of
        None \<Rightarrow> (WPanic, r)
      | Some delay \<Rightarrow> enqueueJob R J ''retry_queue'' (job\<lparr>qj_ProcessAt := now + delay\<rparr>) r)"

definition moveToDeadQueue :: "'r job_redis \<Rightarrow> 'o worker_codec \<Rightarrow> instant \<Rightarrow> 'o queue_job \<Rightarrow> string \<Rightarrow> 'r \<Rightarrow> turn_result \<times> 'r" where
  "moveToDeadQueue R J now job err r =
     (case wc_marshal_dead J job err now of
        None \<Rightarrow> (WErr WE_marshal, r)
      | Some deadJobData \<Rightarrow> (case jr_RPush R ''dead_queue'' deadJobData r of (e, r') \<Rightarrow> (push_result e, r')))"

definition wk_executeJob ::
  "'r job_redis \<Rightarrow> 'o worker_codec \<Rightarrow> instant \<Rightarrow> ('o, 'r) worker \<Rightarrow> 'o queue_job \<Rightarrow> 'r \<Rightarrow> turn_result \<times> 'r" where
  "wk_executeJob R J now w job r =
     (case wk_handlers w (qj_Type job) of
        None \<Rightarrow> (WErr (WE_no_handler (qj_Type job)), r)
      | Some handler \<Rightarrow>
          (case handler job r of
             (None, job1, r1) \<Rightarrow> (WOk, r1)
           | (Some err, job1, r1) \<Rightarrow>
               (let job2 = job1\<lparr>qj_Attempts := int64_of (qj_Attempts job1 + 1)\<rparr>
                in if qj_Attempts job2 < qj_MaxTries job2 then retryJob R J now job2 r1
                   else moveToDeadQueue R J now job2 err r1)))"

text \<open>\<open>processNextJob\<close> in its two halves: the pop, and what happens to the job that was popped.\<close>

definition popJob ::
  "'r job_redis \<Rightarrow> 'o worker_codec \<Rightarrow> ('o, 'r) worker \<Rightarrow> 'r \<Rightarrow> (turn_result + string \<times> 'o queue_job) \<times> 'r" where
  "popJob R J w r =
     (case jr_BLPop R (wk_queues w) r of
        (Inl RedisNil, r') \<Rightarrow> (Inl WOk, r')
      | (Inl e, r') \<Rightarrow> (Inl (WErr (WE_pop e)), r')
      | (Inr (queue # jobData # _), r') \<Rightarrow>
          (case wc_unmarshal J jobData of
             None \<Rightarrow> (Inl (WErr WE_unmarshal), r')
           | Some job \<Rightarrow> (Inr (queue, job), r'))
      | (Inr _, r') \<Rightarrow> (Inl (WErr WE_invalid_result), r'))"

definition handleJob ::
  "'r job_redis \<Rightarrow> 'o worker_codec \<Rightarrow> instant \<Rightarrow> ('o, 'r) worker \<Rightarrow> string \<Rightarrow> 'o queue_job \<Rightarrow> 'r \<Rightarrow> turn_result \<times> 'r" where
  "handleJob R J now w queue job r =
     (if now < qj_ProcessAt job then requeueJob R J queue job r else wk_executeJob R J now w job r)"

definition processNextJob ::
  "'r job_redis \<Rightarrow> 'o worker_codec \<Rightarrow> instant \<Rightarrow> ('o, 'r) worker \<Rightarrow> 'r \<Rightarrow> turn_result \<times> 'r" where
  "processNextJob R J now w r =
     (case popJob R J w r of
        (Inl res, r') \<Rightarrow> (res, r')
      | (Inr (queue, job), r') \<Rightarrow> handleJob R J now w queue job r')"

section \<open>The client\<close>

definition EnqueueAt ::
  "'r job_redis \<Rightarrow> 'o worker_codec \<Rightarrow> (instant \<Rightarrow> string) \<Rightarrow> instant \<Rightarrow> string \<Rightarrow> string \<Rightarrow> 'o payload \<Rightarrow> instant \<Rightarrow>
   'r \<Rightarrow> turn_result \<times> 'r" where
  "EnqueueAt R J nanoId now queue jobType payload processAt r =
     enqueueJob R J queue \<lparr>qj_ID = nanoId now, qj_Type = jobType, qj_Payload = payload, qj_Attempts = 0, qj_MaxTries = 3,
       qj_CreatedAt = now, qj_ProcessAt = processAt\<rparr> r"

definition Enqueue ::
  "'r job_redis \<Rightarrow> 'o worker_codec \<Rightarrow> (instant \<Rightarrow> string) \<Rightarrow> instant \<Rightarrow> string \<Rightarrow> string \<Rightarrow> 'o payload \<Rightarrow> 'r \<Rightarrow> turn_result \<times> 'r" where
  "Enqueue R J nanoId now queue jobType payload r = EnqueueAt R J nanoId now queue jobType payload now r"

definition GetQueueSize :: "'r job_redis \<Rightarrow> string \<Rightarrow> 'r \<Rightarrow> (redis_error + int) \<times> 'r" where
  "GetQueueSize R queue r = jr_LLen R queue r"

section \<open>Laws of the encoding\<close>

definition json_queue_job :: "('o \<Rightarrow> 'o) \<Rightarrow> 'o queue_job \<Rightarrow> 'o queue_job" where
  "json_queue_job other job = job\<lparr>qj_Payload := json_payload other (qj_Payload job)\<rparr>"

definition worker_codec_lawful :: "'o worker_codec \<Rightarrow> ('o \<Rightarrow> 'o) \<Rightarrow> bool" where
  "worker_codec_lawful J other \<longleftrightarrow>
     (\<forall>job s. wc_marshal J job = Some s \<longrightarrow> wc_unmarshal J s = Some (json_queue_job other job))"

lemma json_queue_job_fields [simp]:
  "qj_ID (json_queue_job other job) = qj_ID job" "qj_Type (json_queue_job other job) = qj_Type job"
  "qj_Attempts (json_queue_job other job) = qj_Attempts job" "qj_MaxTries (json_queue_job other job) = qj_MaxTries job"
  "qj_ProcessAt (json_queue_job other job) = qj_ProcessAt job"
  by (simp_all add: json_queue_job_def)

text \<open>A pop that fails puts nothing into a list.\<close>

definition lawful_pop_error :: "'r job_redis \<Rightarrow> ('r \<Rightarrow> string \<Rightarrow> string list) \<Rightarrow> bool" where
  "lawful_pop_error R L \<longleftrightarrow> (\<forall>keys r e r'. jr_BLPop R keys r = (Inl e, r') \<longrightarrow> (\<forall>k. set (L r' k) \<subseteq> set (L r k)))"

section \<open>The delay before a retry\<close>

lemma int64_of_small: "- (2 ^ 63) \<le> n \<Longrightarrow> n < 2 ^ 63 \<Longrightarrow> int64_of n = n"
  unfolding int64_of_def by (rule signed_take_bit_int_eq_self) simp_all

lemma int64_of_pos: "0 < n \<Longrightarrow> n < 9223372036854775808 \<Longrightarrow> int64_of n = n"
  by (rule int64_of_small) simp_all

lemma retry_delay_small:
  assumes "0 \<le> n" and "n \<le> 27"
  shows "retry_delay n = Some (2 ^ nat n * minute)"
proof -
  have "(2::int) ^ nat n \<le> 2 ^ 27" by (rule power_increasing) (use assms in simp_all)
  then have p: "0 < (2::int) ^ nat n" "(2::int) ^ nat n \<le> 134217728" by simp_all
  then have "int64_of (2 ^ nat n) = 2 ^ nat n" by (intro int64_of_pos) (use p in linarith)+
  moreover have "int64_of (2 ^ nat n * minute) = 2 ^ nat n * minute"
    by (rule int64_of_pos) (use p in \<open>simp_all add: dur_defs\<close>)
  ultimately show ?thesis using assms by (simp add: retry_delay_def)
qed

text \<open>
  The delay before the n-th retry is exactly two to the n minutes up to n = 27; from 28 on the product
  leaves the 64 bits of a duration (28 gives a negative delay, 64 and more none at all), and a negative count,
  which only a foreign document can hold, ends the process.
\<close>

theorem retry_delay_bounds:
  "(0 \<le> n \<and> n \<le> 27 \<longrightarrow> retry_delay n = Some (2 ^ nat n * minute)) \<and>
   (\<exists>d < 0. retry_delay 28 = Some d) \<and> (64 \<le> n \<longrightarrow> retry_delay n = Some 0) \<and> (n < 0 \<longrightarrow> retry_delay n = None)"
proof (intro conjI impI)
  show "\<exists>d < 0. retry_delay 28 = Some d" by (simp add: retry_delay_def int64_of_def dur_defs)
qed (simp_all add: retry_delay_small, simp_all add: retry_delay_def int64_of_def)

section \<open>Any number of workers and clients\<close>

text \<open>
  The state of the whole: Redis and the world, the worker, the goroutines at the head of their loop, the jobs that
  a goroutine has popped and not yet handled, and the history of the jobs that were given to a handler with the instants. \<open>H\<close> are the handlers that may be
  registered. Pops, handlings and enqueueings interleave freely.
\<close>

record ('o, 'r) worker_system =
  sw_redis :: 'r
  sw_worker :: "('o, 'r) worker"
  sw_loops :: nat
  sw_inflight :: "(string \<times> 'o queue_job) multiset"
  sw_runs :: "(instant \<times> 'o queue_job) list"


definition wk_Start :: "int \<Rightarrow> ('o, 'r) worker_system \<Rightarrow> ('o, 'r) worker_system" where
  "wk_Start concurrency s = s\<lparr>sw_loops := sw_loops s + nat concurrency\<rparr>"

definition is_run :: "('o, 'r) worker \<Rightarrow> instant \<Rightarrow> 'o queue_job \<Rightarrow> bool" where
  "is_run w now job \<longleftrightarrow> qj_ProcessAt job \<le> now \<and> wk_handlers w (qj_Type job) \<noteq> None"

inductive worker_step ::
  "'r job_redis \<Rightarrow> 'o worker_codec \<Rightarrow> (instant \<Rightarrow> string) \<Rightarrow> ('o, 'r) job_handler set \<Rightarrow>
   ('o, 'r) worker_system \<Rightarrow> ('o, 'r) worker_system \<Rightarrow> bool"
  for R J nanoId H where
  ws_pop: "\<lbrakk> \<not> wk_cancelled (sw_worker s); popJob R J (sw_worker s) (sw_redis s) = (Inr (q, job), r'); sw_loops s = Suc n \<rbrakk>
    \<Longrightarrow> worker_step R J nanoId H s (s\<lparr>sw_redis := r', sw_loops := n, sw_inflight := add_mset (q, job) (sw_inflight s)\<rparr>)"
| ws_idle: "\<lbrakk> \<not> wk_cancelled (sw_worker s); popJob R J (sw_worker s) (sw_redis s) = (Inl res, r'); sw_loops s > 0 \<rbrakk>
    \<Longrightarrow> worker_step R J nanoId H s (s\<lparr>sw_redis := r'\<rparr>)"
| ws_handle: "\<lbrakk> sw_inflight s = add_mset (q, job) rest; handleJob R J now (sw_worker s) q job (sw_redis s) = (res, r') \<rbrakk>
    \<Longrightarrow> worker_step R J nanoId H s (s\<lparr>sw_redis := r', sw_loops := Suc (sw_loops s), sw_inflight := rest,
          sw_runs := sw_runs s @ (if is_run (sw_worker s) now job then [(now, job)] else [])\<rparr>)"
| ws_enqueue: "EnqueueAt R J nanoId now q jobType payload processAt (sw_redis s) = (res, r')
    \<Longrightarrow> worker_step R J nanoId H s (s\<lparr>sw_redis := r'\<rparr>)"
| ws_register: "h \<in> H \<Longrightarrow> worker_step R J nanoId H s (s\<lparr>sw_worker := RegisterHandler jobType h (sw_worker s)\<rparr>)"
| ws_start: "worker_step R J nanoId H s (wk_Start concurrency s)"
| ws_stop: "worker_step R J nanoId H s (s\<lparr>sw_worker := wk_Stop (sw_worker s)\<rparr>)"
| ws_leave: "\<lbrakk> wk_cancelled (sw_worker s); sw_loops s = Suc n \<rbrakk> \<Longrightarrow> worker_step R J nanoId H s (s\<lparr>sw_loops := n\<rparr>)"

lemma enqueueJob_lists:
  assumes "queues_lawful R Z L" and "enqueueJob R J q job r = (res, r')"
  shows "L r' k = L r k \<or> k = q \<and> (\<exists>s. wc_marshal J job = Some s \<and> L r' k = L r k @ [s])"
proof (cases "wc_marshal J job")
  case (Some s)
  then obtain e where "jr_RPush R q s r = (e, r')" using assms(2) by (auto simp: enqueueJob_def split: prod.splits)
  from rpush_law [OF assms(1) this] have "L r' = (L r)(q := L r q @ [s]) \<or> L r' = L r" by blast
  then show ?thesis using Some by (cases "k = q") auto
qed (use assms(2) in \<open>auto simp: enqueueJob_def\<close>)

lemma moveToDeadQueue_lists:
  assumes "queues_lawful R Z L" and "moveToDeadQueue R J now job err r = (res, r')" and "k \<noteq> ''dead_queue''"
  shows "L r' k = L r k"
proof (cases "wc_marshal_dead J job err now")
  case (Some s)
  then obtain e where "jr_RPush R ''dead_queue'' s r = (e, r')" using assms(2) by (auto simp: moveToDeadQueue_def split: prod.splits)
  from rpush_law [OF assms(1) this] show ?thesis using assms(3) by auto
qed (use assms(2) in \<open>auto simp: moveToDeadQueue_def\<close>)

lemma retryJob_lists:
  assumes "queues_lawful R Z L" and "retryJob R J now job r = (res, r')" and "k \<noteq> ''retry_queue''"
  shows "L r' k = L r k"
  using assms enqueueJob_lists [OF assms(1), where q = "''retry_queue''" and r = r and r' = r' and k = k]
  by (auto simp: retryJob_def split: option.splits)

text \<open>First attempts: the documents of the queues that are served, the jobs popped from them, and every run.\<close>

definition first_attempts :: "'o worker_codec \<Rightarrow> ('r \<Rightarrow> string \<Rightarrow> string list) \<Rightarrow> string list \<Rightarrow> 'r \<Rightarrow> bool" where
  "first_attempts J L queues r \<longleftrightarrow>
     (\<forall>k \<in> set queues. \<forall>m \<in> set (L r k). \<forall>job. wc_unmarshal J m = Some job \<longrightarrow> qj_Attempts job = 0)"

text \<open>
  The handlers are not part of the program. Assumed of them: a handler may take documents from the lists and enqueue
  new jobs, but it does not itself write a job that has been attempted into a queue the worker serves.
\<close>

definition no_requeueing_handlers ::
  "'o worker_codec \<Rightarrow> ('r \<Rightarrow> string \<Rightarrow> string list) \<Rightarrow> string list \<Rightarrow> ('o, 'r) job_handler set \<Rightarrow> bool" where
  "no_requeueing_handlers J L queues H \<longleftrightarrow> (\<forall>h \<in> H. \<forall>job r e job' r'. h job r = (e, job', r') \<longrightarrow>
     (\<forall>k \<in> set queues. \<forall>m \<in> set (L r' k). m \<in> set (L r k) \<or> (\<forall>x. wc_unmarshal J m = Some x \<longrightarrow> qj_Attempts x = 0)))"

lemma wk_executeJob_first_attempts:
  assumes law: "queues_lawful R Z L" and H: "no_requeueing_handlers J L queues H" "ran (wk_handlers w) \<subseteq> H"
    and run: "wk_executeJob R J now w job r = (res, r')"
    and q: "''retry_queue'' \<notin> set queues" "''dead_queue'' \<notin> set queues" and fa: "first_attempts J L queues r"
  shows "first_attempts J L queues r'"
proof (cases "wk_handlers w (qj_Type job)")
  case (Some h)
  obtain e job1 r1 where h: "h job r = (e, job1, r1)" by (cases "h job r")
  have "h \<in> H" using H(2) Some by (auto simp: ran_def)
  then have r1: "first_attempts J L queues r1"
    using H(1) h fa unfolding no_requeueing_handlers_def first_attempts_def by blast
  show ?thesis
  proof (cases e)
    case None
    then show ?thesis using run Some h r1 by (simp add: wk_executeJob_def)
  next
    case e: (Some err)
    let ?job2 = "job1\<lparr>qj_Attempts := int64_of (qj_Attempts job1 + 1)\<rparr>"
    have "retryJob R J now ?job2 r1 = (res, r') \<or> moveToDeadQueue R J now ?job2 err r1 = (res, r')"
      using run Some h e by (auto simp: wk_executeJob_def Let_def split: if_splits)
    then have "L r' k = L r1 k" if "k \<in> set queues" for k
      using retryJob_lists [OF law, of J now ?job2 r1 res r' k] moveToDeadQueue_lists [OF law, of J now ?job2 err r1 res r' k] q that
      by blast
    then show ?thesis using r1 by (simp add: first_attempts_def)
  qed
qed (use run fa in \<open>simp add: wk_executeJob_def\<close>)

definition worker_inv ::
  "'o worker_codec \<Rightarrow> ('r \<Rightarrow> string \<Rightarrow> string list) \<Rightarrow> string list \<Rightarrow> ('o, 'r) job_handler set \<Rightarrow> ('o, 'r) worker_system \<Rightarrow> bool" where
  "worker_inv J L queues H s \<longleftrightarrow>
     wk_queues (sw_worker s) = queues \<and> ran (wk_handlers (sw_worker s)) \<subseteq> H \<and> first_attempts J L queues (sw_redis s) \<and>
     (\<forall>(q, job) \<in># sw_inflight s. q \<in> set queues \<and> qj_Attempts job = 0) \<and>
     (\<forall>(t, job) \<in> set (sw_runs s). qj_ProcessAt job \<le> t \<and> qj_Attempts job = 0)"

lemma first_attempts_subset:
  assumes "first_attempts J L queues r" and "\<And>k. k \<in> set queues \<Longrightarrow> set (L r' k) \<subseteq> set (L r k)"
  shows "first_attempts J L queues r'"
  using assms unfolding first_attempts_def by blast

lemma first_attempts_enqueue:
  assumes "queues_lawful R Z L" and "worker_codec_lawful J other" and "first_attempts J L queues r"
    and "enqueueJob R J q job r = (res, r')" and "qj_Attempts job = 0"
  shows "first_attempts J L queues r'"
  unfolding first_attempts_def
proof (intro ballI allI impI)
  fix k m job' assume k: "k \<in> set queues" and m: "m \<in> set (L r' k)" "wc_unmarshal J m = Some job'"
  show "qj_Attempts job' = 0"
  proof (cases "m \<in> set (L r k)")
    case True
    then show ?thesis using assms(3) k m(2) unfolding first_attempts_def by blast
  next
    case False
    then have "wc_marshal J job = Some m" using enqueueJob_lists [OF assms(1,4), of k] m(1) by auto
    then show ?thesis using assms(2,5) m(2) by (auto simp: worker_codec_lawful_def)
  qed
qed

lemma popJob_lists:
  assumes "queues_lawful R Z L" and "lawful_pop_error R L" and "popJob R J w r = (x, r')"
  shows "set (L r' k) \<subseteq> set (L r k)"
    and "x = Inr (q, job) \<Longrightarrow> q \<in> set (wk_queues w) \<and> (\<exists>m \<in> set (L r q). wc_unmarshal J m = Some job)"
proof -
  obtain y where y: "jr_BLPop R (wk_queues w) r = (y, r')" using assms(3)
    by (auto simp: popJob_def split: prod.splits sum.splits redis_error.splits list.splits option.splits)
  show "set (L r' k) \<subseteq> set (L r k)"
  proof (cases y)
    case (Inl e)
    then show ?thesis using assms(2) y unfolding lawful_pop_error_def by blast
  next
    case (Inr ms)
    then obtain key m where "L r key = m # L r' key" "L r' = (L r)(key := L r' key)" using blpop_law [OF assms(1)] y by blast
    then show ?thesis by (metis fun_upd_other set_subset_Cons subset_refl)
  qed
  assume x: "x = Inr (q, job)"
  then obtain ms where ms: "y = Inr ms" using y assms(3) by (cases y) (auto simp: popJob_def split: redis_error.splits)
  then obtain key m where km: "ms = [key, m]" "key \<in> set (wk_queues w)" "L r key = m # L r' key"
    using blpop_law [OF assms(1)] y by blast
  then have "key = q \<and> wc_unmarshal J m = Some job" using assms(3) y ms x by (auto simp: popJob_def split: option.splits)
  then show "q \<in> set (wk_queues w) \<and> (\<exists>m \<in> set (L r q). wc_unmarshal J m = Some job)" using km by force
qed

lemma first_attempts_handle:
  assumes laws: "queues_lawful R Z L" "worker_codec_lawful J other" and H: "no_requeueing_handlers J L queues H" "ran (wk_handlers w) \<subseteq> H"
    and q: "''retry_queue'' \<notin> set queues" "''dead_queue'' \<notin> set queues" and fa: "first_attempts J L queues r"
    and job: "qj_Attempts job = 0" and run: "handleJob R J now w q job r = (res, r')"
  shows "first_attempts J L queues r'"
proof (cases "now < qj_ProcessAt job")
  case True
  then have "enqueueJob R J q job r = (res, r')" using run by (simp add: handleJob_def requeueJob_def)
  then show ?thesis by (rule first_attempts_enqueue [OF laws fa _ job])
next
  case False
  then have run': "wk_executeJob R J now w job r = (res, r')" using run by (simp add: handleJob_def)
  show ?thesis by (rule wk_executeJob_first_attempts [OF laws(1) H run' q fa])
qed

lemma worker_step_inv:
  assumes laws: "queues_lawful R Z L" "lawful_pop_error R L" "worker_codec_lawful J other" and H: "no_requeueing_handlers J L queues H"
    and q: "''retry_queue'' \<notin> set queues" "''dead_queue'' \<notin> set queues"
    and step: "worker_step R J nanoId H s s'" and inv: "worker_inv J L queues H s"
  shows "worker_inv J L queues H s'"
  using step
proof cases
  case (ws_pop q' job r' n)
  note pop = popJob_lists [OF laws(1,2) ws_pop(3)]
  have wq: "wk_queues (sw_worker s) = queues" and fa: "first_attempts J L queues (sw_redis s)" using inv by (simp_all add: worker_inv_def)
  obtain m where "q' \<in> set queues" "m \<in> set (L (sw_redis s) q')" "wc_unmarshal J m = Some job" using pop(2) wq by blast
  then have "q' \<in> set queues \<and> qj_Attempts job = 0" using fa unfolding first_attempts_def by blast
  moreover have "first_attempts J L queues r'" using first_attempts_subset [OF fa, of r'] pop(1) by blast
  ultimately show ?thesis using inv ws_pop(1) by (simp add: worker_inv_def)
next
  case (ws_idle res r')
  have "first_attempts J L queues r'"
    using first_attempts_subset [of J L queues "sw_redis s" r'] popJob_lists(1) [OF laws(1,2) ws_idle(3)] inv
    unfolding worker_inv_def by blast
  then show ?thesis using inv ws_idle(1) by (simp add: worker_inv_def)
next
  case (ws_handle q' job rest now res r')
  have job: "qj_Attempts job = 0" and ran: "ran (wk_handlers (sw_worker s)) \<subseteq> H" and fa: "first_attempts J L queues (sw_redis s)"
    using inv ws_handle(2) by (simp_all add: worker_inv_def)
  have "first_attempts J L queues r'" by (rule first_attempts_handle [OF laws(1,3) H ran q fa job ws_handle(3)])
  then show ?thesis using inv ws_handle(1,2) by (auto simp: worker_inv_def is_run_def)
next
  case (ws_enqueue now q' jobType payload processAt res r')
  have "first_attempts J L queues r'"
    by (rule first_attempts_enqueue [OF laws(1,3) _ ws_enqueue(2) [unfolded EnqueueAt_def]]) (use inv in \<open>simp_all add: worker_inv_def\<close>)
  then show ?thesis using inv ws_enqueue(1) by (simp add: worker_inv_def)
next
  case (ws_register h jobType)
  then show ?thesis using inv by (auto simp: worker_inv_def RegisterHandler_def ran_def split: if_splits)
next
  case (ws_start concurrency)
  then show ?thesis using inv by (simp add: worker_inv_def wk_Start_def)
next
  case ws_stop
  then show ?thesis using inv by (simp add: worker_inv_def wk_Stop_def)
next
  case (ws_leave n)
  then show ?thesis using inv by (simp add: worker_inv_def)
qed

text \<open>The setting of a worker: what it relies on of Redis, the codec and its handlers, and the queues it serves.\<close>

definition worker_setting where
  "worker_setting R Z L J other H queues \<longleftrightarrow> queues_lawful R Z L \<and> lawful_pop_error R L \<and> worker_codec_lawful J other \<and>
     no_requeueing_handlers J L queues H \<and> ''retry_queue'' \<notin> set queues \<and> ''dead_queue'' \<notin> set queues"

interpretation worker: kept_invariant "worker_step R J nanoId H"
    "\<lambda>s. worker_setting R Z L J other H queues \<and> worker_inv J L queues H s"
  for R J nanoId H Z L other queues
  unfolding worker_setting_def by unfold_locales (blast intro: worker_step_inv)



section \<open>One job\<close>

text \<open>
  A due job whose handler fails is written back with one attempt more: to the retry queue, due after two
  to the number of attempts minutes, while attempts are left, else to the dead queue with the error.
\<close>

theorem failing_job_backs_off:
  assumes law: "queues_lawful R Z L" "worker_codec_lawful J other"
    and pop: "popJob R J w r = (Inr (q, job), r1)" "qj_ProcessAt job \<le> now"
    and h: "wk_handlers w (qj_Type job) = Some h" "h job r1 = (Some err, job, r2)"
    and a: "0 \<le> qj_Attempts job" "qj_Attempts job \<le> 26"
    and retry: "wc_marshal J (job\<lparr>qj_Attempts := qj_Attempts job + 1, qj_ProcessAt := now + 2 ^ nat (qj_Attempts job + 1) * minute\<rparr>) = Some data"
      "jr_RPush R ''retry_queue'' data r2 = (None, r3)"
    and dead: "wc_marshal_dead J (job\<lparr>qj_Attempts := qj_Attempts job + 1\<rparr>) err now = Some doc" "jr_RPush R ''dead_queue'' doc r2 = (None, r4)"
  shows "(qj_Attempts job + 1 < qj_MaxTries job \<longrightarrow> processNextJob R J now w r = (WOk, r3) \<and>
        L r3 = (L r2)(''retry_queue'' := L r2 ''retry_queue'' @ [data]) \<and>
        (\<exists>job'. wc_unmarshal J data = Some job' \<and> qj_Attempts job' = qj_Attempts job + 1 \<and>
           qj_ProcessAt job' = now + 2 ^ nat (qj_Attempts job + 1) * minute)) \<and>
     (qj_MaxTries job \<le> qj_Attempts job + 1 \<longrightarrow> processNextJob R J now w r = (WOk, r4) \<and>
        L r4 = (L r2)(''dead_queue'' := L r2 ''dead_queue'' @ [doc]))"
proof -
  have i: "int64_of (qj_Attempts job + 1) = qj_Attempts job + 1" by (rule int64_of_pos) (use a in simp_all)
  have d: "retry_delay (qj_Attempts job + 1) = Some (2 ^ nat (qj_Attempts job + 1) * minute)" by (rule retry_delay_small) (use a in simp_all)
  have "wc_unmarshal J data = Some (json_queue_job other
      (job\<lparr>qj_Attempts := qj_Attempts job + 1, qj_ProcessAt := now + 2 ^ nat (qj_Attempts job + 1) * minute\<rparr>))"
    using law(2) retry(1) by (simp add: worker_codec_lawful_def)
  moreover have "qj_Attempts job + 1 < qj_MaxTries job \<longrightarrow> processNextJob R J now w r = (WOk, r3)"
    using pop h retry by (simp add: processNextJob_def handleJob_def wk_executeJob_def Let_def i d retryJob_def enqueueJob_def push_result_def)
  moreover have "qj_MaxTries job \<le> qj_Attempts job + 1 \<longrightarrow> processNextJob R J now w r = (WOk, r4)"
    using pop h dead by (simp add: processNextJob_def handleJob_def wk_executeJob_def Let_def i moveToDeadQueue_def push_result_def)
  ultimately show ?thesis using rpush_law [OF law(1) retry(2)] rpush_law [OF law(1) dead(2)] by simp
qed

text \<open>
  A job of a type without a handler is taken from its queue and reported as an error, and no list holds it
  any more.
\<close>

theorem unhandled_job_is_lost:
  assumes "queues_lawful R Z L" and "jr_BLPop R (wk_queues w) r = (Inr ms, r')" and "wc_unmarshal J (ms ! 1) = Some job"
    and "wk_handlers w (qj_Type job) = None" and "qj_ProcessAt job \<le> now"
  shows "processNextJob R J now w r = (WErr (WE_no_handler (qj_Type job)), r') \<and>
    (\<exists>q \<in> set (wk_queues w). L r q = ms ! 1 # L r' q \<and> (\<forall>k. k \<noteq> q \<longrightarrow> L r' k = L r k))"
proof -
  obtain q m where q: "ms = [q, m]" "q \<in> set (wk_queues w)" "L r q = m # L r' q" "L r' = (L r)(q := L r' q)"
    using blpop_law [OF assms(1,2)] by blast
  have "\<forall>k. k \<noteq> q \<longrightarrow> L r' k = L r k" by (subst q(4)) simp
  moreover have "processNextJob R J now w r = (WErr (WE_no_handler (qj_Type job)), r')"
    using assms q(1) by (simp add: processNextJob_def popJob_def handleJob_def wk_executeJob_def)
  ultimately show ?thesis using q by auto
qed

text \<open>
  What a client enqueues is what the handler gets: when the queues of the worker were empty, the first job that
  is popped after an \<open>EnqueueAt\<close> is executed as it was enqueued, up to the types that JSON forgets, if its time
  has come.
\<close>

theorem enqueued_job_is_executed:
  assumes law: "queues_lawful R Z L" "worker_codec_lawful J other" and empty: "\<And>k. k \<in> set (wk_queues w) \<Longrightarrow> L r k = []"
    and enq: "EnqueueAt R J nanoId now q jobType payload processAt r = (WOk, r1)"
    and pop: "jr_BLPop R (wk_queues w) r1 = (Inr ms, r2)" and due: "processAt \<le> now'"
  shows "processNextJob R J now' w r1 = wk_executeJob R J now' w \<lparr>qj_ID = nanoId now, qj_Type = jobType,
    qj_Payload = json_payload other payload, qj_Attempts = 0, qj_MaxTries = 3, qj_CreatedAt = now, qj_ProcessAt = processAt\<rparr> r2"
proof -
  let ?job = "\<lparr>qj_ID = nanoId now, qj_Type = jobType, qj_Payload = payload, qj_Attempts = 0, qj_MaxTries = 3, qj_CreatedAt = now, qj_ProcessAt = processAt\<rparr>"
  obtain k m where km: "ms = [k, m]" "k \<in> set (wk_queues w)" "L r1 k = m # L r2 k" using blpop_law [OF law(1) pop] by blast
  have "wc_marshal J ?job = Some m"
    using enqueueJob_lists [OF law(1) enq [unfolded EnqueueAt_def], of k] empty [OF km(2)] km(3) by auto
  then have "wc_unmarshal J m = Some (json_queue_job other ?job)" using law(2) unfolding worker_codec_lawful_def by blast
  then show ?thesis using pop km(1) due by (simp add: processNextJob_def popJob_def handleJob_def json_queue_job_def)
qed

section \<open>Concrete runs\<close>

definition ex_wjob :: "unit queue_job" where
  "ex_wjob = \<lparr>qj_ID = ''0'', qj_Type = JobTypeCleanup, qj_Payload = Map.empty, qj_Attempts = 0, qj_MaxTries = 3,
     qj_CreatedAt = 0, qj_ProcessAt = 0\<rparr>"

definition ex_retry :: "unit queue_job" where
  "ex_retry = ex_wjob\<lparr>qj_Attempts := 1, qj_ProcessAt := 2 * minute\<rparr>"

text \<open>An encoding that knows these two jobs.\<close>

definition ex_wcodec :: "unit worker_codec" where
  "ex_wcodec = \<lparr>wc_marshal = (\<lambda>job. if job = ex_wjob then Some ''first'' else if job = ex_retry then Some ''second'' else None),
     wc_unmarshal = (\<lambda>s. if s = ''first'' then Some ex_wjob else if s = ''second'' then Some ex_retry else None),
     wc_marshal_dead = (\<lambda>job err now. Some ''dead'')\<rparr>"

lemma ex_wcodec_lawful: "worker_codec_lawful ex_wcodec id"
  by (auto simp: worker_codec_lawful_def ex_wcodec_def json_queue_job_def json_payload_def ex_wjob_def ex_retry_def)


definition fails :: "(unit, mem_queues) job_handler" where
  "fails job r = (Some ''no'', job, r)"


definition empty_queues :: mem_queues where
  "empty_queues = \<lparr>mq_zsets = (\<lambda>_. []), mq_lists = (\<lambda>_. [])\<rparr>"

definition one_job :: mem_queues where
  "one_job = empty_queues\<lparr>mq_lists := (\<lambda>_. [])(''default'' := [''first''])\<rparr>"

lemma ex_enqueue: "EnqueueAt mem_job_redis ex_wcodec (\<lambda>_. ''0'') 0 ''default'' JobTypeCleanup Map.empty 0 empty_queues = (WOk, one_job)"
  by (simp add: EnqueueAt_def enqueueJob_def ex_wcodec_def ex_wjob_def mem_job_redis_def push_result_def one_job_def empty_queues_def)

definition ex_worker :: "(unit, mem_queues) worker" where
  "ex_worker = RegisterHandler JobTypeCleanup fails (NewWorker [''default''])"

lemma ex_blpop: "jr_BLPop mem_job_redis [''default''] one_job = (Inr [''default'', ''first''], empty_queues)"
  by (simp add: mem_job_redis_def mq_pop_list_def one_job_def empty_queues_def fun_eq_iff)

lemma ex_pop: "wk_queues w = [''default''] \<Longrightarrow> popJob mem_job_redis ex_wcodec w one_job = (Inr (''default'', ex_wjob), empty_queues)"
  by (simp add: popJob_def ex_blpop ex_wcodec_def)


theorem failing_job_backs_off_witness:
  "processNextJob mem_job_redis ex_wcodec 0 ex_worker one_job =
    (WOk, empty_queues\<lparr>mq_lists := (mq_lists empty_queues)(''retry_queue'' := [''second''])\<rparr>)"
proof -
  have "popJob mem_job_redis ex_wcodec ex_worker one_job = (Inr (''default'', ex_wjob), empty_queues)"
    by (rule ex_pop) (simp add: ex_worker_def RegisterHandler_def NewWorker_def)
  from failing_job_backs_off [OF mem_queues_lawful ex_wcodec_lawful this, of 0 fails "''no''" empty_queues "''second''"
      "empty_queues\<lparr>mq_lists := (mq_lists empty_queues)(''retry_queue'' := [''second''])\<rparr>" "''dead''"
      "empty_queues\<lparr>mq_lists := (mq_lists empty_queues)(''dead_queue'' := [''dead''])\<rparr>"]
  show ?thesis
    by (simp add: ex_worker_def RegisterHandler_def NewWorker_def fails_def ex_wcodec_def ex_retry_def ex_wjob_def mem_job_redis_def empty_queues_def)
qed

theorem unhandled_job_is_lost_witness:
  "processNextJob mem_job_redis ex_wcodec 0 (NewWorker [''default'']) one_job = (WErr (WE_no_handler JobTypeCleanup), empty_queues)"
proof -
  have "jr_BLPop mem_job_redis (wk_queues (NewWorker [''default''] :: (unit, mem_queues) worker)) one_job = (Inr [''default'', ''first''], empty_queues)"
    by (simp add: NewWorker_def ex_blpop)
  from unhandled_job_is_lost [OF mem_queues_lawful this, of ex_wcodec ex_wjob 0] show ?thesis
    by (simp add: ex_wcodec_def NewWorker_def) (simp add: ex_wjob_def)
qed

theorem enqueued_job_is_executed_witness:
  "processNextJob mem_job_redis ex_wcodec 5 ex_worker one_job = wk_executeJob mem_job_redis ex_wcodec 5 ex_worker ex_wjob empty_queues"
proof -
  have w: "wk_queues ex_worker = [''default'']" by (simp add: ex_worker_def RegisterHandler_def NewWorker_def)
  have e: "mq_lists empty_queues k = []" for k by (simp add: empty_queues_def)
  show ?thesis
    using enqueued_job_is_executed [OF mem_queues_lawful ex_wcodec_lawful e ex_enqueue ex_blpop [folded w]]
    by (simp add: ex_wjob_def json_payload_def)
qed

end
