(* ===== verification/Config.thy ===== *)
theory Config
  imports Utils
begin

text \<open>
  The configuration: \<^verbatim>\<open>backend/internal/config/config.go\<close>, the connection settings of
  \<^verbatim>\<open>backend/internal/repositories/database.go\<close> and the defaults of
  \<^verbatim>\<open>backend/internal/database/pool.go\<close>, read from the process environment.
\<close>

section \<open>Data\<close>

record server_config =
  sc_Host :: string
  sc_Port :: string
  sc_ReadTimeout :: duration
  sc_WriteTimeout :: duration
  sc_IdleTimeout :: duration
  sc_Environment :: string

record database_config =
  dc_Host :: string
  dc_Port :: string
  dc_User :: string
  dc_Password :: string
  dc_Name :: string
  dc_SSLMode :: string
  dc_MaxOpenConns :: int
  dc_MaxIdleConns :: int
  dc_ConnMaxLifetime :: duration
  dc_ConnMaxIdleTime :: duration

record redis_config =
  rdc_Host :: string
  rdc_Port :: string
  rdc_Password :: string
  rdc_DB :: int
  rdc_PoolSize :: int
  rdc_MinIdleConns :: int
  rdc_MaxRetries :: int
  rdc_DialTimeout :: duration
  rdc_ReadTimeout :: duration
  rdc_WriteTimeout :: duration

record worker_config =
  wkc_Concurrency :: int
  wkc_PollInterval :: duration
  wkc_Queues :: "string list"

record auth_config =
  ac_JWTSecret :: string
  ac_AccessTokenTTL :: duration
  ac_RefreshTokenTTL :: duration
  ac_BCryptCost :: int

record rate_limit_config =
  rlc_Enabled :: bool
  rlc_RequestsPerMin :: int
  rlc_BurstSize :: int
  rlc_CleanupInterval :: duration

record config =
  cf_Server :: server_config
  cf_Database :: database_config
  cf_Redis :: redis_config
  cf_Worker :: worker_config
  cf_Auth :: auth_config
  cf_RateLimit :: rate_limit_config

section \<open>The environment\<close>

definition getEnv :: "environ \<Rightarrow> string \<Rightarrow> string \<Rightarrow> string" where
  "getEnv env key defaultValue = (if Getenv env key \<noteq> '''' then Getenv env key else defaultValue)"

definition getEnvAsInt :: "environ \<Rightarrow> string \<Rightarrow> int \<Rightarrow> int" where
  "getEnvAsInt env key defaultValue =
     (if Getenv env key \<noteq> '''' then (case Atoi (Getenv env key) of Some v \<Rightarrow> v | None \<Rightarrow> defaultValue) else defaultValue)"

definition getEnvAsBool :: "environ \<Rightarrow> string \<Rightarrow> bool \<Rightarrow> bool" where
  "getEnvAsBool env key defaultValue =
     (if Getenv env key \<noteq> '''' then (case ParseBool (Getenv env key) of Some v \<Rightarrow> v | None \<Rightarrow> defaultValue) else defaultValue)"

definition getEnvAsDuration :: "environ \<Rightarrow> string \<Rightarrow> duration \<Rightarrow> duration" where
  "getEnvAsDuration env key defaultValue =
     (if Getenv env key \<noteq> '''' then (case ParseDuration (Getenv env key) of Some v \<Rightarrow> v | None \<Rightarrow> defaultValue) else defaultValue)"

section \<open>Loading\<close>

definition read_config :: "environ \<Rightarrow> config" where
  "read_config env =
     \<lparr>cf_Server = \<lparr>sc_Host = getEnv env ''HOST'' ''localhost'', sc_Port = getEnv env ''PORT'' ''8080'',
        sc_ReadTimeout = getEnvAsDuration env ''READ_TIMEOUT'' (30 * second),
        sc_WriteTimeout = getEnvAsDuration env ''WRITE_TIMEOUT'' (30 * second),
        sc_IdleTimeout = getEnvAsDuration env ''IDLE_TIMEOUT'' (60 * second),
        sc_Environment = getEnv env ''ENVIRONMENT'' ''development''\<rparr>,
      cf_Database = \<lparr>dc_Host = getEnv env ''DB_HOST'' ''localhost'', dc_Port = getEnv env ''DB_PORT'' ''5432'',
        dc_User = getEnv env ''DB_USER'' ''postgres'', dc_Password = getEnv env ''DB_PASSWORD'' '''',
        dc_Name = getEnv env ''DB_NAME'' ''task_manager'', dc_SSLMode = getEnv env ''DB_SSL_MODE'' ''disable'',
        dc_MaxOpenConns = getEnvAsInt env ''DB_MAX_OPEN_CONNS'' 25, dc_MaxIdleConns = getEnvAsInt env ''DB_MAX_IDLE_CONNS'' 10,
        dc_ConnMaxLifetime = getEnvAsDuration env ''DB_CONN_MAX_LIFETIME'' hour,
        dc_ConnMaxIdleTime = getEnvAsDuration env ''DB_CONN_MAX_IDLE_TIME'' (30 * minute)\<rparr>,
      cf_Redis = \<lparr>rdc_Host = getEnv env ''REDIS_HOST'' ''localhost'', rdc_Port = getEnv env ''REDIS_PORT'' ''6379'',
        rdc_Password = getEnv env ''REDIS_PASSWORD'' '''', rdc_DB = getEnvAsInt env ''REDIS_DB'' 0,
        rdc_PoolSize = getEnvAsInt env ''REDIS_POOL_SIZE'' 10, rdc_MinIdleConns = getEnvAsInt env ''REDIS_MIN_IDLE_CONNS'' 5,
        rdc_MaxRetries = getEnvAsInt env ''REDIS_MAX_RETRIES'' 3,
        rdc_DialTimeout = getEnvAsDuration env ''REDIS_DIAL_TIMEOUT'' (5 * second),
        rdc_ReadTimeout = getEnvAsDuration env ''REDIS_READ_TIMEOUT'' (3 * second),
        rdc_WriteTimeout = getEnvAsDuration env ''REDIS_WRITE_TIMEOUT'' (3 * second)\<rparr>,
      cf_Worker = \<lparr>wkc_Concurrency = getEnvAsInt env ''WORKER_CONCURRENCY'' 4,
        wkc_PollInterval = getEnvAsDuration env ''WORKER_POLL_INTERVAL'' (5 * second),
        wkc_Queues = [''default'', ''high_priority'', ''low_priority'']\<rparr>,
      cf_Auth = \<lparr>ac_JWTSecret = getEnv env ''JWT_SECRET'' ''your-secret-key'',
        ac_AccessTokenTTL = getEnvAsDuration env ''ACCESS_TOKEN_TTL'' (15 * minute),
        ac_RefreshTokenTTL = getEnvAsDuration env ''REFRESH_TOKEN_TTL'' (7 * 24 * hour),
        ac_BCryptCost = getEnvAsInt env ''BCRYPT_COST'' 10\<rparr>,
      cf_RateLimit = \<lparr>rlc_Enabled = getEnvAsBool env ''RATE_LIMIT_ENABLED'' True,
        rlc_RequestsPerMin = getEnvAsInt env ''RATE_LIMIT_RPM'' 100, rlc_BurstSize = getEnvAsInt env ''RATE_LIMIT_BURST'' 10,
        rlc_CleanupInterval = getEnvAsDuration env ''RATE_LIMIT_CLEANUP'' (10 * minute)\<rparr>\<rparr>"

datatype config_error = PasswordRequired | SecretRequired

definition LoadConfig :: "environ \<Rightarrow> config_error + config" where
  "LoadConfig env =
     (let config = read_config env
      in if dc_Password (cf_Database config) = '''' \<and> sc_Environment (cf_Server config) = ''production'' then Inl PasswordRequired
         else if ac_JWTSecret (cf_Auth config) = ''your-secret-key'' \<and> sc_Environment (cf_Server config) = ''production''
         then Inl SecretRequired
         else Inr config)"

definition GetDatabaseDSN :: "config \<Rightarrow> string" where
  "GetDatabaseDSN c = ''host='' @ dc_Host (cf_Database c) @ '' port='' @ dc_Port (cf_Database c) @ '' user='' @ dc_User (cf_Database c) @
     '' password='' @ dc_Password (cf_Database c) @ '' dbname='' @ dc_Name (cf_Database c) @ '' sslmode='' @ dc_SSLMode (cf_Database c)"

definition GetRedisAddr :: "config \<Rightarrow> string" where
  "GetRedisAddr c = rdc_Host (cf_Redis c) @ '':'' @ rdc_Port (cf_Redis c)"

definition GetServerAddr :: "config \<Rightarrow> string" where
  "GetServerAddr c = sc_Host (cf_Server c) @ '':'' @ sc_Port (cf_Server c)"

definition IsProduction :: "config \<Rightarrow> bool" where
  "IsProduction c \<longleftrightarrow> sc_Environment (cf_Server c) = ''production''"

section \<open>The settings of the connection\<close>

record connection_config =
  cc_Host :: string
  cc_Port :: string
  cc_User :: string
  cc_Password :: string
  cc_Name :: string
  cc_SSLMode :: string
  cc_MaxOpenConns :: int
  cc_MaxIdleConns :: int
  cc_ConnMaxLifetime :: duration

definition NewDatabaseConfig :: "environ \<Rightarrow> connection_config" where
  "NewDatabaseConfig env =
     \<lparr>cc_Host = GetEnv env ''DB_HOST'' ''localhost'', cc_Port = GetEnv env ''DB_PORT'' ''5432'',
      cc_User = GetEnv env ''DB_USER'' ''postgres'', cc_Password = GetEnv env ''DB_PASSWORD'' '''',
      cc_Name = GetEnv env ''DB_NAME'' ''taskmanager'', cc_SSLMode = GetEnv env ''DB_SSLMODE'' ''disable'',
      cc_MaxOpenConns = GetEnvAsInt env ''DB_MAX_OPEN_CONNS'' 25, cc_MaxIdleConns = GetEnvAsInt env ''DB_MAX_IDLE_CONNS'' 5,
      cc_ConnMaxLifetime = GetEnvAsDuration env ''DB_CONN_MAX_LIFETIME'' hour\<rparr>"

definition connect_dsn :: "connection_config \<Rightarrow> string" where
  "connect_dsn cfg = ''host='' @ cc_Host cfg @ '' user='' @ cc_User cfg @ '' password='' @ cc_Password cfg @
     '' dbname='' @ cc_Name cfg @ '' port='' @ cc_Port cfg @ '' sslmode='' @ cc_SSLMode cfg"

definition connection_dsn :: "environ \<Rightarrow> string" where
  "connection_dsn env = ''host='' @ Getenv env ''DB_HOST'' @ '' user='' @ Getenv env ''DB_USER'' @
     '' password='' @ Getenv env ''DB_PASSWORD'' @ '' dbname='' @ Getenv env ''DB_NAME'' @ '' port='' @ Getenv env ''DB_PORT'' @ '' sslmode=disable''"

section \<open>Properties\<close>

lemma read_config_fields:
  "dc_Password (cf_Database (read_config env)) = Getenv env ''DB_PASSWORD''"
  "sc_Environment (cf_Server (read_config env)) = ''production'' \<longleftrightarrow> Getenv env ''ENVIRONMENT'' = ''production''"
  "ac_JWTSecret (cf_Auth (read_config env)) = getEnv env ''JWT_SECRET'' ''your-secret-key''"
  by (simp_all add: read_config_def getEnv_def)

lemma LoadConfig_cases:
  "LoadConfig env =
     (if Getenv env ''ENVIRONMENT'' \<noteq> ''production'' then Inr (read_config env)
      else if Getenv env ''DB_PASSWORD'' = [] then Inl PasswordRequired
      else if getEnv env ''JWT_SECRET'' ''your-secret-key'' = ''your-secret-key'' then Inl SecretRequired
      else Inr (read_config env))"
  by (simp only: LoadConfig_def Let_def read_config_fields) simp

lemma secret_unset: "getEnv env key d = d \<longleftrightarrow> Getenv env key = [] \<or> Getenv env key = d"
  by (auto simp: getEnv_def)

lemma secret_set: "getEnv env key d \<noteq> d \<Longrightarrow> getEnv env key d = Getenv env key"
  by (auto simp: getEnv_def)

lemma LoadConfig_Inr: "LoadConfig env = Inr c \<Longrightarrow> c = read_config env"
  unfolding LoadConfig_cases by (metis sum.distinct(1) sum.inject(2))

text \<open>
  C36: \<open>LoadConfig\<close> on the variables themselves. A configuration loads exactly when the environment does not name production, or
  has a database password and a JWT secret that is set and differs from the default; in production a missing password is
  reported, and a missing or default secret only if the password is there. Outside production a configuration with the
  well-known default secret loads.
\<close>

theorem load_config_iff:
  "((\<exists>c. LoadConfig env = Inr c) \<longleftrightarrow>
     Getenv env ''ENVIRONMENT'' \<noteq> ''production'' \<or>
     Getenv env ''DB_PASSWORD'' \<noteq> [] \<and> Getenv env ''JWT_SECRET'' \<noteq> [] \<and> Getenv env ''JWT_SECRET'' \<noteq> ''your-secret-key'') \<and>
   (LoadConfig env = Inl PasswordRequired \<longleftrightarrow>
     Getenv env ''ENVIRONMENT'' = ''production'' \<and> Getenv env ''DB_PASSWORD'' = []) \<and>
   (LoadConfig env = Inl SecretRequired \<longleftrightarrow>
     Getenv env ''ENVIRONMENT'' = ''production'' \<and> Getenv env ''DB_PASSWORD'' \<noteq> [] \<and>
     (Getenv env ''JWT_SECRET'' = [] \<or> Getenv env ''JWT_SECRET'' = ''your-secret-key'')) \<and>
   ((\<exists>c. LoadConfig env = Inr c \<and> ac_JWTSecret (cf_Auth c) = ''your-secret-key'') \<longleftrightarrow>
     Getenv env ''ENVIRONMENT'' \<noteq> ''production'' \<and> (Getenv env ''JWT_SECRET'' = [] \<or> Getenv env ''JWT_SECRET'' = ''your-secret-key''))"
  unfolding LoadConfig_cases secret_unset by (auto simp: read_config_fields secret_unset split: if_split)

lemma production_secret:
  assumes "LoadConfig env = Inr c" and "IsProduction c" and "ae_JWT_SECRET A = Getenv env ''JWT_SECRET''"
  shows "jwt_secret A = ac_JWTSecret (cf_Auth c) \<and> jwt_secret A = Getenv env ''JWT_SECRET'' \<and>
    jwt_secret A \<noteq> [] \<and> jwt_secret A \<noteq> ''your-secret-key''"
proof -
  have c: "c = read_config env" by (rule LoadConfig_Inr [OF assms(1)])
  then have "Getenv env ''ENVIRONMENT'' = ''production''" using assms(2) by (simp only: IsProduction_def read_config_fields)
  then have s: "getEnv env ''JWT_SECRET'' ''your-secret-key'' \<noteq> ''your-secret-key''"
    using assms(1) unfolding LoadConfig_cases by (metis sum.distinct(1))
  then have "Getenv env ''JWT_SECRET'' \<noteq> []" and "Getenv env ''JWT_SECRET'' \<noteq> ''your-secret-key''" unfolding secret_unset by blast+
  then show ?thesis unfolding c read_config_fields secret_set [OF s] jwt_secret_def assms(3) by simp
qed

text \<open>
  A server that starts in production signs its tokens with the configured secret: it is never empty, not the
  default of the configuration, and the services do not fall back on theirs.
\<close>

theorem production_secret_is_configured:
  assumes "LoadConfig env = Inr c" and "IsProduction c" and "ae_JWT_SECRET A = Getenv env ''JWT_SECRET''"
  shows "jwt_secret A = ac_JWTSecret (cf_Auth c) \<and> jwt_secret A = Getenv env ''JWT_SECRET'' \<and>
    jwt_secret A \<noteq> [] \<and> jwt_secret A \<noteq> ''your-secret-key''"
  by (rule production_secret [OF assms])

text \<open>
  The server does not connect with the settings it has loaded: the SSL mode of the connection does not depend on
  the variable DB_SSL_MODE, that of the configuration is what this variable says, and without any
  variable the two name different databases.
\<close>

theorem connection_ignores_the_configuration:
  "connect_dsn (NewDatabaseConfig (env(''DB_SSL_MODE'' := v))) = connect_dsn (NewDatabaseConfig env) \<and>
   (mode \<noteq> '''' \<longrightarrow> dc_SSLMode (cf_Database (read_config (env(''DB_SSL_MODE'' \<mapsto> mode)))) = mode) \<and>
   cc_Name (NewDatabaseConfig Map.empty) \<noteq> dc_Name (cf_Database (read_config Map.empty))"
  by (simp add: connect_dsn_def NewDatabaseConfig_def read_config_def GetEnv_def GetEnvAsInt_def GetEnvAsDuration_def getEnv_def Getenv_def)

section \<open>Concrete environments\<close>

definition ex_environ :: environ where
  "ex_environ = [''ENVIRONMENT'' \<mapsto> ''production'', ''DB_PASSWORD'' \<mapsto> ''pw'', ''JWT_SECRET'' \<mapsto> ''s3cret'', ''RATE_LIMIT_RPM'' \<mapsto> ''60'']"

lemma ex_environ_loads: "LoadConfig ex_environ = Inr (read_config ex_environ)"
  by (simp add: LoadConfig_cases getEnv_def Getenv_def ex_environ_def)

lemma ex_environ_vars:
  "Getenv ex_environ ''ENVIRONMENT'' = ''production''" "Getenv ex_environ ''JWT_SECRET'' = ''s3cret''"
  by (simp_all add: Getenv_def ex_environ_def)

theorem load_config_iff_witness:
  "(\<exists>c. LoadConfig ex_environ = Inr c) \<and> LoadConfig (ex_environ(''JWT_SECRET'' := None)) = Inl SecretRequired \<and>
    LoadConfig (ex_environ(''DB_PASSWORD'' := None, ''JWT_SECRET'' := None)) = Inl PasswordRequired"
  using load_config_iff [of ex_environ] load_config_iff [of "ex_environ(''JWT_SECRET'' := None)"]
    load_config_iff [of "ex_environ(''DB_PASSWORD'' := None, ''JWT_SECRET'' := None)"]
  by (simp add: Getenv_def ex_environ_def)

theorem production_secret_is_configured_witness:
  "jwt_secret (mem_auth_env\<lparr>ae_JWT_SECRET := ''s3cret''\<rparr>) = ''s3cret''"
proof -
  have "IsProduction (read_config ex_environ)" by (simp only: IsProduction_def read_config_fields ex_environ_vars)
  moreover have "ae_JWT_SECRET (mem_auth_env\<lparr>ae_JWT_SECRET := ''s3cret''\<rparr>) = Getenv ex_environ ''JWT_SECRET''"
    by (simp add: ex_environ_vars)
  ultimately show ?thesis using production_secret_is_configured [OF ex_environ_loads] ex_environ_vars(2) by metis
qed

end
