(* ===== verification/Startup.thy ===== *)
theory Startup
  imports Config UnifiedManager Gin
begin

text \<open>
  How the server starts and stops: the connection (\<^verbatim>\<open>backend/internal/repositories/database.go\<close>), the pool of
  \<^verbatim>\<open>backend/internal/database/pool.go\<close>, the migrations (\<^verbatim>\<open>backend/internal/repositories/migrate.go\<close>) and the
  application of \<^verbatim>\<open>backend/main.go\<close>. The database driver and the migration library are the parameter \<open>D\<close> on a state
  \<open>'d\<close>; an error that the code returns or wraps is kept with its source.
\<close>

section \<open>The connection pool of database/sql\<close>

text \<open>
  The limits of a pool: the numbers of open (0: unlimited) and of idle connections, and the two durations. A new
  pool keeps two idle connections.
\<close>

record pool_limits =
  pl_MaxOpen :: int
  pl_MaxIdle :: int
  pl_Lifetime :: duration
  pl_IdleTime :: duration

definition new_pool :: pool_limits where
  "new_pool = \<lparr>pl_MaxOpen = 0, pl_MaxIdle = 2, pl_Lifetime = 0, pl_IdleTime = 0\<rparr>"

definition SetMaxIdleConns :: "int \<Rightarrow> pool_limits \<Rightarrow> pool_limits" where
  "SetMaxIdleConns n p =
     (let idle = max 0 n in p\<lparr>pl_MaxIdle := (if pl_MaxOpen p > 0 \<and> idle > pl_MaxOpen p then pl_MaxOpen p else idle)\<rparr>)"

definition SetMaxOpenConns :: "int \<Rightarrow> pool_limits \<Rightarrow> pool_limits" where
  "SetMaxOpenConns n p =
     (let p1 = p\<lparr>pl_MaxOpen := max 0 n\<rparr>
      in if pl_MaxOpen p1 > 0 \<and> pl_MaxIdle p1 > pl_MaxOpen p1 then SetMaxIdleConns n p1 else p1)"

definition SetConnMaxLifetime :: "duration \<Rightarrow> pool_limits \<Rightarrow> pool_limits" where
  "SetConnMaxLifetime d p = p\<lparr>pl_Lifetime := max 0 d\<rparr>"

definition SetConnMaxIdleTime :: "duration \<Rightarrow> pool_limits \<Rightarrow> pool_limits" where
  "SetConnMaxIdleTime d p = p\<lparr>pl_IdleTime := max 0 d\<rparr>"

lemmas pool_defs = SetMaxIdleConns_def SetMaxOpenConns_def SetConnMaxLifetime_def SetConnMaxIdleTime_def Let_def

section \<open>Driver and migration library\<close>

datatype migration_error = ErrNilVersion | ErrNoChange | MigrationError string

record 'd db_lib =
  dl_Open :: "string \<Rightarrow> 'd \<Rightarrow> string option \<times> 'd"
  dl_DB :: "'d \<Rightarrow> string option"
  dl_Ping :: "'d \<Rightarrow> string option \<times> 'd"
  dl_Close :: "'d \<Rightarrow> string option \<times> 'd"
  dl_WithInstance :: "string \<Rightarrow> 'd \<Rightarrow> string option \<times> 'd"
  dl_NewMigrate :: "string \<Rightarrow> string \<Rightarrow> 'd \<Rightarrow> string option \<times> 'd"
  dl_Version :: "'d \<Rightarrow> migration_error + nat \<times> bool"
  dl_Up :: "'d \<Rightarrow> migration_error option \<times> 'd"
  dl_Steps :: "int \<Rightarrow> 'd \<Rightarrow> migration_error option \<times> 'd"

datatype startup_error =
    OpenFailed string
  | NoInstance string
  | PingFailed string
  | NotReady int
  | DriverFailed string
  | NoMigrator string
  | UpFailed migration_error
  | VersionFailed migration_error
  | StepFailed migration_error
  | CloseFailed string
  | NilConnection

section \<open>Connecting\<close>

definition Connect :: "'d db_lib \<Rightarrow> connection_config \<Rightarrow> 'd \<Rightarrow> (startup_error + pool_limits) \<times> 'd" where
  "Connect D cfg d =
     (case dl_Open D (connect_dsn cfg) d of
        (Some e, d1) \<Rightarrow> (Inl (OpenFailed e), d1)
      | (None, d1) \<Rightarrow>
          (case dl_DB D d1 of
             Some e \<Rightarrow> (Inl (NoInstance e), d1)
           | None \<Rightarrow>
               (let p = SetConnMaxLifetime (cc_ConnMaxLifetime cfg)
                          (SetMaxIdleConns (cc_MaxIdleConns cfg) (SetMaxOpenConns (cc_MaxOpenConns cfg) new_pool))
                in case dl_Ping D d1 of
                     (Some e, d2) \<Rightarrow> (Inl (PingFailed e), d2)
                   | (None, d2) \<Rightarrow> (Inr p, d2))))"

text \<open>\<open>NewDatabaseConnection\<close> ends the process when the connection cannot be opened.\<close>

definition NewDatabaseConnection :: "'d db_lib \<Rightarrow> environ \<Rightarrow> 'd \<Rightarrow> pool_limits option \<times> 'd" where
  "NewDatabaseConnection D env d =
     (case dl_Open D (connection_dsn env) d of (Some e, d1) \<Rightarrow> (None, d1) | (None, d1) \<Rightarrow> (Some new_pool, d1))"

record pool_config =
  pc_DSN :: string
  pc_MaxOpenConns :: int
  pc_MaxIdleConns :: int
  pc_ConnMaxLifetime :: duration
  pc_ConnMaxIdleTime :: duration

definition DefaultPoolConfig :: pool_config where
  "DefaultPoolConfig = \<lparr>pc_DSN = '''', pc_MaxOpenConns = 25, pc_MaxIdleConns = 10, pc_ConnMaxLifetime = hour,
     pc_ConnMaxIdleTime = 30 * minute\<rparr>"

record database_pool =
  dp_limits :: "pool_limits option"
  dp_config :: pool_config

definition NewDatabasePool :: "'d db_lib \<Rightarrow> pool_config option \<Rightarrow> 'd \<Rightarrow> (startup_error + database_pool) \<times> 'd" where
  "NewDatabasePool D config0 d =
     (let config = (case config0 of None \<Rightarrow> DefaultPoolConfig | Some c \<Rightarrow> c)
      in case dl_Open D (pc_DSN config) d of
           (Some e, d1) \<Rightarrow> (Inl (OpenFailed e), d1)
         | (None, d1) \<Rightarrow>
             (case dl_DB D d1 of
                Some e \<Rightarrow> (Inl (NoInstance e), d1)
              | None \<Rightarrow>
                  (let p = SetConnMaxIdleTime (pc_ConnMaxIdleTime config) (SetConnMaxLifetime (pc_ConnMaxLifetime config)
                             (SetMaxIdleConns (pc_MaxIdleConns config) (SetMaxOpenConns (pc_MaxOpenConns config) new_pool)))
                   in case dl_Ping D d1 of
                        (Some e, d2) \<Rightarrow> (Inl (PingFailed e), d2)
                      | (None, d2) \<Rightarrow> (Inr \<lparr>dp_limits = Some p, dp_config = config\<rparr>, d2))))"

definition pool_Health :: "'d db_lib \<Rightarrow> database_pool \<Rightarrow> 'd \<Rightarrow> startup_error option \<times> 'd" where
  "pool_Health D p d =
     (if dp_limits p = None then (Some NilConnection, d)
      else case dl_DB D d of
             Some e \<Rightarrow> (Some (NoInstance e), d)
           | None \<Rightarrow> (case dl_Ping D d of (e, d1) \<Rightarrow> (map_option PingFailed e, d1)))"

text \<open>The statistics of a \<open>sql.DB\<close>, and what \<open>Stats\<close> reports of them: the wait in milliseconds.\<close>

record sql_stats =
  sq_MaxOpenConnections :: int
  sq_OpenConnections :: int
  sq_InUse :: int
  sq_Idle :: int
  sq_WaitCount :: int64
  sq_WaitDuration :: duration
  sq_MaxIdleClosed :: int64
  sq_MaxIdleTimeClosed :: int64
  sq_MaxLifetimeClosed :: int64

definition pool_Stats :: "'d db_lib \<Rightarrow> ('d \<Rightarrow> sql_stats) \<Rightarrow> database_pool \<Rightarrow> 'd \<Rightarrow> startup_error + sql_stats" where
  "pool_Stats D sqlStats p d =
     (if dp_limits p = None then Inl NilConnection
      else case dl_DB D d of
             Some e \<Rightarrow> Inl (NoInstance e)
           | None \<Rightarrow> (let stats = sqlStats d in Inr (stats\<lparr>sq_WaitDuration := go_div (sq_WaitDuration stats) 1000000\<rparr>)))"

definition pool_Close :: "'d db_lib \<Rightarrow> database_pool \<Rightarrow> 'd \<Rightarrow> startup_error option \<times> 'd" where
  "pool_Close D p d =
     (if dp_limits p = None then (None, d)
      else case dl_DB D d of
             Some e \<Rightarrow> (Some (NoInstance e), d)
           | None \<Rightarrow> (case dl_Close D d of (e, d1) \<Rightarrow> (map_option CloseFailed e, d1)))"

section \<open>Migrations\<close>

record migration_config =
  mgc_Path :: string
  mgc_DBName :: string
  mgc_MaxRetries :: int
  mgc_RetryDelay :: duration

definition DefaultMigrationConfig :: migration_config where
  "DefaultMigrationConfig = \<lparr>mgc_Path = ''file://migrations'', mgc_DBName = ''task_manager'', mgc_MaxRetries = 3,
     mgc_RetryDelay = 2 * second\<rparr>"

text \<open>
  The loop of \<open>waitForDatabase\<close> with \<open>n\<close> attempts left; the third component is the time it slept. After the last
  attempt it does not sleep.
\<close>

fun ping_loop :: "'d db_lib \<Rightarrow> duration \<Rightarrow> nat \<Rightarrow> 'd \<Rightarrow> bool \<times> duration \<times> 'd" where
  "ping_loop D retryDelay 0 d = (False, 0, d)"
| "ping_loop D retryDelay (Suc n) d =
     (case dl_Ping D d of
        (None, d1) \<Rightarrow> (True, 0, d1)
      | (Some _, d1) \<Rightarrow> (case ping_loop D retryDelay n d1 of
                           (ok, slept, d2) \<Rightarrow> (ok, (if n > 0 then max 0 retryDelay else 0) + slept, d2)))"

definition waitForDatabase :: "'d db_lib \<Rightarrow> int \<Rightarrow> duration \<Rightarrow> 'd \<Rightarrow> startup_error option \<times> duration \<times> 'd" where
  "waitForDatabase D maxRetries retryDelay d =
     (case ping_loop D retryDelay (nat maxRetries) d of
        (ok, slept, d1) \<Rightarrow> (if ok then None else Some (NotReady maxRetries), slept, d1))"

definition open_migrator :: "'d db_lib \<Rightarrow> migration_config \<Rightarrow> 'd \<Rightarrow> startup_error option \<times> 'd" where
  "open_migrator D config d =
     (case dl_WithInstance D (mgc_DBName config) d of
        (Some e, d1) \<Rightarrow> (Some (DriverFailed e), d1)
      | (None, d1) \<Rightarrow> (case dl_NewMigrate D (mgc_Path config) (mgc_DBName config) d1 of
                         (e, d2) \<Rightarrow> (map_option NoMigrator e, d2)))"

definition RunMigrations :: "'d db_lib \<Rightarrow> migration_config option \<Rightarrow> 'd \<Rightarrow> startup_error option \<times> 'd" where
  "RunMigrations D config0 d =
     (let config = (case config0 of None \<Rightarrow> DefaultMigrationConfig | Some c \<Rightarrow> c)
      in case dl_DB D d of
           Some e \<Rightarrow> (Some (NoInstance e), d)
         | None \<Rightarrow>
             (case waitForDatabase D (mgc_MaxRetries config) (mgc_RetryDelay config) d of
                (Some e, _, d1) \<Rightarrow> (Some e, d1)
              | (None, _, d1) \<Rightarrow>
                  (case open_migrator D config d1 of
                     (Some e, d2) \<Rightarrow> (Some e, d2)
                   | (None, d2) \<Rightarrow>
                       (case dl_Up D d2 of
                          (Some ErrNoChange, d3) \<Rightarrow> (None, d3)
                        | (Some e, d3) \<Rightarrow> (Some (UpFailed e), d3)
                        | (None, d3) \<Rightarrow> (case dl_Version D d3 of Inl e \<Rightarrow> (Some (VersionFailed e), d3) | Inr _ \<Rightarrow> (None, d3))))))"

definition RollbackMigration :: "'d db_lib \<Rightarrow> migration_config option \<Rightarrow> 'd \<Rightarrow> startup_error option \<times> 'd" where
  "RollbackMigration D config0 d =
     (let config = (case config0 of None \<Rightarrow> DefaultMigrationConfig | Some c \<Rightarrow> c)
      in case dl_DB D d of
           Some e \<Rightarrow> (Some (NoInstance e), d)
         | None \<Rightarrow>
             (case open_migrator D config d of
                (Some e, d2) \<Rightarrow> (Some e, d2)
              | (None, d2) \<Rightarrow> (case dl_Steps D (-1) d2 of (e, d3) \<Rightarrow> (map_option StepFailed e, d3))))"

definition GetMigrationVersion :: "'d db_lib \<Rightarrow> migration_config option \<Rightarrow> 'd \<Rightarrow> (startup_error + nat \<times> bool) \<times> 'd" where
  "GetMigrationVersion D config0 d =
     (let config = (case config0 of None \<Rightarrow> DefaultMigrationConfig | Some c \<Rightarrow> c)
      in case dl_DB D d of
           Some e \<Rightarrow> (Inl (NoInstance e), d)
         | None \<Rightarrow>
             (case open_migrator D config d of
                (Some e, d2) \<Rightarrow> (Inl e, d2)
              | (None, d2) \<Rightarrow> (case dl_Version D d2 of Inl e \<Rightarrow> (Inl (VersionFailed e), d2) | Inr v \<Rightarrow> (Inr v, d2))))"

text \<open>
  \<open>logMigrationDetails\<close>: the number of records and the names of the tables it prints; a row that does not scan
  is skipped. \<open>RunMigrations\<close> prints its error and goes on.
\<close>

definition logMigrationDetails ::
  "('d \<Rightarrow> string + int) \<Rightarrow> ('d \<Rightarrow> string + string option list) \<Rightarrow> 'd \<Rightarrow> string + int \<times> string list" where
  "logMigrationDetails count_records table_rows d =
     (case count_records d of
        Inl err \<Rightarrow> Inl err
      | Inr n \<Rightarrow> (case table_rows d of Inl err \<Rightarrow> Inl err | Inr rows \<Rightarrow> Inr (n, [t. Some t \<leftarrow> rows])))"

section \<open>The application\<close>

text \<open>The configuration of a Redis cache, and the two caches the application chooses between.\<close>

record redis_cache_config =
  rcc_Addr :: string
  rcc_Password :: string
  rcc_DB :: int
  rcc_PoolSize :: int
  rcc_MinIdleConns :: int
  rcc_MaxRetries :: int
  rcc_DialTimeout :: duration
  rcc_ReadTimeout :: duration
  rcc_WriteTimeout :: duration

definition DefaultCacheConfig :: redis_cache_config where
  "DefaultCacheConfig = \<lparr>rcc_Addr = ''localhost:6379'', rcc_Password = '''', rcc_DB = 0, rcc_PoolSize = 10, rcc_MinIdleConns = 5,
     rcc_MaxRetries = 3, rcc_DialTimeout = 5 * second, rcc_ReadTimeout = 3 * second, rcc_WriteTimeout = 3 * second\<rparr>"

text \<open>\<open>newClient\<close> is \<open>redis.NewClient\<close>.\<close>

definition NewRedisCache :: "(redis_cache_config \<Rightarrow> 'r) \<Rightarrow> redis_cache_config option \<Rightarrow> 'r" where
  "NewRedisCache newClient config = newClient (case config of None \<Rightarrow> DefaultCacheConfig | Some c \<Rightarrow> c)"

datatype app_cache = MultiLevelOver redis_cache_config | RedisCacheAt redis_cache_config

definition redis_options :: "config \<Rightarrow> redis_cache_config" where
  "redis_options cfg = \<lparr>rcc_Addr = GetRedisAddr cfg, rcc_Password = rdc_Password (cf_Redis cfg), rcc_DB = rdc_DB (cf_Redis cfg),
     rcc_PoolSize = rdc_PoolSize (cf_Redis cfg), rcc_MinIdleConns = rdc_MinIdleConns (cf_Redis cfg),
     rcc_MaxRetries = rdc_MaxRetries (cf_Redis cfg), rcc_DialTimeout = rdc_DialTimeout (cf_Redis cfg),
     rcc_ReadTimeout = rdc_ReadTimeout (cf_Redis cfg), rcc_WriteTimeout = rdc_WriteTimeout (cf_Redis cfg)\<rparr>"

datatype task_service_kind = CachedService | PlainService

record ('w, 'o, 'e, 'c) application =
  app_Config :: config
  app_Limits :: pool_limits
  app_Redis :: bool
  app_Cache :: app_cache
  app_Manager :: "('w, 'o, 'e, 'c) cache_manager option"
  app_TaskService :: task_service_kind

definition startup_strategy :: "('w, 'v) warmup_strategy" where
  "startup_strategy = \<lparr>ws_Jobs = [], ws_BatchSize = 50, ws_ConcurrentJobs = 5, ws_WarmupInterval = 15 * minute,
     ws_HealthCheckFunc = None, ws_UseWorkerPool = True, ws_UseScheduler = True\<rparr>"

definition startup_warming :: "'r job_redis option \<Rightarrow> ('w, 'o, 'r) warming_config" where
  "startup_warming redisClient = \<lparr>wc_Mode = ModeAuto, wc_RedisClient = redisClient, wc_Strategy = Some startup_strategy, wc_EnableMetrics = True,
     wc_PreferDistributed = False, wc_LocalFallback = True, wc_DistributedThreshold = 0, wc_MaxRetries = 3\<rparr>"

definition startup_migrations :: "config \<Rightarrow> migration_config" where
  "startup_migrations cfg = \<lparr>mgc_Path = ''file://migrations'', mgc_DBName = dc_Name (cf_Database cfg), mgc_MaxRetries = 3,
     mgc_RetryDelay = 2 * second\<rparr>"

definition configure_pool :: "config \<Rightarrow> pool_limits \<Rightarrow> pool_limits" where
  "configure_pool cfg p =
     SetConnMaxIdleTime (dc_ConnMaxIdleTime (cf_Database cfg)) (SetConnMaxLifetime (dc_ConnMaxLifetime (cf_Database cfg))
       (SetMaxIdleConns (dc_MaxIdleConns (cf_Database cfg)) (SetMaxOpenConns (dc_MaxOpenConns (cf_Database cfg)) p)))"

text \<open>
  The part of \<open>initializeApplication\<close> after the database: \<open>R\<close> is the client for the configured address,
  \<open>mk\<close> the state of a new cache, \<open>health\<close> its method \<open>Health\<close>. \<open>None\<close> in place of an application is a panic.
\<close>

definition init_caches ::
  "'r job_redis \<Rightarrow> (app_cache \<Rightarrow> 'c) \<Rightarrow> ('w \<Rightarrow> bool) option \<Rightarrow> instant \<Rightarrow> config \<Rightarrow> pool_limits \<Rightarrow> 'r \<Rightarrow>
   (('w, 'o, 'e, 'c) application option \<times> 'r) list" where
  "init_caches R mk health now cfg limits r =
     (let (ping, r1) = jr_Ping R r;
          redisClient = (if ping = None then Some R else None);
          cache = (if ping = None then MultiLevelOver (redis_options cfg) else RedisCacheAt DefaultCacheConfig);
          service = (case cache of MultiLevelOver _ \<Rightarrow> CachedService | RedisCacheAt _ \<Rightarrow> PlainService);
          (manager, r2) = NewUnifiedCacheManager (mk cache) health (Some (startup_warming redisClient)) r1
      in map (\<lambda>(x, manager', r3).
           (case x of
              Crash \<Rightarrow> None
            | Done err \<Rightarrow> Some \<lparr>app_Config = cfg, app_Limits = limits, app_Redis = (ping = None), app_Cache = cache,
                app_Manager = (if err = None then Some manager' else None), app_TaskService = service\<rparr>, r3))
           (ucm_Start now manager r2))"

definition init_database :: "'d db_lib \<Rightarrow> environ \<Rightarrow> config \<Rightarrow> 'd \<Rightarrow> (startup_error + pool_limits) \<times> 'd" where
  "init_database D env cfg d =
     (case Connect D (NewDatabaseConfig env) d of
        (Inl e, d1) \<Rightarrow> (Inl e, d1)
      | (Inr p, d1) \<Rightarrow>
          (case dl_DB D d1 of
             Some e \<Rightarrow> (Inl (NoInstance e), d1)
           | None \<Rightarrow> (case RunMigrations D (Some (startup_migrations cfg)) d1 of
                        (Some e, d2) \<Rightarrow> (Inl e, d2)
                      | (None, d2) \<Rightarrow> (Inr (configure_pool cfg p), d2))))"

definition initializeApplication ::
  "'d db_lib \<Rightarrow> 'r job_redis \<Rightarrow> (app_cache \<Rightarrow> 'c) \<Rightarrow> ('w \<Rightarrow> bool) option \<Rightarrow> instant \<Rightarrow> environ \<Rightarrow> config \<Rightarrow> 'd \<Rightarrow> 'r \<Rightarrow>
   ((startup_error + ('w, 'o, 'e, 'c) application option) \<times> 'd \<times> 'r) list" where
  "initializeApplication D R mk health now env cfg d r =
     (case init_database D env cfg d of
        (Inl e, d1) \<Rightarrow> [(Inl e, d1, r)]
      | (Inr limits, d1) \<Rightarrow> map (\<lambda>(app, r'). (Inr app, d1, r')) (init_caches R mk health now cfg limits r))"

text \<open>
  \<open>main\<close> up to \<open>startServer\<close>: it exits with a message, panics, or serves the application, in Gin's release mode or not.
\<close>

datatype 'app main_result = Main_config config_error | Main_init startup_error | Main_panic | Main_serves bool 'app

definition main_start ::
  "'d db_lib \<Rightarrow> 'r job_redis \<Rightarrow> (app_cache \<Rightarrow> 'c) \<Rightarrow> ('w \<Rightarrow> bool) option \<Rightarrow> instant \<Rightarrow> environ \<Rightarrow> 'd \<Rightarrow> 'r \<Rightarrow>
   (('w, 'o, 'e, 'c) application main_result \<times> 'd \<times> 'r) list" where
  "main_start D R mk health now env d r =
     (case LoadConfig env of
        Inl e \<Rightarrow> [(Main_config e, d, r)]
      | Inr cfg \<Rightarrow>
          map (\<lambda>(x, s). (case x of Inl e \<Rightarrow> Main_init e | Inr None \<Rightarrow> Main_panic | Inr (Some app) \<Rightarrow> Main_serves (IsProduction cfg) app, s))
            (initializeApplication D R mk health now env cfg d r))"

section \<open>Health\<close>

record health_reply =
  hr_database :: string
  hr_redis :: "string option"

definition healthHandler :: "'d db_lib \<Rightarrow> 'r job_redis \<Rightarrow> bool \<Rightarrow> 'd \<Rightarrow> 'r \<Rightarrow> (nat \<times> health_reply) \<times> 'd \<times> 'r" where
  "healthHandler D R hasRedis d r =
     (let (up, d1) = (case dl_DB D d of Some _ \<Rightarrow> (False, d) | None \<Rightarrow> (case dl_Ping D d of (e, d1) \<Rightarrow> (e = None, d1)))
      in if \<not> up then ((503, \<lparr>hr_database = ''down'', hr_redis = None\<rparr>), d1, r)
         else if hasRedis
         then (case jr_Ping R r of (e, r1) \<Rightarrow>
                 ((200, \<lparr>hr_database = ''up'', hr_redis = Some (if e = None then ''up'' else ''down'')\<rparr>), d1, r1))
         else ((200, \<lparr>hr_database = ''up'', hr_redis = None\<rparr>), d1, r))"

definition readinessHandler :: "'d db_lib \<Rightarrow> 'd \<Rightarrow> (nat \<times> bool) \<times> 'd" where
  "readinessHandler D d =
     (case dl_DB D d of
        Some _ \<Rightarrow> ((503, False), d)
      | None \<Rightarrow> (case dl_Ping D d of (Some _, d1) \<Rightarrow> ((503, False), d1) | (None, d1) \<Rightarrow> ((200, True), d1)))"

section \<open>Shutting down\<close>

text \<open>
  \<open>cleanup\<close> as the list of what it closes; an error of one is only logged, a panic of the manager (\<open>stop_panics\<close>)
  ends the process.
\<close>

datatype close_action = StopManager | CloseCache | CloseRedis | CloseDB

definition cleanup :: "bool \<Rightarrow> ('w, 'o, 'e, 'c) application \<Rightarrow> close_action list" where
  "cleanup dbOk app =
     (if app_Manager app \<noteq> None then [StopManager] else []) @ [CloseCache] @ (if app_Redis app then [CloseRedis] else []) @
     (if dbOk then [CloseDB] else [])"

text \<open>
  \<open>startServer\<close> with its two goroutines. The main one is in \<open>ListenAndServe\<close>, which ends with \<open>ErrServerClosed\<close> as soon
  as \<open>Shutdown\<close> has closed the listeners; then \<open>startServer\<close> and \<open>main\<close> return and the process is over. The other
  one waits for a signal, calls \<open>Shutdown\<close>, which waits for the requests, and cleans up.
\<close>

datatype main_pc = Serving | Exited | Fatal

datatype signal_pc = Waiting | ShuttingDown | Cleaning "close_action list" | Finished

record server_state =
  ss_main :: main_pc
  ss_signal :: signal_pc
  ss_closed :: "close_action list"

definition server_init :: server_state where
  "server_init = \<lparr>ss_main = Serving, ss_signal = Waiting, ss_closed = []\<rparr>"

inductive server_step :: "close_action list \<Rightarrow> server_state \<Rightarrow> server_state \<Rightarrow> bool" for actions where
  sv_fail: "\<lbrakk> ss_main s = Serving; ss_signal s = Waiting \<rbrakk> \<Longrightarrow> server_step actions s (s\<lparr>ss_main := Fatal\<rparr>)"
| sv_signal: "\<lbrakk> ss_main s = Serving; ss_signal s = Waiting \<rbrakk> \<Longrightarrow> server_step actions s (s\<lparr>ss_signal := ShuttingDown\<rparr>)"
| sv_return: "\<lbrakk> ss_main s = Serving; ss_signal s \<noteq> Waiting \<rbrakk> \<Longrightarrow> server_step actions s (s\<lparr>ss_main := Exited\<rparr>)"
| sv_drained: "\<lbrakk> ss_main s = Serving; ss_signal s = ShuttingDown \<rbrakk> \<Longrightarrow> server_step actions s (s\<lparr>ss_signal := Cleaning actions\<rparr>)"
| sv_close: "\<lbrakk> ss_main s = Serving; ss_signal s = Cleaning (a # as) \<rbrakk>
    \<Longrightarrow> server_step actions s (s\<lparr>ss_signal := Cleaning as, ss_closed := ss_closed s @ [a]\<rparr>)"
| sv_finish: "\<lbrakk> ss_main s = Serving; ss_signal s = Cleaning [] \<rbrakk> \<Longrightarrow> server_step actions s (s\<lparr>ss_signal := Finished\<rparr>)"

section \<open>Properties\<close>

text \<open>
  The last settings win: the limits of the pool after the start are those of the loaded configuration whatever the
  connection had set before, and never more idle than open connections are allowed.
\<close>

theorem configured_limits_win:
  "configure_pool cfg p =
     \<lparr>pl_MaxOpen = max 0 (dc_MaxOpenConns (cf_Database cfg)),
      pl_MaxIdle = (if dc_MaxOpenConns (cf_Database cfg) > 0
        then min (dc_MaxOpenConns (cf_Database cfg)) (max 0 (dc_MaxIdleConns (cf_Database cfg)))
        else max 0 (dc_MaxIdleConns (cf_Database cfg))),
      pl_Lifetime = max 0 (dc_ConnMaxLifetime (cf_Database cfg)), pl_IdleTime = max 0 (dc_ConnMaxIdleTime (cf_Database cfg))\<rparr>"
  by (cases p) (auto simp: configure_pool_def pool_defs)

lemma ping_loop_ok:
  "fst (ping_loop D retryDelay n d) \<longleftrightarrow> (\<exists>k < n. fst (dl_Ping D (((\<lambda>d. snd (dl_Ping D d)) ^^ k) d)) = None)"
proof (induction n arbitrary: d)
  case (Suc n)
  obtain e d1 where p: "dl_Ping D d = (e, d1)" by fastforce
  have "(\<exists>k < Suc n. fst (dl_Ping D (((\<lambda>d. snd (dl_Ping D d)) ^^ k) d)) = None) \<longleftrightarrow>
      e = None \<or> (\<exists>k < n. fst (dl_Ping D (((\<lambda>d. snd (dl_Ping D d)) ^^ k) d1)) = None)"
    by (subst Ex_less_Suc2) (simp add: p funpow_Suc_right del: funpow.simps(2))
  then show ?case using Suc.IH [of d1] p by (cases e) (auto split: prod.splits)
qed simp

lemma ping_loop_slept: "fst (snd (ping_loop D retryDelay n d)) \<le> int (n - 1) * max 0 retryDelay"
proof (induction n arbitrary: d)
  case (Suc n)
  obtain e d1 where p: "dl_Ping D d = (e, d1)" by fastforce
  obtain ok slept d2 where l: "ping_loop D retryDelay n d1 = (ok, slept, d2)" by (cases "ping_loop D retryDelay n d1")
  have "slept \<le> int (n - 1) * max 0 retryDelay" using Suc.IH [of d1] l by simp
  then show ?case using p l by (cases e; cases n) (simp_all add: algebra_simps)
qed simp

text \<open>
  The server waits for the database at most so long: the wait succeeds exactly when one of the first
  \<open>maxRetries\<close> pings does, and it sleeps at most between two of them.
\<close>

theorem wait_is_bounded:
  "(fst (waitForDatabase D maxRetries retryDelay d) = None \<longleftrightarrow>
      (\<exists>k < nat maxRetries. fst (dl_Ping D (((\<lambda>d. snd (dl_Ping D d)) ^^ k) d)) = None)) \<and>
   fst (snd (waitForDatabase D maxRetries retryDelay d)) \<le> int (nat maxRetries - 1) * max 0 retryDelay"
proof -
  let ?l = "ping_loop D retryDelay (nat maxRetries) d"
  have 1: "fst (waitForDatabase D maxRetries retryDelay d) = None \<longleftrightarrow> fst ?l"
    and 2: "fst (snd (waitForDatabase D maxRetries retryDelay d)) = fst (snd ?l)"
    by (simp_all only: waitForDatabase_def case_prod_beta fst_conv snd_conv) simp
  show ?thesis unfolding 1 2 by (rule conjI [OF ping_loop_ok ping_loop_slept])
qed

text \<open>A new manager starts.\<close>

lemma fresh_warmer_starts:
  assumes "\<not> cw_running cw" "\<not> cw_panicked cw" "cw_priorityQueue cw \<noteq> None"
  shows "cw_running (snd (cw_Start now cw)) \<and> \<not> cw_panicked (snd (cw_Start now cw))"
  using assms by (cases "ws_UseScheduler (cw_strategy cw)"; cases "cw_scheduler cw") (auto simp: cw_Start_def Let_def)

lemma new_warmer_fresh:
  "\<not> cw_running (NewCacheWarmer c health strategy)" "\<not> cw_panicked (NewCacheWarmer c health strategy)"
  "cw_priorityQueue (NewCacheWarmer c health strategy) \<noteq> None"
  by (simp_all add: NewCacheWarmer_def Let_def)

lemma new_manager_starts:
  fixes m :: "('w, 'o, 'e, 'c) cache_manager"
  assumes "NewUnifiedCacheManager c health config r = (m, r1)"
  shows "\<exists>m'. ucm_Start now m r1 = [(Done None, m', r1)] \<and> manager_started m' \<and> ucm_useIntegrated m' = ucm_useIntegrated m"
proof -
  define cfg where "cfg = (case config of None \<Rightarrow> default_config | Some c \<Rightarrow> c)"
  obtain mode r0 where dm: "determineMode cfg r = (mode, r0)" by fastforce
  show ?thesis
  proof (cases "mode = ModeLegacy")
    case True
    define cw :: "('w, 'o go_value, 'e, 'c) cache_warmer" where "cw = NewCacheWarmer c health (wc_Strategy cfg)"
    have m: "m = \<lparr>ucm_integratedWarmer = None, ucm_legacyWarmer = Some cw, ucm_useIntegrated = False\<rparr>"
      using assms dm True by (simp add: NewUnifiedCacheManager_def cfg_def [symmetric] cw_def [symmetric])
    have "cw_running (snd (cw_Start now cw)) \<and> \<not> cw_panicked (snd (cw_Start now cw))"
      unfolding cw_def by (rule fresh_warmer_starts [OF new_warmer_fresh])
    then show ?thesis by (simp add: m ucm_Start_def on_legacy_def manager_started_def)
  next
    case False
    obtain icw :: "('w, 'o, 'e, 'c) integrated_warmer" and r2 where n: "NewIntegratedCacheWarmer c (wc_RedisClient cfg) (wc_Strategy cfg) r0 = (icw, r2)" by fastforce
    have m: "m = \<lparr>ucm_integratedWarmer = Some icw, ucm_legacyWarmer = None, ucm_useIntegrated = True\<rparr>"
      using assms dm False n by (simp add: NewUnifiedCacheManager_def cfg_def [symmetric])
    have "\<not> icw_running icw" using n by (auto simp: NewIntegratedCacheWarmer_def Let_def split: prod.splits)
    then show ?thesis by (simp add: m ucm_Start_def on_integrated_def manager_started_def icw_Start_def)
  qed
qed

lemma integrated_needs_redis:
  assumes "NewUnifiedCacheManager c health (Some (startup_warming redisClient)) r = (m, r1)" and "ucm_useIntegrated m"
  shows "redisClient \<noteq> None"
  using assms by (cases redisClient) (auto simp: NewUnifiedCacheManager_def determineMode_def startup_warming_def Let_def)

lemma init_caches_result:
  "\<exists>(m :: ('w, 'o, 'e, 'c) cache_manager) r'. init_caches R mk health now cfg limits r =
     [(Some \<lparr>app_Config = cfg, app_Limits = limits, app_Redis = (fst (jr_Ping R r) = None),
         app_Cache = (if fst (jr_Ping R r) = None then MultiLevelOver (redis_options cfg) else RedisCacheAt DefaultCacheConfig),
         app_Manager = Some m, app_TaskService = (if fst (jr_Ping R r) = None then CachedService else PlainService)\<rparr>, r')] \<and>
     manager_started m \<and> (ucm_useIntegrated m \<longrightarrow> fst (jr_Ping R r) = None)"
proof -
  obtain ping r1 where p: "jr_Ping R r = (ping, r1)" by fastforce
  let ?client = "if ping = None then Some R else None"
  let ?cache = "if ping = None then MultiLevelOver (redis_options cfg) else RedisCacheAt DefaultCacheConfig"
  obtain m :: "('w, 'o, 'e, 'c) cache_manager" and r2
    where m: "NewUnifiedCacheManager (mk ?cache) health (Some (startup_warming ?client)) r1 = (m, r2)" by fastforce
  obtain m' where s: "ucm_Start now m r2 = [(Done None, m', r2)]" "manager_started m'" "ucm_useIntegrated m' = ucm_useIntegrated m"
    using new_manager_starts [OF m] by blast
  have i: "ucm_useIntegrated m' \<longrightarrow> ping = None" using integrated_needs_redis [OF m] s(3) by (auto split: if_splits)
  have "init_caches R mk health now cfg limits r = [(Some \<lparr>app_Config = cfg, app_Limits = limits, app_Redis = (ping = None),
      app_Cache = ?cache, app_Manager = Some m', app_TaskService = (if ping = None then CachedService else PlainService)\<rparr>, r2)]"
  proof (cases "ping = None")
    case True
    then show ?thesis using m s(1) by (simp add: init_caches_def p)
  next
    case False
    then show ?thesis using m s(1) by (simp add: init_caches_def p)
  qed
  then show ?thesis using s(2) i p by auto
qed

lemma init_database_limits: "init_database D env cfg d = (Inr limits, d1) \<Longrightarrow> \<exists>p. limits = configure_pool cfg p"
  by (auto simp: init_database_def split: prod.splits sum.splits option.splits)

lemma init_result:
  fixes x :: "('w, 'o, 'e, 'c) application option"
  assumes "(Inr x, d', r') \<in> set (initializeApplication D R mk health now env cfg d r)"
  shows "\<exists>app manager limits. x = Some app \<and> app_Config app = cfg \<and> app_Limits app = configure_pool cfg limits \<and> (app_Redis app \<longleftrightarrow> fst (jr_Ping R r) = None) \<and>
    (app_TaskService app = CachedService \<longleftrightarrow> app_Redis app) \<and>
    app_Cache app = (if app_Redis app then MultiLevelOver (redis_options cfg) else RedisCacheAt DefaultCacheConfig) \<and>
    app_Manager app = Some manager \<and> manager_started manager \<and> (ucm_useIntegrated manager \<longrightarrow> app_Redis app)"
proof -
  obtain limits d1 where db: "init_database D env cfg d = (Inr limits, d1)" and l: "(x, r') \<in> set (init_caches R mk health now cfg limits r)"
    using assms by (cases "init_database D env cfg d") (auto simp: initializeApplication_def split: sum.splits)
  obtain p where p: "limits = configure_pool cfg p" using init_database_limits [OF db] by blast
  from init_caches_result [where 'w = 'w and 'o = 'o and 'e = 'e and R = R and mk = mk and health = health and now = now and cfg = cfg
      and limits = limits and r = r] l
  obtain m :: "('w, 'o, 'e, 'c) cache_manager" where x: "x = Some \<lparr>app_Config = cfg, app_Limits = limits, app_Redis = (fst (jr_Ping R r) = None),
      app_Cache = (if fst (jr_Ping R r) = None then MultiLevelOver (redis_options cfg) else RedisCacheAt DefaultCacheConfig),
      app_Manager = Some m, app_TaskService = (if fst (jr_Ping R r) = None then CachedService else PlainService)\<rparr>"
    and m: "manager_started m" "ucm_useIntegrated m \<longrightarrow> fst (jr_Ping R r) = None" by auto
  show ?thesis unfolding x by (rule exI, rule exI [of _ m], rule exI [of _ p], intro conjI, rule refl) (use m p in simp_all)
qed

text \<open>
  A start never panics, and it decides the shape of the application by one ping of Redis: with Redis the tasks are
  served through the two-level cache, without it directly; the cache manager always runs and uses Redis only
  if the ping succeeded.
\<close>

theorem startup_shape:
  fixes x :: "('w, 'o, 'e, 'c) application option"
  assumes "(Inr x, d', r') \<in> set (initializeApplication D R mk health now env cfg d r)"
  shows "\<exists>app manager. x = Some app \<and> (app_Redis app \<longleftrightarrow> fst (jr_Ping R r) = None) \<and>
    (app_TaskService app = CachedService \<longleftrightarrow> app_Redis app) \<and>
    app_Cache app = (if app_Redis app then MultiLevelOver (redis_options cfg) else RedisCacheAt DefaultCacheConfig) \<and>
    app_Manager app = Some manager \<and> manager_started manager \<and> (ucm_useIntegrated manager \<longrightarrow> app_Redis app)"
  using init_result [OF assms] by (elim exE conjE) (intro exI conjI, assumption+)

text \<open>
  C37: What \<open>main\<close> serves. When it gets as far as serving, the environment has passed the checks of \<open>LoadConfig\<close>; the server is
  in release mode exactly in production, and then its tokens are signed with the secret of the environment, neither
  empty nor the default. The limits of the connection pool are those of the configuration (the connection
  itself is opened from other variables). One ping decides the rest: if Redis answers it, the tasks go through the two-level cache
  with the configured client, otherwise to the database, while the manager gets a client with default
  settings. The cache manager runs, and no outcome of such a start is a panic.
\<close>

theorem main_serves_configured:
  fixes app :: "('w, 'o, 'e, 'c) application"
  assumes "(Main_serves release app, d', r') \<in> set (main_start D R mk health now env d r)"
    and "ae_JWT_SECRET A = Getenv env ''JWT_SECRET''"
  shows "LoadConfig env = Inr (app_Config app) \<and> release = (Getenv env ''ENVIRONMENT'' = ''production'') \<and>
    (release \<longrightarrow> jwt_secret A = Getenv env ''JWT_SECRET'' \<and> jwt_secret A \<noteq> [] \<and> jwt_secret A \<noteq> ''your-secret-key'') \<and>
    (let db = cf_Database (app_Config app); idle = max 0 (dc_MaxIdleConns db)
     in app_Limits app = \<lparr>pl_MaxOpen = max 0 (dc_MaxOpenConns db),
       pl_MaxIdle = (if dc_MaxOpenConns db > 0 then min (dc_MaxOpenConns db) idle else idle),
       pl_Lifetime = max 0 (dc_ConnMaxLifetime db), pl_IdleTime = max 0 (dc_ConnMaxIdleTime db)\<rparr>) \<and>
    (if fst (jr_Ping R r) = None
     then app_TaskService app = CachedService \<and> app_Cache app = MultiLevelOver (redis_options (app_Config app))
     else app_TaskService app = PlainService \<and> app_Cache app = RedisCacheAt DefaultCacheConfig) \<and>
    (\<exists>manager. app_Manager app = Some manager \<and> manager_started manager) \<and>
    Main_panic \<notin> fst ` set (main_start D R mk health now env d r :: (('w, 'o, 'e, 'c) application main_result \<times> 'd \<times> 'r) list)"
proof -
  obtain cfg where cfg: "LoadConfig env = Inr cfg" using assms(1) by (auto simp: main_start_def split: sum.splits)
  have x: "(Inr (Some app), d', r') \<in> set (initializeApplication D R mk health now env cfg d r)" "release = IsProduction cfg"
    using assms(1) by (auto simp: main_start_def cfg split: sum.splits option.splits)
  have np: "(Inr (None :: ('w, 'o, 'e, 'c) application option), d1, r1) \<notin> set (initializeApplication D R mk health now env cfg d r)" for d1 r1
  proof
    assume "(Inr (None :: ('w, 'o, 'e, 'c) application option), d1, r1) \<in> set (initializeApplication D R mk health now env cfg d r)"
    from init_result [OF this] show False by simp
  qed
  have "Main_panic \<notin> fst ` set (main_start D R mk health now env d r :: (('w, 'o, 'e, 'c) application main_result \<times> 'd \<times> 'r) list)"
    using np by (auto simp: main_start_def cfg split: sum.splits option.splits)
  moreover have "IsProduction cfg \<longleftrightarrow> Getenv env ''ENVIRONMENT'' = ''production''"
    using LoadConfig_Inr [OF cfg] by (simp only: IsProduction_def read_config_fields)
  moreover have "app_TaskService app = PlainService" if "app_TaskService app \<noteq> CachedService"
    using that by (cases "app_TaskService app") simp_all
  ultimately show ?thesis using init_result [OF x(1)] x(2) cfg production_secret [OF cfg _ assms(2)]
    by (auto simp: configured_limits_win Let_def)
qed

text \<open>
  The two probes agree: \<open>/health\<close> and \<open>/ready\<close> answer 200 exactly when the database answers a ping, whatever the
  state of Redis.
\<close>

theorem probes_agree:
  "fst (fst (healthHandler D R hasRedis d r)) = fst (fst (readinessHandler D d)) \<and>
   (fst (fst (readinessHandler D d)) = 200 \<longleftrightarrow> dl_DB D d = None \<and> fst (dl_Ping D d) = None)"
  by (auto simp: healthHandler_def readinessHandler_def split: option.splits prod.splits)

text \<open>The states of a server.\<close>

definition server_ok :: "close_action list \<Rightarrow> server_state \<Rightarrow> bool" where
  "server_ok actions s \<longleftrightarrow>
     (case ss_signal s of
        Waiting \<Rightarrow> ss_closed s = []
      | ShuttingDown \<Rightarrow> ss_closed s = []
      | Cleaning as \<Rightarrow> ss_closed s @ as = actions
      | Finished \<Rightarrow> ss_closed s = actions)"

lemma server_step_ok: "server_step actions s s' \<Longrightarrow> server_ok actions s \<Longrightarrow> server_ok actions s'"
  by (induction rule: server_step.induct) (auto simp: server_ok_def split: signal_pc.splits)

lemma server_init_ok: "server_ok actions server_init"
  by (simp add: server_ok_def server_init_def)

definition server_measure :: "close_action list \<Rightarrow> server_state \<Rightarrow> nat" where
  "server_measure actions s =
     (if ss_main s \<noteq> Serving then 0
      else Suc (case ss_signal s of Waiting \<Rightarrow> length actions + 3 | ShuttingDown \<Rightarrow> length actions + 2
                | Cleaning as \<Rightarrow> length as + 1 | Finished \<Rightarrow> 0))"

lemma server_step_smaller: "server_step actions s s' \<Longrightarrow> server_measure actions s' < server_measure actions s"
  by (induction rule: server_step.induct) (auto simp: server_measure_def)

lemma server_progress: "ss_main s = Serving \<Longrightarrow> \<exists>s'. server_step actions s s'"
  using sv_fail sv_return by blast

interpretation server: ending_runs "server_step actions" "server_ok actions" "\<lambda>s. ss_main s \<noteq> Serving" "server_measure actions"
  for actions
  by unfold_locales (blast intro: server_step_ok server_step_smaller server_progress)+

text \<open>The two goroutines of a server never wait for each other: \<open>main\<close> ends, in every schedule, within a bounded number of steps.\<close>

theorem server_ends:
  "(\<exists>s. (server_step actions)\<^sup>*\<^sup>* server_init s \<and> ss_main s \<noteq> Serving) \<and>
   (\<forall>f m. f 0 = server_init \<and> (\<forall>i < m. server_step actions (f i) (f (Suc i))) \<longrightarrow> m \<le> length actions + 4)"
proof (intro conjI allI impI)
  show "\<exists>s. (server_step actions)\<^sup>*\<^sup>* server_init s \<and> ss_main s \<noteq> Serving"
    by (rule server.reaches_final [OF server_init_ok])
  fix f m assume f: "f 0 = server_init \<and> (\<forall>i < m. server_step actions (f i) (f (Suc i)))"
  have "m + server_measure actions (f m) \<le> server_measure actions (f 0)"
    by (rule server.run_is_short) (use f server_init_ok in simp_all)
  then show "m \<le> length actions + 4" using f by (simp add: server_measure_def server_init_def)
qed

lemma server_reach_ok: "(server_step actions)\<^sup>*\<^sup>* server_init s \<Longrightarrow> server_ok actions s"
  by (rule server.along [OF _ server_init_ok])

lemma server_ok_prefix: "server_ok actions s \<Longrightarrow> (\<exists>rest. actions = ss_closed s @ rest) \<and> (ss_signal s = Waiting \<longrightarrow> ss_closed s = [])"
  by (cases "ss_signal s") (auto simp: server_ok_def)

lemma cleaning_reached:
  "k \<le> length actions \<Longrightarrow>
   (server_step actions)\<^sup>*\<^sup>* server_init \<lparr>ss_main = Serving, ss_signal = Cleaning (drop k actions), ss_closed = take k actions\<rparr>"
proof (induction k)
  case 0
  have "server_step actions server_init (server_init\<lparr>ss_signal := ShuttingDown\<rparr>)" by (rule sv_signal) (simp_all add: server_init_def)
  moreover have "server_step actions (server_init\<lparr>ss_signal := ShuttingDown\<rparr>)
      (server_init\<lparr>ss_signal := ShuttingDown\<rparr>\<lparr>ss_signal := Cleaning actions\<rparr>)" by (rule sv_drained) (simp_all add: server_init_def)
  ultimately show ?case by (simp add: server_init_def converse_rtranclp_into_rtranclp)
next
  case (Suc k)
  let ?s = "\<lparr>ss_main = Serving, ss_signal = Cleaning (drop k actions), ss_closed = take k actions\<rparr>"
  have "server_step actions ?s (?s\<lparr>ss_signal := Cleaning (drop (Suc k) actions), ss_closed := ss_closed ?s @ [actions ! k]\<rparr>)"
    by (rule sv_close) (use Suc.prems in \<open>simp_all add: Cons_nth_drop_Suc\<close>)
  moreover have "take (Suc k) actions = take k actions @ [actions ! k]" using Suc.prems by (simp add: take_Suc_conv_app_nth)
  ultimately show ?case using Suc by (simp add: rtranclp.rtrancl_into_rtrancl)
qed

text \<open>
  C38: A shutdown closes in order and nothing before the signal, but the process does not wait for it: for every
  beginning of the cleanup, the empty one included, there is a run in which the process ends with exactly
  that much closed, because \<open>ListenAndServe\<close> returns as soon as \<open>Shutdown\<close> is called.
\<close>

theorem exit_may_cut_the_cleanup:
  "(\<forall>s. (server_step (cleanup dbOk app))\<^sup>*\<^sup>* server_init s \<longrightarrow> (\<exists>rest. cleanup dbOk app = ss_closed s @ rest) \<and>
      (ss_signal s = Waiting \<longrightarrow> ss_closed s = [])) \<and>
   (\<forall>k \<le> length (cleanup dbOk app). \<exists>s. (server_step (cleanup dbOk app))\<^sup>*\<^sup>* server_init s \<and>
      ss_main s = Exited \<and> ss_closed s = take k (cleanup dbOk app))"
proof (intro conjI allI impI)
  fix k assume "k \<le> length (cleanup dbOk app)"
  note r = cleaning_reached [OF this]
  let ?s = "\<lparr>ss_main = Serving, ss_signal = Cleaning (drop k (cleanup dbOk app)), ss_closed = take k (cleanup dbOk app)\<rparr>"
  have "server_step (cleanup dbOk app) ?s (?s\<lparr>ss_main := Exited\<rparr>)" by (rule sv_return) simp_all
  then have "(server_step (cleanup dbOk app))\<^sup>*\<^sup>* server_init (?s\<lparr>ss_main := Exited\<rparr>)" using r by (rule rtranclp.rtrancl_into_rtrancl [rotated])
  then show "\<exists>s. (server_step (cleanup dbOk app))\<^sup>*\<^sup>* server_init s \<and> ss_main s = Exited \<and> ss_closed s = take k (cleanup dbOk app)" by fastforce
qed (use server_ok_prefix [OF server_reach_ok] in blast)+

section \<open>A concrete start\<close>

text \<open>A database that is there and up to date, and a Redis that is there.\<close>

definition up_db :: "unit db_lib" where
  "up_db = \<lparr>dl_Open = (\<lambda>dsn d. (None, d)), dl_DB = (\<lambda>d. None), dl_Ping = (\<lambda>d. (None, d)), dl_Close = (\<lambda>d. (None, d)),
     dl_WithInstance = (\<lambda>n d. (None, d)), dl_NewMigrate = (\<lambda>p n d. (None, d)), dl_Version = (\<lambda>d. Inr (10, False)),
     dl_Up = (\<lambda>d. (Some ErrNoChange, d)), dl_Steps = (\<lambda>n d. (None, d))\<rparr>"

lemma up_db_init: "init_database up_db env cfg () = (Inr (configure_pool cfg (SetConnMaxLifetime (cc_ConnMaxLifetime (NewDatabaseConfig env))
    (SetMaxIdleConns (cc_MaxIdleConns (NewDatabaseConfig env)) (SetMaxOpenConns (cc_MaxOpenConns (NewDatabaseConfig env)) new_pool)))), ())"
  by (simp add: init_database_def Connect_def up_db_def Let_def RunMigrations_def waitForDatabase_def startup_migrations_def
      open_migrator_def numeral_eq_Suc)

theorem startup_shape_witness:
  "\<exists>(app :: (unit, unit, unit, unit) application) manager r'.
     (Inr (Some app), (), r') \<in> set (initializeApplication up_db mem_job_redis (\<lambda>_. ()) None 0 Map.empty (read_config Map.empty) ()
        \<lparr>mq_zsets = (\<lambda>_. []), mq_lists = (\<lambda>_. [])\<rparr>) \<and>
     app_Redis app \<and> app_TaskService app = CachedService \<and> app_Manager app = Some manager \<and> manager_started manager"
proof -
  let ?r = "\<lparr>mq_zsets = (\<lambda>_. []), mq_lists = (\<lambda>_. [])\<rparr>"
  let ?run = "initializeApplication up_db mem_job_redis (\<lambda>_. ()) None 0 Map.empty (read_config Map.empty) () ?r
    :: ((startup_error + (unit, unit, unit, unit) application option) \<times> unit \<times> mem_queues) list"
  obtain limits where "init_database up_db Map.empty (read_config Map.empty) () = (Inr limits, ())" using up_db_init by blast
  then obtain x :: "(unit, unit, unit, unit) application option" and r' where x: "(Inr x, (), r') \<in> set ?run"
    using init_caches_result [where 'w = unit and 'o = unit and 'e = unit and R = mem_job_redis and mk = "\<lambda>_. ()" and health = None
      and now = 0 and cfg = "read_config Map.empty" and limits = limits and r = ?r]
    by (auto simp: initializeApplication_def)
  from startup_shape [OF x] x show ?thesis by (auto simp: mem_job_redis_def)
qed

theorem main_serves_configured_witness:
  "\<exists>(app :: (unit, unit, unit, unit) application) r'.
     (Main_serves True app, (), r') \<in> set (main_start up_db mem_job_redis (\<lambda>_. ()) None 0 ex_environ ()
        \<lparr>mq_zsets = (\<lambda>_. []), mq_lists = (\<lambda>_. [])\<rparr>) \<and> jwt_secret (mem_auth_env\<lparr>ae_JWT_SECRET := ''s3cret''\<rparr>) \<noteq> []"
proof -
  let ?r = "\<lparr>mq_zsets = (\<lambda>_. []), mq_lists = (\<lambda>_. [])\<rparr>"
  let ?cfg = "read_config ex_environ"
  obtain limits where l: "init_database up_db ex_environ ?cfg () = (Inr limits, ())" using up_db_init by blast
  obtain app :: "(unit, unit, unit, unit) application" and r' where
    "init_caches mem_job_redis (\<lambda>_. ()) None 0 ?cfg limits ?r = [(Some app, r')]"
    using init_caches_result [where 'w = unit and 'o = unit and 'e = unit and R = mem_job_redis and mk = "\<lambda>_. ()" and health = None
      and now = 0 and cfg = ?cfg and limits = limits and r = ?r] by auto
  moreover have p: "IsProduction ?cfg" by (simp only: IsProduction_def read_config_fields ex_environ_vars)
  ultimately have m: "(Main_serves True app, (), r') \<in> set (main_start up_db mem_job_redis (\<lambda>_. ()) None 0 ex_environ () ?r)"
    by (simp add: main_start_def ex_environ_loads initializeApplication_def l)
  have "ae_JWT_SECRET (mem_auth_env\<lparr>ae_JWT_SECRET := ''s3cret''\<rparr>) = Getenv ex_environ ''JWT_SECRET''" by (simp add: ex_environ_vars)
  from main_serves_configured [OF m this] m show ?thesis by blast
qed


definition ex_app :: "(unit, unit, unit, unit) application" where
  "ex_app = \<lparr>app_Config = read_config Map.empty, app_Limits = new_pool, app_Redis = False,
     app_Cache = RedisCacheAt DefaultCacheConfig, app_Manager = None, app_TaskService = PlainService\<rparr>"

theorem exit_may_cut_the_cleanup_witness:
  "\<exists>s. (server_step [CloseCache, CloseDB])\<^sup>*\<^sup>* server_init s \<and> ss_main s = Exited \<and> ss_closed s = [CloseCache]"
proof -
  have c: "cleanup True ex_app = [CloseCache, CloseDB]" by (simp add: cleanup_def ex_app_def)
  show ?thesis using exit_may_cut_the_cleanup [of True ex_app, THEN conjunct2, rule_format, of 1] by (simp add: c)
qed

end
