(* ===== verification/Monitoring.thy ===== *)
theory Monitoring
  imports Gin GoTime "HOL-Library.AList"
begin

text \<open>
  The metrics and health checks of \<^verbatim>\<open>backend/internal/monitoring/metrics.go\<close>. The counters are mathematical
  integers: no run of a server counts to two to the 63. A map of counters reads 0 where it has no entry.
  \<open>stext\<close> is \<open>http.StatusText\<close>; what the Go runtime reports of itself is a parameter.
\<close>

section \<open>Metrics\<close>

record metrics =
  mt_RequestCount :: int
  mt_RequestDuration :: duration
  mt_ActiveRequests :: int
  mt_ErrorCount :: int
  mt_StatusCodes :: "string \<Rightarrow> int"
  mt_Endpoints :: "string \<Rightarrow> int"
  mt_StartTime :: instant
  mt_LastRequest :: "instant option"
  mt_totalDuration :: duration

definition new_metrics :: "instant \<Rightarrow> metrics" where
  "new_metrics now = \<lparr>mt_RequestCount = 0, mt_RequestDuration = 0, mt_ActiveRequests = 0, mt_ErrorCount = 0,
     mt_StatusCodes = (\<lambda>_. 0), mt_Endpoints = (\<lambda>_. 0), mt_StartTime = now, mt_LastRequest = None, mt_totalDuration = 0\<rparr>"

text \<open>The middleware around \<open>c.Next()\<close>: before and after it.\<close>

definition metrics_before :: "metrics \<Rightarrow> metrics" where
  "metrics_before m = m\<lparr>mt_ActiveRequests := mt_ActiveRequests m + 1\<rparr>"

definition metrics_after :: "(nat \<Rightarrow> string) \<Rightarrow> instant \<Rightarrow> instant \<Rightarrow> nat \<Rightarrow> string \<Rightarrow> string \<Rightarrow> metrics \<Rightarrow> metrics" where
  "metrics_after stext start now statusCode rmethod path m =
     (let duration = time_sub now start;
          endpoint = rmethod @ '' '' @ path;
          m1 = m\<lparr>mt_RequestCount := mt_RequestCount m + 1, mt_ActiveRequests := mt_ActiveRequests m - 1,
                 mt_totalDuration := mt_totalDuration m + duration\<rparr>;
          m2 = m1\<lparr>mt_RequestDuration := go_div (mt_totalDuration m1) (mt_RequestCount m1), mt_LastRequest := Some now\<rparr>;
          statusStr = stext statusCode;
          m3 = (if statusCode \<ge> 400 then m2\<lparr>mt_ErrorCount := mt_ErrorCount m2 + 1\<rparr> else m2)
      in m3\<lparr>mt_StatusCodes := (mt_StatusCodes m3)(statusStr := mt_StatusCodes m3 statusStr + 1),
            mt_Endpoints := (mt_Endpoints m3)(endpoint := mt_Endpoints m3 endpoint + 1)\<rparr>)"

text \<open>\<open>GetMetrics\<close>: a copy, without the total.\<close>

definition GetMetrics :: "metrics \<Rightarrow> metrics" where
  "GetMetrics m = \<lparr>mt_RequestCount = mt_RequestCount m, mt_RequestDuration = mt_RequestDuration m,
     mt_ActiveRequests = mt_ActiveRequests m, mt_ErrorCount = mt_ErrorCount m, mt_StatusCodes = mt_StatusCodes m,
     mt_Endpoints = mt_Endpoints m, mt_StartTime = mt_StartTime m, mt_LastRequest = mt_LastRequest m, mt_totalDuration = 0\<rparr>"

record memory_stats =
  ms_Alloc :: "64 word"
  ms_TotalAlloc :: "64 word"
  ms_Sys :: "64 word"
  ms_NumGC :: "32 word"
  ms_NextGC :: "64 word"
  ms_LastGC :: string
  ms_GCPauseTotal :: string

record system_metrics =
  sm_Uptime :: duration
  sm_MemoryUsage :: memory_stats
  sm_GoroutineCount :: int
  sm_CPUCount :: int
  sm_GoVersion :: string

definition bToMb :: "64 word \<Rightarrow> 64 word" where
  "bToMb b = b div 1024 div 1024"

text \<open>\<open>runtime.MemStats\<close> as far as it is read; \<open>rfc3339\<close> formats an instant.\<close>

record runtime_stats =
  rs_Alloc :: "64 word"
  rs_TotalAlloc :: "64 word"
  rs_Sys :: "64 word"
  rs_NumGC :: "32 word"
  rs_NextGC :: "64 word"
  rs_LastGC :: "64 word"
  rs_PauseTotalNs :: "64 word"

definition GetSystemMetrics ::
  "(int \<Rightarrow> string) \<Rightarrow> runtime_stats \<Rightarrow> int \<Rightarrow> int \<Rightarrow> string \<Rightarrow> instant \<Rightarrow> metrics \<Rightarrow> system_metrics" where
  "GetSystemMetrics rfc3339 rs goroutines cpus version now m =
     \<lparr>sm_Uptime = time_sub now (mt_StartTime m),
      sm_MemoryUsage = \<lparr>ms_Alloc = bToMb (rs_Alloc rs), ms_TotalAlloc = bToMb (rs_TotalAlloc rs), ms_Sys = bToMb (rs_Sys rs),
        ms_NumGC = rs_NumGC rs, ms_NextGC = bToMb (rs_NextGC rs), ms_LastGC = rfc3339 (sint (rs_LastGC rs)),
        ms_GCPauseTotal = duration_String (sint (rs_PauseTotalNs rs))\<rparr>,
      sm_GoroutineCount = goroutines, sm_CPUCount = cpus, sm_GoVersion = version\<rparr>"

section \<open>Health checks\<close>

record health_check =
  hk_Name :: string
  hk_Status :: string
  hk_Message :: string
  hk_LastRun :: instant

type_synonym health_checker = "(string \<times> health_check) list"

text \<open>\<open>outcome\<close> is what the check function returns when it is called, at registration.\<close>

definition RegisterHealthCheck :: "string \<Rightarrow> string option \<Rightarrow> instant \<Rightarrow> health_checker \<Rightarrow> health_checker" where
  "RegisterHealthCheck name outcome now hc =
     (let (status, message) = (case outcome of None \<Rightarrow> (''healthy'', '''') | Some e \<Rightarrow> (''unhealthy'', e))
      in AList.update name \<lparr>hk_Name = name, hk_Status = status, hk_Message = message, hk_LastRun = now\<rparr> hc)"

definition RunHealthChecks :: "(string \<Rightarrow> instant) \<Rightarrow> health_checker \<Rightarrow> health_checker \<times> health_checker" where
  "RunHealthChecks now hc =
     (let hc' = map (\<lambda>(name, check). (name, check\<lparr>hk_LastRun := now name\<rparr>)) hc in (hc', hc'))"

definition all_healthy :: "health_checker \<Rightarrow> bool" where
  "all_healthy checks = list_all (\<lambda>(name, check). hk_Status check = ''healthy'') checks"

definition HealthHandler :: "(string \<Rightarrow> instant) \<Rightarrow> instant \<Rightarrow> metrics \<Rightarrow> health_checker \<Rightarrow>
    (string \<times> health_checker \<times> string) response \<times> health_checker" where
  "HealthHandler now t m hc =
     (case RunHealthChecks now hc of (checks, hc') \<Rightarrow>
        (let overallStatus = (if all_healthy checks then ''healthy'' else ''unhealthy'')
         in (Respond (if overallStatus \<noteq> ''healthy'' then 503 else 200)
               (overallStatus, checks, duration_String (time_sub t (mt_StartTime m))), hc')))"

definition ReadinessHandler :: "(string \<Rightarrow> instant) \<Rightarrow> health_checker \<Rightarrow> string response \<times> health_checker" where
  "ReadinessHandler now hc =
     (case RunHealthChecks now hc of (checks, hc') \<Rightarrow>
        (if all_healthy checks then Respond 200 ''ready'' else Respond 503 ''not ready'', hc'))"

definition LivenessHandler :: "instant \<Rightarrow> metrics \<Rightarrow> (string \<times> string) response" where
  "LivenessHandler t m = Respond 200 (''alive'', duration_String (time_sub t (mt_StartTime m)))"

definition MetricsHandler ::
  "(int \<Rightarrow> string) \<Rightarrow> runtime_stats \<Rightarrow> int \<Rightarrow> int \<Rightarrow> string \<Rightarrow> instant \<Rightarrow> metrics \<Rightarrow> (metrics \<times> system_metrics \<times> instant) response" where
  "MetricsHandler rfc3339 rs goroutines cpus version now m =
     Respond 200 (GetMetrics m, GetSystemMetrics rfc3339 rs goroutines cpus version now m, now)"

section \<open>Requests that overlap\<close>

text \<open>The begin and the end of requests in any order that a server can see.\<close>

datatype request_event = Begins | Ends (start: instant) (finish: instant) (status: nat) (rmethod: string) (rpath: string)

fun metrics_step :: "(nat \<Rightarrow> string) \<Rightarrow> request_event \<Rightarrow> metrics \<Rightarrow> metrics" where
  "metrics_step stext Begins m = metrics_before m"
| "metrics_step stext (Ends t t' st me pa) m = metrics_after stext t t' st me pa m"

definition metrics_run :: "(nat \<Rightarrow> string) \<Rightarrow> request_event list \<Rightarrow> metrics \<Rightarrow> metrics" where
  "metrics_run stext es m = fold (metrics_step stext) es m"

definition ended :: "request_event list \<Rightarrow> request_event list" where
  "ended es = filter (\<lambda>e. e \<noteq> Begins) es"

definition total_time :: "request_event list \<Rightarrow> int" where
  "total_time es = sum_list (map (\<lambda>e. time_sub (finish e) (start e)) (ended es))"

lemma metrics_run_snoc [simp]: "metrics_run stext (es @ [e]) m = metrics_step stext e (metrics_run stext es m)"
  by (simp add: metrics_run_def)

lemma ended_snoc [simp]: "ended (es @ [e]) = (if e = Begins then ended es else ended es @ [e])"
  by (simp add: ended_def)

lemma total_time_snoc: "total_time (es @ [e]) = (if e = Begins then total_time es else total_time es + time_sub (finish e) (start e))"
  by (simp add: total_time_def)

lemma metrics_after_fields [simp]:
  "mt_RequestCount (metrics_after stext t t' st me pa m) = mt_RequestCount m + 1"
  "mt_ActiveRequests (metrics_after stext t t' st me pa m) = mt_ActiveRequests m - 1"
  "mt_ErrorCount (metrics_after stext t t' st me pa m) = mt_ErrorCount m + (if 400 \<le> st then 1 else 0)"
  "mt_totalDuration (metrics_after stext t t' st me pa m) = mt_totalDuration m + time_sub t' t"
  "mt_StatusCodes (metrics_after stext t t' st me pa m) s = mt_StatusCodes m s + (if stext st = s then 1 else 0)"
  "mt_Endpoints (metrics_after stext t t' st me pa m) p = mt_Endpoints m p + (if me @ '' '' @ pa = p then 1 else 0)"
  "mt_RequestDuration (metrics_after stext t t' st me pa m) = go_div (mt_totalDuration m + time_sub t' t) (mt_RequestCount m + 1)"
  by (simp_all add: metrics_after_def Let_def)

lemma metrics_before_fields [simp]:
  "mt_RequestCount (metrics_before m) = mt_RequestCount m" "mt_ActiveRequests (metrics_before m) = mt_ActiveRequests m + 1"
  "mt_ErrorCount (metrics_before m) = mt_ErrorCount m" "mt_totalDuration (metrics_before m) = mt_totalDuration m"
  "mt_StatusCodes (metrics_before m) = mt_StatusCodes m" "mt_Endpoints (metrics_before m) = mt_Endpoints m"
  "mt_RequestDuration (metrics_before m) = mt_RequestDuration m"
  by (simp_all add: metrics_before_def)

lemma metrics_run_counts:
  "mt_RequestCount (metrics_run stext es (new_metrics t0)) = int (length (ended es))"
  "mt_ActiveRequests (metrics_run stext es (new_metrics t0)) = int (length es) - 2 * int (length (ended es))"
  "mt_ErrorCount (metrics_run stext es (new_metrics t0)) = int (length (filter (\<lambda>e. 400 \<le> status e) (ended es)))"
  "mt_totalDuration (metrics_run stext es (new_metrics t0)) = total_time es"
  "mt_StatusCodes (metrics_run stext es (new_metrics t0)) s = int (length (filter (\<lambda>e. stext (status e) = s) (ended es)))"
  "mt_Endpoints (metrics_run stext es (new_metrics t0)) p = int (length (filter (\<lambda>e. rmethod e @ '' '' @ rpath e = p) (ended es)))"
proof (induction es rule: rev_induct)
  case Nil
  { case 1 show ?case by (simp add: metrics_run_def new_metrics_def ended_def) }
  { case 2 show ?case by (simp add: metrics_run_def new_metrics_def ended_def) }
  { case 3 show ?case by (simp add: metrics_run_def new_metrics_def ended_def) }
  { case 4 show ?case by (simp add: metrics_run_def new_metrics_def ended_def total_time_def) }
  { case 5 show ?case by (simp add: metrics_run_def new_metrics_def ended_def) }
  { case 6 show ?case by (simp add: metrics_run_def new_metrics_def ended_def) }
next
  case (snoc e es)
  { case 1 show ?case using snoc.IH(1) by (cases e) simp_all }
  { case 2 show ?case using snoc.IH(2) by (cases e) simp_all }
  { case 3 show ?case using snoc.IH(3) by (cases e) simp_all }
  { case 4 show ?case using snoc.IH(4) by (cases e) (simp_all add: total_time_snoc) }
  { case 5 show ?case using snoc.IH(5) by (cases e) simp_all }
  { case 6 show ?case using snoc.IH(6) by (cases e) simp_all }
qed

lemma metrics_run_average:
  "ended es \<noteq> [] \<Longrightarrow> mt_RequestDuration (metrics_run stext es (new_metrics t0)) = go_div (total_time es) (int (length (ended es)))"
proof (induction es rule: rev_induct)
  case (snoc e es)
  then show ?case by (cases e) (simp_all add: metrics_run_counts total_time_snoc add.commute)
qed (simp add: ended_def)

text \<open>
  The metrics count what happened: in every interleaving of requests the count is the number of requests that
  have ended, the active ones are those that began and have not ended, the errors are those with a status
  of 400 or more, and the average is the total time divided by the count.
\<close>

theorem metrics_count_requests:
  "let m = GetMetrics (metrics_run stext es (new_metrics t0)); begun = length (filter (\<lambda>e. e = Begins) es)
   in mt_RequestCount m = int (length (ended es)) \<and>
      mt_ActiveRequests m = int begun - int (length (ended es)) \<and>
      mt_ErrorCount m = int (length (filter (\<lambda>e. 400 \<le> status e) (ended es))) \<and>
      mt_StatusCodes m s = int (length (filter (\<lambda>e. stext (status e) = s) (ended es))) \<and>
      (ended es \<noteq> [] \<longrightarrow> mt_RequestDuration m = go_div (total_time es) (int (length (ended es))))"
proof -
  have "length es = length (filter (\<lambda>e. e = Begins) es) + length (ended es)"
    unfolding ended_def by (metis (mono_tags, lifting) filter_cong sum_length_filter_compl)
  then show ?thesis by (simp add: Let_def GetMetrics_def metrics_run_counts metrics_run_average)
qed

section \<open>A health check that is never repeated\<close>

datatype health_event = Registers string "string option" instant | Checks "string \<Rightarrow> instant"

fun health_step :: "health_event \<Rightarrow> health_checker \<Rightarrow> health_checker" where
  "health_step (Registers name outcome now) hc = RegisterHealthCheck name outcome now hc"
| "health_step (Checks now) hc = snd (RunHealthChecks now hc)"

definition health_run :: "health_event list \<Rightarrow> health_checker" where
  "health_run es = fold health_step es []"

text \<open>The outcome of the last registration of each name.\<close>

fun last_outcome :: "health_event list \<Rightarrow> string \<Rightarrow> string option option" where
  "last_outcome [] name = None"
| "last_outcome (Registers n outcome now # es) name =
     (case last_outcome es name of Some x \<Rightarrow> Some x | None \<Rightarrow> if n = name then Some outcome else None)"
| "last_outcome (Checks now # es) name = last_outcome es name"

lemma last_outcome_snoc:
  "last_outcome (es @ [e]) name = (case e of Registers n x now \<Rightarrow> if n = name then Some x else last_outcome es name
     | Checks now \<Rightarrow> last_outcome es name)"
  by (induction es name rule: last_outcome.induct) (auto split: health_event.splits option.splits)

lemma health_run_status:
  "map_option hk_Status (map_of (health_run es) name) =
     map_option (\<lambda>x. if x = None then ''healthy'' else ''unhealthy'') (last_outcome es name)"
  "distinct (map fst (health_run es))"
proof (induction es rule: rev_induct)
  case Nil
  { case 1 show ?case by (simp add: health_run_def) }
  { case 2 show ?case by (simp add: health_run_def) }
next
  case (snoc e es)
  have run: "health_run (es @ [e]) = health_step e (health_run es)" by (simp add: health_run_def)
  { case 1
    show ?case
    proof (cases e)
      case (Registers n x now)
      then show ?thesis using snoc.IH(1) unfolding run
        by (auto simp: last_outcome_snoc RegisterHealthCheck_def update_conv' split: option.splits)
    next
      case (Checks now)
      have "map_of (map (\<lambda>(name, check). (name, check\<lparr>hk_LastRun := now name\<rparr>)) xs) name =
          map_option (\<lambda>check. check\<lparr>hk_LastRun := now name\<rparr>) (map_of xs name)" for xs
        by (induction xs) auto
      note mm = this [of "health_run es"]
      show ?thesis using snoc.IH(1) unfolding run unfolding Checks health_step.simps RunHealthChecks_def Let_def snd_conv mm last_outcome_snoc
        by (simp add: option.map_comp comp_def)
    qed }
  { case 2
    show ?case using snoc.IH(2)
      unfolding run by (cases e) (auto simp: RegisterHealthCheck_def RunHealthChecks_def Let_def comp_def case_prod_beta distinct_update split: option.splits) }
qed

text \<open>
  The health endpoint reports the past: a check runs once, when it is registered, and however often the health is
  asked afterwards the answer is 200 exactly when every check had succeeded at its last registration.
\<close>

theorem health_is_that_of_registration:
  "resp_status (fst (HealthHandler now t m (health_run es))) =
     Some (if \<forall>name e. last_outcome es name \<noteq> Some (Some e) then 200 else 503) \<and>
   resp_status (fst (ReadinessHandler now (health_run es))) = resp_status (fst (HealthHandler now t m (health_run es)))"
proof -
  have h: "all_healthy (map (\<lambda>(name, check). (name, check\<lparr>hk_LastRun := now name\<rparr>)) hc) \<longleftrightarrow> (\<forall>(n, c) \<in> set hc. hk_Status c = ''healthy'')" for hc
    by (auto simp: all_healthy_def list_all_iff)
  have "(\<forall>(n, c) \<in> set (health_run es). hk_Status c = ''healthy'') \<longleftrightarrow> (\<forall>name e. last_outcome es name \<noteq> Some (Some e))"
  proof -
    have m: "(n, c) \<in> set (health_run es) \<longleftrightarrow> map_of (health_run es) n = Some c" for n c
      using map_of_eq_Some_iff [OF health_run_status(2)] by metis
    have "(\<forall>(n, c) \<in> set (health_run es). hk_Status c = ''healthy'') \<longleftrightarrow>
        (\<forall>n c. map_of (health_run es) n = Some c \<longrightarrow> hk_Status c = ''healthy'')"
      unfolding m [symmetric] by blast
    also have "\<dots> \<longleftrightarrow> (\<forall>name e. last_outcome es name \<noteq> Some (Some e))"
    proof (intro iffI allI impI notI)
      fix n e assume a: "\<forall>n c. map_of (health_run es) n = Some c \<longrightarrow> hk_Status c = ''healthy''" and l: "last_outcome es n = Some (Some e)"
      then obtain c where "map_of (health_run es) n = Some c" "hk_Status c = ''unhealthy''" using health_run_status(1) [of es n] by auto
      then show False using a by force
    next
      fix n c assume "\<forall>name e. last_outcome es name \<noteq> Some (Some e)" and "map_of (health_run es) n = Some c"
      moreover from this obtain x where "last_outcome es n = Some x" "hk_Status c = (if x = None then ''healthy'' else ''unhealthy'')"
        using health_run_status(1) [of es n] by (cases "last_outcome es n") auto
      ultimately show "hk_Status c = ''healthy''" by (cases x) auto
    qed
    finally show ?thesis .
  qed
  then show ?thesis by (simp add: HealthHandler_def ReadinessHandler_def RunHealthChecks_def Let_def h)
qed

text \<open>
  The memory sizes are reported in whole megabytes, rounded down: at most one megabyte less than the truth.
\<close>

lemma megabytes_round_down:
  "unat (bToMb b) * 2 ^ 20 \<le> unat b \<and> unat b < (unat (bToMb b) + 1) * 2 ^ 20"
proof -
  have "unat (bToMb b) = unat b div 2 ^ 20" by (simp add: bToMb_def unat_div div_mult2_eq [symmetric])
  then show ?thesis using div_times_less_eq_dividend [of "unat b" "2 ^ 20"] dividend_less_div_times [of "2 ^ 20" "unat b"]
    by (simp add: algebra_simps)
qed

section \<open>A concrete history\<close>

theorem metrics_count_requests_witness:
  "let m = GetMetrics (metrics_run (\<lambda>_. []) [Begins, Begins, Ends 0 10 200 ''GET'' ''/a'', Begins, Ends 2 6 404 ''GET'' ''/b''] (new_metrics 0))
   in mt_RequestCount m = 2 \<and> mt_ActiveRequests m = 1 \<and> mt_ErrorCount m = 1 \<and> mt_RequestDuration m = 7"
  using metrics_count_requests [of "\<lambda>_. []" "[Begins, Begins, Ends 0 10 200 ''GET'' ''/a'', Begins, Ends 2 6 404 ''GET'' ''/b'']" 0 "[]"]
  by (simp add: Let_def ended_def total_time_def time_sub_def max_duration_def go_div_def)

end
