(* ===== verification/RateLimiter.thy ===== *)
theory RateLimiter
  imports Gin RedisCache
begin

text \<open>
  The rate limiters and the breaker of \<^verbatim>\<open>backend/internal/middleware/rate_limiter.go\<close>. The token bucket of
  \<^verbatim>\<open>golang.org/x/time/rate\<close> and the Redis commands are parameters. The score of a sorted set is a
  \<open>float64\<close>: \<open>f\<close> is the rounding of a nanosecond count to the nearest one, of which only monotonicity is
  used. A pipeline is not atomic: its four commands are separate operations of the server, and the pipelines of
  two instances may interleave.
\<close>

section \<open>The limiter per client address\<close>

record 'l bucket =
  bk_New :: 'l
  bk_Allow :: "instant \<Rightarrow> 'l \<Rightarrow> bool \<times> 'l"

definition getVisitor :: "'l bucket \<Rightarrow> string \<Rightarrow> (string \<rightharpoonup> 'l) \<Rightarrow> 'l \<times> (string \<rightharpoonup> 'l)" where
  "getVisitor B ip visitors =
     (case visitors ip of Some limiter \<Rightarrow> (limiter, visitors)
                        | None \<Rightarrow> (bk_New B, visitors(ip \<mapsto> bk_New B)))"

definition RateLimiter :: "'l bucket \<Rightarrow> instant \<Rightarrow> gin_ctx \<Rightarrow> (string \<rightharpoonup> 'l) \<Rightarrow> mw_result \<times> (string \<rightharpoonup> 'l)" where
  "RateLimiter B now c visitors =
     (let ip = gc_ip c; (limiter, visitors1) = getVisitor B ip visitors;
          (allowed, limiter') = bk_Allow B now limiter;
          visitors2 = visitors1(ip \<mapsto> limiter')
      in if \<not> allowed then (Abort 429 ''rate limit exceeded'', visitors2) else (Proceed c, visitors2))"

text \<open>The requests of all clients in their order, and the verdicts.\<close>

primrec limit_all :: "'l bucket \<Rightarrow> (instant \<times> gin_ctx) list \<Rightarrow> (string \<rightharpoonup> 'l) \<Rightarrow> (string \<times> bool) list" where
  "limit_all B [] visitors = []"
| "limit_all B (x # reqs) visitors =
     (case RateLimiter B (fst x) (snd x) visitors of
        (r, visitors') \<Rightarrow> (gc_ip (snd x), r = Proceed (snd x)) # limit_all B reqs visitors')"

text \<open>One client alone with its own bucket.\<close>

primrec bucket_run :: "'l bucket \<Rightarrow> instant list \<Rightarrow> 'l \<Rightarrow> bool list" where
  "bucket_run B [] l = []"
| "bucket_run B (t # ts) l = (case bk_Allow B t l of (ok, l') \<Rightarrow> ok # bucket_run B ts l')"

lemma limit_all_client:
  "map snd (filter (\<lambda>v. fst v = ip) (limit_all B reqs visitors)) =
   bucket_run B (map fst (filter (\<lambda>x. gc_ip (snd x) = ip) reqs)) (case visitors ip of None \<Rightarrow> bk_New B | Some l \<Rightarrow> l)"
proof (induction reqs arbitrary: visitors)
  case (Cons x reqs)
  obtain l vs where g: "getVisitor B (gc_ip (snd x)) visitors = (l, vs)" by fastforce
  obtain ok l' where a: "bk_Allow B (fst x) l = (ok, l')" by fastforce
  have l: "l = (case visitors (gc_ip (snd x)) of None \<Rightarrow> bk_New B | Some l \<Rightarrow> l)" and vs: "\<And>j. j \<noteq> gc_ip (snd x) \<Longrightarrow> vs j = visitors j"
    using g by (auto simp: getVisitor_def split: option.splits)
  show ?case
  proof (cases "gc_ip (snd x) = ip")
    case True
    then show ?thesis using g a by (cases ok) (simp_all add: Cons.IH [of "vs(ip \<mapsto> l')"] RateLimiter_def Let_def l [unfolded True, symmetric])
  next
    case False
    then show ?thesis using g a vs [of ip] by (cases ok) (simp_all add: Cons.IH [of "vs(gc_ip (snd x) \<mapsto> l')"] RateLimiter_def Let_def)
  qed
qed simp

text \<open>
  C30: Every client address has a bucket of its own: in any interleaving of the requests of all clients the
  verdicts on one client are those of a fresh bucket that sees only its requests.
\<close>

theorem clients_are_limited_separately:
  "map snd (filter (\<lambda>v. fst v = ip) (limit_all B reqs Map.empty)) =
   bucket_run B (map fst (filter (\<lambda>x. gc_ip (snd x) = ip) reqs)) (bk_New B)"
  by (simp add: limit_all_client)

section \<open>The distributed limiter\<close>

text \<open>The commands of the pipeline; the first argument is the server's clock. \<open>Expire\<close> takes the duration.\<close>

record 'r rate_redis =
  rr_ZRemRange :: "instant \<Rightarrow> string \<Rightarrow> int \<Rightarrow> 'r \<Rightarrow> redis_error option \<times> 'r"
  rr_ZCard :: "instant \<Rightarrow> string \<Rightarrow> 'r \<Rightarrow> (redis_error + int) \<times> 'r"
  rr_ZAdd :: "instant \<Rightarrow> string \<Rightarrow> int \<Rightarrow> 'r \<Rightarrow> redis_error option \<times> 'r"
  rr_Expire :: "instant \<Rightarrow> string \<Rightarrow> duration \<Rightarrow> 'r \<Rightarrow> redis_error option \<times> 'r"

record rate_limit =
  rl_Rate :: int
  rl_Window :: duration
  rl_KeyFunc :: "gin_ctx \<Rightarrow> string"
  rl_OnLimit :: "(gin_ctx \<Rightarrow> mw_result) option"

text \<open>
  The pipeline in two halves, since another one may come between them: remove what is older than the window and
  count, then add the request and set the expiry. \<open>now\<close> is the clock of the request, \<open>s\<close> that of the server.
\<close>

definition pipe_count ::
  "'r rate_redis \<Rightarrow> instant \<Rightarrow> instant \<Rightarrow> string \<Rightarrow> rate_limit \<Rightarrow> 'r \<Rightarrow> (redis_error option \<times> (redis_error + int)) \<times> 'r" where
  "pipe_count P now s key limit r =
     (let windowStart = now - rl_Window limit;
          (e1, r1) = rr_ZRemRange P s key windowStart r;
          (n, r2) = rr_ZCard P s key r1
      in ((e1, n), r2))"

definition pipe_add ::
  "'r rate_redis \<Rightarrow> instant \<Rightarrow> instant \<Rightarrow> string \<Rightarrow> rate_limit \<Rightarrow> 'r \<Rightarrow> (redis_error option \<times> redis_error option) \<times> 'r" where
  "pipe_add P now s key limit r =
     (let (e3, r3) = rr_ZAdd P s key now r;
          (e4, r4) = rr_Expire P s key (rl_Window limit) r3
      in ((e3, e4), r4))"

text \<open>\<open>Exec\<close> reports the first error of a command; the verdict is taken from the count.\<close>

fun pipe_verdict :: "rate_limit \<Rightarrow> redis_error option \<times> (redis_error + int) \<Rightarrow> redis_error option \<times> redis_error option \<Rightarrow> redis_error + bool" where
  "pipe_verdict limit (Some e, _) _ = Inl e"
| "pipe_verdict limit (None, Inl e) _ = Inl e"
| "pipe_verdict limit (None, Inr n) (Some e, _) = Inl e"
| "pipe_verdict limit (None, Inr n) (None, Some e) = Inl e"
| "pipe_verdict limit (None, Inr n) (None, None) = Inr (n < rl_Rate limit)"

definition checkLimit :: "'r rate_redis \<Rightarrow> instant \<Rightarrow> instant \<Rightarrow> string \<Rightarrow> rate_limit \<Rightarrow> 'r \<Rightarrow> (redis_error + bool) \<times> 'r" where
  "checkLimit P now s key limit r =
     (let (counted, r') = pipe_count P now s key limit r;
          (added, r'') = pipe_add P now s key limit r'
      in (pipe_verdict limit counted added, r''))"

text \<open>A handler that returns without \<open>Abort\<close> lets the chain go on, also after \<open>OnLimit\<close>.\<close>

definition CreateMiddleware :: "'r rate_redis \<Rightarrow> instant \<Rightarrow> instant \<Rightarrow> string \<Rightarrow> rate_limit \<Rightarrow> gin_ctx \<Rightarrow> 'r \<Rightarrow> mw_result \<times> 'r" where
  "CreateMiddleware P now s name limit c r =
     (let key = ''rate_limit:'' @ name @ '':'' @ rl_KeyFunc limit c
      in case checkLimit P now s key limit r of
           (Inl _, r') \<Rightarrow> (Proceed c, r')
         | (Inr allowed, r') \<Rightarrow>
             (if \<not> allowed
              then (case rl_OnLimit limit of
                      Some onLimit \<Rightarrow> (onLimit c, r')
                    | None \<Rightarrow> (Abort 429 ''Rate limit exceeded'', r'))
              else (Proceed c, r')))"

definition IPKeyFunc :: "gin_ctx \<Rightarrow> string" where
  "IPKeyFunc c = gc_ip c"

definition UserKeyFunc :: "(ctx_value \<Rightarrow> string) \<Rightarrow> gin_ctx \<Rightarrow> string" where
  "UserKeyFunc show_value c = (case gin_Get c ''user_id'' of None \<Rightarrow> gc_ip c | Some v \<Rightarrow> ''user:'' @ show_value v)"

definition APIKeyFunc :: "gin_ctx \<Rightarrow> string" where
  "APIKeyFunc c = (let apiKey = gc_header c ''X-API-Key'' in if apiKey = [] then gc_ip c else ''api_key:'' @ apiKey)"

text \<open>
  What Redis documents of the commands, on the sets \<open>Z s r key\<close> (member to score) that a server in state \<open>r\<close>
  shows at \<open>s\<close>. The client sends an expiry in whole seconds, a positive one as at least one second.
\<close>

definition expiry :: "duration \<Rightarrow> duration" where
  "expiry w = (if 0 < w \<and> w < second then second else w div second * second)"

definition live_scores :: "(int \<Rightarrow> int) \<Rightarrow> int \<Rightarrow> (int \<Rightarrow> int option) \<Rightarrow> int \<Rightarrow> int option" where
  "live_scores f ws z = (\<lambda>m. case z m of Some s \<Rightarrow> if 0 \<le> s \<and> s \<le> f ws then None else Some s | None \<Rightarrow> None)"

definition rate_lawful :: "'r rate_redis \<Rightarrow> (int \<Rightarrow> int) \<Rightarrow> (instant \<Rightarrow> 'r \<Rightarrow> string \<Rightarrow> int \<Rightarrow> int option) \<Rightarrow> bool" where
  "rate_lawful P f Z \<longleftrightarrow> mono f \<and> (\<forall>s r key. finite (dom (Z s r key))) \<and>
     (\<forall>s key ws r e r'. rr_ZRemRange P s key ws r = (e, r') \<longrightarrow> e = None \<and> (\<forall>s' \<ge> s. Z s' r' key = live_scores f ws (Z s' r key))) \<and>
     (\<forall>s key r x r'. rr_ZCard P s key r = (x, r') \<longrightarrow> x = Inr (int (card (dom (Z s r key)))) \<and> (\<forall>s' \<ge> s. Z s' r' key = Z s' r key)) \<and>
     (\<forall>s key m r e r'. rr_ZAdd P s key m r = (e, r') \<longrightarrow> e = None \<and> Z s r' key = (Z s r key)(m \<mapsto> f m)) \<and>
     (\<forall>s key w r e r'. rr_Expire P s key w r = (e, r') \<longrightarrow> e = None \<and>
        (\<forall>s' \<ge> s. Z s' r' key = (if s' < s + expiry w then Z s r key else Map.empty)))"

lemma rate_laws:
  assumes "rate_lawful P f Z"
  shows "mono f" and "finite (dom (Z s r key))"
    and "rr_ZRemRange P s key ws r = (e, r') \<Longrightarrow> e = None \<and> (s \<le> s' \<longrightarrow> Z s' r' key = live_scores f ws (Z s' r key))"
    and "rr_ZCard P s key r = (x, r') \<Longrightarrow> x = Inr (int (card (dom (Z s r key)))) \<and> (s \<le> s' \<longrightarrow> Z s' r' key = Z s' r key)"
    and "rr_ZAdd P s key m r = (e, r') \<Longrightarrow> e = None \<and> Z s r' key = (Z s r key)(m \<mapsto> f m)"
    and "rr_Expire P s key w r = (e, r') \<Longrightarrow> e = None \<and>
      (s \<le> s' \<longrightarrow> Z s' r' key = (if s' < s + expiry w then Z s r key else Map.empty))"
  subgoal using assms unfolding rate_lawful_def by (elim conjE)
  subgoal using assms unfolding rate_lawful_def by (elim conjE) blast
  subgoal using assms unfolding rate_lawful_def by (elim conjE) blast
  subgoal using assms unfolding rate_lawful_def by (elim conjE) blast
  subgoal using assms unfolding rate_lawful_def by (elim conjE) blast
  subgoal using assms unfolding rate_lawful_def by (elim conjE) metis
  done

text \<open>The two halves of the pipeline on the set of the key.\<close>

lemma pipe_count_law:
  assumes "rate_lawful P f Z"
  shows "\<exists>r'. pipe_count P now s key limit r =
      ((None, Inr (int (card (dom (live_scores f (now - rl_Window limit) (Z s r key)))))), r') \<and>
    (\<forall>s' \<ge> s. Z s' r' key = live_scores f (now - rl_Window limit) (Z s' r key))"
proof -
  let ?ws = "now - rl_Window limit"
  obtain e r1 where e: "rr_ZRemRange P s key ?ws r = (e, r1)" by fastforce
  obtain x r2 where x: "rr_ZCard P s key r1 = (x, r2)" by fastforce
  show ?thesis
    using rate_laws(3) [OF assms e] rate_laws(4) [OF assms x] by (simp add: pipe_count_def Let_def e x)
qed

lemma pipe_add_law:
  assumes "rate_lawful P f Z"
  shows "\<exists>r'. pipe_add P now s key limit r = ((None, None), r') \<and>
    (\<forall>s' \<ge> s. s' < s + expiry (rl_Window limit) \<longrightarrow> Z s' r' key = (Z s r key)(now \<mapsto> f now))"
proof -
  obtain e r1 where e: "rr_ZAdd P s key now r = (e, r1)" by fastforce
  obtain x r2 where x: "rr_Expire P s key (rl_Window limit) r1 = (x, r2)" by fastforce
  show ?thesis
    using rate_laws(5) [OF assms e] rate_laws(6) [OF assms x] by (simp add: pipe_add_def Let_def e x)
qed

lemma checkLimit_law:
  assumes "rate_lawful P f Z"
  shows "\<exists>r'. checkLimit P now s key limit r =
      (Inr (int (card (dom (live_scores f (now - rl_Window limit) (Z s r key)))) < rl_Rate limit), r') \<and>
    (\<forall>s' \<ge> s. s' < s + expiry (rl_Window limit) \<longrightarrow>
      Z s' r' key = (live_scores f (now - rl_Window limit) (Z s r key))(now \<mapsto> f now))"
proof -
  obtain r1 where c: "pipe_count P now s key limit r =
      ((None, Inr (int (card (dom (live_scores f (now - rl_Window limit) (Z s r key)))))), r1)"
    "\<forall>s' \<ge> s. Z s' r1 key = live_scores f (now - rl_Window limit) (Z s' r key)"
    using pipe_count_law [OF assms, of now s key limit r] by blast
  obtain r2 where a: "pipe_add P now s key limit r1 = ((None, None), r2)"
    "\<forall>s' \<ge> s. s' < s + expiry (rl_Window limit) \<longrightarrow> Z s' r2 key = (Z s r1 key)(now \<mapsto> f now)"
    using pipe_add_law [OF assms, of now s key limit r1] by blast
  show ?thesis using c a by (simp add: checkLimit_def)
qed

subsection \<open>Requests that do not overlap\<close>

text \<open>
  Requests for one key, each with the instant its client read and the one at which the server runs its
  pipeline, when no two pipelines overlap; \<open>None\<close> is an error of Redis.
\<close>

primrec window_run :: "'r rate_redis \<Rightarrow> string \<Rightarrow> rate_limit \<Rightarrow> (instant \<times> instant) list \<Rightarrow> 'r \<Rightarrow> bool option list" where
  "window_run P key limit [] r = []"
| "window_run P key limit (x # xs) r =
     (case checkLimit P (fst x) (snd x) key limit r of
        (Inl _, r') \<Rightarrow> None # window_run P key limit xs r'
      | (Inr ok, r') \<Rightarrow> Some ok # window_run P key limit xs r')"

text \<open>Of the requests \<open>xs\<close>, those in the window of a request made at \<open>t\<close> and counted at \<open>s\<close>.\<close>

definition in_window :: "(int \<Rightarrow> int) \<Rightarrow> duration \<Rightarrow> instant \<Rightarrow> instant \<Rightarrow> instant \<times> instant \<Rightarrow> bool" where
  "in_window f w t s x \<longleftrightarrow> f (t - w) < f (fst x) \<and> s < snd x + expiry w"

text \<open>The set shows every request that is still in the window of any later one.\<close>

definition shows_window ::
  "(int \<Rightarrow> int) \<Rightarrow> duration \<Rightarrow> (instant \<Rightarrow> int \<Rightarrow> int option) \<Rightarrow> (instant \<times> instant) list \<Rightarrow> bool" where
  "shows_window f w z seen \<longleftrightarrow> (\<forall>x \<in> set seen. \<forall>t s. (\<forall>y \<in> set seen. fst y \<le> t \<and> snd y \<le> s) \<longrightarrow>
     in_window f w t s x \<longrightarrow> z s (fst x) = Some (f (fst x)))"

lemma shows_window_step:
  assumes z: "shows_window f w z seen" and mono: "mono f" and nn: "\<And>x. x \<in> set seen \<Longrightarrow> 0 \<le> f (fst x)"
    and later: "\<And>y. y \<in> set seen \<Longrightarrow> fst y \<le> t \<and> snd y \<le> s"
    and z': "\<And>s'. s \<le> s' \<Longrightarrow> s' < s + expiry w \<Longrightarrow> z' s' = (live_scores f (t - w) (z s))(t \<mapsto> f t)"
  shows "shows_window f w z' (seen @ [(t, s)])"
  unfolding shows_window_def
proof (intro ballI allI impI)
  fix x t' s' assume x: "x \<in> set (seen @ [(t, s)])" and later': "\<forall>y \<in> set (seen @ [(t, s)]). fst y \<le> t' \<and> snd y \<le> s'"
    and win: "in_window f w t' s' x"
  have ts: "t \<le> t'" "s \<le> s'" using later' by auto
  have "f (t - w) \<le> f (t' - w)" using mono ts(1) by (simp add: monoD)
  then have win': "in_window f w t s x" using win ts(2) by (simp add: in_window_def)
  have "snd x \<le> s" using x later [of x] by auto
  then have eq: "z' s' = (live_scores f (t - w) (z s))(t \<mapsto> f t)"
    using z' ts(2) win by (auto simp: in_window_def)
  show "z' s' (fst x) = Some (f (fst x))"
  proof (cases "fst x = t")
    case False
    then have "x \<in> set seen" using x by auto
    then have "z s (fst x) = Some (f (fst x))" using z later win' unfolding shows_window_def by blast
    then show ?thesis using win' eq False nn [OF \<open>x \<in> set seen\<close>] by (simp add: live_scores_def in_window_def)
  qed (simp add: eq)
qed

lemma shown_are_counted:
  assumes z: "shows_window f w z seen" and later: "\<And>y. y \<in> set seen \<Longrightarrow> fst y \<le> t \<and> snd y \<le> s"
    and fin: "finite (dom (z s))" and d: "distinct (map fst seen)"
  shows "length (filter (in_window f w t s) seen) \<le> card (dom (live_scores f (t - w) (z s)))"
proof -
  have d': "distinct (map fst (filter (in_window f w t s) seen))" using d by (simp add: distinct_map_filter)
  have "set (map fst (filter (in_window f w t s) seen)) \<subseteq> dom (live_scores f (t - w) (z s))"
  proof
    fix m assume "m \<in> set (map fst (filter (in_window f w t s) seen))"
    then obtain x where x: "x \<in> set seen" "in_window f w t s x" "m = fst x" by auto
    then have "z s m = Some (f m)" using z later unfolding shows_window_def by blast
    then show "m \<in> dom (live_scores f (t - w) (z s))" using x(2,3) by (auto simp: live_scores_def in_window_def)
  qed
  moreover have "finite (dom (live_scores f (t - w) (z s)))"
    by (rule finite_subset [OF _ fin]) (auto simp: live_scores_def split: option.splits)
  ultimately have "card (set (map fst (filter (in_window f w t s) seen))) \<le> card (dom (live_scores f (t - w) (z s)))"
    by (rule card_mono [rotated])
  then show ?thesis using distinct_card [OF d'] by simp
qed

lemma length_window_run [simp]: "length (window_run P key limit xs r) = length xs"
  by (induction xs arbitrary: r) (auto split: prod.splits sum.splits)

text \<open>The requests of one key in their order, by both clocks, at distinct instants.\<close>

definition in_order :: "(instant \<times> instant) list \<Rightarrow> bool" where
  "in_order xs \<longleftrightarrow> sorted (map fst xs) \<and> sorted (map snd xs) \<and> distinct (map fst xs)"

lemma window_run_verdicts:
  assumes law: "rate_lawful P f Z" and nn: "\<And>x. x \<in> set (seen @ xs) \<Longrightarrow> 0 \<le> f (fst x)"
    and ord: "in_order (seen @ xs)" and z: "shows_window f (rl_Window limit) (\<lambda>s. Z s r key) seen"
    and i: "i < length xs" and adm: "window_run P key limit xs r ! i = Some True"
  shows "int (length (filter (in_window f (rl_Window limit) (fst (xs ! i)) (snd (xs ! i))) (seen @ take i xs))) < rl_Rate limit"
  using nn ord z i adm
proof (induction xs arbitrary: seen r i)
  case (Cons x xs)
  let ?w = "rl_Window limit"
  obtain t s where x: "x = (t, s)" by fastforce
  have ord: "\<And>y. y \<in> set seen \<Longrightarrow> fst y \<le> t \<and> snd y \<le> s" "distinct (map fst seen)"
    using Cons.prems(2) by (auto simp: in_order_def sorted_append x)
  obtain r' where c: "checkLimit P t s key limit r = (Inr (int (card (dom (live_scores f (t - ?w) (Z s r key)))) < rl_Rate limit), r')"
    "\<And>s'. s \<le> s' \<Longrightarrow> s' < s + expiry ?w \<Longrightarrow> Z s' r' key = (live_scores f (t - ?w) (Z s r key))(t \<mapsto> f t)"
    using checkLimit_law [OF law, of t s key limit r] by auto
  show ?case
  proof (cases i)
    case 0
    have "length (filter (in_window f ?w t s) seen) \<le> card (dom (live_scores f (t - ?w) (Z s r key)))"
      by (rule shown_are_counted [OF Cons.prems(3) ord(1) rate_laws(2) [OF law] ord(2)])
    then show ?thesis using Cons.prems(5) 0 by (simp add: x c(1))
  next
    case (Suc k)
    have "shows_window f ?w (\<lambda>s. Z s r' key) (seen @ [(t, s)])"
      by (rule shows_window_step [OF Cons.prems(3) rate_laws(1) [OF law] _ ord(1) c(2)]) (use Cons.prems(1) in auto)
    then show ?thesis using Cons.IH [of "seen @ [x]" r' k] Cons.prems Suc by (simp add: x c(1))
  qed
qed simp

text \<open>If every admitted request found few in its window, few are admitted in any window that ends with a request.\<close>

lemma admitted_at_most:
  fixes i n :: nat and win :: "nat \<Rightarrow> nat \<Rightarrow> bool"
  assumes few: "\<And>k. k < n \<Longrightarrow> adm k \<Longrightarrow> int (card {j. j < k \<and> win k j}) < R" and "0 \<le> R"
    and shrink: "\<And>i j k. j < k \<Longrightarrow> k \<le> i \<Longrightarrow> i < n \<Longrightarrow> win i j \<Longrightarrow> win k j" and i: "i < n"
  shows "int (card {j. j \<le> i \<and> win i j \<and> adm j}) \<le> R"
proof (cases "{j. j \<le> i \<and> win i j \<and> adm j} = {}")
  case True
  show ?thesis unfolding True using assms(2) by simp
next
  case False
  let ?A = "{j. j \<le> i \<and> win i j \<and> adm j}"
  define k where "k = Max ?A"
  have fin: "finite ?A" by simp
  have k: "k \<in> ?A" unfolding k_def using Max_in [OF fin False] .
  have "?A \<subseteq> insert k {j. j < k \<and> win k j}"
  proof
    fix j assume j: "j \<in> ?A"
    then have "j \<le> k" unfolding k_def using Max_ge [OF fin] by blast
    then show "j \<in> insert k {j. j < k \<and> win k j}" using j k i shrink [of j k i] by (cases "j = k") auto
  qed
  then have "card ?A \<le> card (insert k {j. j < k \<and> win k j})" by (intro card_mono) simp_all
  also have "\<dots> \<le> Suc (card {j. j < k \<and> win k j})" by (simp add: card_insert_if)
  finally have "card ?A \<le> Suc (card {j. j < k \<and> win k j})" .
  moreover have "int (card {j. j < k \<and> win k j}) < R" using few [of k] k i by simp
  ultimately show ?thesis by linarith
qed

lemma card_filter_take: "i \<le> length xs \<Longrightarrow> card {j. j < i \<and> P (xs ! j)} = length (filter P (take i xs))"
  by (subst length_filter_conv_card) (auto intro: arg_cong [where f = card])

text \<open>
  C29: The distributed limiter keeps its promise to requests whose pipelines do not overlap. When Redis answers and the
  requests for a key come in order and at distinct nanoseconds, no window that ends with a request contains
  more than \<open>Rate\<close> admitted ones. The window reaches back over \<open>Window\<close> on the clients' clock (as a
  \<open>float64\<close> tells the instants apart), but not further than the whole seconds of \<open>Window\<close>, at least one, on the server's
  clock: then the key expires. (Pipelines that overlap break the bound.)
\<close>

theorem window_admits_at_most_rate:
  assumes "rate_lawful P f Z" and "in_order xs" and "\<And>x. x \<in> set xs \<Longrightarrow> 0 \<le> f (fst x)"
    and "i < length xs" and "0 \<le> rl_Rate limit"
  shows "int (card {j. j \<le> i \<and> f (fst (xs ! i) - rl_Window limit) < f (fst (xs ! j)) \<and>
      snd (xs ! i) < snd (xs ! j) + expiry (rl_Window limit) \<and> window_run P key limit xs r ! j = Some True}) \<le> rl_Rate limit"
proof -
  let ?w = "rl_Window limit"
  let ?win = "\<lambda>k j. in_window f ?w (fst (xs ! k)) (snd (xs ! k)) (xs ! j)"
  have "int (card {j. j \<le> i \<and> ?win i j \<and> window_run P key limit xs r ! j = Some True}) \<le> rl_Rate limit"
  proof (rule admitted_at_most [OF _ assms(5) _ assms(4)])
    fix k assume k: "k < length xs" "window_run P key limit xs r ! k = Some True"
    have "int (length (filter (in_window f ?w (fst (xs ! k)) (snd (xs ! k))) (take k xs))) < rl_Rate limit"
      using window_run_verdicts [OF assms(1), of "[]" xs limit r key k] assms(2,3) k by (simp add: shows_window_def)
    then show "int (card {j. j < k \<and> ?win k j}) < rl_Rate limit" using k(1) by (simp add: card_filter_take)
  next
    fix i j k assume "j < k" "k \<le> i" "i < length xs" and win: "?win i j"
    then have "fst (xs ! k) \<le> fst (xs ! i)" "snd (xs ! k) \<le> snd (xs ! i)"
      using assms(2) by (auto simp: in_order_def sorted_iff_nth_mono)
    moreover from this have "f (fst (xs ! k) - ?w) \<le> f (fst (xs ! i) - ?w)" using rate_laws(1) [OF assms(1)] by (simp add: monoD)
    ultimately show "?win k j" using win by (simp add: in_window_def)
  qed
  then show ?thesis by (simp add: in_window_def)
qed

subsection \<open>Requests that overlap\<close>

text \<open>All of the requests count before one of them adds itself, as when their pipelines meet at the server.\<close>

primrec count_all ::
  "'r rate_redis \<Rightarrow> string \<Rightarrow> rate_limit \<Rightarrow> (instant \<times> instant) list \<Rightarrow> 'r \<Rightarrow> (redis_error option \<times> (redis_error + int)) list \<times> 'r" where
  "count_all P key limit [] r = ([], r)"
| "count_all P key limit (x # xs) r =
     (case pipe_count P (fst x) (snd x) key limit r of
        (c, r1) \<Rightarrow> (case count_all P key limit xs r1 of (cs, r2) \<Rightarrow> (c # cs, r2)))"

primrec add_all ::
  "'r rate_redis \<Rightarrow> string \<Rightarrow> rate_limit \<Rightarrow> (instant \<times> instant) list \<Rightarrow> 'r \<Rightarrow> (redis_error option \<times> redis_error option) list \<times> 'r" where
  "add_all P key limit [] r = ([], r)"
| "add_all P key limit (x # xs) r =
     (case pipe_add P (fst x) (snd x) key limit r of
        (a, r1) \<Rightarrow> (case add_all P key limit xs r1 of (as, r2) \<Rightarrow> (a # as, r2)))"

definition overlapping_run :: "'r rate_redis \<Rightarrow> string \<Rightarrow> rate_limit \<Rightarrow> (instant \<times> instant) list \<Rightarrow> 'r \<Rightarrow> (redis_error + bool) list" where
  "overlapping_run P key limit xs r =
     (case count_all P key limit xs r of (cs, r1) \<Rightarrow> (case add_all P key limit xs r1 of (as, r2) \<Rightarrow> map2 (pipe_verdict limit) cs as))"

lemma count_all_empty:
  assumes "rate_lawful P f Z" and "sorted (map snd xs)" and "\<And>s' x. x \<in> set xs \<Longrightarrow> snd x \<le> s' \<Longrightarrow> Z s' r key = Map.empty"
  shows "fst (count_all P key limit xs r) = replicate (length xs) (None, Inr 0)"
  using assms(2,3)
proof (induction xs arbitrary: r)
  case (Cons x xs)
  obtain r1 where c: "pipe_count P (fst x) (snd x) key limit r =
      ((None, Inr (int (card (dom (live_scores f (fst x - rl_Window limit) (Z (snd x) r key)))))), r1)"
    "\<And>s'. snd x \<le> s' \<Longrightarrow> Z s' r1 key = live_scores f (fst x - rl_Window limit) (Z s' r key)"
    using pipe_count_law [OF assms(1), of "fst x" "snd x" key limit r] by auto
  have none: "live_scores f b Map.empty = Map.empty" for b by (simp add: live_scores_def)
  have "Z (snd x) r key = Map.empty" by (rule Cons.prems(2) [of x]) simp_all
  then have "pipe_count P (fst x) (snd x) key limit r = ((None, Inr 0), r1)" by (simp add: c(1) none)
  moreover have "fst (count_all P key limit xs r1) = replicate (length xs) (None, Inr 0)"
  proof (rule Cons.IH)
    fix s' y assume y: "y \<in> set xs" "snd y \<le> s'"
    then have "snd x \<le> s'" using Cons.prems(1) by force
    then have "Z s' r key = Map.empty" by (intro Cons.prems(2) [of x]) simp_all
    then show "Z s' r1 key = Map.empty" using c(2) [OF \<open>snd x \<le> s'\<close>] none by simp
  qed (use Cons.prems(1) in simp)
  ultimately show ?case by (cases "count_all P key limit xs r1") simp
qed simp

lemma add_all_ok:
  assumes "rate_lawful P f Z"
  shows "fst (add_all P key limit xs r) = replicate (length xs) (None, None)"
proof (induction xs arbitrary: r)
  case (Cons x xs)
  obtain r1 where "pipe_add P (fst x) (snd x) key limit r = ((None, None), r1)"
    using pipe_add_law [OF assms, of "fst x" "snd x" key limit r] by blast
  then show ?case using Cons.IH [of r1] by (cases "add_all P key limit xs r1") simp
qed simp

text \<open>
  Requests whose pipelines overlap are all admitted, however many they are and however small the rate: the
  pipeline is not a transaction, so each counts before the others are added.
\<close>

theorem overlapping_requests_are_admitted:
  assumes "rate_lawful P f Z" and "sorted (map snd xs)" and "\<And>s'. Z s' r key = Map.empty" and "0 < rl_Rate limit"
  shows "overlapping_run P key limit xs r = replicate (length xs) (Inr True)"
proof -
  obtain cs r1 where c: "count_all P key limit xs r = (cs, r1)" by fastforce
  obtain as r2 where a: "add_all P key limit xs r1 = (as, r2)" by fastforce
  have "cs = replicate (length xs) (None, Inr 0)"
    using count_all_empty [OF assms(1,2), of r key limit] assms(3) c by simp
  moreover have "as = replicate (length xs) (None, None)" using add_all_ok [OF assms(1), of key limit xs r1] a by simp
  ultimately show ?thesis using assms(4)
    by (simp add: overlapping_run_def c a zip_replicate1 zip_replicate)
qed

section \<open>The breaker of the middleware\<close>

record mw_breaker =
  mb_maxFailures :: int
  mb_resetTime :: duration
  mb_failures :: int
  mb_lastFailure :: "instant option"
  mb_state :: string

definition NewMwBreaker :: "int \<Rightarrow> duration \<Rightarrow> mw_breaker" where
  "NewMwBreaker maxFailures resetTime = \<lparr>mb_maxFailures = maxFailures, mb_resetTime = resetTime, mb_failures = 0,
     mb_lastFailure = None, mb_state = ''closed''\<rparr>"

definition mb_since :: "instant \<Rightarrow> instant option \<Rightarrow> duration" where
  "mb_since now t0 = (case t0 of None \<Rightarrow> max_duration | Some t \<Rightarrow> time_sub now t)"

text \<open>
  \<open>Call\<close> entered at \<open>now\<close>, \<open>fn\<close> returning at \<open>now'\<close> with the error \<open>outcome\<close>: \<open>None\<close> when the call was
  rejected, else the error of \<open>fn\<close>.
\<close>

definition mb_Call :: "instant \<Rightarrow> instant \<Rightarrow> 'e option \<Rightarrow> mw_breaker \<Rightarrow> 'e option option \<times> mw_breaker" where
  "mb_Call now now' outcome cb =
     (let admit = (\<lambda>cb. case outcome of
            Some e \<Rightarrow> let cb1 = cb\<lparr>mb_failures := mb_failures cb + 1, mb_lastFailure := Some now'\<rparr>
                      in (Some (Some e), if mb_failures cb1 \<ge> mb_maxFailures cb1 then cb1\<lparr>mb_state := ''open''\<rparr> else cb1)
          | None \<Rightarrow> (Some None, cb\<lparr>mb_failures := 0, mb_state := ''closed''\<rparr>))
      in if mb_state cb = ''open''
         then (if mb_since now (mb_lastFailure cb) > mb_resetTime cb
               then admit (cb\<lparr>mb_state := ''half-open'', mb_failures := 0\<rparr>)
               else (None, cb))
         else admit cb)"

text \<open>A sequence of calls, one after the other: the instants and outcomes, and the answers.\<close>

fun mb_calls :: "(instant \<times> instant \<times> 'e option) list \<Rightarrow> mw_breaker \<Rightarrow> 'e option option list \<times> mw_breaker" where
  "mb_calls [] cb = ([], cb)"
| "mb_calls ((t, t', x) # cs) cb =
     (case mb_Call t t' x cb of (a, cb') \<Rightarrow> (case mb_calls cs cb' of (as, cb'') \<Rightarrow> (a # as, cb'')))"

definition mb_ok :: "mw_breaker \<Rightarrow> bool" where
  "mb_ok cb \<longleftrightarrow> mb_state cb \<in> {''closed'', ''half-open'', ''open''} \<and> 0 \<le> mb_failures cb \<and> 0 < mb_maxFailures cb \<and>
     (mb_state cb = ''open'' \<longleftrightarrow> mb_failures cb \<ge> mb_maxFailures cb) \<and>
     (mb_state cb = ''half-open'' \<longrightarrow> 0 < mb_failures cb) \<and> (0 < mb_failures cb \<longrightarrow> mb_lastFailure cb \<noteq> None)"

lemma mb_Call_ok: "mb_ok cb \<Longrightarrow> mb_ok (snd (mb_Call t t' x cb))"
  by (auto simp: mb_ok_def mb_Call_def Let_def split: option.splits if_splits)

lemma mb_calls_ok: "mb_ok cb \<Longrightarrow> mb_ok (snd (mb_calls cs cb))"
proof (induction cs cb rule: mb_calls.induct)
  case (2 t t' x cs cb)
  then show ?case using mb_Call_ok [of cb t t' x] by (auto split: prod.splits)
qed simp

lemma mb_Call_frame:
  "mb_maxFailures (snd (mb_Call t t' x cb)) = mb_maxFailures cb"
  "mb_resetTime (snd (mb_Call t t' x cb)) = mb_resetTime cb"
  by (auto simp: mb_Call_def Let_def split: option.splits if_splits)

lemma mb_calls_frame:
  "mb_maxFailures (snd (mb_calls cs cb)) = mb_maxFailures cb \<and> mb_resetTime (snd (mb_calls cs cb)) = mb_resetTime cb"
proof (induction cs cb rule: mb_calls.induct)
  case (2 t t' x cs cb)
  then show ?case using mb_Call_frame [of t t' x cb] by (auto split: prod.splits)
qed simp

text \<open>
  In every sequence of calls the breaker is open exactly when at least \<open>maxFailures\<close> calls have failed since
  the last success or the last half-opening, it then rejects until the reset time has passed, and a failure in the
  half-open state counts as the first of a new series: it does not reopen the breaker unless \<open>maxFailures\<close> is one.
\<close>

theorem mw_breaker_invariant:
  assumes "0 < maxFailures"
  shows "let cb = snd (mb_calls cs (NewMwBreaker maxFailures resetTime))
    in mb_ok cb \<and>
      (mb_state cb = ''open'' \<and> mb_since t (mb_lastFailure cb) \<le> resetTime \<longrightarrow> mb_Call t t' x cb = (None, cb)) \<and>
      (mb_state cb = ''open'' \<and> resetTime < mb_since t (mb_lastFailure cb) \<longrightarrow>
         mb_failures (snd (mb_Call t t' (Some e) cb)) = 1 \<and>
         (mb_state (snd (mb_Call t t' (Some e) cb)) = ''open'' \<longleftrightarrow> maxFailures = 1))"
proof -
  let ?cb = "snd (mb_calls cs (NewMwBreaker maxFailures resetTime))"
  have c: "mb_maxFailures ?cb = maxFailures" "mb_resetTime ?cb = resetTime" by (simp_all add: mb_calls_frame NewMwBreaker_def)
  have ok: "mb_ok ?cb" by (rule mb_calls_ok) (use assms in \<open>simp add: mb_ok_def NewMwBreaker_def\<close>)
  show ?thesis using assms ok c by (auto simp: Let_def mb_Call_def)
qed

section \<open>Concrete clients\<close>

text \<open>A server that keeps the members of a set, which are their own scores, and the instant of its expiry.\<close>

type_synonym mem_zsets = "string \<Rightarrow> int list \<times> instant option"

definition mem_live :: "instant \<Rightarrow> mem_zsets \<Rightarrow> string \<Rightarrow> bool" where
  "mem_live s r key = (case snd (r key) of None \<Rightarrow> True | Some e \<Rightarrow> s < e)"

definition mem_members :: "instant \<Rightarrow> mem_zsets \<Rightarrow> string \<Rightarrow> int list" where
  "mem_members s r key = (if mem_live s r key then fst (r key) else [])"

definition mem_scores :: "instant \<Rightarrow> mem_zsets \<Rightarrow> string \<Rightarrow> int \<Rightarrow> int option" where
  "mem_scores s r key m = (if m \<in> set (mem_members s r key) then Some m else None)"

definition mem_rate :: "mem_zsets rate_redis" where
  "mem_rate = \<lparr>
     rr_ZRemRange = (\<lambda>s key ws r. (None, r(key := (filter (\<lambda>m. \<not> (0 \<le> m \<and> m \<le> ws)) (fst (r key)), snd (r key))))),
     rr_ZCard = (\<lambda>s key r. (Inr (int (length (remdups (mem_members s r key)))), r)),
     rr_ZAdd = (\<lambda>s key m r. (None, r(key := (m # mem_members s r key, if mem_live s r key then snd (r key) else None)))),
     rr_Expire = (\<lambda>s key w r. (None, r(key := (mem_members s r key, Some (s + expiry w)))))\<rparr>"

lemma dom_mem_scores: "dom (mem_scores s r key) = set (mem_members s r key)"
  by (auto simp: mem_scores_def split: if_splits)

lemma mem_rate_lawful: "rate_lawful mem_rate id mem_scores"
  unfolding rate_lawful_def
proof (intro conjI allI impI)
  fix s :: int and s' :: int and key r ws e r'
  assume "rr_ZRemRange mem_rate s key ws r = (e, r')"
  then have "e = None" and r': "r' = r(key := (filter (\<lambda>m. \<not> (0 \<le> m \<and> m \<le> ws)) (fst (r key)), snd (r key)))"
    by (simp_all add: mem_rate_def)
  then show "e = None" by simp
  show "mem_scores s' r' key = live_scores id ws (mem_scores s' r key)"
    by (rule ext) (auto simp: r' mem_scores_def mem_members_def mem_live_def live_scores_def)
next
  fix s s' :: int and key r w e r'
  assume x: "rr_Expire mem_rate s key w r = (e, r')"
  then show "e = None" by (simp add: mem_rate_def)
  assume "s \<le> s'"
  with x show "mem_scores s' r' key = (if s' < s + expiry w then mem_scores s r key else Map.empty)"
    by (auto simp: mem_rate_def mem_scores_def mem_members_def mem_live_def)
next
  fix s key m r e r'
  assume "rr_ZAdd mem_rate s key m r = (e, r')"
  then have "e = None" and r': "r' = r(key := (m # mem_members s r key, if mem_live s r key then snd (r key) else None))"
    by (simp_all add: mem_rate_def)
  then show "e = None" by simp
  have "mem_live s r' key" by (simp add: r' mem_live_def)
  moreover have "fst (r' key) = m # mem_members s r key" by (simp add: r')
  ultimately have "mem_members s r' key = m # mem_members s r key" by (simp add: mem_members_def [of s r'])
  then show "mem_scores s r' key = (mem_scores s r key)(m \<mapsto> id m)" by (auto simp: mem_scores_def)
qed (auto simp: mem_rate_def dom_mem_scores mono_def length_remdups_card_conv)

definition ex_limit :: rate_limit where
  "ex_limit = \<lparr>rl_Rate = 2, rl_Window = 3 * second, rl_KeyFunc = IPKeyFunc, rl_OnLimit = None\<rparr>"

text \<open>Four requests, the third within the window and rejected, the fourth after it.\<close>

definition ex_requests :: "(instant \<times> instant) list" where
  "ex_requests = [(10 * second, 11 * second), (11 * second, 12 * second), (12 * second, 13 * second), (20 * second, 21 * second)]"

lemma ex_requests_run: "window_run mem_rate ''k'' ex_limit ex_requests (\<lambda>_. ([], None)) = [Some True, Some True, Some False, Some True]"
  by (simp add: ex_requests_def ex_limit_def checkLimit_def pipe_count_def pipe_add_def Let_def mem_rate_def mem_members_def
      mem_live_def expiry_def dur_defs)

theorem window_admits_at_most_rate_witness:
  "window_run mem_rate ''k'' ex_limit ex_requests (\<lambda>_. ([], None)) = [Some True, Some True, Some False, Some True] \<and>
   int (card {j. j \<le> 2 \<and> 12 * second - 3 * second < fst (ex_requests ! j) \<and>
      13 * second < snd (ex_requests ! j) + expiry (3 * second) \<and>
      window_run mem_rate ''k'' ex_limit ex_requests (\<lambda>_. ([], None)) ! j = Some True}) \<le> 2"
proof -
  have ord: "in_order ex_requests" by (simp add: in_order_def ex_requests_def dur_defs)
  have at: "fst (ex_requests ! 2) = 12 * second" "snd (ex_requests ! 2) = 13 * second" "2 < length ex_requests"
    by (simp_all add: ex_requests_def)
  have "int (card {j. j \<le> 2 \<and> id (fst (ex_requests ! 2) - rl_Window ex_limit) < id (fst (ex_requests ! j)) \<and>
      snd (ex_requests ! 2) < snd (ex_requests ! j) + expiry (rl_Window ex_limit) \<and>
      window_run mem_rate ''k'' ex_limit ex_requests (\<lambda>_. ([], None)) ! j = Some True}) \<le> rl_Rate ex_limit"
    by (rule window_admits_at_most_rate [OF mem_rate_lawful ord _ at(3)]) (auto simp: ex_requests_def ex_limit_def dur_defs)
  then show ?thesis unfolding at ex_requests_run by (simp add: ex_limit_def)
qed

theorem overlapping_requests_are_admitted_witness:
  "overlapping_run mem_rate ''k'' ex_limit [(1, 5), (2, 5), (3, 6)] (\<lambda>_. ([], None)) = [Inr True, Inr True, Inr True]"
  using overlapping_requests_are_admitted [OF mem_rate_lawful, of "[(1, 5), (2, 5), (3, 6)]" "\<lambda>_. ([], None)" "''k''" ex_limit]
  by (simp add: mem_scores_def mem_members_def mem_live_def ex_limit_def fun_eq_iff numeral_3_eq_3)

theorem mw_breaker_invariant_witness:
  "mb_ok (snd (mb_calls [(0, 1, Some ()), (2, 3, Some ())] (NewMwBreaker 2 second))) \<and>
    mb_Call 4 5 None (snd (mb_calls [(0, 1, Some ()), (2, 3, Some ())] (NewMwBreaker 2 second))) =
      (None, snd (mb_calls [(0, 1, Some ()), (2, 3, Some ())] (NewMwBreaker 2 second)))"
  using mw_breaker_invariant [of 2 "[(0, 1, Some ()), (2, 3, Some ())]" second 4 5 None "()"]
  by (simp add: Let_def mb_Call_def NewMwBreaker_def mb_since_def time_sub_def max_duration_def dur_defs)

end
