(* ===== verification/Router.thy ===== *)
theory Router
  imports AuthzMiddleware RateLimiter Monitoring "HOL-Library.Char_ord" "HOL-Library.List_Lexorder"
begin

text \<open>
  The routes of \<^verbatim>\<open>backend/main.go\<close> (\<open>setupRoutes\<close>) and the chain of middlewares every request passes. gin's search for a
  route is a parameter with its documented laws, the CORS middleware of \<^verbatim>\<open>gin-contrib/cors\<close> one without any; the
  handlers are those of the other theories, here a parameter \<open>handle\<close> on a state \<open>'s\<close>.
\<close>

section \<open>Routes\<close>

datatype segment = Lit string | Par string

text \<open>The priority of gin: a literal segment before a parameter.\<close>

instantiation segment :: linorder
begin

fun less_eq_segment :: "segment \<Rightarrow> segment \<Rightarrow> bool" where
  "less_eq_segment (Lit a) (Lit b) = (a \<le> b)"
| "less_eq_segment (Lit a) (Par b) = True"
| "less_eq_segment (Par a) (Lit b) = False"
| "less_eq_segment (Par a) (Par b) = (a \<le> b)"

definition less_segment :: "segment \<Rightarrow> segment \<Rightarrow> bool" where
  "less_segment a b = (a \<le> b \<and> \<not> b \<le> a)"

instance
proof
  fix x y z :: segment
  show "x < y \<longleftrightarrow> x \<le> y \<and> \<not> y \<le> x" by (rule less_segment_def)
  show "x \<le> x" by (cases x) simp_all
  show "x \<le> y \<or> y \<le> x" by (cases x; cases y) auto
  show "x = y" if "x \<le> y" "y \<le> x" using that by (cases x; cases y) auto
  show "x \<le> z" if "x \<le> y" "y \<le> z" using that by (cases x; cases y; cases z) auto
qed

end

datatype endpoint =
    EpHealth | EpReady | EpMetrics | EpRegister | EpLogin | EpRefresh
  | EpCreateTask | EpUpdateTask | EpDeleteTask | EpGetTask | EpListTasks
  | EpDeleteUser | EpListUsers | EpUserTasks | EpProfile | EpProfileOf | EpUpdateProfile
  | EpCacheStats | EpCacheClear | EpCacheHealth | EpCacheWarm | EpJobWarmup | EpJobBatch | EpJobScheduled | EpJobEvict

datatype guard = NeedsToken | NeedsAdmin

record route =
  rt_method :: string
  rt_pattern :: "segment list"
  rt_guards :: "guard list"
  rt_endpoint :: endpoint

definition route_at :: "string \<Rightarrow> segment list \<Rightarrow> endpoint \<Rightarrow> route" where
  "route_at m p e = \<lparr>rt_method = m, rt_pattern = p, rt_guards = [], rt_endpoint = e\<rparr>"

text \<open>A group puts its prefix and its middlewares before those of its routes.\<close>

definition group :: "segment list \<Rightarrow> guard list \<Rightarrow> route list \<Rightarrow> route list" where
  "group prefix guards rs = map (\<lambda>r. r\<lparr>rt_pattern := prefix @ rt_pattern r, rt_guards := guards @ rt_guards r\<rparr>) rs"

definition auth_routes :: "route list" where
  "auth_routes = [route_at ''POST'' [Lit ''register''] EpRegister, route_at ''POST'' [Lit ''login''] EpLogin,
     route_at ''POST'' [Lit ''refresh''] EpRefresh]"

definition task_routes :: "route list" where
  "task_routes = [route_at ''POST'' [] EpCreateTask, route_at ''PUT'' [Par ''id''] EpUpdateTask,
     route_at ''DELETE'' [Par ''id''] EpDeleteTask, route_at ''GET'' [Par ''id''] EpGetTask, route_at ''GET'' [] EpListTasks]"

definition user_routes :: "route list" where
  "user_routes = [route_at ''DELETE'' [Par ''user_id''] EpDeleteUser, route_at ''GET'' [] EpListUsers,
     route_at ''GET'' [Par ''user_id'', Lit ''tasks''] EpUserTasks, route_at ''GET'' [Lit ''profile''] EpProfile,
     route_at ''GET'' [Lit ''profile'', Par ''user_id''] EpProfileOf, route_at ''PUT'' [Lit ''profile''] EpUpdateProfile]"

definition job_routes :: "route list" where
  "job_routes = [route_at ''POST'' [Lit ''warmup''] EpJobWarmup, route_at ''POST'' [Lit ''batch''] EpJobBatch,
     route_at ''POST'' [Lit ''scheduled''] EpJobScheduled, route_at ''DELETE'' [Lit ''evict'', Par ''key''] EpJobEvict]"

definition cache_routes :: "route list" where
  "cache_routes = [route_at ''GET'' [Lit ''stats''] EpCacheStats, route_at ''DELETE'' [Lit ''clear''] EpCacheClear,
     route_at ''GET'' [Lit ''health''] EpCacheHealth, route_at ''POST'' [Lit ''warm''] EpCacheWarm] @ group [Lit ''jobs''] [] job_routes"

definition setupRoutes :: "bool \<Rightarrow> route list" where
  "setupRoutes hasCache =
     [route_at ''GET'' [Lit ''health''] EpHealth, route_at ''GET'' [Lit ''ready''] EpReady, route_at ''GET'' [Lit ''metrics''] EpMetrics] @
     group [Lit ''api'', Lit ''v1'']  []
       (group [Lit ''auth''] [] auth_routes @
        group [] [NeedsToken]
          (group [Lit ''tasks''] [] task_routes @ group [Lit ''users''] [] user_routes @
           (if hasCache then group [Lit ''cache''] [NeedsAdmin] cache_routes else [])))"

section \<open>Finding a route\<close>

fun matches :: "segment list \<Rightarrow> string list \<Rightarrow> bool" where
  "matches [] [] = True"
| "matches (Lit l # ps) (x # xs) = (l = x \<and> matches ps xs)"
| "matches (Par n # ps) (x # xs) = (x \<noteq> [] \<and> matches ps xs)"
| "matches _ _ = False"

fun path_params :: "segment list \<Rightarrow> string list \<Rightarrow> string \<Rightarrow> string" where
  "path_params (Lit l # ps) (x # xs) n = path_params ps xs n"
| "path_params (Par k # ps) (x # xs) n = (if k = n then x else path_params ps xs n)"
| "path_params _ _ n = []"

fun pattern_text :: "segment list \<Rightarrow> string" where
  "pattern_text [] = []"
| "pattern_text (Lit l # ps) = ''/'' @ l @ pattern_text ps"
| "pattern_text (Par n # ps) = ''/:'' @ n @ pattern_text ps"

type_synonym router = "route list \<Rightarrow> string \<Rightarrow> string list \<Rightarrow> route option"

text \<open>A route that matches is found, and among those that match the first in the order of the patterns.\<close>

definition router_lawful :: "router \<Rightarrow> bool" where
  "router_lawful F \<longleftrightarrow> (\<forall>rs m p. case F rs m p of
       Some r \<Rightarrow> r \<in> set rs \<and> rt_method r = m \<and> matches (rt_pattern r) p \<and>
         (\<forall>r' \<in> set rs. rt_method r' = m \<and> matches (rt_pattern r') p \<longrightarrow> rt_pattern r \<le> rt_pattern r')
     | None \<Rightarrow> \<forall>r \<in> set rs. \<not> (rt_method r = m \<and> matches (rt_pattern r) p))"

lemma router_found:
  "router_lawful F \<Longrightarrow> F rs m p = Some r \<Longrightarrow> r \<in> set rs \<and> rt_method r = m \<and> matches (rt_pattern r) p \<and>
     (\<forall>r' \<in> set rs. rt_method r' = m \<and> matches (rt_pattern r') p \<longrightarrow> rt_pattern r \<le> rt_pattern r')"
  unfolding router_lawful_def by (erule allE [of _ rs], erule allE [of _ m], erule allE [of _ p]) simp

lemma router_missing: "router_lawful F \<Longrightarrow> F rs m p = None \<Longrightarrow> r \<in> set rs \<Longrightarrow> rt_method r = m \<Longrightarrow> \<not> matches (rt_pattern r) p"
  unfolding router_lawful_def by (erule allE [of _ rs], erule allE [of _ m], erule allE [of _ p]) simp

text \<open>
  \<open>gin.New\<close> leaves \<open>RedirectTrailingSlash\<close> on: a path that no route matches, but that one matches once a slash at its
  end is dropped or added, is answered with a redirection to that path, 301 for GET and 307 otherwise. A path that
  ends in a slash has an empty last segment.
\<close>

definition toggle_slash :: "string list \<Rightarrow> string list" where
  "toggle_slash p = (if p \<noteq> [] \<and> last p = [] then butlast p else p @ [[]])"

definition redirect_slash :: "router \<Rightarrow> route list \<Rightarrow> string \<Rightarrow> string list \<Rightarrow> nat option" where
  "redirect_slash F rs m p =
     (if F rs m p = None \<and> m \<noteq> ''CONNECT'' \<and> p \<noteq> [[]] \<and> F rs m (toggle_slash p) \<noteq> None
      then Some (if m = ''GET'' then 301 else 307) else None)"

text \<open>A router: the least of the routes that match.\<close>

definition least_route :: router where
  "least_route rs m p = (case filter (\<lambda>r. rt_method r = m \<and> matches (rt_pattern r) p) rs of
     [] \<Rightarrow> None
   | r # rest \<Rightarrow> Some (foldl (\<lambda>b r. if rt_pattern r < rt_pattern b then r else b) r rest))"

lemma foldl_least:
  "foldl (\<lambda>b r. if rt_pattern r < rt_pattern b then r else b) r rs \<in> set (r # rs) \<and>
   (\<forall>r' \<in> set (r # rs). rt_pattern (foldl (\<lambda>b r. if rt_pattern r < rt_pattern b then r else b) r rs) \<le> rt_pattern r')"
proof (induction rs arbitrary: r)
  case (Cons x rs)
  show ?case using Cons.IH [of r] Cons.IH [of x] by (cases "rt_pattern x < rt_pattern r") (auto intro: order_trans)
qed simp

lemma least_route_lawful: "router_lawful least_route"
  unfolding router_lawful_def
proof (intro allI)
  fix rs m p
  show "case least_route rs m p of
       Some r \<Rightarrow> r \<in> set rs \<and> rt_method r = m \<and> matches (rt_pattern r) p \<and>
         (\<forall>r' \<in> set rs. rt_method r' = m \<and> matches (rt_pattern r') p \<longrightarrow> rt_pattern r \<le> rt_pattern r')
     | None \<Rightarrow> \<forall>r \<in> set rs. \<not> (rt_method r = m \<and> matches (rt_pattern r) p)"
  proof (cases "filter (\<lambda>r. rt_method r = m \<and> matches (rt_pattern r) p) rs")
    case Nil
    then show ?thesis by (simp add: least_route_def filter_empty_conv)
  next
    case (Cons r rest)
    have "set (r # rest) = {r \<in> set rs. rt_method r = m \<and> matches (rt_pattern r) p}"
      by (simp only: Cons [symmetric] set_filter)
    then show ?thesis using foldl_least [of r rest] by (simp add: least_route_def Cons)
  qed
qed

section \<open>The chain\<close>

text \<open>
  What the chain needs: the authentication, the database of the admin check and its view of the state, the printer of context
  values, the bucket of the rate limiter, the CORS middleware, the router and the handlers.
\<close>

record ('d, 'l, 's, 'a, 't) server_parts =
  sp_auth :: "'t auth_env"
  sp_authz :: "'d authz_db"
  sp_db :: "'s \<Rightarrow> 'd"
  sp_show :: "ctx_value \<Rightarrow> string"
  sp_bucket :: "'l bucket"
  sp_cors :: "gin_ctx \<Rightarrow> mw_result"
  sp_router :: router
  sp_stext :: "nat \<Rightarrow> string"
  sp_handle :: "endpoint \<Rightarrow> gin_ctx \<Rightarrow> 's \<Rightarrow> 'a response \<times> 's"

record ('l, 's) chain_state =
  sv_metrics :: metrics
  sv_visitors :: "string \<rightharpoonup> 'l"
  sv_app :: 's

fun run_guards :: "('d, 'l, 's, 'a, 't) server_parts \<Rightarrow> instant \<Rightarrow> 's \<Rightarrow> guard list \<Rightarrow> gin_ctx \<Rightarrow> mw_result" where
  "run_guards S now s [] c = Proceed c"
| "run_guards S now s (g # gs) c =
     (case (case g of NeedsToken \<Rightarrow> AuthzMiddleware (sp_auth S) now no_requirements c
                    | NeedsAdmin \<Rightarrow> adminOnlyMiddleware (ae_uuid (sp_auth S)) (sp_authz S) (sp_show S) c (sp_db S s)) of
        Proceed c' \<Rightarrow> run_guards S now s gs c'
      | r \<Rightarrow> r)"

definition run_route :: "('d, 'l, 's, 'a, 't) server_parts \<Rightarrow> instant \<Rightarrow> route option \<Rightarrow> string list \<Rightarrow> gin_ctx \<Rightarrow> 's \<Rightarrow> 'a response \<times> 's" where
  "run_route S now r path c s =
     (case r of
        None \<Rightarrow> (RespondError 404 ''404 page not found'', s)
      | Some r \<Rightarrow>
          guarded (run_guards S now s (rt_guards r)) (\<lambda>c'. sp_handle S (rt_endpoint r) c' s) s
            (c\<lparr>gc_param := path_params (rt_pattern r) path\<rparr>))"

text \<open>
  A request that is not redirected: the metrics, the recovery, the rate limiter, CORS, and the route. The limiter and
  CORS also see a request for which there is no route.
\<close>

definition run_chain ::
  "('d, 'l, 's, 'a, 't) server_parts \<Rightarrow> bool \<Rightarrow> instant \<Rightarrow> instant \<Rightarrow> string list \<Rightarrow> gin_ctx \<Rightarrow> ('l, 's) chain_state \<Rightarrow>
   'a response \<times> ('l, 's) chain_state" where
  "run_chain S hasCache now now' path c st =
     (let metrics1 = metrics_before (sv_metrics st);
          r = sp_router S (setupRoutes hasCache) (gc_method c) path;
          (verdict, visitors') = RateLimiter (sp_bucket S) now c (sv_visitors st);
          (resp, app') = guarded (\<lambda>c. verdict) (\<lambda>c1. guarded (sp_cors S) (\<lambda>c2. run_route S now r path c2 (sv_app st)) (sv_app st) c1) (sv_app st) c;
          resp' = RecoveryWithLog resp;
          status = (case resp_status resp' of Some n \<Rightarrow> n | None \<Rightarrow> 0);
          fullPath = (case r of Some r \<Rightarrow> pattern_text (rt_pattern r) | None \<Rightarrow> [])
      in (resp', \<lparr>sv_metrics = metrics_after (sp_stext S) now now' status (gc_method c) fullPath metrics1,
                  sv_visitors = visitors', sv_app = app'\<rparr>))"

text \<open>One request. A redirection is answered by gin itself: no middleware runs.\<close>

definition serve_request ::
  "('d, 'l, 's, 'a, 't) server_parts \<Rightarrow> bool \<Rightarrow> instant \<Rightarrow> instant \<Rightarrow> string list \<Rightarrow> gin_ctx \<Rightarrow> ('l, 's) chain_state \<Rightarrow>
   'a response \<times> ('l, 's) chain_state" where
  "serve_request S hasCache now now' path c st =
     (case redirect_slash (sp_router S) (setupRoutes hasCache) (gc_method c) path of
        Some n \<Rightarrow> (RespondError n '''', st)
      | None \<Rightarrow> run_chain S hasCache now now' path c st)"

section \<open>Properties of the table\<close>

definition public_endpoints :: "endpoint list" where
  "public_endpoints = [EpHealth, EpReady, EpMetrics, EpRegister, EpLogin, EpRefresh]"

definition admin_endpoints :: "endpoint list" where
  "admin_endpoints = [EpCacheStats, EpCacheClear, EpCacheHealth, EpCacheWarm, EpJobWarmup, EpJobBatch, EpJobScheduled, EpJobEvict]"

lemmas table_defs = setupRoutes_def group_def route_at_def auth_routes_def task_routes_def user_routes_def job_routes_def
  cache_routes_def public_endpoints_def admin_endpoints_def

lemma table_guards:
  "list_all (\<lambda>r. rt_guards r = (if List.member public_endpoints (rt_endpoint r) then []
        else if List.member admin_endpoints (rt_endpoint r) then [NeedsToken, NeedsAdmin] else [NeedsToken])) (setupRoutes hasCache)"
  by (cases hasCache) (simp_all add: table_defs)

lemma guards_of_route:
  "r \<in> set (setupRoutes hasCache) \<Longrightarrow> rt_guards r = (if rt_endpoint r \<in> set public_endpoints then []
        else if rt_endpoint r \<in> set admin_endpoints then [NeedsToken, NeedsAdmin] else [NeedsToken])"
  using table_guards [of hasCache] by (simp add: list_all_iff)

lemma distinct_table: "distinct (map (\<lambda>r. (rt_method r, rt_pattern r)) (setupRoutes hasCache))"
  by (cases hasCache) (simp_all add: table_defs)

text \<open>
  Every route but six asks for a token, the eight routes of the cache for the administrator as well and after the
  token; no two routes have the same method and pattern; and there is no route to log out.
\<close>

theorem route_guards:
  "list_all (\<lambda>r. rt_guards r = (if List.member public_endpoints (rt_endpoint r) then []
        else if List.member admin_endpoints (rt_endpoint r) then [NeedsToken, NeedsAdmin] else [NeedsToken])) (setupRoutes hasCache) \<and>
   distinct (map (\<lambda>r. (rt_method r, rt_pattern r)) (setupRoutes hasCache)) \<and>
   list_all (\<lambda>r. \<not> matches (rt_pattern r) [''api'', ''v1'', ''auth'', ''logout'']) (setupRoutes hasCache)"
proof (intro conjI)
  show "distinct (map (\<lambda>r. (rt_method r, rt_pattern r)) (setupRoutes hasCache))" by (rule distinct_table)
  show "list_all (\<lambda>r. \<not> matches (rt_pattern r) [''api'', ''v1'', ''auth'', ''logout'']) (setupRoutes hasCache)"
    by (cases hasCache) (simp_all add: table_defs)
qed (rule table_guards)

text \<open>
  The table is unambiguous: every router that keeps gin's laws dispatches every request in the same way, so that the
  priority of literal segments alone settles which handler answers.
\<close>

theorem dispatch_is_determined:
  assumes "router_lawful F" and "router_lawful G"
  shows "F (setupRoutes hasCache) m p = G (setupRoutes hasCache) m p"
proof -
  let ?rs = "setupRoutes hasCache"
  have d: "distinct (map (\<lambda>r. (rt_method r, rt_pattern r)) ?rs)" by (rule distinct_table)
  show ?thesis
  proof (cases "F ?rs m p")
    case None
    then have "G ?rs m p \<noteq> Some r" for r using router_missing [OF assms(1) None] router_found [OF assms(2)] by blast
    then show ?thesis using None by (cases "G ?rs m p") auto
  next
    case (Some r)
    note r = router_found [OF assms(1) Some]
    obtain r' where g: "G ?rs m p = Some r'" using router_missing [OF assms(2)] r by (cases "G ?rs m p") auto
    note r' = router_found [OF assms(2) g]
    have "rt_pattern r \<le> rt_pattern r'" "rt_pattern r' \<le> rt_pattern r" using r r' by blast+
    then have "rt_pattern r = rt_pattern r'" by (rule order_antisym)
    moreover have "inj_on (\<lambda>r. (rt_method r, rt_pattern r)) (set ?rs)" using d by (simp add: distinct_map)
    ultimately have "r = r'" using r r' by (metis (no_types, lifting) inj_onD)
    then show ?thesis using Some g by simp
  qed
qed

section \<open>Properties of the chain\<close>

text \<open>
  C31: Every request is answered, and every request but one that gin redirects to the path without (or with) a slash
  at its end is counted exactly once, whatever the limiter, CORS, the guards and the handler do, a panic of a handler and a
  path without a route included; a status of 400 or more counts as an error. A redirected one is answered
  301 or 307 and changes nothing, the counters included.
\<close>

theorem every_request_is_counted:
  "case serve_request S hasCache now now' path c st of (resp, st') \<Rightarrow>
     (\<exists>n. resp_status resp = Some n \<and>
        (if redirect_slash (sp_router S) (setupRoutes hasCache) (gc_method c) path = None
         then mt_RequestCount (sv_metrics st') = mt_RequestCount (sv_metrics st) + 1 \<and>
           mt_ActiveRequests (sv_metrics st') = mt_ActiveRequests (sv_metrics st) \<and>
           mt_ErrorCount (sv_metrics st') = mt_ErrorCount (sv_metrics st) + (if 400 \<le> n then 1 else 0)
         else n \<in> {301, 307} \<and> st' = st))"
proof (cases "redirect_slash (sp_router S) (setupRoutes hasCache) (gc_method c) path")
  case None
  obtain verdict vs where v: "RateLimiter (sp_bucket S) now c (sv_visitors st) = (verdict, vs)" by fastforce
  obtain resp app' where g: "guarded (\<lambda>c. verdict) (\<lambda>c1. guarded (sp_cors S) (\<lambda>c2. run_route S now
      (sp_router S (setupRoutes hasCache) (gc_method c) path) path c2 (sv_app st)) (sv_app st) c1) (sv_app st) c = (resp, app')" by fastforce
  obtain n where "resp_status (RecoveryWithLog resp) = Some n" using RecoveryWithLog_responds by blast
  then show ?thesis using None by (simp add: serve_request_def run_chain_def Let_def v g)
next
  case (Some n)
  then have "n = 301 \<or> n = 307" by (auto simp: redirect_slash_def split: if_splits)
  then show ?thesis using Some by (auto simp: serve_request_def)
qed

definition cors_lawful :: "(gin_ctx \<Rightarrow> mw_result) \<Rightarrow> bool" where
  "cors_lawful K \<longleftrightarrow> (\<forall>c. K c = Proceed c \<or> (\<exists>e. K c = Abort 403 e) \<or> (\<exists>e. K c = Abort 204 e))"

lemma RateLimiter_verdict: "fst (RateLimiter B now c vs) = Proceed c \<or> fst (RateLimiter B now c vs) = Abort 429 ''rate limit exceeded''"
  by (simp add: RateLimiter_def Let_def split: prod.splits)

text \<open>What a request does to the state: nothing, with the status of the limiter or of CORS, or what its route does.\<close>

lemma run_chain_cases:
  assumes "cors_lawful (sp_cors S)"
  shows "(case run_chain S hasCache now now' path c st of (resp, st') \<Rightarrow>
      (sv_app st' = sv_app st \<and> resp_status resp \<in> {Some 204, Some 403, Some 429}) \<or>
      (case run_route S now (sp_router S (setupRoutes hasCache) (gc_method c) path) path c (sv_app st) of (resp0, app') \<Rightarrow>
         resp = RecoveryWithLog resp0 \<and> sv_app st' = app'))"
proof -
  obtain verdict vs where v: "RateLimiter (sp_bucket S) now c (sv_visitors st) = (verdict, vs)" by fastforce
  then consider "verdict = Proceed c" | "verdict = Abort 429 ''rate limit exceeded''"
    using RateLimiter_verdict [of "sp_bucket S" now c "sv_visitors st"] by auto
  then show ?thesis
  proof cases
    case 1
    consider "sp_cors S c = Proceed c" | e where "sp_cors S c = Abort 403 e" | e where "sp_cors S c = Abort 204 e"
      using assms unfolding cors_lawful_def by blast
    then show ?thesis
      by cases (auto simp: run_chain_def Let_def v 1 guarded_def RecoveryWithLog_def split: prod.splits)
  next
    case 2
    then show ?thesis by (auto simp: run_chain_def Let_def v guarded_def RecoveryWithLog_def split: prod.splits)
  qed
qed

lemma run_guards_no_token:
  assumes "\<And>claims. presented_claims (sp_auth S) now c = Some claims \<Longrightarrow> \<not> admits now no_requirements claims"
  shows "\<exists>st e. run_guards S now s (NeedsToken # gs) c = Abort st e \<and> st \<in> {401, 403}"
  using assms by (auto simp: AuthzMiddleware_cases split: option.splits)

lemma presented_claims_param [simp]: "presented_claims A now (c\<lparr>gc_param := f\<rparr>) = presented_claims A now c"
  by (simp add: presented_claims_def)

text \<open>
  C8: Without a valid token a request changes nothing, unless it is for one of the six public endpoints: through the whole
  chain, and whatever the handlers are, the state stays. A request for a protected route is answered 401 or 403 by its
  guard, 429 by the limiter or 403 or 204 (a preflight) by CORS; one for a path without a route 404, or redirected with
  301 or 307 if only the slash at its end is wrong, or stopped by the limiter or CORS.
\<close>

theorem protected_routes_need_a_token:
  assumes "router_lawful (sp_router S)" and "cors_lawful (sp_cors S)"
    and "\<And>claims. presented_claims (sp_auth S) now c = Some claims \<Longrightarrow> \<not> admits now no_requirements claims"
    and "\<And>r. sp_router S (setupRoutes hasCache) (gc_method c) path = Some r \<Longrightarrow> rt_endpoint r \<notin> set public_endpoints"
  shows "case serve_request S hasCache now now' path c st of (resp, st') \<Rightarrow>
    sv_app st' = sv_app st \<and>
    resp_status resp \<in> (if sp_router S (setupRoutes hasCache) (gc_method c) path = None
      then {Some 204, Some 301, Some 307, Some 403, Some 404, Some 429} else {Some 204, Some 401, Some 403, Some 429})"
proof (cases "redirect_slash (sp_router S) (setupRoutes hasCache) (gc_method c) path")
  case red: None
  have "\<exists>n e. run_route S now (sp_router S (setupRoutes hasCache) (gc_method c) path) path c (sv_app st) = (RespondError n e, sv_app st) \<and>
      n \<in> (if sp_router S (setupRoutes hasCache) (gc_method c) path = None then {404} else {401, 403})"
  proof (cases "sp_router S (setupRoutes hasCache) (gc_method c) path")
    case None
    then show ?thesis by (simp add: run_route_def)
  next
    case (Some r)
    then have "r \<in> set (setupRoutes hasCache)" using router_found [OF assms(1)] by blast
    from guards_of_route [OF this] assms(4) [OF Some] obtain gs where "rt_guards r = NeedsToken # gs"
      by (cases "rt_endpoint r \<in> set admin_endpoints") simp_all
    moreover obtain n e where "run_guards S now (sv_app st) (NeedsToken # gs) (c\<lparr>gc_param := path_params (rt_pattern r) path\<rparr>) = Abort n e"
        "n \<in> {401, 403}"
      using run_guards_no_token [where c = "c\<lparr>gc_param := path_params (rt_pattern r) path\<rparr>" and S = S] assms(3)
      unfolding presented_claims_param by metis
    ultimately show ?thesis using Some by (auto simp: run_route_def guarded_def)
  qed
  then show ?thesis using red run_chain_cases [OF assms(2), where hasCache = hasCache and now = now and now' = now' and path = path and c = c and st = st]
    by (auto simp: serve_request_def RecoveryWithLog_def split: prod.splits if_splits)
next
  case (Some n)
  then have "n = 301 \<or> n = 307" "sp_router S (setupRoutes hasCache) (gc_method c) path = None"
    by (auto simp: redirect_slash_def split: if_splits)
  then show ?thesis using Some by (auto simp: serve_request_def)
qed

section \<open>A concrete server\<close>

text \<open>Handlers that count the calls.\<close>

definition ex_parts :: "(authz_tables, nat, nat, endpoint, (token \<times> bool) list) server_parts" where
  "ex_parts = \<lparr>sp_auth = mem_auth_env, sp_authz = mem_authz_db, sp_db = (\<lambda>_. ex_tables), sp_show = (\<lambda>_. []),
     sp_bucket = \<lparr>bk_New = 1, bk_Allow = (\<lambda>_ n. (0 < n, n - 1))\<rparr>, sp_cors = Proceed, sp_router = least_route,
     sp_stext = (\<lambda>_. []), sp_handle = (\<lambda>e _ n. (Respond 200 e, Suc n))\<rparr>"

definition ex_http :: "string \<Rightarrow> gin_ctx" where
  "ex_http m = (ex_ctx [])\<lparr>gc_method := m, gc_header := (\<lambda>_. [])\<rparr>"

lemma ex_dispatch:
  "least_route (setupRoutes True) ''DELETE'' [''api'', ''v1'', ''tasks'', ''7''] =
     Some \<lparr>rt_method = ''DELETE'', rt_pattern = [Lit ''api'', Lit ''v1'', Lit ''tasks'', Par ''id''], rt_guards = [NeedsToken], rt_endpoint = EpDeleteTask\<rparr>"
  by (simp add: least_route_def table_defs)

theorem protected_routes_need_a_token_witness:
  "case serve_request ex_parts True 0 1 [''api'', ''v1'', ''tasks'', ''7''] (ex_http ''DELETE'')
      \<lparr>sv_metrics = new_metrics 0, sv_visitors = Map.empty, sv_app = 0\<rparr> of (resp, st') \<Rightarrow>
    sv_app st' = 0 \<and> resp_status resp \<in> {Some 204, Some 401, Some 403, Some 429}"
proof -
  let ?st = "\<lparr>sv_metrics = new_metrics 0, sv_visitors = Map.empty, sv_app = 0 :: nat\<rparr>"
  have r: "router_lawful (sp_router ex_parts)" and k: "cors_lawful (sp_cors ex_parts)"
    by (simp_all add: ex_parts_def least_route_lawful cors_lawful_def)
  have t: "presented_claims (sp_auth ex_parts) 0 (ex_http ''DELETE'') = None"
    by (simp add: presented_claims_def ex_http_def has_prefix_def)
  have d: "sp_router ex_parts (setupRoutes True) (gc_method (ex_http ''DELETE'')) [''api'', ''v1'', ''tasks'', ''7''] =
      Some \<lparr>rt_method = ''DELETE'', rt_pattern = [Lit ''api'', Lit ''v1'', Lit ''tasks'', Par ''id''], rt_guards = [NeedsToken], rt_endpoint = EpDeleteTask\<rparr>"
    using ex_dispatch by (simp add: ex_parts_def ex_http_def)
  have e: "EpDeleteTask \<notin> set public_endpoints" by (simp add: public_endpoints_def)
  note w = protected_routes_need_a_token [OF r k, where c = "ex_http ''DELETE''" and path = "[''api'', ''v1'', ''tasks'', ''7'']"
    and hasCache = True and now = 0 and now' = 1 and st = ?st]
  show ?thesis using w unfolding d t using e by simp
qed

text \<open>A slash too much: the request is redirected and not counted.\<close>

lemma ex_redirect:
  "serve_request ex_parts True 0 1 [''api'', ''v1'', ''tasks'', ''7'', []] (ex_http ''DELETE'') st = (RespondError 307 [], st)"
proof -
  have "least_route (setupRoutes True) ''DELETE'' [''api'', ''v1'', ''tasks'', ''7'', []] = None"
    by (simp add: least_route_def table_defs)
  then show ?thesis using ex_dispatch
    by (simp add: serve_request_def redirect_slash_def toggle_slash_def ex_parts_def ex_http_def)
qed

theorem dispatch_is_determined_witness:
  "least_route (setupRoutes True) ''GET'' [''api'', ''v1'', ''users'', ''profile'', ''tasks''] =
   least_route (setupRoutes True) ''GET'' [''api'', ''v1'', ''users'', ''profile'', ''tasks'']"
  by (rule dispatch_is_determined [OF least_route_lawful least_route_lawful])

end
