(* ===== verification/TaskWarming.thy ===== *)
theory TaskWarming
  imports CachedTasks CacheWarmer
begin

text \<open>
  The two-level cache with its warmer (\<^verbatim>\<open>NewMultiLevelCache\<close>, \<^verbatim>\<open>Stats\<close>, \<^verbatim>\<open>Close\<close>, \<^verbatim>\<open>GetWarmer\<close>
  in \<^verbatim>\<open>backend/internal/cache/multilevel.go\<close>) and the warming of the cached task service
  (\<^verbatim>\<open>backend/internal/services/cached_tasks.go\<close>). The warmer and its pool hold a pointer to the cache itself:
  there is one cache, \<open>wmc_cache\<close>, and a step of the pool reads and writes that one.
\<close>

section \<open>The cache with its warmer\<close>

text \<open>What the health check of the warmer sees: the clock and the cache.\<close>

type_synonym ('v, 'r) cache_view = "instant \<times> ('v, 'r) multi_level_cache"

type_synonym ('v, 'r) level_warmer =
  "(('v, 'r) cache_view, 'v, cache_error, ('v, 'r) multi_level_cache) cache_warmer"

record ('v, 'r) warmed_cache =
  wmc_cache :: "('v, 'r) multi_level_cache"
  wmc_warmer :: "('v, 'r) level_warmer option"

definition cache_health :: "('v, 'ty, 'r) cache_env \<Rightarrow> ('v, 'r) cache_view \<Rightarrow> bool" where
  "cache_health E w = (case w of (now, c) \<Rightarrow> fst (mlc_Health E now c) = None)"

definition NewWarmedCache :: "('v, 'ty, 'r) cache_env \<Rightarrow> instant \<Rightarrow> 'r option \<Rightarrow> ('v, 'r) warmed_cache" where
  "NewWarmedCache E now redisCache =
     (let mlc = NewMultiLevelCache now redisCache
      in \<lparr>wmc_cache = mlc, wmc_warmer = Some (NewCacheWarmer mlc (Some (cache_health E)) None)\<rparr>)"

definition GetWarmer :: "('v, 'r) warmed_cache \<Rightarrow> ('v, 'r) level_warmer option" where
  "GetWarmer w = wmc_warmer w"

text \<open>What the pool of the warmer does, it does to the cache of \<open>w\<close>.\<close>

type_synonym ('v, 'r) level_pool = "('v, cache_error, ('v, 'r) multi_level_cache) pool_system"

definition lend_cache :: "('v, 'r) multi_level_cache \<Rightarrow> ('v, 'r) level_pool \<Rightarrow> ('v, 'r) level_pool" where
  "lend_cache c s = s\<lparr>sy_cache := c\<rparr>"

definition take_back :: "('v, 'r) level_warmer \<Rightarrow> ('v, 'r) level_pool \<Rightarrow> ('v, 'r) warmed_cache" where
  "take_back cw s = \<lparr>wmc_cache = sy_cache s, wmc_warmer = Some (cw\<lparr>cw_workerPool := Some s\<rparr>)\<rparr>"

definition on_pool :: "(('v, 'r) level_pool \<Rightarrow> ('v, 'r) level_pool) \<Rightarrow> ('v, 'r) warmed_cache \<Rightarrow> ('v, 'r) warmed_cache" where
  "on_pool f w =
     (case wmc_warmer w of
        None \<Rightarrow> w
      | Some cw \<Rightarrow> (case cw_workerPool cw of None \<Rightarrow> w | Some s \<Rightarrow> take_back cw (f (lend_cache (wmc_cache w) s))))"

text \<open>
  \<open>Stop\<close> of the warmer: \<open>wait\<close> is what the pool's goroutines do until \<open>wg.Wait\<close> returns.
\<close>

definition stop_warmer :: "(('v, 'r) level_pool \<Rightarrow> ('v, 'r) level_pool) \<Rightarrow> ('v, 'r) warmed_cache \<Rightarrow> ('v, 'r) warmed_cache" where
  "stop_warmer wait w =
     (case wmc_warmer w of
        None \<Rightarrow> w
      | Some cw \<Rightarrow>
          if \<not> cw_running cw then w
          else let cw1 = cw_Stop_begin cw; w1 = w\<lparr>wmc_warmer := Some cw1\<rparr>
               in if cw_panicked cw1 then w1
                  else let w2 = on_pool wait w1 in w2\<lparr>wmc_warmer := map_option cw_Stop_end (wmc_warmer w2)\<rparr>)"

definition warmer_panicked :: "('v, 'r) warmed_cache \<Rightarrow> bool" where
  "warmer_panicked w = (case wmc_warmer w of None \<Rightarrow> False | Some cw \<Rightarrow> cw_panicked cw)"

text \<open>What \<open>Stats\<close> and \<open>Close\<close> of the Redis level use of the client.\<close>

record redis_pool_stats =
  rps_Hits :: nat
  rps_Misses :: nat
  rps_Timeouts :: nat
  rps_TotalConns :: nat
  rps_IdleConns :: nat
  rps_StaleConns :: nat

record 'r redis_admin =
  ra_Info :: "instant \<Rightarrow> string list \<Rightarrow> 'r \<Rightarrow> redis_error + string"
  ra_PoolStats :: "'r \<Rightarrow> redis_pool_stats"
  ra_Close :: "'r \<Rightarrow> redis_error option \<times> 'r"

definition rds_Stats :: "'r redis_admin \<Rightarrow> instant \<Rightarrow> 'r \<Rightarrow> redis_error + string \<times> redis_pool_stats" where
  "rds_Stats A now r =
     (case ra_Info A now [''memory'', ''stats''] r of
        Inl err \<Rightarrow> Inl err
      | Inr info \<Rightarrow> Inr (info, ra_PoolStats A r))"

definition rds_Close :: "'r redis_admin \<Rightarrow> 'r \<Rightarrow> redis_error option \<times> 'r" where
  "rds_Close A r = ra_Close A r"

record breaker_stats =
  bks_state :: string
  bks_failure_count :: int
  bks_success_count :: int
  bks_last_failure :: int
  bks_max_failures :: int
  bks_timeout_seconds :: real

text \<open>\<open>lastFailureTime\<close> counts from Go's zero time; \<open>Unix\<close> from 1970.\<close>

definition unix_epoch :: instant where
  "unix_epoch = 62135596800 * second"

definition cb_GetStats :: "circuit_breaker \<Rightarrow> breaker_stats" where
  "cb_GetStats cb =
     (let stateName = (case cb_state cb of CircuitBreakerClosed \<Rightarrow> ''closed'' | CircuitBreakerOpen \<Rightarrow> ''open''
                       | CircuitBreakerHalfOpen \<Rightarrow> ''half-open'')
      in \<lparr>bks_state = stateName, bks_failure_count = cb_failureCount cb, bks_success_count = cb_successCount cb,
          bks_last_failure = unix (cb_lastFailureTime cb - unix_epoch), bks_max_failures = cb_maxFailures cb,
          bks_timeout_seconds = real_of_int (cb_timeout cb) / real_of_int second\<rparr>)"

record mlc_stats =
  mst_l1_items :: nat
  mst_metrics :: cache_metrics
  mst_hit_rate :: real
  mst_circuit_breaker :: breaker_stats
  mst_warmer :: "warmer_stats option"
  mst_l2 :: "(redis_error + string \<times> redis_pool_stats) option"

definition metrics_GetStats :: "cache_metrics \<Rightarrow> cache_metrics" where
  "metrics_GetStats m = \<lparr>cm_Hits = cm_Hits m, cm_Misses = cm_Misses m, cm_Errors = cm_Errors m, cm_Sets = cm_Sets m,
     cm_Deletes = cm_Deletes m, cm_StartTime = cm_StartTime m\<rparr>"

definition mlc_Stats :: "'r redis_admin \<Rightarrow> instant \<Rightarrow> ('v, 'r) warmed_cache \<Rightarrow> mlc_stats" where
  "mlc_Stats A now w =
     (let c = wmc_cache w
      in \<lparr>mst_l1_items = mc_Stats_items (mlc_l1 c), mst_metrics = metrics_GetStats (mlc_metrics c),
          mst_hit_rate = HitRate (mlc_metrics c), mst_circuit_breaker = cb_GetStats (mlc_cb c),
          mst_warmer = map_option cw_GetStats (wmc_warmer w), mst_l2 = map_option (rds_Stats A now) (mlc_l2 c)\<rparr>)"

text \<open>\<open>Close\<close>: no result is a panic in the warmer's \<open>Stop\<close>.\<close>

definition mlc_Close ::
  "'r redis_admin \<Rightarrow> (('v, 'r) level_pool \<Rightarrow> ('v, 'r) level_pool) \<Rightarrow> ('v, 'r) warmed_cache \<Rightarrow>
   redis_error option option \<times> ('v, 'r) warmed_cache" where
  "mlc_Close A wait w =
     (let w1 = stop_warmer wait w
      in if warmer_panicked w1 then (None, w1)
         else case mlc_l2 (wmc_cache w1) of
                None \<Rightarrow> (Some None, w1)
              | Some r \<Rightarrow> (case rds_Close A r of (err, r') \<Rightarrow> (Some err, w1\<lparr>wmc_cache := (wmc_cache w1)\<lparr>mlc_l2 := Some r'\<rparr>\<rparr>)))"

section \<open>The warming of the task service\<close>

text \<open>The service: its cache may be nil. The plain service below it is the parameter of the operations.\<close>

record 'r warming_service =
  cts_cache :: "(cached, 'r) warmed_cache option"
  cts_warmingActive :: bool

definition service_warmer :: "'r warming_service \<Rightarrow> (cached, 'r) level_warmer option" where
  "service_warmer s = (case cts_cache s of None \<Rightarrow> None | Some w \<Rightarrow> GetWarmer w)"

definition first_page_job :: "cached warmup_job" where
  "first_page_job = \<lparr>wj_Key = ''tasks_paginated:created_at:desc:1:10'', wj_Data = CVNil, wj_TTL = 5 * minute, wj_Priority = 100\<rparr>"

definition all_tasks_job :: "cached warmup_job" where
  "all_tasks_job = \<lparr>wj_Key = ''all_tasks'', wj_Data = CVNil, wj_TTL = 10 * minute, wj_Priority = 80\<rparr>"

definition set_warmer :: "(cached, 'r) level_warmer \<Rightarrow> 'r warming_service \<Rightarrow> 'r warming_service" where
  "set_warmer cw s = s\<lparr>cts_cache := map_option (\<lambda>w. w\<lparr>wmc_warmer := Some cw\<rparr>) (cts_cache s)\<rparr>"

definition setupCacheWarming :: "'r warming_service \<Rightarrow> 'r warming_service" where
  "setupCacheWarming s =
     (case service_warmer s of
        None \<Rightarrow> s
      | Some warmer \<Rightarrow> set_warmer (AddWarmupJob all_tasks_job (AddWarmupJob first_page_job warmer)) s)"

definition NewCachedTaskService :: "(cached, 'r) warmed_cache option \<Rightarrow> 'r warming_service" where
  "NewCachedTaskService cacheInstance = setupCacheWarming \<lparr>cts_cache = cacheInstance, cts_warmingActive = False\<rparr>"

text \<open>\<open>StartCacheWarming\<close>, with the goroutines the warmer's \<open>Start\<close> leaves.\<close>

definition StartCacheWarming :: "instant \<Rightarrow> 'r warming_service \<Rightarrow> spawned list \<times> 'r warming_service" where
  "StartCacheWarming now s =
     (case service_warmer s of
        None \<Rightarrow> ([], s)
      | Some warmer \<Rightarrow>
          if \<not> cts_warmingActive s
          then (case cw_Start now warmer of (gs, warmer') \<Rightarrow> (gs, (set_warmer warmer' s)\<lparr>cts_warmingActive := True\<rparr>))
          else ([], s))"

text \<open>\<open>StopCacheWarming\<close>: after a panic the flag is not reset.\<close>

definition StopCacheWarming ::
  "((cached, 'r) level_pool \<Rightarrow> (cached, 'r) level_pool) \<Rightarrow> 'r warming_service \<Rightarrow> 'r warming_service" where
  "StopCacheWarming wait s =
     (case (cts_cache s, service_warmer s) of
        (Some w, Some warmer) \<Rightarrow>
          if cts_warmingActive s
          then let w' = stop_warmer wait w
               in if warmer_panicked w' then s\<lparr>cts_cache := Some w'\<rparr>
                  else s\<lparr>cts_cache := Some w', cts_warmingActive := False\<rparr>
          else s
      | _ \<Rightarrow> s)"

definition GetCacheStats :: "'r redis_admin \<Rightarrow> instant \<Rightarrow> 'r warming_service \<Rightarrow> mlc_stats option" where
  "GetCacheStats A now s = map_option (mlc_Stats A now) (cts_cache s)"

text \<open>
  What runs by itself once the warming has started: the goroutines of the running pool and the loop of the scheduler.
  The \<open>Set\<close> of a job starts at \<open>t\<close> and its Redis call returns at \<open>t'\<close>.
\<close>

definition goroutine_step ::
  "(string \<Rightarrow> 'v \<Rightarrow> duration \<Rightarrow> 'c \<Rightarrow> 'e option \<times> 'c) \<Rightarrow> ('v, 'e, 'c) pool_system \<Rightarrow> ('v, 'e, 'c) pool_system \<Rightarrow> bool" where
  "goroutine_step cset s s' \<longleftrightarrow> pool_step cset s s' \<and> wp_running (sy_pool s) \<and> wp_running (sy_pool s') \<and>
     sy_accepted s' = sy_accepted s"

definition pool_turn :: "('v, 'ty, 'r) cache_env \<Rightarrow> ('v, 'r) level_pool \<Rightarrow> ('v, 'r) level_pool \<Rightarrow> bool" where
  "pool_turn E s s' \<longleftrightarrow> (\<exists>t t'. goroutine_step (mlc_Set E t t') s s')"

inductive warming_step :: "('v, 'ty, 'r) cache_env \<Rightarrow> ('v, 'r) warmed_cache \<Rightarrow> ('v, 'r) warmed_cache \<Rightarrow> bool" for E where
  pool_moves: "\<lbrakk> wmc_warmer w = Some cw; cw_workerPool cw = Some s; pool_turn E (lend_cache (wmc_cache w) s) s' \<rbrakk>
    \<Longrightarrow> warming_step E w (take_back cw s')"
| scheduler_ticks: "\<lbrakk> wmc_warmer w = Some cw; cw_scheduler cw = Some js;
      (submitted, wp, js') \<in> set (checkTriggers t t' (t, wmc_cache w) (map_option sy_pool (cw_workerPool cw)) js) \<rbrakk>
    \<Longrightarrow> warming_step E w (w\<lparr>wmc_warmer := Some (cw\<lparr>cw_scheduler := Some js', cw_panicked := (cw_panicked cw \<or> submitted = None),
      cw_workerPool := (case (cw_workerPool cw, wp) of (Some s, Some p) \<Rightarrow> Some (s\<lparr>sy_pool := p\<rparr>) | _ \<Rightarrow> cw_workerPool cw)\<rparr>)\<rparr>)"


section \<open>What the warming does\<close>

lemma lend_self [simp]: "lend_cache (sy_cache s) s = s"
  by (cases s) (simp add: lend_cache_def)

lemma pool_run:
  assumes "wmc_warmer w = Some cw" and "cw_workerPool cw = Some s"
    and "(pool_turn E)\<^sup>*\<^sup>* (lend_cache (wmc_cache w) s) s'"
  shows "(warming_step E)\<^sup>*\<^sup>* w (take_back cw s') \<or> s' = lend_cache (wmc_cache w) s"
  using assms(3)
proof (induction rule: rtranclp_induct)
  case (step s1 s2)
  then have g: "pool_turn E s1 s2" by blast
  show ?case
  proof (cases "s1 = lend_cache (wmc_cache w) s")
    case True
    then show ?thesis using pool_moves [OF assms(1,2), of E s2] g by (simp add: r_into_rtranclp)
  next
    case False
    then have "(warming_step E)\<^sup>*\<^sup>* w (take_back cw s1)" using step.IH by blast
    moreover have "warming_step E (take_back cw s1) (take_back (cw\<lparr>cw_workerPool := Some s1\<rparr>) s2)"
      by (rule pool_moves [where s = s1]) (use g in \<open>simp_all add: take_back_def lend_self\<close>)
    moreover have "take_back (cw\<lparr>cw_workerPool := Some s1\<rparr>) s2 = take_back cw s2" by (simp add: take_back_def)
    ultimately show ?thesis by (metis rtranclp.rtrancl_into_rtrancl)
  qed
qed simp

text \<open>A running pool with two idle workers and room for their results: two jobs are taken and set, in the order we like.\<close>

lemma two_jobs_done:
  assumes p: "wp_running (sy_pool s)" "\<not> wp_resultClosed (sy_pool s)" "wp_resultCh (sy_pool s) = []" "wp_resultCap (sy_pool s) > 1"
    and ch: "wp_jobCh (sy_pool s) = jobs" "mset jobs = {#x, y#}" and idle: "sy_idle s > 1" "sy_busy s = {#}"
  shows "\<exists>s'. (pool_turn E)\<^sup>*\<^sup>* s s' \<and>
    sy_cache s' = snd (mlc_Set E t t (wj_Key y) (wj_Data y) (wj_TTL y) (snd (mlc_Set E t t (wj_Key x) (wj_Data x) (wj_TTL x) (sy_cache s))))"
proof -
  have "length jobs = 2" using arg_cong [OF ch(2), of size] by simp
  then obtain a b where ab: "jobs = [a, b]" by (metis One_nat_def Suc_1 length_0_conv length_Suc_conv)
  define s1 where "s1 = s\<lparr>sy_pool := (sy_pool s)\<lparr>wp_jobCh := [b]\<rparr>, sy_idle := sy_idle s - 1, sy_busy := add_mset a (sy_busy s)\<rparr>"
  define s2 where "s2 = s1\<lparr>sy_pool := (sy_pool s1)\<lparr>wp_jobCh := []\<rparr>, sy_idle := sy_idle s1 - 1, sy_busy := add_mset b (sy_busy s1)\<rparr>"
  have "pool_step (mlc_Set E t t) s s1" unfolding s1_def by (rule pool_step.take) (use idle ch(1) ab in simp_all)
  then have g1: "pool_turn E s s1" using p by (auto simp: pool_turn_def goroutine_step_def s1_def)
  have "pool_step (mlc_Set E t t) s1 s2" unfolding s2_def by (rule pool_step.take) (use idle in \<open>simp_all add: s1_def\<close>)
  then have g2: "pool_turn E s1 s2" using p by (auto simp: pool_turn_def goroutine_step_def s1_def s2_def)
  have busy: "sy_busy s2 = {#x, y#}" using ch(2) idle(2) by (simp add: s2_def s1_def ab add_mset_commute)
  obtain r c1 where r: "processJob (mlc_Set E t t) t t x (sy_cache s2) = (r, c1)" by fastforce
  define s3 where "s3 = s2\<lparr>sy_cache := c1, sy_busy := sy_busy s2 - {#x#}, sy_done := add_mset x (sy_done s2),
      sy_pool := (sy_pool s2)\<lparr>wp_resultCh := wp_resultCh (sy_pool s2) @ [r]\<rparr>, sy_idle := sy_idle s2 + 1\<rparr>"
  have "pool_step (mlc_Set E t t) s2 s3"
    by (rule pool_step.finish [OF _ r]) (use busy p in \<open>simp_all add: worker_result_def Let_def s3_def s2_def s1_def\<close>)
  then have g3: "pool_turn E s2 s3" using p by (auto simp: pool_turn_def goroutine_step_def s3_def s1_def s2_def)
  obtain r' c2 where r': "processJob (mlc_Set E t t) t t y (sy_cache s3) = (r', c2)" by fastforce
  define s4 where "s4 = s3\<lparr>sy_cache := c2, sy_busy := sy_busy s3 - {#y#}, sy_done := add_mset y (sy_done s3),
      sy_pool := (sy_pool s3)\<lparr>wp_resultCh := wp_resultCh (sy_pool s3) @ [r']\<rparr>, sy_idle := sy_idle s3 + 1\<rparr>"
  have "pool_step (mlc_Set E t t) s3 s4"
    by (rule pool_step.finish [OF _ r']) (use busy p in \<open>simp_all add: worker_result_def Let_def s4_def s3_def s2_def s1_def\<close>)
  then have g4: "pool_turn E s3 s4" using p by (auto simp: pool_turn_def goroutine_step_def s4_def s3_def s1_def s2_def)
  have "(pool_turn E)\<^sup>*\<^sup>* s s4"
    by (meson converse_rtranclp_into_rtranclp r_into_rtranclp g1 g2 g3 g4)
  moreover have "c1 = snd (mlc_Set E t t (wj_Key x) (wj_Data x) (wj_TTL x) (sy_cache s))"
    using r by (auto simp: processJob_def s2_def s1_def split: prod.splits)
  moreover have "c2 = snd (mlc_Set E t t (wj_Key y) (wj_Data y) (wj_TTL y) c1)"
    using r' by (auto simp: processJob_def s3_def split: prod.splits)
  ultimately show ?thesis by (intro exI [of _ s4]) (simp add: s4_def)
qed

text \<open>The warmer right after \<open>StartCacheWarming\<close>.\<close>

lemma default_health: "shouldWarmup default_strategy (Some h) = h"
  by (rule ext) (simp add: shouldWarmup_def default_strategy_def)

lemma service_start:
  fixes E :: "(cached, 'ty, 'r) cache_env"
  obtains cw js where
    "cts_cache (snd (StartCacheWarming t0 (NewCachedTaskService (Some (NewWarmedCache E t redis))))) =
       Some \<lparr>wmc_cache = NewMultiLevelCache t redis, wmc_warmer = Some cw\<rparr>"
    and "cw_workerPool cw = Some (wp_Start (new_system 3 (NewMultiLevelCache t redis)))"
    and "cw_scheduler cw = Some js" and "js_running js" and "js_lastRun js = Some t0"
    and "js_triggers js = [(''default'', \<lparr>st_Type = ''interval'', st_Interval = 5 * minute,
           st_Condition = Some (cache_health E)\<rparr>)]"
    and "pq_inv (js_queue js)" and "pq_bag (js_queue js) = {#first_page_job, all_tasks_job#}"
proof -
  let ?mlc = "NewMultiLevelCache t redis"
  let ?n = "NewCacheWarmer ?mlc (Some (cache_health E)) None :: (cached, 'r) level_warmer"
  define js0 :: "((cached, 'r) cache_view, cached) job_scheduler" where
    "js0 = AddIntervalTrigger ''default'' (5 * minute) (Some (cache_health E)) NewJobScheduler"
  have n0: "?n = \<lparr>cw_strategy = default_strategy, cw_Health = Some (cache_health E), cw_running = False, cw_stopClosed = False,
      cw_panicked = False, cw_workerPool = Some (new_system 3 ?mlc), cw_scheduler = Some js0, cw_priorityQueue = Some NewPriorityQueue\<rparr>"
    by (simp add: NewCacheWarmer_def Let_def js0_def default_health) (simp add: default_strategy_def dur_defs)
  have js0: "\<not> js_running js0" "js_queue js0 = NewPriorityQueue"
      "js_triggers js0 = [(''default'', \<lparr>st_Type = ''interval'', st_Interval = 5 * minute,
           st_Condition = Some (cache_health E)\<rparr>)]"
    by (simp_all add: js0_def AddIntervalTrigger_def NewJobScheduler_def)
  define q where "q = foldl pq_Push NewPriorityQueue [first_page_job, all_tasks_job]"
  define b where "b = ?n\<lparr>cw_priorityQueue := Some q\<rparr>"
  have q: "pq_inv q" "pq_bag q = {#first_page_job, all_tasks_job#}"
    unfolding q_def by (simp_all only: pq_inv_push_all pq_New_inv) (simp add: pq_New_bag)
  have n: "cw_priorityQueue ?n = Some NewPriorityQueue"
    by (simp add: n0)
  have jobs: "AddWarmupJob all_tasks_job (AddWarmupJob first_page_job ?n) = b"
    using add_jobs_queue [OF n, of "[first_page_job, all_tasks_job]"]
    by (simp add: add_jobs_def b_def q_def n0 js0(1))
  define cw where "cw = snd (cw_Start t0 b)"
  have s: "cts_cache (snd (StartCacheWarming t0 (NewCachedTaskService (Some (NewWarmedCache E t redis))))) =
       Some \<lparr>wmc_cache = ?mlc, wmc_warmer = Some cw\<rparr>"
    by (simp add: NewCachedTaskService_def setupCacheWarming_def service_warmer_def GetWarmer_def NewWarmedCache_def
        Let_def set_warmer_def StartCacheWarming_def jobs cw_def split: prod.splits)
  define js where "js = ScheduleJobs (pq_GetJobs q) (snd (js_Start t0 js0))"
  have w: "cw_workerPool cw = Some (wp_Start (new_system 3 ?mlc))" "cw_scheduler cw = Some js"
    by (simp_all add: cw_def js_def b_def n0 cw_Start_def Let_def default_strategy_def)
  have j: "js_running js" "js_lastRun js = Some t0"
      "js_triggers js = [(''default'', \<lparr>st_Type = ''interval'', st_Interval = 5 * minute,
           st_Condition = Some (cache_health E)\<rparr>)]"
      "js_queue js = foldl pq_Push NewPriorityQueue (pq_GetJobs q)"
    by (simp_all add: js_def ScheduleJobs_queue_only js_Start_def js0)
  have "pq_inv (js_queue js)" "pq_bag (js_queue js) = {#first_page_job, all_tasks_job#}"
    using q by (simp_all add: j(4) pq_inv_push_all pq_New_inv pq_New_bag pq_bag_def [of q])
  then show thesis using that s w j by blast
qed

text \<open>The first tick after five minutes hands both jobs to the pool.\<close>

lemma first_tick:
  assumes w: "wmc_warmer w = Some cw" "cw_scheduler cw = Some js" "cw_workerPool cw = Some s"
    and js: "js_running js" "js_lastRun js = Some t0" "js_triggers js = [(n, \<lparr>st_Type = ''interval'', st_Interval = d, st_Condition = Some f\<rparr>)]"
    and q: "pq_inv (js_queue js)" "pq_bag (js_queue js) = {#x, y#}"
    and p: "healthy_pool (sy_pool s)" "wp_jobCap (sy_pool s) \<ge> 2" "wp_jobCh (sy_pool s) = []"
    and fires: "0 < d" "d \<le> max_duration" "t0 + d \<le> t" "f (t, wmc_cache w)"
  obtains jobs js' where "mset jobs = {#x, y#}"
    and "warming_step E w (w\<lparr>wmc_warmer := Some (cw\<lparr>cw_scheduler := Some js',
           cw_workerPool := Some (s\<lparr>sy_pool := (sy_pool s)\<lparr>wp_jobCh := jobs\<rparr>\<rparr>)\<rparr>)\<rparr>)"
proof -
  have len: "pq_Len (js_queue js) = 2" using q(2) by (simp add: pq_Len_bag)
  have cap: "wp_jobCap (sy_pool s) > 0" "min (wp_jobCap (sy_pool s)) 2 = 2" "pool_room (sy_pool s) \<ge> 2"
    using p(2,3) by (simp_all add: pool_room_def)
  have "\<not> pq_Empty (js_queue js)" using len by (simp add: pq_Empty_def)
  from batch_on_healthy_pool [OF q(1) this p(1) cap(1), of t] obtain jobs q' where
    run: "ProcessScheduledJobs t (Some (sy_pool s)) js = [(Some (int (min (pool_room (sy_pool s)) (length jobs))),
        Some ((sy_pool s)\<lparr>wp_jobCh := wp_jobCh (sy_pool s) @ take (pool_room (sy_pool s)) jobs\<rparr>),
        js\<lparr>js_queue := q', js_runCount := js_runCount js + 1, js_lastRun := Some t\<rparr>)]"
    and bag: "pq_bag (js_queue js) = mset jobs + pq_bag q'" and l: "length jobs = 2"
    using len cap(2) by (metis min.commute)
  have "size (pq_bag q') = 0" using arg_cong [OF bag, of size] l q(2) by simp
  then have m: "mset jobs = {#x, y#}" using bag q(2) by simp
  let ?js' = "js\<lparr>js_queue := q', js_runCount := js_runCount js + 1, js_lastRun := Some t\<rparr>"
  let ?p' = "(sy_pool s)\<lparr>wp_jobCh := jobs\<rparr>"
  have "since_run t (Some t0) \<ge> d" using fires by (simp add: since_run_def time_sub_ge)
  then have "checkTriggers t t (t, wmc_cache w) (map_option sy_pool (cw_workerPool cw)) js = [(Some (int (min (pool_room (sy_pool s)) 2)), Some ?p', ?js')]"
    using fires l cap(3) p(3) by (simp add: checkTriggers_def w(3) js trigger_fires_def run)
  then have "warming_step E w (w\<lparr>wmc_warmer := Some (cw\<lparr>cw_scheduler := Some ?js', cw_panicked := (cw_panicked cw \<or> Some (int (min (pool_room (sy_pool s)) 2)) = None),
      cw_workerPool := (case (cw_workerPool cw, Some ?p') of (Some s, Some p) \<Rightarrow> Some (s\<lparr>sy_pool := p\<rparr>) | _ \<Rightarrow> cw_workerPool cw)\<rparr>)\<rparr>)"
    by (intro scheduler_ticks [OF w(1,2), of _ _ _ t t]) simp
  then have "warming_step E w (w\<lparr>wmc_warmer := Some (cw\<lparr>cw_scheduler := Some ?js', cw_workerPool := Some (s\<lparr>sy_pool := ?p'\<rparr>)\<rparr>)\<rparr>)"
    by (simp add: w(3))
  then show thesis by (rule that [OF m])
qed

text \<open>What the two jobs write, and what is then answered.\<close>

definition nulled_lists :: "(cached, 'ty, 'r) cache_env \<Rightarrow> instant \<Rightarrow> 'r task_cache \<Rightarrow> 'r task_cache" where
  "nulled_lists E t c = snd (mlc_Set E t t (wj_Key all_tasks_job) (wj_Data all_tasks_job) (wj_TTL all_tasks_job)
     (snd (mlc_Set E t t (wj_Key first_page_job) (wj_Data first_page_job) (wj_TTL first_page_job) c)))"

lemma nulled_lists_live:
  "t' \<le> t + 10 * minute \<Longrightarrow> live t' (mlc_l1 (nulled_lists E t c)) ''all_tasks'' = Some CVNil"
  "t' \<le> t + 5 * minute \<Longrightarrow> live t' (mlc_l1 (nulled_lists E t c)) ''tasks_paginated:created_at:desc:1:10'' = Some CVNil"
  by (simp_all add: nulled_lists_def cache_laws all_tasks_job_def first_page_job_def)

lemma nulled_lists_differ: "nulled_lists E t c \<noteq> NewMultiLevelCache t0 redis"
proof
  assume "nulled_lists E t c = NewMultiLevelCache t0 redis"
  then have "live t (mlc_l1 (nulled_lists E t c)) ''all_tasks'' = None"
    by (simp add: NewMultiLevelCache_def NewMemoryCache_def live_def)
  then show False by (simp add: nulled_lists_live dur_defs)
qed

lemma nulled_lists_answer:
  assumes nil: "storable e TyTasks CVNil" "storable e TyPage CVNil"
  shows "tm 0 \<le> t + 10 * minute \<Longrightarrow> fst (cts_GetTasks e S tm (nulled_lists (fst e) t c) d) = Inr []"
    and "tm 0 \<le> t + 5 * minute \<Longrightarrow>
      fst (cts_GetTasksPaginated e S tm ''created_at'' ''desc'' ''1'' ''10'' (nulled_lists (fst e) t c) d) = Inr ([], 0)"
proof -
  assume "tm 0 \<le> t + 10 * minute"
  from vget_l1_hit [OF nulled_lists_live(1) [OF this, of "fst e" c] nil(1), of "tm 1"]
  show "fst (cts_GetTasks e S tm (nulled_lists (fst e) t c) d) = Inr []" by (auto simp: cts_GetTasks_def split: prod.splits)
next
  assume "tm 0 \<le> t + 5 * minute"
  from vget_l1_hit [OF nulled_lists_live(2) [OF this, of "fst e" c] nil(2), of "tm 1"]
  show "fst (cts_GetTasksPaginated e S tm ''created_at'' ''desc'' ''1'' ''10'' (nulled_lists (fst e) t c) d) = Inr ([], 0)"
    by (auto simp: cts_GetTasksPaginated_def page_key_def Let_def split: prod.splits)
qed

text \<open>
  Started, the warming empties the lists it is to warm: the jobs carry no data, the pool writes \<open>nil\<close> under both keys,
  and \<open>null\<close> decodes into every list. With a healthy cache there is, from the first tick five minutes after
  \<open>StartCacheWarming\<close>, a run of the goroutines after which \<open>GetTasks\<close> answers no tasks and the first page is
  empty, without an error and whatever the database holds, for ten and five minutes.
\<close>

theorem warming_empties_the_lists:
  fixes e :: "'r task_env" and S :: "'d task_service"
  assumes nil: "storable e TyTasks CVNil" "storable e TyPage CVNil"
    and health: "cache_health (fst e) (t1, NewMultiLevelCache t redis)" and late: "t0 + 5 * minute \<le> t1"
  shows "\<exists>w0 w. cts_cache (snd (StartCacheWarming t0 (NewCachedTaskService (Some (NewWarmedCache (fst e) t redis))))) = Some w0 \<and>
    (warming_step (fst e))\<^sup>*\<^sup>* w0 w \<and>
    (\<forall>tm d. tm 0 \<le> t1 + 10 * minute \<longrightarrow> fst (cts_GetTasks e S tm (wmc_cache w) d) = Inr []) \<and>
    (\<forall>tm d. tm 0 \<le> t1 + 5 * minute \<longrightarrow>
       fst (cts_GetTasksPaginated e S tm ''created_at'' ''desc'' ''1'' ''10'' (wmc_cache w) d) = Inr ([], 0))"
proof -
  let ?c = "NewMultiLevelCache t redis" and ?E = "fst e"
  let ?pool = "wp_Start (new_system 3 ?c) :: (cached, 'r) level_pool"
  obtain cw js where start: "cts_cache (snd (StartCacheWarming t0 (NewCachedTaskService (Some (NewWarmedCache ?E t redis))))) =
       Some \<lparr>wmc_cache = ?c, wmc_warmer = Some cw\<rparr>"
    and cw: "cw_workerPool cw = Some ?pool" "cw_scheduler cw = Some js" and js: "js_running js" "js_lastRun js = Some t0"
      "js_triggers js = [(''default'', \<lparr>st_Type = ''interval'', st_Interval = 5 * minute, st_Condition = Some (cache_health ?E)\<rparr>)]"
    and q: "pq_inv (js_queue js)" "pq_bag (js_queue js) = {#first_page_job, all_tasks_job#}"
    by (rule service_start [of t0 ?E t redis])
  let ?w0 = "\<lparr>wmc_cache = ?c, wmc_warmer = Some cw\<rparr>"
  have pool: "healthy_pool (sy_pool ?pool)" "wp_jobCap (sy_pool ?pool) = 6" "wp_jobCh (sy_pool ?pool) = []"
      "wp_running (sy_pool ?pool)" "\<not> wp_resultClosed (sy_pool ?pool)" "wp_resultCh (sy_pool ?pool) = []"
      "wp_resultCap (sy_pool ?pool) = 3" "sy_idle ?pool = 3" "sy_busy ?pool = {#}"
    by (simp_all add: wp_Start_def new_system_def NewWorkerPool_def healthy_pool_def)
  obtain jobs js' where jobs: "mset jobs = {#first_page_job, all_tasks_job#}"
    and tick: "warming_step ?E ?w0 (?w0\<lparr>wmc_warmer := Some (cw\<lparr>cw_scheduler := Some js',
        cw_workerPool := Some (?pool\<lparr>sy_pool := (sy_pool ?pool)\<lparr>wp_jobCh := jobs\<rparr>\<rparr>)\<rparr>)\<rparr>)"
    by (rule first_tick [OF _ cw(2,1) js q pool(1) _ pool(3), where w = ?w0 and t = t1])
      (use health late pool(2) in \<open>simp_all add: dur_defs max_duration_def\<close>)
  let ?s1 = "?pool\<lparr>sy_pool := (sy_pool ?pool)\<lparr>wp_jobCh := jobs\<rparr>\<rparr>"
  let ?cw1 = "cw\<lparr>cw_scheduler := Some js', cw_workerPool := Some ?s1\<rparr>"
  let ?w1 = "?w0\<lparr>wmc_warmer := Some ?cw1\<rparr>"
  obtain s' where s': "(pool_turn ?E)\<^sup>*\<^sup>* (lend_cache ?c ?s1) s'" "sy_cache s' = nulled_lists ?E t1 ?c"
    using two_jobs_done [of "lend_cache ?c ?s1" jobs first_page_job all_tasks_job ?E t1] jobs pool
    by (auto simp: lend_cache_def nulled_lists_def)
  have "s' \<noteq> lend_cache ?c ?s1"
    using nulled_lists_differ [of ?E t1 ?c t redis] s'(2) by (auto simp: lend_cache_def)
  then have "(warming_step ?E)\<^sup>*\<^sup>* ?w1 (take_back ?cw1 s')" using pool_run [of ?w1 ?cw1 ?s1 ?E s'] s'(1) by simp
  then have run: "(warming_step ?E)\<^sup>*\<^sup>* ?w0 (take_back ?cw1 s')" using tick by (rule converse_rtranclp_into_rtranclp [rotated])
  have "wmc_cache (take_back ?cw1 s') = nulled_lists ?E t1 ?c" using s'(2) by (simp add: take_back_def)
  note answers = nulled_lists_answer [OF nil, where t = t1 and c = ?c, folded this]
  show ?thesis by (rule exI [where x = ?w0], rule exI [where x = "take_back ?cw1 s'"], intro conjI allI impI)
      (fact start run | rule answers, assumption)+
qed

theorem warming_empties_the_lists_witness:
  "\<exists>w0 w. cts_cache (snd (StartCacheWarming 0 (NewCachedTaskService (Some (NewWarmedCache (fst mem_task_env) 0 None))))) = Some w0 \<and>
    (warming_step (fst mem_task_env))\<^sup>*\<^sup>* w0 w \<and>
    fst (cts_GetTasks mem_task_env (TaskServiceImpl mem_task_db) (\<lambda>i. 6 * minute + int i) (wmc_cache w) [ex_task 1 5 ''a'']) = Inr []"
proof -
  have "cache_health (fst mem_task_env) (5 * minute, NewMultiLevelCache 0 None)"
    by (simp add: cache_health_def mlc_Health_def NewMultiLevelCache_def)
  from warming_empties_the_lists [OF mem_storable mem_storable this, of 0 "TaskServiceImpl mem_task_db"] obtain w0 w where
    w: "cts_cache (snd (StartCacheWarming 0 (NewCachedTaskService (Some (NewWarmedCache (fst mem_task_env) 0 None))))) = Some w0"
      "(warming_step (fst mem_task_env))\<^sup>*\<^sup>* w0 w"
    and r: "\<forall>tm d. tm 0 \<le> 5 * minute + 10 * minute \<longrightarrow> fst (cts_GetTasks mem_task_env (TaskServiceImpl mem_task_db) tm (wmc_cache w) d) = Inr []"
    by auto
  show ?thesis using w r [rule_format, of "\<lambda>i. 6 * minute + int i"] by (auto simp: dur_defs)
qed

text \<open>A warming that was never started, as in \<open>main\<close>, does nothing at all.\<close>

definition warming_idle :: "('v, 'r) multi_level_cache \<Rightarrow> ('v, 'r) warmed_cache \<Rightarrow> bool" where
  "warming_idle c w \<longleftrightarrow> wmc_cache w = c \<and> (\<forall>cw. wmc_warmer w = Some cw \<longrightarrow>
     (\<forall>js. cw_scheduler cw = Some js \<longrightarrow> \<not> js_running js) \<and> (\<forall>s. cw_workerPool cw = Some s \<longrightarrow> \<not> wp_running (sy_pool s)))"

interpretation idle_warming: kept_invariant "warming_step E" "warming_idle c" for E :: "('v, 'ty, 'r) cache_env" and c
proof unfold_locales
  fix w w' :: "('v, 'r) warmed_cache"
  assume i: "warming_idle c w" and "warming_step E w w'"
  from this(2) show "warming_idle c w'"
  proof cases
    case (pool_moves cw s s')
    then show ?thesis using i by (auto simp: warming_idle_def pool_turn_def goroutine_step_def lend_cache_def)
  next
    case (scheduler_ticks cw js submitted wp js' t t')
    then have "\<not> js_running js" using i by (simp add: warming_idle_def)
    then have "wp = map_option sy_pool (cw_workerPool cw)" "js' = js" "submitted = Some 0"
      using scheduler_ticks(4) by (simp_all add: checkTriggers_def)
    then show ?thesis using scheduler_ticks(1-3) i by (auto simp: warming_idle_def split: option.splits)
  qed
qed

theorem unstarted_warming_is_idle:
  fixes E :: "(cached, 'ty, 'r) cache_env"
  assumes "cts_cache (NewCachedTaskService (Some (NewWarmedCache E t redis))) = Some w0"
    and "(warming_step E)\<^sup>*\<^sup>* w0 w"
  shows "wmc_cache w = NewMultiLevelCache t redis"
proof -
  let ?n = "NewCacheWarmer (NewMultiLevelCache t redis) (Some (cache_health E)) None :: (cached, 'r) level_warmer"
  have n: "cw_priorityQueue ?n = Some NewPriorityQueue" by (simp add: NewCacheWarmer_def Let_def default_strategy_def)
  have "w0 = \<lparr>wmc_cache = NewMultiLevelCache t redis, wmc_warmer = Some (add_jobs [first_page_job, all_tasks_job] ?n)\<rparr>"
    using assms(1) by (simp add: NewCachedTaskService_def setupCacheWarming_def service_warmer_def GetWarmer_def NewWarmedCache_def
        Let_def set_warmer_def add_jobs_def)
  then have "warming_idle (NewMultiLevelCache t redis) w0"
    unfolding add_jobs_queue [OF n] warming_idle_def
    by (auto simp: NewCacheWarmer_def Let_def AddIntervalTrigger_def NewJobScheduler_def new_system_def NewWorkerPool_def split: if_splits)
  from idle_warming.along [OF assms(2) this] show ?thesis by (simp add: warming_idle_def)
qed

theorem unstarted_warming_is_idle_witness:
  "\<exists>w0. cts_cache (NewCachedTaskService (Some (NewWarmedCache (fst mem_task_env) 7 (Some [])))) = Some w0 \<and>
    wmc_cache w0 = NewMultiLevelCache 7 (Some [])"
proof -
  obtain w0 where w0: "cts_cache (NewCachedTaskService (Some (NewWarmedCache (fst mem_task_env) 7 (Some [])))) = Some w0"
    by (simp add: NewCachedTaskService_def setupCacheWarming_def service_warmer_def GetWarmer_def NewWarmedCache_def Let_def set_warmer_def)
  show ?thesis using w0 unstarted_warming_is_idle [OF w0 rtranclp.rtrancl_refl] by blast
qed

end
