(* ===== verification/TaskRaces.thy ===== *)
theory TaskRaces
  imports CachedTasks
begin

text \<open>
  Concurrent requests on the cached task service (\<^verbatim>\<open>backend/internal/services/cached_tasks.go\<close>). Nothing
  holds a lock across the calls of an operation, so each call of the cache and of the database is a step of its own:
  a request is the list of the calls it still has to make. \<open>program_is_the_operation\<close> relates the lists to the operations
  of \<open>CachedTasks\<close>, which run them without interruption.
\<close>

section \<open>Requests\<close>

text \<open>
  The calls: a \<open>Set\<close> or a \<open>Delete\<close> of one key, the deletion of a prefix, the query after a miss, and the lookup of
  the owner of a task with the deletion that follows it.
\<close>

datatype cache_call = Store task_read cached duration | Drop string | DropPrefix string | Load task_read | DropUserOf uuid

definition user_prefix :: "uuid_lib \<Rightarrow> uuid \<Rightarrow> string" where
  "user_prefix U u = ''user_tasks:'' @ uuid_String U u @ '':''"

fun read_ttl :: "task_read \<Rightarrow> duration" where
  "read_ttl (RdTask i) = 30 * minute"
| "read_ttl RdAll = 10 * minute"
| "read_ttl (RdPage a b p n) = 5 * minute"

definition list_calls :: "cache_call list" where
  "list_calls = [DropPrefix ''tasks_paginated:'', Drop ''all_tasks'']"

text \<open>What an operation does after its query or its write succeeded.\<close>

definition create_calls :: "uuid_lib \<Rightarrow> task \<Rightarrow> cache_call list" where
  "create_calls U x = [Store (RdTask (t_ID x)) (CVTask x) (30 * minute), DropPrefix (user_prefix U (t_UserID x))] @ list_calls"

definition update_calls :: "uuid_lib \<Rightarrow> uuid \<Rightarrow> cache_call list" where
  "update_calls U i = [Drop (task_key U i), DropUserOf i] @ list_calls"

definition delete_calls :: "uuid_lib \<Rightarrow> uuid \<Rightarrow> gorm_error + task \<Rightarrow> cache_call list" where
  "delete_calls U i got = Drop (task_key U i) #
     (case got of Inr task \<Rightarrow> [DropPrefix (user_prefix U (t_UserID task))] | Inl _ \<Rightarrow> []) @ list_calls"

text \<open>The effect of a call on the cache; the database is read, never written.\<close>

fun call ::
  "'r task_env \<Rightarrow> uuid_lib \<Rightarrow> 'd task_service \<Rightarrow> 'd \<Rightarrow> instant \<Rightarrow> instant \<Rightarrow> cache_call \<Rightarrow> 'r task_cache \<Rightarrow> 'r task_cache" where
  "call e U S d now now' (Store rd v ttl) c = vset e now now' (read_key U rd) v ttl c"
| "call e U S d now now' (Drop k) c = vdel e now now' k c"
| "call e U S d now now' (DropPrefix q) c = vdelpat e now (q @ ''*'') c"
| "call e U S d now now' (DropUserOf i) c = drop_user_tasks e U now (ts_GetTaskByID S i d) c"
| "call e U S d now now' (Load rd) c = c"

primrec calls ::
  "'r task_env \<Rightarrow> uuid_lib \<Rightarrow> 'd task_service \<Rightarrow> 'd \<Rightarrow> (nat \<Rightarrow> instant) \<Rightarrow> nat \<Rightarrow> cache_call list \<Rightarrow> 'r task_cache \<Rightarrow> 'r task_cache" where
  "calls e U S d tm n [] c = c"
| "calls e U S d tm n (x # xs) c = calls e U S d tm (Suc n) xs (call e U S d (tm (2 * n)) (tm (Suc (2 * n))) x c)"

lemma user_prefix_pattern: "user_prefix U u @ ''*'' = user_pattern U u"
  by (simp add: user_prefix_def user_pattern_def)

text \<open>The calls of a request, made without interruption, are the operation of the service.\<close>

theorem program_is_the_operation:
  "(ts_CreateTask S x d = (None, d') \<longrightarrow> cts_CreateTask e U S tm x c d = (None, calls e U S d' tm 0 (create_calls U x) c, d')) \<and>
   (ts_UpdateTask S i x d = (None, d') \<longrightarrow> cts_UpdateTask e U S tm i x c d = (None, calls e U S d' tm 0 (update_calls U i) c, d')) \<and>
   (ts_DeleteTask S i d = (None, d') \<and> (\<exists>y. ts_GetTaskByID S i d = Inr y) \<longrightarrow>
      cts_DeleteTask e U S tm i c d = (None, calls e U S d' tm 0 (delete_calls U i (ts_GetTaskByID S i d)) c, d')) \<and>
   (vget e (tm 0) (tm 1) (read_key U rd) (read_ty rd) c = (Inl m, c1) \<and> read_val S d rd = Inr v \<longrightarrow>
      aside e U S tm (read_ttl rd) rd c d = (Inr v, calls e U S d tm 1 [Store rd v (read_ttl rd)] c1))"
  by (auto simp: cts_CreateTask_def cts_UpdateTask_def cts_DeleteTask_def aside_def Let_def create_calls_def update_calls_def
      delete_calls_def list_calls_def user_prefix_pattern drop_user_tasks_def numeral_eq_Suc split: sum.splits)

section \<open>Interleaving\<close>

text \<open>
  The requests in progress, the answers given to reads, and two histories: the states of the database and the tasks that
  were given to \<open>CreateTask\<close>. \<open>loaded\<close> is the query of a read that missed, \<open>warmed\<close> a query of the goroutine of
  \<open>WarmCriticalData\<close> (its two queries in either order), \<open>deleted\<close> the deletion of a task that was looked up earlier. A
  call of the cache is one step: the locks of the two levels are those of \<open>MultiLevelCache\<close>. The lists of a user's tasks,
  which nothing invalidates, are left to \<open>CachedTasks\<close>.
\<close>

record ('d, 'r) race =
  rc_now :: instant
  rc_cache :: "'r task_cache"
  rc_db :: 'd
  rc_requests :: "cache_call list multiset"
  rc_answers :: "(task_read \<times> cached) list"
  rc_dbs :: "'d set"
  rc_created :: "task set"

definition race_init :: "instant \<Rightarrow> 'r task_cache \<Rightarrow> 'd \<Rightarrow> ('d, 'r) race" where
  "race_init now c d = \<lparr>rc_now = now, rc_cache = c, rc_db = d, rc_requests = {#}, rc_answers = [], rc_dbs = {d}, rc_created = {}\<rparr>"

definition write_db :: "'d \<Rightarrow> cache_call list \<Rightarrow> ('d, 'r) race \<Rightarrow> ('d, 'r) race" where
  "write_db d' request s = s\<lparr>rc_db := d', rc_dbs := insert d' (rc_dbs s), rc_requests := add_mset request (rc_requests s)\<rparr>"

definition answer :: "task_read \<Rightarrow> cached \<Rightarrow> ('d, 'r) race \<Rightarrow> ('d, 'r) race" where
  "answer rd v s = s\<lparr>rc_answers := rc_answers s @ [(rd, v)]\<rparr>"

inductive race_step :: "'r task_env \<Rightarrow> uuid_lib \<Rightarrow> 'd task_service \<Rightarrow> ('d, 'r) race \<Rightarrow> ('d, 'r) race \<Rightarrow> bool" for e U S where
  tick: "rc_now s \<le> t \<Longrightarrow> race_step e U S s (s\<lparr>rc_now := t\<rparr>)"
| hit: "vget e (rc_now s) now' (read_key U rd) (read_ty rd) (rc_cache s) = (Inr v, c')
    \<Longrightarrow> race_step e U S s (answer rd v (s\<lparr>rc_cache := c'\<rparr>))"
| miss: "vget e (rc_now s) now' (read_key U rd) (read_ty rd) (rc_cache s) = (Inl m, c')
    \<Longrightarrow> race_step e U S s (s\<lparr>rc_cache := c', rc_requests := add_mset [Load rd] (rc_requests s)\<rparr>)"
| loaded: "\<lbrakk> rc_requests s = add_mset [Load rd] rest; read_val S (rc_db s) rd = Inr v \<rbrakk>
    \<Longrightarrow> race_step e U S s (answer rd v (s\<lparr>rc_requests := add_mset [Store rd v (read_ttl rd)] rest\<rparr>))"
| not_loaded: "\<lbrakk> rc_requests s = add_mset [Load rd] rest; read_val S (rc_db s) rd = Inl err \<rbrakk>
    \<Longrightarrow> race_step e U S s (s\<lparr>rc_requests := rest\<rparr>)"
| called: "\<lbrakk> rc_requests s = add_mset (x # xs) rest; \<forall>rd. x \<noteq> Load rd \<rbrakk>
    \<Longrightarrow> race_step e U S s (s\<lparr>rc_cache := call e U S (rc_db s) (rc_now s) now' x (rc_cache s), rc_requests := add_mset xs rest\<rparr>)"
| returned: "rc_requests s = add_mset [] rest \<Longrightarrow> race_step e U S s (s\<lparr>rc_requests := rest\<rparr>)"
| warmed: "\<lbrakk> rd = RdAll \<or> rd = RdPage ''created_at'' ''desc'' ''1'' ''10''; read_val S (rc_db s) rd = Inr v \<rbrakk>
    \<Longrightarrow> race_step e U S s (s\<lparr>rc_requests := add_mset [Store rd v (read_ttl rd)] (rc_requests s)\<rparr>)"
| created: "ts_CreateTask S x (rc_db s) = (err, d')
    \<Longrightarrow> race_step e U S s (write_db d' (if err = None then create_calls U x else []) (s\<lparr>rc_created := insert x (rc_created s)\<rparr>))"
| updated: "ts_UpdateTask S i x (rc_db s) = (err, d')
    \<Longrightarrow> race_step e U S s (write_db d' (if err = None then update_calls U i else []) s)"
| deleted: "\<lbrakk> d0 \<in> rc_dbs s; ts_DeleteTask S i (rc_db s) = (err, d') \<rbrakk>
    \<Longrightarrow> race_step e U S s (write_db d' (if err = None then delete_calls U i (ts_GetTaskByID S i d0) else []) s)"

section \<open>No answer is made up\<close>

text \<open>An answer that the service itself gave in some state of the database, or a task as it was given to \<open>CreateTask\<close>.\<close>

definition genuine :: "'d task_service \<Rightarrow> ('d, 'r) race \<Rightarrow> task_read \<Rightarrow> cached \<Rightarrow> bool" where
  "genuine S s rd v \<longleftrightarrow> (\<exists>d \<in> rc_dbs s. read_val S d rd = Inr v) \<or> (\<exists>x \<in> rc_created s. rd = RdTask (t_ID x) \<and> v = CVTask x)"

fun call_ok :: "'d task_service \<Rightarrow> ('d, 'r) race \<Rightarrow> cache_call \<Rightarrow> bool" where
  "call_ok S s (Store rd v ttl) \<longleftrightarrow> genuine S s rd v \<and> 0 < ttl"
| "call_ok S s (DropPrefix q) \<longleftrightarrow> literal q"
| "call_ok S s _ \<longleftrightarrow> True"

definition race_laws :: "'r task_env \<Rightarrow> uuid_lib \<Rightarrow> 'd task_service \<Rightarrow> bool" where
  "race_laws e U S \<longleftrightarrow> env_lawful e \<and> uuid_plain U \<and> answers_storable e S \<and> (\<forall>x. storable e TyTask (CVTask x))"

definition race_inv :: "'r task_env \<Rightarrow> uuid_lib \<Rightarrow> 'd task_service \<Rightarrow> ('d, 'r) race \<Rightarrow> bool" where
  "race_inv e U S s \<longleftrightarrow> rc_db s \<in> rc_dbs s \<and>
     (\<forall>rd v. tracked rd \<longrightarrow> visible e (rc_now s) (rc_cache s) (read_ty rd) (read_key U rd) v \<longrightarrow> genuine S s rd v) \<and>
     (\<forall>xs \<in># rc_requests s. \<forall>x \<in> set xs. call_ok S s x) \<and>
     (\<forall>(rd, v) \<in> set (rc_answers s). tracked rd \<longrightarrow> genuine S s rd v)"

lemma genuine_storable: "race_laws e U S \<Longrightarrow> genuine S s rd v \<Longrightarrow> storable e (read_ty rd) v"
  unfolding race_laws_def genuine_def answers_storable_def by auto

lemma call_visible:
  assumes laws: "race_laws e U S" and ok: "call_ok S s x" and tr: "tracked rd"
    and vis: "visible e now (call e U S d now now' x c) (read_ty rd) (read_key U rd) w"
  shows "visible e now c (read_ty rd) (read_key U rd) w \<or> genuine S s rd w"
proof -
  have env: "env_lawful e" and plain: "uuid_plain U" using laws by (simp_all add: race_laws_def)
  show ?thesis
  proof (cases x)
  case (Store rd' v ttl)
  have key: "read_key U rd = read_key U rd' \<Longrightarrow> rd = rd'"
    using laws tr read_key_inj unfolding race_laws_def by blast
  have g: "genuine S s rd' v" "0 < ttl" using ok Store by simp_all
  have "visible e now c (read_ty rd) (read_key U rd) w \<or> read_key U rd = read_key U rd' \<and> w = v"
    by (rule mlcv.set_vis [where ty = "read_ty rd'" and now = now and now' = now'])
      (use laws g vis Store key genuine_storable [OF laws g(1)] in \<open>auto simp: race_laws_def\<close>)
  then show ?thesis using key g(1) by blast
next
  case (Drop k)
  have "visible e now (vdel e now now' k c) (read_ty rd) (read_key U rd) w" using vis Drop by simp
  from mlcv.del_vis [OF env order_refl this] show ?thesis by blast
next
  case (DropPrefix q)
  have "visible e now (vdelpat e now (q @ ''*'') c) (read_ty rd) (read_key U rd) w" using vis DropPrefix by simp
  moreover have "literal q" using ok DropPrefix by simp
  ultimately show ?thesis using mlcv.delpat_vis [OF env order_refl] by blast
next
  case (DropUserOf i)
  have "visible e now c (read_ty rd) (read_key U rd) w" if "visible e now (vdelpat e now (user_pattern U u) c) (read_ty rd) (read_key U rd) w" for u
  proof -
    have "literal (user_prefix U u)" using plain by (simp add: uuid_plain_def user_prefix_def)
    from mlcv.delpat_vis [OF env order_refl this that [folded user_prefix_pattern]] show ?thesis by blast
  qed
  then show ?thesis using vis DropUserOf by (auto simp: drop_user_tasks_def split: sum.splits)
  qed (use vis in simp)
qed

lemma genuine_mono:
  "genuine S s rd v \<Longrightarrow> rc_dbs s \<subseteq> rc_dbs s' \<Longrightarrow> rc_created s \<subseteq> rc_created s' \<Longrightarrow> genuine S s' rd v"
  unfolding genuine_def by blast

lemma call_ok_mono: "call_ok S s x \<Longrightarrow> rc_dbs s \<subseteq> rc_dbs s' \<Longrightarrow> rc_created s \<subseteq> rc_created s' \<Longrightarrow> call_ok S s' x"
  by (cases x) (auto intro: genuine_mono)

lemma write_calls_ok:
  assumes "race_laws e U S"
  shows "x \<in> set (update_calls U i) \<Longrightarrow> call_ok S s x" "x \<in> set (delete_calls U i got) \<Longrightarrow> call_ok S s x"
    "t \<in> rc_created s \<Longrightarrow> x \<in> set (create_calls U t) \<Longrightarrow> call_ok S s x"
  using assms by (auto simp: update_calls_def delete_calls_def create_calls_def list_calls_def user_prefix_def
      race_laws_def uuid_plain_def genuine_def dur_defs split: sum.splits)

text \<open>The parts of the invariant.\<close>

lemma race_invD:
  assumes "race_inv e U S s"
  shows "rc_db s \<in> rc_dbs s"
    and "tracked rd \<Longrightarrow> visible e (rc_now s) (rc_cache s) (read_ty rd) (read_key U rd) v \<Longrightarrow> genuine S s rd v"
    and "xs \<in># rc_requests s \<Longrightarrow> x \<in> set xs \<Longrightarrow> call_ok S s x"
    and "(rd, v) \<in> set (rc_answers s) \<Longrightarrow> tracked rd \<Longrightarrow> genuine S s rd v"
  using assms unfolding race_inv_def by blast+

lemma race_invI:
  assumes db: "rc_db s' \<in> rc_dbs s'" and grow: "rc_dbs s \<subseteq> rc_dbs s'" "rc_created s \<subseteq> rc_created s'"
    and vis: "\<And>rd v. tracked rd \<Longrightarrow> visible e (rc_now s') (rc_cache s') (read_ty rd) (read_key U rd) v \<Longrightarrow> genuine S s rd v"
    and req: "\<And>xs x. xs \<in># rc_requests s' \<Longrightarrow> x \<in> set xs \<Longrightarrow> call_ok S s x \<or> call_ok S s' x"
    and ans: "\<And>rd v. (rd, v) \<in> set (rc_answers s') \<Longrightarrow> tracked rd \<Longrightarrow> genuine S s rd v"
  shows "race_inv e U S s'"
  unfolding race_inv_def using db vis req ans genuine_mono [OF _ grow] call_ok_mono [OF _ grow] by blast

lemma race_inv_write:
  assumes inv: "race_inv e U S s" and X: "rc_created s \<subseteq> X"
    and ok: "\<And>x. x \<in> set request \<Longrightarrow> call_ok S (write_db d' request (s\<lparr>rc_created := X\<rparr>)) x"
  shows "race_inv e U S (write_db d' request (s\<lparr>rc_created := X\<rparr>))"
proof (rule race_invI [where s = s])
  fix xs x assume "xs \<in># rc_requests (write_db d' request (s\<lparr>rc_created := X\<rparr>))" "x \<in> set xs"
  then show "call_ok S s x \<or> call_ok S (write_db d' request (s\<lparr>rc_created := X\<rparr>)) x"
    using ok race_invD(3) [OF inv] by (auto simp: write_db_def)
qed (use X race_invD [OF inv] in \<open>auto simp: write_db_def\<close>)

lemma write_db_created: "write_db d' request (s\<lparr>rc_created := rc_created s\<rparr>) = write_db d' request s"
  by (cases s) (simp add: write_db_def)

text \<open>A \<open>Get\<close> makes nothing visible.\<close>

lemma got_visible:
  assumes laws: "race_laws e U S" and inv: "race_inv e U S s"
    and get: "vget e (rc_now s) now' (read_key U rd) (read_ty rd) (rc_cache s) = (res, c')"
    and tr: "tracked rd'" and vis: "visible e (rc_now s) c' (read_ty rd') (read_key U rd') w"
  shows "genuine S s rd' w"
proof -
  have env: "env_lawful e" and plain: "uuid_plain U" using laws by (simp_all add: race_laws_def)
  have ty: "read_ty rd' = read_ty rd" if "read_key U rd' = read_key U rd" using read_key_inj [OF plain tr that] by simp
  have "visible e (rc_now s) (snd (vget e (rc_now s) now' (read_key U rd) (read_ty rd) (rc_cache s))) (read_ty rd') (read_key U rd') w"
    using vis get by simp
  from mlcv.get_vis [OF env order_refl ty this] show ?thesis by (rule race_invD(2) [OF inv tr])
qed

lemma race_step_inv:
  assumes laws: "race_laws e U S" and step: "race_step e U S s s'" and inv: "race_inv e U S s"
  shows "race_inv e U S s'"
proof -
  have env: "env_lawful e" using laws by (simp add: race_laws_def)
  show ?thesis using step
  proof cases
  case (tick t)
  show ?thesis unfolding tick(1)
  proof (rule race_invI [where s = s])
    fix rd v assume "tracked rd" "visible e (rc_now (s\<lparr>rc_now := t\<rparr>)) (rc_cache (s\<lparr>rc_now := t\<rparr>)) (read_ty rd) (read_key U rd) v"
    then have "visible e t (rc_cache s) (read_ty rd) (read_key U rd) v" by simp
    from mlcv.vis_later [OF this tick(2)] show "genuine S s rd v" by (rule race_invD(2) [OF inv \<open>tracked rd\<close>])
  qed (use race_invD [OF inv] in auto)
next
  case (hit now' rd v c')
  have get: "genuine S s rd' w" if "tracked rd'" "visible e (rc_now s) c' (read_ty rd') (read_key U rd') w" for rd' w
    using got_visible [OF laws inv hit(2) that] .
  have "genuine S s rd v" if tr: "tracked rd"
  proof -
    from mlcv.get_result [OF env order_refl, of "rc_now s" now' "read_key U rd" "read_ty rd" "rc_cache s" v] hit(2) obtain w
      where w: "visible e (rc_now s) (rc_cache s) (read_ty rd) (read_key U rd) w" "storable e (read_ty rd) w \<longrightarrow> v = w" by auto
    have "genuine S s rd w" by (rule race_invD(2) [OF inv tr w(1)])
    then show ?thesis using w(2) genuine_storable [OF laws] by blast
  qed
  then show ?thesis unfolding hit(1)
    by (intro race_invI [where s = s]) (use race_invD [OF inv] get in \<open>auto simp: answer_def\<close>)
next
  case (miss now' rd m c')
  have "genuine S s rd' w" if "tracked rd'" "visible e (rc_now s) c' (read_ty rd') (read_key U rd') w" for rd' w
    using got_visible [OF laws inv miss(2) that] .
  then show ?thesis unfolding miss(1)
    by (intro race_invI [where s = s]) (use race_invD [OF inv] in \<open>auto\<close>)
next
  case (loaded rd rest v)
  have g: "genuine S s rd v" using loaded(3) race_invD(1) [OF inv] unfolding genuine_def by blast
  have "0 < read_ttl rd" by (cases rd) (simp_all add: dur_defs)
  then show ?thesis unfolding loaded(1)
    by (intro race_invI [where s = s]) (use race_invD [OF inv] loaded(2) g in \<open>auto simp: answer_def\<close>)
next
  case (warmed rd v)
  have g: "genuine S s rd v" using warmed(3) race_invD(1) [OF inv] unfolding genuine_def by blast
  have "0 < read_ttl rd" by (cases rd) (simp_all add: dur_defs)
  then show ?thesis unfolding warmed(1)
    by (intro race_invI [where s = s]) (use race_invD [OF inv] g in \<open>auto\<close>)
next
  case (not_loaded rd rest err)
  then show ?thesis unfolding not_loaded(1)
    by (intro race_invI [where s = s]) (use race_invD [OF inv] in \<open>auto\<close>)
next
  case (called x xs rest now')
  have ok: "call_ok S s x" using race_invD(3) [OF inv, of "x # xs" x] called(2) by simp
  have rest: "call_ok S s y" if "ys = xs \<or> ys \<in># rest" "y \<in> set ys" for ys y
    using that called(2) race_invD(3) [OF inv, of ys y] race_invD(3) [OF inv, of "x # xs" y] by auto
  show ?thesis unfolding called(1)
  proof (rule race_invI [where s = s])
    fix rd v assume tr: "tracked rd"
    let ?s = "s\<lparr>rc_cache := call e U S (rc_db s) (rc_now s) now' x (rc_cache s), rc_requests := add_mset xs rest\<rparr>"
    assume "visible e (rc_now ?s) (rc_cache ?s) (read_ty rd) (read_key U rd) v"
    then have "visible e (rc_now s) (call e U S (rc_db s) (rc_now s) now' x (rc_cache s)) (read_ty rd) (read_key U rd) v" by simp
    from call_visible [OF laws ok tr this] show "genuine S s rd v" using race_invD(2) [OF inv tr] by blast
  qed (use race_invD(1,4) [OF inv] rest in auto)
next
  case (returned rest)
  then show ?thesis unfolding returned(1)
    by (intro race_invI [where s = s]) (use race_invD [OF inv] in \<open>auto\<close>)
next
  case (created x err d')
  show ?thesis unfolding created(1)
    by (rule race_inv_write [OF inv]) (auto split: if_splits intro!: write_calls_ok(3) [OF laws] simp: write_db_def)
next
  case (updated i x err d')
  have ok: "call_ok S s'' y" if "y \<in> set (if err = None then update_calls U i else [])" for s'' y
    using that write_calls_ok(1) [OF laws] by (cases "err = None") auto
  show ?thesis unfolding updated(1) using race_inv_write [OF inv subset_refl ok] by (simp only: write_db_created)
next
  case (deleted d0 i err d')
  have ok: "call_ok S s'' y" if "y \<in> set (if err = None then delete_calls U i (ts_GetTaskByID S i d0) else [])" for s'' y
    using that write_calls_ok(2) [OF laws] by (cases "err = None") auto
  show ?thesis unfolding deleted(1) using race_inv_write [OF inv subset_refl ok] by (simp only: write_db_created)
  qed
qed

interpretation race: kept_invariant "race_step e U S" "\<lambda>s. race_laws e U S \<and> race_inv e U S s" for e U S
  by unfold_locales (blast intro: race_step_inv)

lemma race_init_inv: "coherent e U S t c d \<Longrightarrow> race_inv e U S (race_init t c d)"
  by (auto simp: race_inv_def race_init_def coherent_def genuine_def)

text \<open>
  C22: Whatever the interleaving of requests, over a Redis that answers, an answer is never made up or mixed: what a read
  of a task, of all tasks, or of a page whose parameters contain no colon answers, from the cache or not, is what the
  service itself answered to this read in some state that the database has been in, or a task as it was given to
  \<open>CreateTask\<close>. (A page read with a colon in its parameters may share its key with another page.)
\<close>

theorem concurrent_answers_are_genuine:
  assumes "race_laws e U S" and "coherent e U S t c d" and "(race_step e U S)\<^sup>*\<^sup>* (race_init t c d) s"
  shows "\<forall>(rd, v) \<in> set (rc_answers s). tracked rd \<longrightarrow>
    (\<exists>d' \<in> rc_dbs s. read_val S d' rd = Inr v) \<or> (\<exists>x \<in> rc_created s. rd = RdTask (t_ID x) \<and> v = CVTask x)"
proof -
  have "race_laws e U S \<and> race_inv e U S s" by (rule race.along [OF assms(3)]) (rule conjI [OF assms(1) race_init_inv [OF assms(2)]])
  then show ?thesis by (simp add: race_inv_def genuine_def)
qed

lemma empty_cache_misses: "vget e t t' k ty (NewMultiLevelCache n None) = mlc_miss (NewMultiLevelCache n None)"
  by (simp add: vget_def mlc_Get_def mc_Get_def NewMultiLevelCache_def NewMemoryCache_def)

lemma missed_read_answers:
  assumes "vget e t t' (read_key U rd) (read_ty rd) c = (Inl m, c1)" and "read_val S d rd = Inr v"
  shows "(race_step e U S)\<^sup>*\<^sup>* (race_init t c d)
    (answer rd v ((race_init t c1 d)\<lparr>rc_requests := {#[Store rd v (read_ttl rd)]#}\<rparr>))"
proof -
  define s0 where "s0 = race_init t c d"
  define s1 where "s1 = s0\<lparr>rc_cache := c1, rc_requests := add_mset [Load rd] (rc_requests s0)\<rparr>"
  have "race_step e U S s0 s1" unfolding s1_def by (rule race_step.miss) (use assms(1) in \<open>simp add: s0_def race_init_def\<close>)
  moreover have "race_step e U S s1 (answer rd v (s1\<lparr>rc_requests := {#[Store rd v (read_ttl rd)]#}\<rparr>))"
    using race_step.loaded [of s1 rd "{#}" S v e U] assms(2) by (simp add: s1_def s0_def race_init_def)
  ultimately have "(race_step e U S)\<^sup>*\<^sup>* s0 (answer rd v (s1\<lparr>rc_requests := {#[Store rd v (read_ttl rd)]#}\<rparr>))"
    by (meson rtranclp.rtrancl_into_rtrancl rtranclp.rtrancl_refl)
  then show ?thesis by (simp add: s1_def s0_def race_init_def)
qed

theorem concurrent_answers_are_genuine_witness:
  "\<exists>s. (race_step mem_task_env mem_uuid (TaskServiceImpl mem_task_db))\<^sup>*\<^sup>* (race_init 0 (NewMultiLevelCache 0 None) [ex_task 1 5 ''old'']) s \<and>
     rc_answers s = [(RdTask 1, CVTask (ex_task 1 5 ''old''))] \<and>
     (\<exists>d' \<in> rc_dbs s. read_val (TaskServiceImpl mem_task_db) d' (RdTask 1) = Inr (CVTask (ex_task 1 5 ''old'')))"
proof -
  let ?S = "TaskServiceImpl mem_task_db" and ?d = "[ex_task 1 5 ''old'']" and ?c = "NewMultiLevelCache 0 None :: mem_server task_cache"
  have v: "read_val ?S ?d (RdTask 1) = Inr (CVTask (ex_task 1 5 ''old''))"
    by (simp add: TaskServiceImpl_def mem_task_db_def ex_task_def zero_task_def)
  define s where "s = answer (RdTask 1) (CVTask (ex_task 1 5 ''old'')) ((race_init 0 (snd (mlc_miss ?c)) ?d)
    \<lparr>rc_requests := {#[Store (RdTask 1) (CVTask (ex_task 1 5 ''old'')) (read_ttl (RdTask 1))]#}\<rparr>)"
  have s: "(race_step mem_task_env mem_uuid ?S)\<^sup>*\<^sup>* (race_init 0 ?c ?d) s"
    "rc_answers s = [(RdTask 1, CVTask (ex_task 1 5 ''old''))]" "rc_created s = {}"
    unfolding s_def mlc_miss_def snd_conv
    by (rule missed_read_answers [OF empty_cache_misses [where t = 0 and t' = 0, unfolded mlc_miss_def] v]) (simp_all add: answer_def race_init_def)
  have laws: "race_laws mem_task_env mem_uuid ?S" using mem_task_env_laws by (simp add: race_laws_def)
  have "coherent mem_task_env mem_uuid ?S 0 ?c ?d"
    by (rule coherent_empty) (simp_all add: NewMultiLevelCache_def NewMemoryCache_def)
  from concurrent_answers_are_genuine [OF laws this s(1)] s show ?thesis by auto
qed

section \<open>A late fill\<close>

text \<open>A request whose query is over can be finished without interruption.\<close>

lemma request_runs:
  assumes "rc_requests s = add_mset xs rest" and "\<forall>rd. Load rd \<notin> set xs"
  shows "(race_step e U S)\<^sup>*\<^sup>* s (s\<lparr>rc_cache := calls e U S (rc_db s) (\<lambda>_. rc_now s) n xs (rc_cache s), rc_requests := rest\<rparr>)"
  using assms
proof (induction xs arbitrary: s n)
  case Nil
  have "race_step e U S s (s\<lparr>rc_requests := rest\<rparr>)" by (rule returned) (use Nil in simp)
  then show ?case by (cases s) auto
next
  case (Cons x xs)
  let ?c = "call e U S (rc_db s) (rc_now s) (rc_now s) x (rc_cache s)"
  have "race_step e U S s (s\<lparr>rc_cache := ?c, rc_requests := add_mset xs rest\<rparr>)" by (rule called) (use Cons.prems in auto)
  moreover have "(race_step e U S)\<^sup>*\<^sup>* (s\<lparr>rc_cache := ?c, rc_requests := add_mset xs rest\<rparr>)
      (s\<lparr>rc_cache := calls e U S (rc_db s) (\<lambda>_. rc_now s) (Suc n) xs ?c, rc_requests := rest\<rparr>)"
    using Cons.IH [of "s\<lparr>rc_cache := ?c, rc_requests := add_mset xs rest\<rparr>" "Suc n"] Cons.prems by simp
  ultimately show ?case by (simp add: converse_rtranclp_into_rtranclp)
qed

text \<open>
  C23: But an answer may be of the past for long. A read that missed the cache and queried the database before an update
  fills the cache after it: when both requests are over the database holds the new row, and every read of the next
  thirty minutes answers the old one.
\<close>

theorem late_fill_outlives_update:
  assumes miss: "vget e t t' (task_key U i) TyTask c = (Inl m, c1)"
    and old: "ts_GetTaskByID S i d = Inr x" and upd: "ts_UpdateTask S i u d = (None, d')"
    and store: "storable e TyTask (CVTask x)"
  shows "\<exists>s. (race_step e U S)\<^sup>*\<^sup>* (race_init t c d) s \<and> rc_requests s = {#} \<and> rc_db s = d' \<and>
    (\<forall>tm. tm 0 \<le> t + 30 * minute \<longrightarrow> fst (cts_GetTaskByID e U S tm i (rc_cache s) d') = Inr x)"
proof -
  let ?rd = "RdTask i" and ?run = "(race_step e U S)\<^sup>*\<^sup>*" and ?k = "task_key U i"
  let ?fill = "[Store ?rd (CVTask x) (30 * minute)]"
  define s0 where "s0 = race_init t c d"
  define s2 where "s2 = answer ?rd (CVTask x) ((race_init t c1 d)\<lparr>rc_requests := {#?fill#}\<rparr>)"
  define s3 where "s3 = write_db d' (update_calls U i) s2"
  note made = s2_def s3_def answer_def write_db_def race_init_def
  have r2: "?run s0 s2" unfolding s0_def s2_def
    using missed_read_answers [of e t t' U ?rd c m c1 S d "CVTask x"] miss old by simp
  have "race_step e U S s2 s3" unfolding s3_def
    using race_step.updated [of S i u s2 None d' e U] upd by (simp add: made)
  with r2 have r3: "?run s0 s3" by (rule rtranclp.rtrancl_into_rtrancl)
  define c4 where "c4 = calls e U S d' (\<lambda>_. t) 0 (update_calls U i) c1"
  define s4 where "s4 = s3\<lparr>rc_cache := c4, rc_requests := add_mset ?fill {#}\<rparr>"
  have r4: "?run s3 s4"
    using request_runs [of s3 "update_calls U i" "add_mset ?fill {#}" e U S 0]
    by (simp add: s4_def c4_def made update_calls_def list_calls_def)
  let ?c = "vset e t t ?k (CVTask x) (30 * minute) c4"
  define s5 where "s5 = s4\<lparr>rc_cache := ?c, rc_requests := {#}\<rparr>"
  have r5: "?run s4 s5" using request_runs [of s4 ?fill "{#}" e U S 0] by (simp add: s5_def s4_def made)
  have "fst (cts_GetTaskByID e U S tm i ?c d') = Inr x" if "tm 0 \<le> t + 30 * minute" for tm
  proof -
    have "fst (vget e (tm 0) (tm 1) ?k TyTask ?c) = Inr (CVTask x)"
      using that store by (intro vget_l1_hit) (simp_all add: l1_ops)
    then show ?thesis by (auto simp: cts_GetTaskByID_def split: sum.splits prod.splits)
  qed
  moreover have "?run s0 s5" using r3 r4 r5 by (meson rtranclp_trans)
  ultimately show ?thesis by (intro exI [of _ s5]) (simp add: s5_def s4_def made s0_def)
qed

theorem late_fill_outlives_update_witness:
  "\<exists>s. (race_step mem_task_env mem_uuid (TaskServiceImpl mem_task_db))\<^sup>*\<^sup>* (race_init 0 (NewMultiLevelCache 0 None) [ex_task 1 5 ''old'']) s \<and>
     rc_requests s = {#} \<and> rc_db s = [(ex_task 1 5 ''new'')\<lparr>t_UpdatedAt := 8\<rparr>] \<and>
     fst (cts_GetTaskByID mem_task_env mem_uuid (TaskServiceImpl mem_task_db) (\<lambda>_. 30 * minute) 1 (rc_cache s) (rc_db s)) =
       Inr (ex_task 1 5 ''old'')"
proof -
  let ?S = "TaskServiceImpl mem_task_db" and ?d = "[ex_task 1 5 ''old'']" and ?c = "NewMultiLevelCache 0 None :: mem_server task_cache"
  have old: "ts_GetTaskByID ?S 1 ?d = Inr (ex_task 1 5 ''old'')"
    and upd: "ts_UpdateTask ?S 1 ex_update ?d = (None, [(ex_task 1 5 ''new'')\<lparr>t_UpdatedAt := 8\<rparr>])"
    by (simp_all add: TaskServiceImpl_def mem_task_db_def ex_task_def ex_update_def zero_task_def)
  from late_fill_outlives_update [where U = mem_uuid and t = 0 and t' = 0, OF empty_cache_misses [unfolded mlc_miss_def] old upd mem_storable]
  obtain s where "(race_step mem_task_env mem_uuid ?S)\<^sup>*\<^sup>* (race_init 0 ?c ?d) s" "rc_requests s = {#}"
    "rc_db s = [(ex_task 1 5 ''new'')\<lparr>t_UpdatedAt := 8\<rparr>]"
    "\<forall>tm. tm 0 \<le> 0 + 30 * minute \<longrightarrow> fst (cts_GetTaskByID mem_task_env mem_uuid ?S tm 1 (rc_cache s) [(ex_task 1 5 ''new'')\<lparr>t_UpdatedAt := 8\<rparr>]) =
      Inr (ex_task 1 5 ''old'')" by blast
  then show ?thesis by (intro exI [of _ s]) simp
qed

end
