(* ===== verification/TokenRaces.thy ===== *)
theory TokenRaces
  imports AuthService Transitions "HOL-Library.Multiset"
begin

text \<open>
  Concurrent logins, refreshes and logouts on the table of refresh tokens (\<^verbatim>\<open>backend/internal/services/auth.go\<close>).
  \<open>RefreshToken\<close> runs three database operations without a transaction: it looks the row up, \<open>GenerateToken\<close> inserts the
  new one, and the old one is deleted. Each is a step of its own; a logout is one step, a login two.
\<close>

section \<open>Requests in progress\<close>

text \<open>
  A login whose password was right; a refresh, with the string it was given, that has found its row; one that has
  made its new tokens and has still to delete the row.
\<close>

datatype token_request = Issue uuid | Mint string uuid token | Replace string uuid token string string

text \<open>
  Histories: the users whose password was right, the tokens handed out, the strings whose refresh was answered
  with new tokens, and the strings of the table's tokens whose logout was answered without an error.
\<close>

record 'd token_race =
  tr_now :: instant
  tr_db :: 'd
  tr_requests :: "token_request multiset"
  tr_logins :: "uuid set"
  tr_answers :: "(uuid \<times> string \<times> string) list"
  tr_refreshed :: "string list"
  tr_logouts :: "string list"

definition token_race_init :: "instant \<Rightarrow> 'd \<Rightarrow> 'd token_race" where
  "token_race_init now d = \<lparr>tr_now = now, tr_db = d, tr_requests = {#}, tr_logins = {}, tr_answers = [], tr_refreshed = [], tr_logouts = []\<rparr>"

definition hand_out :: "uuid \<times> string \<times> string \<Rightarrow> token_request multiset \<Rightarrow> 'd \<Rightarrow> 'd token_race \<Rightarrow> 'd token_race" where
  "hand_out a rest d s = s\<lparr>tr_db := d, tr_requests := rest, tr_answers := tr_answers s @ [a]\<rparr>"

definition refreshed :: "string \<Rightarrow> 'd token_race \<Rightarrow> 'd token_race" where
  "refreshed str s = s\<lparr>tr_refreshed := tr_refreshed s @ [str]\<rparr>"

text \<open>The identifier a refresh token names, and that the table has a row for it.\<close>

definition names_jti :: "'d auth_env \<Rightarrow> string \<Rightarrow> uuid \<Rightarrow> bool" where
  "names_jti A str jti \<longleftrightarrow> (\<exists>since u. refresh_identity A since str = Inr (jti, u))"

definition in_table :: "'d auth_env \<Rightarrow> string \<Rightarrow> (token \<times> bool) list \<Rightarrow> bool" where
  "in_table A str rows \<longleftrightarrow> (\<exists>jti. names_jti A str jti \<and> jti \<in> set (map (tk_JTI \<circ> fst) rows))"

text \<open>\<open>other\<close> stands for every operation of the program that leaves the tokens alone.\<close>

inductive token_step :: "'d auth_env \<Rightarrow> ('d \<Rightarrow> (token \<times> bool) list) \<Rightarrow> 'd token_race \<Rightarrow> 'd token_race \<Rightarrow> bool" for A R where
  tick: "tr_now s \<le> t \<Longrightarrow> token_step A R s (s\<lparr>tr_now := t\<rparr>)"
| other: "R d = R (tr_db s) \<Longrightarrow> token_step A R s (s\<lparr>tr_db := d\<rparr>)"
| authenticated: "LoginUser A email password (tr_db s) = Inr user
    \<Longrightarrow> token_step A R s (s\<lparr>tr_logins := insert (u_ID user) (tr_logins s), tr_requests := add_mset (Issue (u_ID user)) (tr_requests s)\<rparr>)"
| issued: "\<lbrakk> tr_requests s = add_mset (Issue u) rest; GenerateToken A (tr_now s) j i u (tr_db s) = (Inr (acc, new), d) \<rbrakk>
    \<Longrightarrow> token_step A R s (hand_out (u, acc, new) rest d s)"
| not_issued: "\<lbrakk> tr_requests s = add_mset (Issue u) rest; GenerateToken A (tr_now s) j i u (tr_db s) = (Inl err, d) \<rbrakk>
    \<Longrightarrow> token_step A R s (s\<lparr>tr_db := d, tr_requests := rest\<rparr>)"
| found: "\<lbrakk> since \<le> tr_now s; refresh_identity A since str = Inr (jti, u); refresh_lookup A (tr_now s) jti u (tr_db s) = Inr t \<rbrakk>
    \<Longrightarrow> token_step A R s (s\<lparr>tr_requests := add_mset (Mint str u t) (tr_requests s)\<rparr>)"
| minted: "\<lbrakk> tr_requests s = add_mset (Mint str u t) rest; GenerateToken A (tr_now s) j i u (tr_db s) = (Inr (acc, new), d) \<rbrakk>
    \<Longrightarrow> token_step A R s (s\<lparr>tr_db := d, tr_requests := add_mset (Replace str u t acc new) rest\<rparr>)"
| not_minted: "\<lbrakk> tr_requests s = add_mset (Mint str u t) rest; GenerateToken A (tr_now s) j i u (tr_db s) = (Inl err, d) \<rbrakk>
    \<Longrightarrow> token_step A R s (s\<lparr>tr_db := d, tr_requests := rest\<rparr>)"
| replaced: "\<lbrakk> tr_requests s = add_mset (Replace str u t acc new) rest; tdb_delete_token (ae_db A) t (tr_db s) = (None, d) \<rbrakk>
    \<Longrightarrow> token_step A R s (refreshed str (hand_out (u, acc, new) rest d s))"
| not_replaced: "\<lbrakk> tr_requests s = add_mset (Replace str u t acc new) rest; tdb_delete_token (ae_db A) t (tr_db s) = (Some err, d) \<rbrakk>
    \<Longrightarrow> token_step A R s (s\<lparr>tr_db := d, tr_requests := rest\<rparr>)"
| logged_out: "RevokeToken A (tr_now s) str (tr_db s) = (err, d)
    \<Longrightarrow> token_step A R s (s\<lparr>tr_db := d, tr_logouts := (if err = None \<and> in_table A str (R (tr_db s)) then tr_logouts s @ [str] else tr_logouts s)\<rparr>)"

text \<open>Without interruption the steps of a refresh are \<open>RefreshToken\<close>.\<close>

lemma rotate_steps:
  assumes req: "tr_requests s = add_mset (Mint str u t) rest"
    and rot: "refresh_rotate A (tr_now s) j i u t (tr_db s) = (Inr (acc, new, n), d)"
  shows "(token_step A R)\<^sup>*\<^sup>* s (refreshed str (hand_out (u, acc, new) rest d s))"
proof -
  obtain d1 where gen: "GenerateToken A (tr_now s) j i u (tr_db s) = (Inr (acc, new), d1)"
    and del: "tdb_delete_token (ae_db A) t d1 = (None, d)"
    using rot by (auto simp: refresh_rotate_def split: sum.splits prod.splits option.splits)
  define s1 where "s1 = s\<lparr>tr_db := d1, tr_requests := add_mset (Replace str u t acc new) rest\<rparr>"
  have "token_step A R s s1" unfolding s1_def by (rule token_step.minted [OF req gen])
  moreover have "token_step A R s1 (refreshed str (hand_out (u, acc, new) rest d s1))"
    by (rule token_step.replaced [where t = t]) (simp_all add: s1_def del)
  moreover have "hand_out (u, acc, new) rest d s1 = hand_out (u, acc, new) rest d s"
    by (simp add: hand_out_def s1_def)
  ultimately show ?thesis by (metis rtranclp.rtrancl_into_rtrancl rtranclp.rtrancl_refl)
qed

lemma refresh_is_its_steps:
  assumes "RefreshToken A (tr_now s) j i str (tr_db s) = (Inr (acc, new, n), d)"
  obtains jti u where "refresh_identity A (tr_now s) str = Inr (jti, u)"
    and "(token_step A R)\<^sup>*\<^sup>* s (refreshed str (hand_out (u, acc, new) (tr_requests s) d s))"
proof -
  obtain jti u t where id: "refresh_identity A (tr_now s) str = Inr (jti, u)"
    and look: "refresh_lookup A (tr_now s) jti u (tr_db s) = Inr t"
    and rot: "refresh_rotate A (tr_now s) j i u t (tr_db s) = (Inr (acc, new, n), d)"
    using assms by (auto simp: RefreshToken_def split: sum.splits)
  define s1 where "s1 = s\<lparr>tr_requests := add_mset (Mint str u t) (tr_requests s)\<rparr>"
  have "token_step A R s s1" unfolding s1_def by (rule token_step.found [OF order_refl id look])
  moreover have "(token_step A R)\<^sup>*\<^sup>* s1 (refreshed str (hand_out (u, acc, new) (tr_requests s) d s1))"
    by (rule rotate_steps [where t = t and j = j and i = i and n = n]) (simp_all add: s1_def rot)
  moreover have "hand_out (u, acc, new) (tr_requests s) d s1 = hand_out (u, acc, new) (tr_requests s) d s"
    by (simp add: hand_out_def s1_def)
  ultimately have "(token_step A R)\<^sup>*\<^sup>* s (refreshed str (hand_out (u, acc, new) (tr_requests s) d s))"
    by (metis converse_rtranclp_into_rtranclp)
  then show thesis by (rule that [OF id])
qed

section \<open>The table of tokens, abstractly\<close>

text \<open>Rows are added under a new \<open>jti\<close> and marked as deleted; no mark is taken back.\<close>

inductive row_step :: "(token \<times> bool) list \<Rightarrow> (token \<times> bool) list \<Rightarrow> bool" where
  added: "tk_JTI t \<notin> set (map (tk_JTI \<circ> fst) rows) \<Longrightarrow> row_step rows (rows @ [(t, False)])"
| marked: "row_step rows (mark_rows P rows)"

inductive_cases row_stepE: "row_step rows rows'"

definition jtis_distinct :: "(token \<times> bool) list \<Rightarrow> bool" where
  "jtis_distinct rows \<longleftrightarrow> distinct (map (tk_JTI \<circ> fst) rows)"

definition spent :: "uuid \<Rightarrow> (token \<times> bool) list \<Rightarrow> bool" where
  "spent jti rows \<longleftrightarrow> (\<exists>t. (t, True) \<in> set rows \<and> tk_JTI t = jti)"

lemma map_mark_rows [simp]: "map (f \<circ> fst) (mark_rows P rows) = map (f \<circ> fst) rows"
  by (simp add: mark_rows_def case_prod_beta)

lemma in_mark_rows: "(t, b) \<in> set (mark_rows P rows) \<longleftrightarrow> (\<exists>b'. (t, b') \<in> set rows \<and> b = (b' \<or> P t))"
  by (auto simp: mark_rows_def)

interpretation rows: kept_invariant row_step "\<lambda>rows. jtis_distinct rows \<and> spent jti rows" for jti
  by unfold_locales (erule row_stepE; fastforce simp: jtis_distinct_def spent_def in_mark_rows)

lemma spent_is_dead:
  assumes "jtis_distinct rows" and "spent jti rows"
  shows "\<not> token_live rows jti u now"
proof
  assume "token_live rows jti u now"
  then obtain t where t: "(t, False) \<in> set rows" "tk_JTI t = jti" by (auto simp: token_live_def)
  obtain t' where t': "(t', True) \<in> set rows" "tk_JTI t' = jti" using assms(2) by (auto simp: spent_def)
  have "(t, False) = (t', True)"
    by (rule inj_onD [OF distinct_map [THEN iffD1, OF assms(1) [unfolded jtis_distinct_def], THEN conjunct2]]) (use t t' in auto)
  then show False by simp
qed

text \<open>Every step of the program is a step of the table, or none.\<close>

lemma generate_rows:
  assumes "token_table (ae_db A) R" and "GenerateToken A now j i u d = (res, d')"
  shows "R d' = R d \<or> (\<exists>t. tk_UserId t = u \<and> tk_JTI t \<notin> set (map (tk_JTI \<circ> fst) (R d)) \<and> R d' = R d @ [(t, False)])"
proof -
  have "d' = d \<or> (\<exists>t e. tk_UserId t = u \<and> tdb_create_token (ae_db A) t d = (e, d'))"
    using assms(2) by (auto simp: GenerateToken_def Let_def split: option.splits prod.splits)
  then show ?thesis using assms(1) unfolding token_table_def by (metis (no_types, lifting))
qed

lemma generate_row_step:
  "token_table (ae_db A) R \<Longrightarrow> GenerateToken A now j i u d = (res, d') \<Longrightarrow> R d' = R d \<or> row_step (R d) (R d')"
  using generate_rows row_step.added by metis

lemma revoke_rows:
  assumes "token_table (ae_db A) R" and "RevokeToken A now str d = (res, d')"
  shows "R d' = R d \<or> (\<exists>P. R d' = mark_rows P (R d))"
proof -
  have "d' = d \<or> (\<exists>jti e. tdb_delete_jti (ae_db A) jti d = (e, d'))"
    using assms(2) by (auto simp: RevokeToken_def split: sum.splits option.splits prod.splits)
  then show ?thesis using token_tableD(4) [OF assms(1)] by blast
qed

lemma token_step_rows:
  assumes table: "token_table (ae_db A) R" and "token_step A R s s'"
  shows "R (tr_db s') = R (tr_db s) \<or> row_step (R (tr_db s)) (R (tr_db s'))"
  using assms(2)
proof cases
  case (issued u rest j i acc new d)
  then show ?thesis using generate_row_step [OF table issued(3)] by (auto simp: hand_out_def)
next
  case (not_issued u rest j i err d)
  then show ?thesis using generate_row_step [OF table not_issued(3)] by auto
next
  case (minted str u t rest j i acc new d)
  then show ?thesis using generate_row_step [OF table minted(3)] by auto
next
  case (not_minted str u t rest j i err d)
  then show ?thesis using generate_row_step [OF table not_minted(3)] by auto
next
  case (replaced str u t acc new rest d)
  then show ?thesis using token_tableD(3) [OF table replaced(3)] row_step.marked by (simp add: hand_out_def refreshed_def)
next
  case (not_replaced str u t acc new rest err d)
  then show ?thesis using token_tableD(3) [OF table not_replaced(3)] row_step.marked by simp
next
  case (logged_out str err d)
  then show ?thesis using revoke_rows [OF table logged_out(2)] by (auto intro: row_step.marked)
qed auto

interpretation token_rows: simulation "token_step A R" "\<lambda>s. token_table (ae_db A) R" row_step "\<lambda>s. R (tr_db s)" for A R
proof unfold_locales
  fix s s' assume "token_table (ae_db A) R" and "token_step A R s s'"
  from token_step_rows [OF this] show "row_step\<^sup>*\<^sup>* (R (tr_db s)) (R (tr_db s'))" by auto
qed

text \<open>
  What holds along every run: a string that was refreshed or logged out names a marked row, and a refresh in
  progress holds the row its string names.
\<close>

definition ended :: "'d auth_env \<Rightarrow> (token \<times> bool) list \<Rightarrow> string \<Rightarrow> bool" where
  "ended A rows str \<longleftrightarrow> (\<forall>jti. names_jti A str jti \<longrightarrow> spent jti rows)"

fun holds_row :: "'d auth_env \<Rightarrow> (token \<times> bool) list \<Rightarrow> token_request \<Rightarrow> bool" where
  "holds_row A rows (Issue u) \<longleftrightarrow> True"
| "holds_row A rows (Mint str u t) \<longleftrightarrow> t \<in> fst ` set rows \<and> names_jti A str (tk_JTI t)"
| "holds_row A rows (Replace str u t acc new) \<longleftrightarrow> t \<in> fst ` set rows \<and> names_jti A str (tk_JTI t)"

definition ended_ok :: "'d auth_env \<Rightarrow> ('d \<Rightarrow> (token \<times> bool) list) \<Rightarrow> 'd token_race \<Rightarrow> bool" where
  "ended_ok A R s \<longleftrightarrow> jwt_lawful (ae_jwt A) \<and> token_table (ae_db A) R \<and> jtis_distinct (R (tr_db s)) \<and>
     list_all (ended A (R (tr_db s))) (tr_refreshed s @ tr_logouts s) \<and>
     (\<forall>r \<in># tr_requests s. holds_row A (R (tr_db s)) r)"

lemma names_jti_unique:
  assumes "jwt_lawful (ae_jwt A)" and "names_jti A str jti" and "names_jti A str jti'"
  shows "jti' = jti"
proof -
  obtain since u since' u' where *: "refresh_identity A since str = Inr (jti, u)" "refresh_identity A since' str = Inr (jti', u')"
    using assms(2,3) by (auto simp: names_jti_def)
  from identity_stable [OF assms(1) *(1), of since'] *(2) show ?thesis by auto
qed

text \<open>What the table keeps.\<close>

lemma row_step_keeps:
  assumes "rows' = rows \<or> row_step rows rows'"
  shows "jtis_distinct rows \<Longrightarrow> jtis_distinct rows'" and "spent jti rows \<Longrightarrow> spent jti rows'"
    and "ended A rows str \<Longrightarrow> ended A rows' str" and "holds_row A rows r \<Longrightarrow> holds_row A rows' r"
proof -
  have sub: "fst ` set rows \<subseteq> fst ` set rows'"
    using assms by (auto elim!: row_stepE simp: mark_rows_def) force
  show "jtis_distinct rows \<Longrightarrow> jtis_distinct rows'"
    using assms by (auto elim!: row_stepE simp: jtis_distinct_def)
  show sp: "spent jti rows \<Longrightarrow> spent jti rows'" for jti
    using assms by (auto elim!: row_stepE simp: spent_def in_mark_rows intro: exI conjI) blast
  show "ended A rows str \<Longrightarrow> ended A rows' str" using sp by (simp add: ended_def)
  show "holds_row A rows r \<Longrightarrow> holds_row A rows' r" using sub by (cases r) auto
qed

text \<open>The answers that end a string: of a logout of a row of the table, and of a refresh.\<close>

lemma logout_ends:
  assumes "jwt_lawful (ae_jwt A)" and "token_table (ae_db A) R"
    and "RevokeToken A now str d = (None, d')" and "in_table A str (R d)"
  shows "ended A (R d') str"
proof -
  obtain jti since u where jti: "refresh_identity A since str = Inr (jti, u)" "jti \<in> set (map (tk_JTI \<circ> fst) (R d))"
    using assms(4) by (auto simp: in_table_def names_jti_def)
  obtain tok c jtiStr where p: "jwt_parse (ae_jwt A) since (hmac_key (jwt_secret A)) str = Inr tok"
    "jt_MapClaims tok = Some c" "claim_string c ''jti'' = Some jtiStr" "uuid_FromString (ae_uuid A) jtiStr = Some jti"
    by (rule identity_jti [OF jti(1)])
  obtain tok' where "jwt_parse (ae_jwt A) now (hmac_key (jwt_secret A)) str = Inr tok'"
    using assms(3) by (auto simp: RevokeToken_def split: sum.splits)
  moreover from this have "tok' = tok" using assms(1) p(1) unfolding jwt_lawful_def by blast
  ultimately obtain e where "tdb_delete_jti (ae_db A) jti d = (e, d')"
    using assms(3) p by (auto simp: RevokeToken_def split: prod.splits)
  then have "R d' = mark_rows (\<lambda>x. tk_JTI x = jti) (R d)" using token_tableD(4) [OF assms(2)] by blast
  then have "spent jti (R d')" using jti(2) by (force simp: spent_def in_mark_rows)
  moreover have "names_jti A str jti" using jti(1) by (auto simp: names_jti_def)
  ultimately show ?thesis using names_jti_unique [OF assms(1)] unfolding ended_def by blast
qed

lemma replacing_ends:
  assumes "jwt_lawful (ae_jwt A)" and "token_table (ae_db A) R"
    and "tdb_delete_token (ae_db A) t d = (None, d')" and "holds_row A (R d) (Mint str u t)"
  shows "ended A (R d') str"
proof -
  have "R d' = mark_rows (\<lambda>x. tk_ID x = tk_ID t) (R d)" using token_tableD(3) [OF assms(2,3)] by blast
  then have "spent (tk_JTI t) (R d')" using assms(4) by (force simp: spent_def in_mark_rows)
  then show ?thesis using names_jti_unique [OF assms(1)] assms(4) by (auto simp: ended_def)
qed

lemma token_step_ended:
  assumes inv: "ended_ok A R s" and step: "token_step A R s s'"
  shows "ended_ok A R s'"
proof -
  have laws: "jwt_lawful (ae_jwt A)" "token_table (ae_db A) R" using inv by (simp_all add: ended_ok_def)
  note keeps = row_step_keeps [OF token_step_rows [OF laws(2) step]]
  have old: "jtis_distinct (R (tr_db s'))" "list_all (ended A (R (tr_db s'))) (tr_refreshed s @ tr_logouts s)"
    "\<forall>r \<in># tr_requests s. holds_row A (R (tr_db s')) r"
    using inv keeps(1) keeps(3) [where A = A] keeps(4) [where A = A] by (auto simp: ended_ok_def list_all_iff)
  have held: "\<forall>r \<in># tr_requests s. holds_row A (R (tr_db s)) r" using inv by (simp add: ended_ok_def)
  show ?thesis using step
  proof cases
    case (found since str jti u t)
    have "tk_JTI t = jti" by (rule lookup_cases [OF laws(2), of "tr_now s" jti u "tr_db s"]) (use found(4) in auto)
    then have "holds_row A (R (tr_db s)) (Mint str u t)"
      using lookup_row [OF laws(2) found(4)] found(3) by (auto simp: names_jti_def)
    then show ?thesis using laws old found(1) by (simp add: ended_ok_def)
  next
    case (replaced str u t acc new rest d)
    then have "ended A (R d) str" using replacing_ends [OF laws replaced(3), of str u] held by simp
    then show ?thesis using laws old replaced(1,2) by (simp add: ended_ok_def hand_out_def refreshed_def)
  next
    case (logged_out str err d)
    then have "ended A (R d) str" if "err = None" "in_table A str (R (tr_db s))"
      using logout_ends [OF laws] that by blast
    then show ?thesis using laws old logged_out(1) by (auto simp: ended_ok_def)
  qed (use laws old in \<open>auto simp: ended_ok_def hand_out_def\<close>)
qed

interpretation endings: kept_invariant "token_step A R" "ended_ok A R" for A R
  by unfold_locales (rule token_step_ended)

text \<open>
  C6: Revocation is final. In every interleaving of logins, refreshes and logouts, a string that a refresh has
  exchanged for new tokens, or that named a row of the table and was logged out without an error, is refused by every
  later call of \<open>RefreshToken\<close>, whatever the time and the identifiers drawn, and the refusal changes nothing. (A call
  that has looked up its row before may still succeed.)
\<close>

theorem revocation_is_final:
  assumes "jwt_lawful (ae_jwt A)" and "token_table (ae_db A) R" and "jtis_distinct (R d)"
    and "(token_step A R)\<^sup>*\<^sup>* (token_race_init t0 d) s" and "str \<in> set (tr_refreshed s) \<union> set (tr_logouts s)"
  shows "\<exists>err. RefreshToken A now j i str (tr_db s) = (Inl err, tr_db s)"
proof -
  have "ended_ok A R (token_race_init t0 d)" using assms(1-3) by (simp add: ended_ok_def token_race_init_def)
  then have "ended_ok A R s" by (rule endings.along [OF assms(4)])
  then have e: "ended A (R (tr_db s)) str" and d: "jtis_distinct (R (tr_db s))"
    using assms(5) by (auto simp: ended_ok_def list_all_iff)
  show ?thesis
  proof (cases "refresh_identity A now str")
    case (Inl err)
    then show ?thesis by (simp add: RefreshToken_def)
  next
    case (Inr x)
    obtain jti u where x: "x = (jti, u)" by fastforce
    then have "spent jti (R (tr_db s))" using e Inr by (auto simp: ended_def names_jti_def)
    then have "\<not> token_live (R (tr_db s)) jti u now" using spent_is_dead [OF d] by blast
    from lookup_absent [OF assms(2) this] show ?thesis using Inr x by (simp add: RefreshToken_def)
  qed
qed

section \<open>Who gets tokens\<close>













section \<open>A logout in between\<close>

lemma exp_after_now: "now < unix (now + hour) * second"
  unfolding unix_def by (simp add: dur_defs)

text \<open>
  C33: A logout does not stop a refresh of the same token that has already looked up its row. From every state
  of the table in which the token is live there is a run in which the refresh has found the row and not yet
  answered, the logout is then answered without an error, and only after that the refresh hands out a pair;
  the new refresh token works, while the old one is dead.
\<close>

theorem logout_misses_a_refresh:
  assumes laws: "jwt_lawful (ae_jwt A)" "uuid_lawful (ae_uuid A)" "token_table (ae_db A) R"
    and id: "refresh_identity A now str = Inr (jti, u)" and live: "token_live (R d) jti u now"
    and fresh: "fresh_ids (R d) j i"
  shows "\<exists>s1 s2 s3 t acc new.
    (token_step A R)\<^sup>*\<^sup>* (token_race_init now d) s1 \<and> tr_requests s1 = {#Mint str u t#} \<and> tr_answers s1 = [] \<and> tr_logouts s1 = [] \<and>
    token_step A R s1 s2 \<and> tr_logouts s2 = [str] \<and> tr_answers s2 = [] \<and>
    (token_step A R)\<^sup>*\<^sup>* s2 s3 \<and> tr_requests s3 = {#} \<and> tr_logouts s3 = [str] \<and> tr_answers s3 = [(u, acc, new)] \<and>
    \<not> token_live (R (tr_db s3)) jti u now \<and> refresh_identity A now new = Inr (j, u) \<and> token_live (R (tr_db s3)) j u now"
proof -
  obtain t where look: "refresh_lookup A now jti u d = Inr t" and t: "(t, False) \<in> set (R d)" "tk_JTI t = jti"
    by (rule lookup_cases [OF laws(3), of now jti u d]) (use live in auto)
  obtain e d1 where del: "tdb_delete_jti (ae_db A) jti d = (e, d1)" by fastforce
  then have d1: "e = None" "R d1 = mark_rows (\<lambda>x. tk_JTI x = jti) (R d)" using token_tableD(4) [OF laws(3)] by blast+
  have out: "RevokeToken A now str d = (None, d1)"
    by (rule identity_jti [OF id]) (simp add: RevokeToken_def del d1(1))
  have tab: "in_table A str (R d)" using id t by (force simp: in_table_def names_jti_def)
  have f: "fresh_ids (R d1) j i"
    using fresh by (simp only: fresh_ids_def d1(2) map_mark_rows simp_thms)
  have "(t, True) \<in> set (R d1)" using t by (auto simp: d1(2) in_mark_rows)
  then have "t \<in> fst ` set (R d1)" by force
  from rotate_ok [OF laws(1,3) f this] obtain acc new d2 where rot: "refresh_rotate A now (Some j) i u t d1 = (Inr (acc, new, 3600), d2)"
    "R d2 = mark_rows (\<lambda>x. tk_ID x = tk_ID t) (R d1) @ [(new_row now j i u new, False)]"
    "jwt_sign (ae_jwt A) (jwt_secret A) (refresh_claims (ae_uuid A) now u j) = Some new" by blast
  define s1 where "s1 = (token_race_init now d)\<lparr>tr_requests := {#Mint str u t#}\<rparr>"
  define s2 where "s2 = s1\<lparr>tr_db := d1, tr_logouts := [str]\<rparr>"
  define s3 where "s3 = refreshed str (hand_out (u, acc, new) {#} d2 s2)"
  note made = s3_def refreshed_def hand_out_def s2_def s1_def token_race_init_def
  have run1: "(token_step A R)\<^sup>*\<^sup>* (token_race_init now d) s1"
    using token_step.found [of now "token_race_init now d" A str jti u t R] id look
    by (simp add: s1_def token_race_init_def r_into_rtranclp)
  have run2: "token_step A R s1 s2"
    using token_step.logged_out [of A s1 str None d1 R] out tab by (simp add: s2_def s1_def token_race_init_def)
  have run3: "(token_step A R)\<^sup>*\<^sup>* s2 s3" unfolding s3_def
    by (rule rotate_steps [where t = t and j = "Some j" and i = i and n = 3600]) (simp_all add: made rot(1))
  have "refresh_identity A now new = Inr (j, u)"
    by (rule identity_of_refresh_token [OF laws(1,2) rot(3) exp_after_now])
  moreover have "token_live (R d2) j u now"
    unfolding rot(2) token_live_append by (simp add: new_row_def dur_defs)
  moreover have "jti \<noteq> j" using fresh t by (force simp: fresh_ids_def)
  then have "\<not> token_live (R d2) jti u now"
    unfolding rot(2) token_live_append d1(2) by (auto simp: new_row_def token_live_def in_mark_rows)
  ultimately show ?thesis using run1 run2 run3
    by (intro exI [of _ s1] exI [of _ s2] exI [of _ s3] exI [of _ t] exI [of _ acc] exI [of _ new]) (simp add: made)
qed

section \<open>At work\<close>

lemma ex_race_live: "token_live ex_rows 3 5 1" "fresh_ids ex_rows 7 8" "jtis_distinct ex_rows"
  by (simp_all add: token_live_def fresh_ids_def jtis_distinct_def ex_rows_def new_row_def dur_defs)

theorem logout_misses_a_refresh_witness:
  "\<exists>s2 s3 acc new. (token_step mem_auth_env (\<lambda>d. d))\<^sup>*\<^sup>* s2 s3 \<and> tr_logouts s2 = [ex_rt] \<and> tr_answers s2 = [] \<and>
    tr_answers s3 = [(5, acc, new)] \<and> token_live (tr_db s3) 7 5 1"
  using logout_misses_a_refresh [OF mem_auth_env_laws ex_rt_identity ex_race_live(1,2)] by blast

text \<open>A refresh of user 5's token.\<close>

lemma ex_race_refresh:
  obtains s acc new where "(token_step mem_auth_env (\<lambda>d. d))\<^sup>*\<^sup>* (token_race_init 1 ex_rows) s"
    and "tr_answers s = [(5, acc, new)]" and "tr_refreshed s = [ex_rt]"
proof -
  obtain acc new d' where r: "RefreshToken mem_auth_env 1 (Some 7) 8 ex_rt ex_rows = (Inr (acc, new, 3600), d')"
    by (rule ex_refresh)
  let ?s = "token_race_init 1 ex_rows"
  have now: "tr_now ?s = 1" "tr_db ?s = ex_rows" by (simp_all add: token_race_init_def)
  obtain jti u where "refresh_identity mem_auth_env 1 ex_rt = Inr (jti, u)"
    and run: "(token_step mem_auth_env (\<lambda>d. d))\<^sup>*\<^sup>* ?s (refreshed ex_rt (hand_out (u, acc, new) (tr_requests ?s) d' ?s))"
    by (rule refresh_is_its_steps [of mem_auth_env ?s "Some 7" 8 ex_rt acc new 3600 d' "\<lambda>d. d"]) (simp_all add: now r(1))
  then have "u = 5" using ex_rt_identity by simp
  with run show thesis
    by (intro that) (auto simp: hand_out_def refreshed_def token_race_init_def)
qed

theorem revocation_is_final_witness:
  "\<exists>s err. (token_step mem_auth_env (\<lambda>d. d))\<^sup>*\<^sup>* (token_race_init 1 ex_rows) s \<and> tr_refreshed s = [ex_rt] \<and>
    RefreshToken mem_auth_env 2 (Some 9) 9 ex_rt (tr_db s) = (Inl err, tr_db s)"
proof (rule ex_race_refresh)
  fix s :: "(token \<times> bool) list token_race" and acc new
  assume run: "(token_step mem_auth_env (\<lambda>d. d))\<^sup>*\<^sup>* (token_race_init 1 ex_rows) s" and s: "tr_refreshed s = [ex_rt]"
  from revocation_is_final [OF mem_auth_env_laws(1,3) ex_race_live(3) run, of ex_rt 2 "Some 9" 9] s
  show ?thesis using run by auto
qed


end
