(* ===== verification/QueueRaces.thy ===== *)
theory QueueRaces
  imports IntegratedWarmer Transitions
begin

text \<open>
  The workers of the distributed warmer side by side (\<^verbatim>\<open>backend/internal/cache/integrated_cache_warmer.go\<close>). Each turn of
  a worker is a sequence of Redis commands, and between two of them any other worker, in this process or another, and
  any client may run: here every command is a step. All processes share one clock. \<open>IntegratedWarmer\<close> has the turns as a whole.
\<close>

section \<open>Workers between two commands\<close>

text \<open>
  \<open>Moving\<close> is the loop of \<open>moveDelayedJobs\<close> over the members it read, \<open>Adding\<close> the same between its \<open>ZRem\<close> and its
  \<open>ZAdd\<close>; \<open>Running\<close> is a handler with its job.
\<close>

datatype dcw_point = Waiting | Moving "string list" | Adding string "string list" | Popping | Running string

text \<open>Histories: the texts that clients and retries wrote, and the texts given to a handler, with the instant.\<close>

record 'r queue_race =
  qr_now :: instant
  qr_redis :: 'r
  qr_workers :: "dcw_point multiset"
  qr_given :: "string list"
  qr_runs :: "(instant \<times> string) list"

definition queue_race_init :: "instant \<Rightarrow> nat \<Rightarrow> 'r \<Rightarrow> 'r queue_race" where
  "queue_race_init now n r = \<lparr>qr_now = now, qr_redis = r, qr_workers = replicate_mset n Waiting, qr_given = [], qr_runs = []\<rparr>"

definition at_point :: "'r \<Rightarrow> dcw_point \<Rightarrow> dcw_point multiset \<Rightarrow> 'r queue_race \<Rightarrow> 'r queue_race" where
  "at_point r p rest s = s\<lparr>qr_redis := r, qr_workers := add_mset p rest\<rparr>"

inductive queue_step :: "'r job_redis \<Rightarrow> 'o job_codec \<Rightarrow> string \<Rightarrow> 'r queue_race \<Rightarrow> 'r queue_race \<Rightarrow> bool" for R J q where
  tick: "qr_now s \<le> t \<Longrightarrow> queue_step R J q s (s\<lparr>qr_now := t\<rparr>)"
| enqueued: "enqueueToRedis R J (qr_now s) job q (qr_redis s) = (err :: unit job_error option, r)
    \<Longrightarrow> queue_step R J q s (s\<lparr>qr_redis := r, qr_given := qr_given s @ (case jc_marshal J job of Some m \<Rightarrow> [m] | None \<Rightarrow> [])\<rparr>)"
| started: "queue_step R J q s (s\<lparr>qr_workers := add_mset Waiting (qr_workers s)\<rparr>)"
| stopped: "qr_workers s = add_mset Waiting rest \<Longrightarrow> queue_step R J q s (s\<lparr>qr_workers := rest\<rparr>)"
| listed: "\<lbrakk> qr_workers s = add_mset Waiting rest; since \<le> qr_now s;
      jr_ZRangeByScore R (q @ ''_delayed'') (unix since) 10 (qr_redis s) = (Inr ms, r) \<rbrakk>
    \<Longrightarrow> queue_step R J q s (at_point r (Moving ms) rest s)"
| not_listed: "\<lbrakk> qr_workers s = add_mset Waiting rest; since \<le> qr_now s;
      jr_ZRangeByScore R (q @ ''_delayed'') (unix since) 10 (qr_redis s) = (Inl err, r) \<rbrakk>
    \<Longrightarrow> queue_step R J q s (at_point r Popping rest s)"
| skipped: "\<lbrakk> qr_workers s = add_mset (Moving (m # ms)) rest; jc_unmarshal J m = None \<rbrakk>
    \<Longrightarrow> queue_step R J q s (at_point (qr_redis s) (Moving ms) rest s)"
| removed: "\<lbrakk> qr_workers s = add_mset (Moving (m # ms)) rest; jc_unmarshal J m = Some job;
      jr_ZRem R (q @ ''_delayed'') m (qr_redis s) = (err, r) \<rbrakk>
    \<Longrightarrow> queue_step R J q s (at_point r (Adding m ms) rest s)"
| added: "\<lbrakk> qr_workers s = add_mset (Adding m ms) rest; jc_unmarshal J m = Some job;
      jr_ZAdd R q (unix (qr_now s) - dj_Priority job) m (qr_redis s) = (err, r) \<rbrakk>
    \<Longrightarrow> queue_step R J q s (at_point r (Moving ms) rest s)"
| moved: "qr_workers s = add_mset (Moving []) rest \<Longrightarrow> queue_step R J q s (at_point (qr_redis s) Popping rest s)"
| popped: "\<lbrakk> qr_workers s = add_mset Popping rest; jr_ZPopMin R q (qr_redis s) = (Inr (m # ms), r); jc_unmarshal J m = Some job \<rbrakk>
    \<Longrightarrow> queue_step R J q s (at_point r (Running m) rest (s\<lparr>qr_runs := qr_runs s @ [(qr_now s, m)]\<rparr>))"
| not_popped: "\<lbrakk> qr_workers s = add_mset Popping rest; jr_ZPopMin R q (qr_redis s) = (x, r);
      case x of Inr (m # ms) \<Rightarrow> jc_unmarshal J m = None | _ \<Rightarrow> True \<rbrakk>
    \<Longrightarrow> queue_step R J q s (at_point r Waiting rest s)"
| succeeded: "qr_workers s = add_mset (Running m) rest \<Longrightarrow> queue_step R J q s (at_point (qr_redis s) Waiting rest s)"
| failed: "\<lbrakk> qr_workers s = add_mset (Running m) rest; jc_unmarshal J m = Some read; job = read\<lparr>dj_Attempts := dj_Attempts read + 1\<rparr> \<rbrakk>
    \<Longrightarrow> queue_step R J q s (at_point (retry_write R J (qr_now s) q job (qr_redis s)) Waiting rest
          (s\<lparr>qr_given := qr_given s @ (if dj_Attempts job < dj_MaxTries job
             then [retry_data J (job\<lparr>dj_ProcessAt := qr_now s + dj_Attempts job * second\<rparr>)] else [])\<rparr>))"

text \<open>Without interruption the commands of a worker are \<open>moveDelayedJobs\<close>.\<close>

lemma at_point_simps [simp]:
  "qr_redis (at_point r p rest s) = r" "qr_workers (at_point r p rest s) = add_mset p rest" "qr_now (at_point r p rest s) = qr_now s"
  "at_point r p rest (at_point r' p' rest' s) = at_point r p rest s"
  by (simp_all add: at_point_def)

lemma move_steps:
  "qr_workers s = add_mset (Moving ms) rest \<Longrightarrow>
   (queue_step R J q)\<^sup>*\<^sup>* s (at_point (move_jobs R J (qr_now s) q ms (qr_redis s)) (Moving []) rest s)"
proof (induction ms arbitrary: s)
  case Nil
  then have "at_point (qr_redis s) (Moving []) rest s = s" by (simp add: at_point_def)
  then show ?case by simp
next
  case (Cons m ms)
  show ?case
  proof (cases "jc_unmarshal J m")
    case None
    have "queue_step R J q s (at_point (qr_redis s) (Moving ms) rest s)" by (rule queue_step.skipped [OF Cons.prems None])
    with Cons.IH [of "at_point (qr_redis s) (Moving ms) rest s"] None show ?thesis
      by (simp add: converse_rtranclp_into_rtranclp)
  next
    case (Some job)
    obtain e1 r1 where z1: "jr_ZRem R (q @ ''_delayed'') m (qr_redis s) = (e1, r1)" by fastforce
    obtain e2 r2 where z2: "jr_ZAdd R q (unix (qr_now s) - dj_Priority job) m r1 = (e2, r2)" by fastforce
    have "queue_step R J q s (at_point r1 (Adding m ms) rest s)" by (rule queue_step.removed [OF Cons.prems Some z1])
    moreover have "queue_step R J q (at_point r1 (Adding m ms) rest s) (at_point r2 (Moving ms) rest s)"
      using queue_step.added [of "at_point r1 (Adding m ms) rest s" m ms rest J job R q e2 r2] Some z2 by simp
    moreover have "move_jobs R J (qr_now s) q (m # ms) (qr_redis s) = move_jobs R J (qr_now s) q ms r2"
      using Some z1 z2 by simp
    ultimately show ?thesis using Cons.IH [of "at_point r2 (Moving ms) rest s"]
      by (simp add: converse_rtranclp_into_rtranclp)
  qed
qed

lemma turn_moves:
  assumes w: "qr_workers s = add_mset Waiting rest"
  shows "(queue_step R J q)\<^sup>*\<^sup>* s (at_point (moveDelayedJobs R J (qr_now s) (qr_now s) q (qr_redis s)) Popping rest s)"
proof -
  obtain x r where z: "jr_ZRangeByScore R (q @ ''_delayed'') (unix (qr_now s)) 10 (qr_redis s) = (x, r)" by fastforce
  show ?thesis
  proof (cases x)
    case (Inl err)
    have "queue_step R J q s (at_point r Popping rest s)"
      by (rule queue_step.not_listed [OF w order_refl]) (simp add: z Inl)
    then show ?thesis using z Inl by (simp add: moveDelayedJobs_def)
  next
    case (Inr ms)
    let ?s = "at_point r (Moving ms) rest s" and ?r = "move_jobs R J (qr_now s) q ms r"
    have "queue_step R J q s ?s" by (rule queue_step.listed [OF w order_refl]) (simp add: z Inr)
    moreover have "(queue_step R J q)\<^sup>*\<^sup>* ?s (at_point ?r (Moving []) rest s)" using move_steps [of ?s ms rest R J q] by simp
    moreover have "queue_step R J q (at_point ?r (Moving []) rest s) (at_point ?r Popping rest s)"
      using queue_step.moved [of "at_point ?r (Moving []) rest s" rest R J q] by simp
    ultimately show ?thesis using z Inr
      by (simp add: moveDelayedJobs_def)
  qed
qed

section \<open>What a worker holds is due\<close>

definition due :: "'o job_codec \<Rightarrow> instant \<Rightarrow> string \<Rightarrow> bool" where
  "due J t m \<longleftrightarrow> (\<forall>job. jc_unmarshal J m = Some job \<longrightarrow> unix (dj_ProcessAt job) \<le> unix t)"

fun held :: "dcw_point \<Rightarrow> string set" where
  "held (Moving ms) = set ms"
| "held (Adding m ms) = insert m (set ms)"
| "held _ = {}"

definition queue_inv ::
  "'o job_codec \<Rightarrow> ('r \<Rightarrow> string \<Rightarrow> string \<Rightarrow> int option) \<Rightarrow> string \<Rightarrow> 'r queue_race \<Rightarrow> bool" where
  "queue_inv J Z q s \<longleftrightarrow> delayed_ok J Z q (qr_redis s) \<and>
     (\<forall>m. Z (qr_redis s) (q @ ''_delayed'') m \<noteq> None \<longrightarrow> m \<in> set (qr_given s)) \<and>
     (\<forall>m. Z (qr_redis s) q m \<noteq> None \<longrightarrow> m \<in> set (qr_given s) \<and> due J (qr_now s) m) \<and>
     (\<forall>p \<in># qr_workers s. \<forall>m \<in> held p. m \<in> set (qr_given s) \<and> due J (qr_now s) m) \<and>
     (\<forall>(t, m) \<in> set (qr_runs s). m \<in> set (qr_given s) \<and> jc_unmarshal J m \<noteq> None \<and> due J t m)"

lemma queue_invD:
  assumes "queue_inv J Z q s"
  shows "delayed_ok J Z q (qr_redis s)"
    and "Z (qr_redis s) (q @ ''_delayed'') m = Some x \<Longrightarrow> m \<in> set (qr_given s)"
    and "Z (qr_redis s) q m = Some x \<Longrightarrow> m \<in> set (qr_given s) \<and> due J (qr_now s) m"
    and "p \<in># qr_workers s \<Longrightarrow> m \<in> held p \<Longrightarrow> m \<in> set (qr_given s) \<and> due J (qr_now s) m"
    and "(t, m) \<in> set (qr_runs s) \<Longrightarrow> m \<in> set (qr_given s) \<and> jc_unmarshal J m \<noteq> None \<and> due J t m"
  using assms unfolding queue_inv_def by auto

lemma due_later: "due J t m \<Longrightarrow> t \<le> t' \<Longrightarrow> due J t' m"
proof -
  assume "due J t m" "t \<le> t'"
  moreover from this(2) have "unix t \<le> unix t'" unfolding unix_def by (rule zdiv_mono1) (simp add: second_def)
  ultimately show ?thesis unfolding due_def by (meson order_trans)
qed

definition scored :: "'o job_codec \<Rightarrow> string \<Rightarrow> int \<Rightarrow> bool" where
  "scored J m x \<longleftrightarrow> (\<forall>job. jc_unmarshal J m = Some job \<longrightarrow> x = unix (dj_ProcessAt job))"

lemma delayed_ok_scored: "delayed_ok J Z q r \<longleftrightarrow> (\<forall>m x. Z r (q @ ''_delayed'') m = Some x \<longrightarrow> scored J m x)"
  unfolding delayed_ok_def scored_def by blast

lemma queue_invI:
  assumes inv: "queue_inv J Z q s" and grow: "set (qr_given s) \<subseteq> set (qr_given s')" "qr_now s \<le> qr_now s'"
    and zd: "\<And>m x. Z (qr_redis s') (q @ ''_delayed'') m = Some x \<Longrightarrow> Z (qr_redis s) (q @ ''_delayed'') m = Some x \<or>
      m \<in> set (qr_given s') \<and> scored J m x"
    and zq: "\<And>m x. Z (qr_redis s') q m = Some x \<Longrightarrow> Z (qr_redis s) q m \<noteq> None \<or> m \<in> set (qr_given s') \<and> due J (qr_now s') m"
    and pts: "\<And>p m. p \<in># qr_workers s' \<Longrightarrow> m \<in> held p \<Longrightarrow> p \<in># qr_workers s \<or> m \<in> set (qr_given s') \<and> due J (qr_now s') m"
    and runs: "\<And>t m. (t, m) \<in> set (qr_runs s') \<Longrightarrow> (t, m) \<in> set (qr_runs s) \<or>
      m \<in> set (qr_given s') \<and> jc_unmarshal J m \<noteq> None \<and> due J t m"
  shows "queue_inv J Z q s'"
  unfolding queue_inv_def
proof (intro conjI allI impI ballI)
  show "m \<in> set (qr_given s')" if "Z (qr_redis s') (q @ ''_delayed'') m \<noteq> None" for m
    using that zd queue_invD(2) [OF inv] grow(1) by blast
  show "m \<in> set (qr_given s')" "due J (qr_now s') m" if "Z (qr_redis s') q m \<noteq> None" for m
    using that zq queue_invD(3) [OF inv] grow(1) due_later [OF _ grow(2)] by blast+
  show "m \<in> set (qr_given s')" "due J (qr_now s') m" if "p \<in># qr_workers s'" "m \<in> held p" for p m
    using that pts queue_invD(4) [OF inv] grow(1) due_later [OF _ grow(2)] by blast+
  show "case x of (t, m) \<Rightarrow> m \<in> set (qr_given s') \<and> jc_unmarshal J m \<noteq> None \<and> due J t m" if "x \<in> set (qr_runs s')" for x
  proof -
    obtain t m where "x = (t, m)" by fastforce
    then show ?thesis using that runs [of t m] queue_invD(5) [OF inv, of t m] grow(1) by auto
  qed
  show "delayed_ok J Z q (qr_redis s')"
    using zd queue_invD(1) [OF inv] unfolding delayed_ok_scored by blast
qed

lemma marshalled_due:
  assumes "codec_lawful J other" "jc_marshal J job = Some m"
  shows "scored J m (unix (dj_ProcessAt job))" and "dj_ProcessAt job \<le> now \<Longrightarrow> due J now m"
proof -
  show "scored J m (unix (dj_ProcessAt job))"
    unfolding scored_def using unmarshal_marshal [OF assms] by metis
  assume "dj_ProcessAt job \<le> now"
  then have "unix (dj_ProcessAt job) \<le> unix now" unfolding unix_def by (rule zdiv_mono1) (simp add: second_def)
  then show "due J now m" unfolding due_def using unmarshal_marshal [OF assms] by metis
qed

lemma enqueue_law:
  assumes laws: "queues_lawful R Z L" "codec_lawful J other" and enq: "enqueueToRedis R J now job q r = (e, r')"
  shows "Z r' = Z r \<or> (\<exists>m s. jc_marshal J job = Some m \<and>
    (scored J m s \<and> Z r' = (Z r)(q @ ''_delayed'' := (Z r (q @ ''_delayed''))(m \<mapsto> s)) \<or>
     due J now m \<and> Z r' = (Z r)(q := (Z r q)(m \<mapsto> s))))"
proof (cases "jc_marshal J job")
  case (Some m)
  show ?thesis
  proof (cases "now < dj_ProcessAt job")
    case True
    then obtain e' where "jr_ZAdd R (q @ ''_delayed'') (unix (dj_ProcessAt job)) m r = (e', r')"
      using enq Some by (auto simp: enqueueToRedis_def split: prod.splits)
    from zadd_law [OF laws(1) this] show ?thesis using marshalled_due(1) [OF laws(2) Some] Some by blast
  next
    case False
    then obtain e' where "jr_ZAdd R q (unix now - dj_Priority job) m r = (e', r')"
      using enq Some by (auto simp: enqueueToRedis_def split: prod.splits)
    from zadd_law [OF laws(1) this] show ?thesis using marshalled_due(2) [OF laws(2) Some] False Some by fastforce
  qed
qed (use enq in \<open>simp add: enqueueToRedis_def\<close>)

lemma bury_keeps_sets:
  assumes "queues_lawful R Z L" and "\<not> dj_Attempts job < dj_MaxTries job"
  shows "Z (retry_write R J now q job r) = Z r"
proof -
  obtain e r1 where z: "jr_LPush R (q @ ''_dlq'') (retry_data J job) r = (e, r1)" by fastforce
  then show ?thesis using assms(2) lpush_law [OF assms(1) z] by (simp add: retry_write_def)
qed

lemma queue_step_inv:
  assumes laws: "queues_lawful R Z L" "codec_lawful J other" and step: "queue_step R J q s s'" and inv: "queue_inv J Z q s"
  shows "queue_inv J Z q s'"
  using step
proof cases
  case (tick t)
  show ?thesis unfolding tick(1) by (rule queue_invI [OF inv]) (use tick(2) in auto)
next
  case (enqueued job err r)
  from enqueue_law [OF laws enqueued(2)] show ?thesis unfolding enqueued(1)
    by (intro queue_invI [OF inv]) (auto split: if_splits)
next
  case started
  show ?thesis unfolding started by (rule queue_invI [OF inv]) auto
next
  case (stopped rest)
  show ?thesis unfolding stopped(1) by (rule queue_invI [OF inv]) (use stopped(2) in auto)
next
  case (listed rest since ms r)
  have z: "Z r = Z (qr_redis s)" "\<forall>m \<in> set ms. \<exists>x \<le> unix since. Z (qr_redis s) (q @ ''_delayed'') m = Some x"
    using zrange_law [OF laws(1) listed(4)] by auto
  have held: "m \<in> set (qr_given s) \<and> due J (qr_now s) m" if m: "m \<in> set ms" for m
  proof -
    obtain x where x: "x \<le> unix since" "Z (qr_redis s) (q @ ''_delayed'') m = Some x" using z(2) m by blast
    then have "due J since m" using queue_invD(1) [OF inv] by (auto simp: due_def delayed_ok_def)
    then show ?thesis using due_later [OF _ listed(3)] queue_invD(2) [OF inv x(2)] by blast
  qed
  show ?thesis unfolding listed(1)
    by (intro queue_invI [OF inv]) (use listed(2) z(1) held in \<open>auto simp: at_point_def\<close>)
next
  case (not_listed rest since err r)
  then show ?thesis unfolding not_listed(1)
    by (intro queue_invI [OF inv]) (use zrange_law [OF laws(1) not_listed(4)] in \<open>auto simp: at_point_def\<close>)
next
  case (skipped m ms rest)
  note fit = queue_invD(4) [OF inv, of "Moving (m # ms)"]
  show ?thesis unfolding skipped(1)
    by (intro queue_invI [OF inv]) (use fit skipped(2) in \<open>auto simp: at_point_def\<close>)
next
  case (removed m ms rest job err r)
  note fit = queue_invD(4) [OF inv, of "Moving (m # ms)"]
  show ?thesis unfolding removed(1)
    by (intro queue_invI [OF inv])
      (use fit removed(2) zrem_law [OF laws(1) removed(4)] in \<open>auto simp: at_point_def split: if_splits\<close>)
next
  case (added m ms rest job err r)
  note fit = queue_invD(4) [OF inv, of "Adding m ms"]
  show ?thesis unfolding added(1)
    by (intro queue_invI [OF inv])
      (use fit added(2) zadd_law [OF laws(1) added(4)] in \<open>auto simp: at_point_def split: if_splits\<close>)
next
  case (moved rest)
  then show ?thesis unfolding moved(1)
    by (intro queue_invI [OF inv]) (auto simp: at_point_def)
next
  case (popped rest m ms r job)
  have "(\<exists>x. Z (qr_redis s) q m = Some x) \<and> Z r = (Z (qr_redis s))(q := (Z (qr_redis s) q)(m := None))"
    using zpopmin_law [OF laws(1) popped(3)] by auto
  then show ?thesis unfolding popped(1)
    by (intro queue_invI [OF inv])
      (use queue_invD(3) [OF inv] popped(2,4) in \<open>auto simp: at_point_def split: if_splits\<close>)
next
  case (not_popped rest x r)
  have "Z r = Z (qr_redis s) \<or> (\<exists>m. Z r = (Z (qr_redis s))(q := (Z (qr_redis s) q)(m := None)))"
    using zpopmin_law [OF laws(1) not_popped(3)] by (auto split: sum.splits list.splits)
  then show ?thesis unfolding not_popped(1)
    by (intro queue_invI [OF inv]) (use not_popped(2) in \<open>auto simp: at_point_def split: if_splits\<close>)
next
  case (succeeded m rest)
  then show ?thesis unfolding succeeded(1)
    by (intro queue_invI [OF inv]) (auto simp: at_point_def)
next
  case (failed m rest read job)
  show ?thesis
  proof (cases "dj_Attempts job < dj_MaxTries job")
    case True
    with retry_write_law [OF laws, of "qr_now s" q job "qr_redis s", folded scored_def] show ?thesis unfolding failed(1)
      by (intro queue_invI [OF inv]) (use failed(2) in \<open>auto simp: at_point_def split: if_splits\<close>)
  next
    case False
    have "Z (retry_write R J (qr_now s) q job (qr_redis s)) = Z (qr_redis s)" by (rule bury_keeps_sets [OF laws(1) False])
    then show ?thesis unfolding failed(1)
      by (intro queue_invI [OF inv]) (use failed(2) False in \<open>auto simp: at_point_def\<close>)
  qed
qed

interpretation queue: kept_invariant "queue_step R J q" "\<lambda>s. queues_lawful R Z L \<and> codec_lawful J other \<and> queue_inv J Z q s"
  for R J q Z L other
  by unfold_locales (blast intro: queue_step_inv)

text \<open>
  C25: No job runs early and none comes from nowhere: whatever the interleaving of the commands of all workers, clients
  and retries, a text that is given to a handler was written by a client or a retry, and its due time has come, to
  the second.
\<close>

theorem every_run_is_due:
  assumes "queues_lawful R Z L" and "codec_lawful J other"
    and "Z r q = Map.empty" and "Z r (q @ ''_delayed'') = Map.empty"
    and "(queue_step R J q)\<^sup>*\<^sup>* (queue_race_init now n r) s"
  shows "\<forall>(t, m) \<in> set (qr_runs s). m \<in> set (qr_given s) \<and> (\<exists>job. jc_unmarshal J m = Some job \<and> dj_ProcessAt job < t + second)"
proof -
  have "queue_inv J Z q (queue_race_init now n r)"
    using assms(3,4) by (auto simp: queue_inv_def queue_race_init_def delayed_ok_def)
  then have inv: "queue_inv J Z q s" using queue.along [OF assms(5)] assms(1,2) by blast
  have "p < t + second" if "unix p \<le> unix t" for p t :: int
  proof (rule ccontr)
    assume "\<not> ?thesis"
    then have "(t + second) div second \<le> p div second" by (intro zdiv_mono1) (auto simp: second_def)
    then show False using that by (simp add: unix_def second_def)
  qed
  then show ?thesis using queue_invD(5) [OF inv] unfolding due_def by fastforce
qed

section \<open>Two workers, one delayed job\<close>

text \<open>A worker that has read a due member moves it, pops it and runs it, whether the member is still delayed or not.\<close>

lemma moves_and_runs:
  assumes job: "jc_unmarshal J m = Some job" and w: "qr_workers s = add_mset (Moving [m]) rest"
    and empty: "mq_zsets (qr_redis s) q = []"
  shows "\<exists>r. (queue_step mem_job_redis J q)\<^sup>*\<^sup>* s (at_point r (Running m) rest (s\<lparr>qr_runs := qr_runs s @ [(qr_now s, m)]\<rparr>)) \<and>
    mq_zsets r q = []"
proof -
  let ?step = "queue_step mem_job_redis J q" and ?x = "unix (qr_now s) - dj_Priority job"
  obtain e1 r1 where z1: "jr_ZRem mem_job_redis (q @ ''_delayed'') m (qr_redis s) = (e1, r1)" "mq_zsets r1 q = []"
    using empty by (auto simp: mem_job_redis_def)
  obtain e2 r2 where z2: "jr_ZAdd mem_job_redis q ?x m r1 = (e2, r2)" "mq_zsets r2 q = [(m, ?x)]"
    using z1(2) by (auto simp: mem_job_redis_def)
  obtain r3 where z3: "jr_ZPopMin mem_job_redis q r2 = (Inr [m], r3)" "mq_zsets r3 q = []"
    using z2(2) by (auto simp: mem_job_redis_def)
  define s1 where "s1 = at_point r1 (Adding m []) rest s"
  define s2 where "s2 = at_point r2 (Moving []) rest s1"
  define s3 where "s3 = at_point r2 Popping rest s2"
  define s4 where "s4 = at_point r3 (Running m) rest (s3\<lparr>qr_runs := qr_runs s3 @ [(qr_now s3, m)]\<rparr>)"
  note made = s1_def s2_def s3_def s4_def at_point_def
  have "?step s s1" unfolding s1_def by (rule queue_step.removed [OF w job z1(1)])
  moreover have "?step s1 s2" unfolding s2_def
    by (rule queue_step.added [OF _ job]) (simp_all add: made z2(1))
  moreover have "?step s2 s3" using queue_step.moved [of s2 rest mem_job_redis J q] by (simp add: made)
  moreover have "?step s3 s4" unfolding s4_def
    by (rule queue_step.popped [where ms = "[]", OF _ _ job]) (simp_all add: made z3(1))
  ultimately have "?step\<^sup>*\<^sup>* s s4" by (meson rtranclp.rtrancl_into_rtrancl rtranclp.rtrancl_refl)
  moreover have "s4 = at_point r3 (Running m) rest (s\<lparr>qr_runs := qr_runs s @ [(qr_now s, m)]\<rparr>)" by (simp add: made)
  ultimately show ?thesis using z3(2) by blast
qed

text \<open>Enqueued once, a delayed job that is due can be read by two workers.\<close>

lemma read_by_two:
  assumes job: "jc_marshal J job = Some m" and due: "t0 < dj_ProcessAt job" "dj_ProcessAt job \<le> t"
  obtains s where "(queue_step mem_job_redis J q)\<^sup>*\<^sup>* (queue_race_init t0 2 \<lparr>mq_zsets = (\<lambda>_. []), mq_lists = (\<lambda>_. [])\<rparr>) s"
    and "qr_workers s = add_mset (Moving [m]) {#Moving [m]#}" "mq_zsets (qr_redis s) q = []" "qr_runs s = []" "qr_now s = t" "qr_given s = [m]"
proof -
  let ?step = "queue_step mem_job_redis J q" and ?r = "\<lparr>mq_zsets = (\<lambda>_. []), mq_lists = (\<lambda>_. [])\<rparr>"
  let ?x = "unix (dj_ProcessAt job)"
  define r1 where "r1 = ?r\<lparr>mq_zsets := (mq_zsets ?r)(q @ ''_delayed'' := [(m, ?x)])\<rparr>"
  have enq: "enqueueToRedis mem_job_redis J t0 job q ?r = (None :: unit job_error option, r1)"
    using job due(1) by (simp add: enqueueToRedis_def mem_job_redis_def r1_def)
  have "?x \<le> unix t" unfolding unix_def by (rule zdiv_mono1) (use due(2) in \<open>simp_all add: second_def\<close>)
  then have z: "jr_ZRangeByScore mem_job_redis (q @ ''_delayed'') (unix t) 10 r1 = (Inr [m], r1)"
    by (simp add: mem_job_redis_def r1_def)
  define s0 where "s0 = queue_race_init t0 2 ?r"
  define s1 where "s1 = s0\<lparr>qr_redis := r1, qr_given := [m]\<rparr>"
  define s2 where "s2 = s1\<lparr>qr_now := t\<rparr>"
  define s3 where "s3 = at_point r1 (Moving [m]) {#Waiting#} s2"
  define s4 where "s4 = at_point r1 (Moving [m]) {#Moving [m]#} s3"
  note made = s4_def s3_def s2_def s1_def s0_def at_point_def queue_race_init_def
  have "?step s0 s1"
    using queue_step.enqueued [of mem_job_redis J s0 job q None r1] enq job by (simp add: made)
  moreover have "?step s1 s2" unfolding s2_def by (rule queue_step.tick) (use due in \<open>simp add: made\<close>)
  moreover have "?step s2 s3" unfolding s3_def
    by (rule queue_step.listed [where since = t]) (simp_all add: made numeral_2_eq_2 z)
  moreover have "?step s3 s4" unfolding s4_def
    by (rule queue_step.listed [where since = t]) (simp_all add: made z)
  ultimately have r4: "?step\<^sup>*\<^sup>* s0 s4" by (meson rtranclp.rtrancl_into_rtrancl rtranclp.rtrancl_refl)
  have "qr_workers s4 = add_mset (Moving [m]) {#Moving [m]#}" "mq_zsets (qr_redis s4) q = []" "qr_runs s4 = []" "qr_now s4 = t" "qr_given s4 = [m]"
    by (simp_all add: made r1_def)
  with r4 show thesis unfolding s0_def by (rule that)
qed



theorem every_run_is_due_witness:
  "\<exists>s. (queue_step mem_job_redis (ex_codec ex_delayed) ''cache_jobs'')\<^sup>*\<^sup>*
      (queue_race_init 0 2 \<lparr>mq_zsets = (\<lambda>_. []), mq_lists = (\<lambda>_. [])\<rparr>) s \<and> qr_runs s = [(hour, ''job'')] \<and>
    (\<exists>job. jc_unmarshal (ex_codec ex_delayed) ''job'' = Some job \<and> dj_ProcessAt job < hour + second)"
proof -
  let ?J = "ex_codec ex_delayed" and ?r = "\<lparr>mq_zsets = (\<lambda>_. []), mq_lists = (\<lambda>_. [])\<rparr>"
  let ?run = "(queue_step mem_job_redis ?J ''cache_jobs'')\<^sup>*\<^sup>*"
  have job: "jc_marshal ?J ex_delayed = Some ''job''" "jc_unmarshal ?J ''job'' = Some (json_job id ex_delayed)"
    by (simp_all add: ex_codec_def)
  have due: "0 < dj_ProcessAt ex_delayed" "dj_ProcessAt ex_delayed \<le> hour" by (simp_all add: ex_delayed_def dur_defs)
  obtain s where s: "?run (queue_race_init 0 2 ?r) s" "qr_workers s = add_mset (Moving [''job'']) {#Moving [''job'']#}"
    "mq_zsets (qr_redis s) ''cache_jobs'' = []" "qr_runs s = []" "qr_now s = hour"
    by (rule read_by_two [OF job(1) due])
  from moves_and_runs [OF job(2) s(2,3)] obtain r where
    "?run s (at_point r (Running ''job'') {#Moving [''job'']#} (s\<lparr>qr_runs := [(hour, ''job'')]\<rparr>))" by (auto simp: s(4,5))
  with s(1) have run: "?run (queue_race_init 0 2 ?r) (at_point r (Running ''job'') {#Moving [''job'']#} (s\<lparr>qr_runs := [(hour, ''job'')]\<rparr>))"
    by (rule rtranclp_trans)
  have "mq_Z ?r k = Map.empty" for k by (simp add: mq_Z_def)
  from every_run_is_due [OF mem_queues_lawful ex_codec_lawful this this run] run show ?thesis
    by (intro exI [of _ "at_point r (Running ''job'') {#Moving [''job'']#} (s\<lparr>qr_runs := [(hour, ''job'')]\<rparr>)"]) (simp add: at_point_def)
qed

end
